(* ===== verification/Prelude.thy ===== *)
theory Prelude
  imports Main "HOL-Library.Word" "HOL-Library.Finite_Map"
begin

text \<open>
  Shared vocabulary of the development.

  \<^item> Machine integers: \<open>usize\<close> and \<open>u64\<close> are 64-bit words, \<open>u32\<close> a 32-bit word.
    The checked and saturating operations of the Rust integer types are defined once, for every
    width, and characterised by what they do to \<^const>\<open>unat\<close>.
  \<^item> Hash maps: a \<open>HashMap<K, V>\<close> is a finite map \<open>('k, 'v) fmap\<close>. Sums and counts over the
    entries of a finite map have update and removal laws. The iteration order of a hash map is
    not specified by Rust, so code that iterates takes the order as a parameter;
    \<open>iteration_order\<close> states what every order guarantees.
  \<^item> Time: an \<open>Instant\<close> and a \<open>Duration\<close> are numbers of nanoseconds.
  \<^item> Transition systems: reachable states, and the locale \<open>transition_invariant\<close> that turns a
    predicate kept by every step into a fact about every reachable state.
\<close>

section \<open>Named collections\<close>

named_theorems word_arith \<open>how checked and saturating word operations act on unat\<close>
named_theorems fm_laws \<open>sums and counts over the entries of a finite map\<close>

section \<open>Machine integers\<close>

type_synonym u32 = "32 word"
type_synonym u64 = "64 word"
type_synonym usize = "64 word"

text \<open>\<open>a.checked_add(b)\<close>, \<open>a.checked_sub(b)\<close>, \<open>a.saturating_add(b)\<close> and
  \<open>a.saturating_sub(b)\<close>. The wrapping operations are \<open>+\<close> and \<open>-\<close> on words.\<close>

definition checked_add :: "'a::len word \<Rightarrow> 'a word \<Rightarrow> 'a word option" where
  "checked_add a b = (if unat a + unat b < 2 ^ LENGTH('a) then Some (a + b) else None)"

definition checked_sub :: "'a::len word \<Rightarrow> 'a word \<Rightarrow> 'a word option" where
  "checked_sub a b = (if b \<le> a then Some (a - b) else None)"

definition saturating_add :: "'a::len word \<Rightarrow> 'a word \<Rightarrow> 'a word" where
  "saturating_add a b = (if unat a + unat b < 2 ^ LENGTH('a) then a + b else - 1)"

definition saturating_sub :: "'a::len word \<Rightarrow> 'a word \<Rightarrow> 'a word" where
  "saturating_sub a b = (if b \<le> a then a - b else 0)"

lemma unat_bound: "unat (a :: 'a::len word) < 2 ^ LENGTH('a)"
  by (rule unsigned_less)

lemma unat_plus_small:
  "unat a + unat b < 2 ^ LENGTH('a) \<Longrightarrow> unat (a + b :: 'a::len word) = unat a + unat b"
  by (simp add: unat_word_ariths)

text \<open>For evaluation, an overflow shows as a sum below its summand.\<close>

lemma add_no_overflow_iff: "unat a + unat b < 2 ^ LENGTH('a) \<longleftrightarrow> a \<le> a + b" for a b :: "'a::len word"
  using no_olen_add_nat [of a b] by simp

lemma checked_add_code [code]: "checked_add a b = (if a \<le> a + b then Some (a + b) else None)"
  by (simp add: checked_add_def add_no_overflow_iff)

lemma saturating_add_code [code]: "saturating_add a b = (if a \<le> a + b then a + b else - 1)"
  by (simp add: saturating_add_def add_no_overflow_iff)

lemma checked_add_Some_iff [word_arith]:
  "checked_add a b = Some c \<longleftrightarrow> unat c = unat a + unat b"
proof (cases "unat a + unat b < 2 ^ LENGTH('a)")
  case True
  then show ?thesis
    by (auto simp: checked_add_def unat_plus_small word_unat_eq_iff)
next
  case False
  then show ?thesis
    by (auto simp: checked_add_def) (metis unat_bound)
qed

lemma checked_add_None_iff [word_arith]:
  "checked_add (a :: 'a::len word) b = None \<longleftrightarrow> 2 ^ LENGTH('a) \<le> unat a + unat b"
  by (auto simp: checked_add_def)

lemma checked_add_1_None: "checked_add a 1 = None \<longleftrightarrow> a = - 1"
proof -
  have top: "unat (- 1 :: 'a word) = 2 ^ LENGTH('a) - 1" by (simp add: unsigned_minus_1_eq_mask mask_eq_exp_minus_1)
  have "2 ^ LENGTH('a) \<le> unat a + 1 \<longleftrightarrow> unat a = 2 ^ LENGTH('a) - 1" using unat_bound [of a] by linarith
  then show ?thesis by (simp add: checked_add_None_iff word_unat_eq_iff top)
qed

lemma checked_sub_Some_iff [word_arith]:
  "checked_sub a b = Some c \<longleftrightarrow> unat a = unat b + unat c"
proof (cases "b \<le> a")
  case True
  then show ?thesis
    by (auto simp: checked_sub_def unat_sub word_unat_eq_iff word_le_nat_alt)
next
  case False
  then show ?thesis by (auto simp: checked_sub_def word_le_nat_alt)
qed

lemma unat_saturating_add [word_arith]:
  "unat (saturating_add (a :: 'a::len word) b) = min (2 ^ LENGTH('a) - 1) (unat a + unat b)"
  by (auto simp: saturating_add_def unat_plus_small unsigned_minus_1_eq_mask mask_eq_exp_minus_1)

lemma unat_saturating_sub [word_arith]: "unat (saturating_sub a b) = unat a - unat b"
  by (auto simp: saturating_sub_def unat_sub word_le_nat_alt)

lemma unat_inc_small: "unat a + 1 < 2 ^ LENGTH('a) \<Longrightarrow> unat (a + 1 :: 'a::len word) = unat a + 1"
  using unat_plus_small [of a 1] by simp

lemma unat_inc_no_wrap: "a \<noteq> - 1 \<Longrightarrow> unat (a + 1 :: 'a::len word) = Suc (unat a)"
  by (metis add.commute add_eq_0_iff unatSuc)

lemma unat_dec: "a \<noteq> 0 \<Longrightarrow> unat (a - 1 :: 'a::len word) = unat a - 1"
  by (simp add: unat_minus_one)

lemma unat_of_nat_small: "n < 2 ^ LENGTH('a) \<Longrightarrow> unat (of_nat n :: 'a::len word) = n"
  by (simp add: take_bit_nat_eq_self unat_of_nat)

text \<open>A counter that changes with a natural number it represents.\<close>

lemma of_nat_shift: "a + m = b + n \<Longrightarrow> (of_nat a :: 'a::len word) = of_nat b + of_nat n - of_nat m"
  by (metis add_diff_cancel_right' of_nat_add)

section \<open>Time\<close>

type_synonym instant = nat
type_synonym duration = nat

text \<open>The largest \<open>std::time::Duration\<close>: \<open>u64::MAX\<close> seconds and 999999999 nanoseconds.\<close>

definition DURATION_MAX :: duration where
  "DURATION_MAX = 2 ^ 64 * 1000000000 - 1"

section \<open>Finite maps as hash maps\<close>

text \<open>\<open>m.len()\<close>, the sum of a weight over the entries, and the number of entries with a
  property.\<close>

definition fmlen :: "('k, 'v) fmap \<Rightarrow> nat" where
  "fmlen m = fcard (fmdom m)"

definition fmsum :: "('k \<Rightarrow> 'v \<Rightarrow> nat) \<Rightarrow> ('k, 'v) fmap \<Rightarrow> nat" where
  "fmsum f m = (\<Sum>k \<in> fset (fmdom m). f k (the (fmlookup m k)))"

definition fmcount :: "('k \<Rightarrow> 'v \<Rightarrow> bool) \<Rightarrow> ('k, 'v) fmap \<Rightarrow> nat" where
  "fmcount P m = fmsum (\<lambda>k v. of_bool (P k v)) m"

text \<open>\<open>if let Some(v) = m.get_mut(&k) { *v = f(*v) }\<close>\<close>

definition fmmodify :: "'k \<Rightarrow> ('v \<Rightarrow> 'v) \<Rightarrow> ('k, 'v) fmap \<Rightarrow> ('k, 'v) fmap" where
  "fmmodify k f m = (case fmlookup m k of None \<Rightarrow> m | Some v \<Rightarrow> fmupd k (f v) m)"

lemma fmlookup_modify [simp]:
  "fmlookup (fmmodify k f m) x = (if x = k then map_option f (fmlookup m k) else fmlookup m x)"
  by (auto simp: fmmodify_def split: option.splits)

lemma fmdom_modify [simp]: "fmdom (fmmodify k f m) = fmdom m"
  by (auto simp: fmmodify_def fmdomI finsert_absorb split: option.splits)

lemma fmmodify_upd [simp]: "fmmodify k f (fmupd k v m) = fmupd k (f v) m"
  by (rule fmap_ext) simp

lemma fmlookup_Some_dom: "fmlookup m k = Some v \<Longrightarrow> k \<in> fset (fmdom m)"
  by (rule fmdomI)

lemma fmlookup_None_dom: "fmlookup m k = None \<Longrightarrow> k \<notin> fset (fmdom m)"
  by (auto simp: fmlookup_dom_iff)

lemma fmsum_empty [fm_laws, simp]: "fmsum f fmempty = 0"
  by (simp add: fmsum_def)

lemma fmsum_cong:
  "(\<And>k v. fmlookup m k = Some v \<Longrightarrow> f k v = g k v) \<Longrightarrow> fmsum f m = fmsum g m"
  unfolding fmsum_def by (rule sum.cong) (auto simp: fmlookup_dom_iff)

lemma fmsum_upd_new [fm_laws]:
  assumes "fmlookup m k = None"
  shows "fmsum f (fmupd k v m) = f k v + fmsum f m"
proof -
  have k: "k \<notin> fset (fmdom m)" using assms by (rule fmlookup_None_dom)
  then have "(\<Sum>x \<in> fset (fmdom m). f x (the (fmlookup (fmupd k v m) x)))
      = (\<Sum>x \<in> fset (fmdom m). f x (the (fmlookup m x)))"
    by (intro sum.cong) auto
  with k show ?thesis by (simp add: fmsum_def)
qed

lemma fmsum_drop [fm_laws]:
  assumes "fmlookup m k = Some u"
  shows "fmsum f m = f k u + fmsum f (fmdrop k m)"
proof -
  have k: "k \<in> fset (fmdom m)" using assms by (rule fmlookup_Some_dom)
  have "fmsum f m = f k (the (fmlookup m k))
      + (\<Sum>x \<in> fset (fmdom m) - {k}. f x (the (fmlookup m x)))"
    unfolding fmsum_def using k by (simp add: sum.remove)
  also have "(\<Sum>x \<in> fset (fmdom m) - {k}. f x (the (fmlookup m x)))
      = fmsum f (fmdrop k m)"
    unfolding fmsum_def by (rule sum.cong) auto
  finally show ?thesis using assms by simp
qed

lemma fmsum_upd_old [fm_laws]:
  assumes "fmlookup m k = Some u"
  shows "fmsum f (fmupd k v m) + f k u = fmsum f m + f k v"
proof -
  have "fmdrop k (fmupd k v m) = fmdrop k m"
    by (rule fmap_ext) simp
  then have "fmsum f (fmupd k v m) = f k v + fmsum f (fmdrop k m)"
    using fmsum_drop [of "fmupd k v m" k v f] by simp
  then show ?thesis using fmsum_drop [OF assms, of f] by simp
qed

lemma fmsum_same:
  assumes "fmlookup m k = Some u" and "f k v = f k u"
  shows "fmsum f (fmupd k v m) = fmsum f m"
  using fmsum_upd_old [OF assms(1), of f v] assms(2) by simp

lemma fmsum_ge: "fmlookup m k = Some u \<Longrightarrow> f k u \<le> fmsum f m"
  by (simp add: fmsum_drop [of m k u f])

lemma fmsum_0_iff: "fmsum f m = 0 \<longleftrightarrow> (\<forall>k v. fmlookup m k = Some v \<longrightarrow> f k v = 0)"
proof
  assume "fmsum f m = 0"
  then show "\<forall>k v. fmlookup m k = Some v \<longrightarrow> f k v = 0"
    using fmsum_ge [of m _ _ f] by (metis le_zero_eq)
next
  assume "\<forall>k v. fmlookup m k = Some v \<longrightarrow> f k v = 0"
  then show "fmsum f m = 0"
    unfolding fmsum_def by (intro sum.neutral) (auto simp: fmlookup_dom_iff)
qed

lemma fmdrop_absent: "fmlookup m k = None \<Longrightarrow> fmdrop k m = m"
  by (rule fmap_ext) auto

lemma fmdrop_empty_lookup: "fmdrop k m = fmempty \<Longrightarrow> j \<noteq> k \<Longrightarrow> fmlookup m j = None"
  using fmlookup_drop [of k m j] by simp

lemma fmlen_sum: "fmlen m = fmsum (\<lambda>_ _. 1) m"
  by (simp add: fmlen_def fmsum_def fcard.rep_eq)

lemma fmcount_le_len: "fmcount P m \<le> fmlen m"
  unfolding fmcount_def fmlen_sum fmsum_def by (rule sum_mono) simp

lemma fmcount_upd_old [fm_laws]:
  "fmlookup m k = Some u \<Longrightarrow>
   fmcount P (fmupd k v m) + of_bool (P k u) = fmcount P m + of_bool (P k v)"
  unfolding fmcount_def by (rule fmsum_upd_old)

lemma fmcount_card: "fmcount P m = card {k. \<exists>v. fmlookup m k = Some v \<and> P k v}"
proof -
  have "fmcount P m = card {k \<in> fset (fmdom m). P k (the (fmlookup m k))}"
    by (simp add: fmcount_def fmsum_def sum.If_cases of_bool_def Int_def)
  also have "{k \<in> fset (fmdom m). P k (the (fmlookup m k))} = {k. \<exists>v. fmlookup m k = Some v \<and> P k v}"
    by (auto simp: fmlookup_dom_iff)
  finally show ?thesis .
qed

lemma fmlen_upd_new [fm_laws]: "fmlookup m k = None \<Longrightarrow> fmlen (fmupd k v m) = Suc (fmlen m)"
  by (simp add: fmlen_sum fmsum_upd_new)

lemma fmlen_upd_old [fm_laws]: "fmlookup m k = Some u \<Longrightarrow> fmlen (fmupd k v m) = fmlen m"
  by (simp add: fmlen_def finsert_absorb fmdomI)

lemma fmlen_drop [fm_laws]: "fmlookup m k = Some u \<Longrightarrow> fmlen m = Suc (fmlen (fmdrop k m))"
  by (simp add: fmlen_sum fmsum_drop [of m k u])

lemma fmlen_0_iff: "fmlen m = 0 \<longleftrightarrow> m = fmempty"
proof
  assume "fmlen m = 0"
  then have "\<forall>k v. fmlookup m k \<noteq> Some v" by (simp add: fmlen_sum fmsum_0_iff)
  then show "m = fmempty" by (intro fmap_ext) (auto simp: not_Some_eq)
qed (simp add: fmlen_def)

text \<open>Every iteration order of a hash map visits each key once.\<close>

definition iteration_order :: "(('k, 'v) fmap \<Rightarrow> 'k list) \<Rightarrow> bool" where
  "iteration_order it \<longleftrightarrow> (\<forall>m. distinct (it m) \<and> set (it m) = fset (fmdom m))"

lemma iteration_order_set: "iteration_order it \<Longrightarrow> set (it m) = fset (fmdom m)"
  by (simp add: iteration_order_def)

lemma iteration_order_distinct: "iteration_order it \<Longrightarrow> distinct (it m)"
  by (simp add: iteration_order_def)

lemma iteration_order_sum:
  "iteration_order it \<Longrightarrow> sum_list (map (\<lambda>k. f k (the (fmlookup m k))) (it m)) = fmsum f m"
  by (simp add: iteration_order_def fmsum_def sum_list_distinct_conv_sum_set)

lemma sum_list_of_bool: "sum_list (map (\<lambda>k. of_bool (Q k)) xs) = length (filter Q xs)"
  by (induction xs) auto

lemma sum_list_map_concat:
  "sum_list (map f (concat xss)) = sum_list (map (\<lambda>xs. sum_list (map f xs)) xss)"
  by (induction xss) auto

lemma fmcount_order:
  "iteration_order it \<Longrightarrow> fmcount P m = length (filter (\<lambda>k. P k (the (fmlookup m k))) (it m))"
  unfolding fmcount_def sum_list_of_bool [symmetric] by (rule iteration_order_sum [symmetric])

text \<open>One possible order, for concrete runs.\<close>

definition key_order :: "('k::linorder, 'v) fmap \<Rightarrow> 'k list" where
  "key_order m = sorted_list_of_fset (fmdom m)"

lemma key_order_ok: "iteration_order key_order"
  by (simp add: iteration_order_def key_order_def sorted_list_of_fset.rep_eq)

section \<open>Searching a list\<close>

text \<open>\<open>Iterator::position\<close>: the first index whose element satisfies the predicate.\<close>

fun find_position :: "('a \<Rightarrow> bool) \<Rightarrow> 'a list \<Rightarrow> nat option" where
  "find_position P [] = None"
| "find_position P (x # xs) = (if P x then Some 0 else map_option Suc (find_position P xs))"

lemma find_position_None: "find_position P xs = None \<longleftrightarrow> (\<forall>x \<in> set xs. \<not> P x)"
  by (induction xs) auto

lemma find_position_Some: "find_position P xs = Some i \<longleftrightarrow> i < length xs \<and> P (xs ! i) \<and> (\<forall>j < i. \<not> P (xs ! j))"
proof (induction xs arbitrary: i)
  case (Cons x xs)
  then show ?case by (cases i) (auto simp: less_Suc_eq_0_disj)
qed simp

section \<open>Transition systems\<close>

inductive reach :: "('s \<Rightarrow> bool) \<Rightarrow> ('s \<Rightarrow> 'l \<Rightarrow> 's \<Rightarrow> bool) \<Rightarrow> 's \<Rightarrow> bool"
  for init :: "'s \<Rightarrow> bool" and trans :: "'s \<Rightarrow> 'l \<Rightarrow> 's \<Rightarrow> bool" where
  reach_init: "init s \<Longrightarrow> reach init trans s"
| reach_step: "reach init trans s \<Longrightarrow> trans s l s' \<Longrightarrow> reach init trans s'"

text \<open>The contract of a component whose operations keep an invariant: whatever sequence of
  operations its clients run, the invariant holds afterwards.\<close>

locale transition_invariant =
  fixes init :: "'s \<Rightarrow> bool"
    and trans :: "'s \<Rightarrow> 'l \<Rightarrow> 's \<Rightarrow> bool"
    and inv :: "'s \<Rightarrow> bool"
  assumes inv_init: "init s \<Longrightarrow> inv s"
    and inv_step: "inv s \<Longrightarrow> trans s l s' \<Longrightarrow> inv s'"
begin

lemma inv_reach: "reach init trans s \<Longrightarrow> inv s"
  by (induction rule: reach.induct) (auto intro: inv_init inv_step)

end

end
