(* ===== verification/Reservations.thy ===== *)
theory Reservations
  imports Prelude
begin

text \<open>
  The contract of a reservation budget, shared by the provider-wide outstanding budget of the
  local transport (\<open>src/src/local/outstanding_budget.rs\<close>), the weight budget of the notification
  publisher (\<open>src/src/notification/internal/weight_budget.rs\<close>), and the worker budget of the facade
  (\<open>src/src/facade/event_bus/internal/subscription_worker_budget.rs\<close>).

  A budget accounts in one or more dimensions. A reservation costs an amount in each dimension;
  it is granted only while every dimension stays within its limit, and a release gives back
  exactly what the reservation took. A panic of a release is modelled as \<^const>\<open>None\<close>.

  The client side is proved once in the locale: the owners of a budget hold a list of
  reservations, every owner releases only what it holds, and the operations interleave in any
  order. Then no release panics, what is in use is exactly the sum of what is held, and no
  limit is passed.
\<close>

datatype 'r budget_op = Reserve 'r | Release 'r

text \<open>One atomic operation of one of the owners: the budget and the reservations they hold
  together. A refused reservation changes nothing that is held; \<^const>\<open>None\<close> is a panic.\<close>

fun ledger_step ::
  "('b \<Rightarrow> 'r \<Rightarrow> 'b \<times> bool) \<Rightarrow> ('b \<Rightarrow> 'r \<Rightarrow> 'b option) \<Rightarrow> 'b \<times> 'r list \<Rightarrow> 'r budget_op \<Rightarrow>
   ('b \<times> 'r list) option" where
  "ledger_step reserve release (b, held) (Reserve r) =
     (case reserve b r of (b', granted) \<Rightarrow> Some (b', if granted then r # held else held))"
| "ledger_step reserve release (b, held) (Release r) =
     (if r \<in> set held then map_option (\<lambda>b'. (b', remove1 r held)) (release b r)
      else Some (b, held))"

fun ledger_run ::
  "('b \<Rightarrow> 'r \<Rightarrow> 'b \<times> bool) \<Rightarrow> ('b \<Rightarrow> 'r \<Rightarrow> 'b option) \<Rightarrow> 'b \<times> 'r list \<Rightarrow> 'r budget_op list \<Rightarrow>
   ('b \<times> 'r list) option" where
  "ledger_run reserve release s [] = Some s"
| "ledger_run reserve release s (x # xs) =
     Option.bind (ledger_step reserve release s x) (\<lambda>s'. ledger_run reserve release s' xs)"

locale reservation_budget =
  fixes config :: "'b \<Rightarrow> 'c"
    and used :: "'b \<Rightarrow> 'd \<Rightarrow> nat"
    and within :: "'b \<Rightarrow> bool"
    and cost :: "'c \<Rightarrow> 'r \<Rightarrow> 'd \<Rightarrow> nat"
    and reserve :: "'b \<Rightarrow> 'r \<Rightarrow> 'b \<times> bool"
    and release :: "'b \<Rightarrow> 'r \<Rightarrow> 'b option"
  assumes reserve_granted: "reserve b r = (b', True) \<Longrightarrow> used b' d = used b d + cost (config b) r d"
    and reserve_refused: "reserve b r = (b', False) \<Longrightarrow> used b' d = used b d"
    and reserve_within: "within b \<Longrightarrow> reserve b r = (b', g) \<Longrightarrow> within b'"
    and reserve_config: "reserve b r = (b', g) \<Longrightarrow> config b' = config b"
    and release_ok: "(\<And>d. cost (config b) r d \<le> used b d) \<Longrightarrow> release b r \<noteq> None"
    and release_used: "(\<And>d. cost (config b) r d \<le> used b d) \<Longrightarrow> release b r = Some b' \<Longrightarrow>
      used b' d + cost (config b) r d = used b d"
    and release_within: "within b \<Longrightarrow> release b r = Some b' \<Longrightarrow> (\<And>d. cost (config b) r d \<le> used b d) \<Longrightarrow> within b'"
    and release_config: "release b r = Some b' \<Longrightarrow> config b' = config b"
begin

definition holds :: "'b \<Rightarrow> 'r list \<Rightarrow> bool" where
  "holds b rs \<longleftrightarrow> within b \<and> (\<forall>d. used b d = sum_list (map (\<lambda>r. cost (config b) r d) rs))"

lemma holds_used: "holds b rs \<Longrightarrow> used b d = sum_list (map (\<lambda>r. cost (config b) r d) rs)"
  by (simp add: holds_def)

lemma holds_within: "holds b rs \<Longrightarrow> within b"
  by (simp add: holds_def)

lemma holds_reserve:
  assumes "holds b rs" and "reserve b r = (b', g)"
  shows "holds b' (if g then r # rs else rs) \<and> config b' = config b"
  using assms reserve_granted [of b r b'] reserve_refused [of b r b'] reserve_within [of b r b' g]
    reserve_config [of b r b' g]
  by (cases g) (simp_all add: holds_def)

lemma holds_release:
  assumes h: "holds b rs" and r: "r \<in> set rs"
  shows "\<exists>b'. release b r = Some b' \<and> holds b' (remove1 r rs) \<and> config b' = config b"
proof -
  have split: "used b d = cost (config b) r d
      + sum_list (map (\<lambda>x. cost (config b) x d) (remove1 r rs))" for d
    using h sum_list_map_remove1 [OF r, of "\<lambda>x. cost (config b) x d"] by (simp add: holds_def)
  then have covered: "cost (config b) r d \<le> used b d" for d by simp
  then have "release b r \<noteq> None" by (rule release_ok)
  then obtain b' where b': "release b r = Some b'" by blast
  note facts = release_used [OF covered b'] release_within [OF _ b' covered] release_config [OF b']
  have "used b' d = sum_list (map (\<lambda>x. cost (config b') x d) (remove1 r rs))" for d
    using split [of d] facts(1) [of d] facts(3) by simp
  with b' h facts(2,3) show ?thesis by (auto simp: holds_def)
qed

lemma ledger_step_ok:
  assumes "holds b rs"
  shows "\<exists>b' rs'. ledger_step reserve release (b, rs) x = Some (b', rs') \<and> holds b' rs'
    \<and> config b' = config b"
proof (cases x)
  case (Reserve r)
  then show ?thesis using assms holds_reserve [of b rs r] by (auto split: prod.splits)
next
  case (Release r)
  then show ?thesis using assms holds_release [of b rs r] by (cases "r \<in> set rs") auto
qed

lemma ledger_run_ok:
  "holds b rs \<Longrightarrow> \<exists>b' rs'. ledger_run reserve release (b, rs) xs = Some (b', rs') \<and> holds b' rs'
    \<and> config b' = config b"
proof (induction xs arbitrary: b rs)
  case (Cons x xs)
  obtain b1 rs1 where "ledger_step reserve release (b, rs) x = Some (b1, rs1)" and "holds b1 rs1"
    and "config b1 = config b"
    using ledger_step_ok [OF Cons.prems, of x] by blast
  with Cons.IH [of b1 rs1] show ?case by simp
qed simp

end

end
