(* ===== verification/Spi_Model.thy ===== *)
theory Spi_Model
  imports Prelude
begin

text \<open>
  The provider-neutral data of the service interface, \<open>src/src/spi\<close> and the parts of
  \<open>src/src/model\<close> and \<open>src/src/error\<close> it is built from: messages, payloads, settlement tokens,
  subscription requests, provider errors, and what a publication was told about its
  destinations.

  Names (\<open>TopicAddress\<close>, \<open>EventId\<close>, \<open>SubscriberId\<close>, \<open>OrderingKey\<close>, ...) are strings. The
  identifier type \<open>qubit_id::Id\<close> belongs to another crate; the code only compares and orders
  identifiers, and the model uses natural numbers for them. An \<open>Arc<dyn Any>\<close> is the runtime
  type of the value together with its identity. The boxed state of a settlement token is either
  a handle of the in-memory provider or a value of some other type, which is all that
  \<open>downcast_ref\<close> can tell.

  The second half classifies a publication: \<open>admission_outcome\<close> and \<open>check_admission\<close>, with the
  counts it reports and the requirements it meets.
\<close>

section \<open>Names, payloads and messages\<close>

type_synonym id = nat
type_synonym topic_address = string
type_synonym event_id = string
type_synonym subscriber_id = string
type_synonym ordering_key = string
type_synonym headers = "(string, string) fmap"
type_synonym type_id = nat
type_synonym system_time = int

record native_value =
  native_type :: type_id
  native_object :: nat

record encoded_payload =
  bytes :: "8 word list"
  content_type :: string
  schema_id :: "string option"

datatype transport_payload = Native native_value | Encoded encoded_payload

record outbound_message =
  out_topic :: topic_address
  out_id :: event_id
  out_timestamp :: system_time
  out_headers :: headers
  out_ordering_key :: "ordering_key option"
  out_delay :: "duration option"
  out_native_payload_weight_bytes :: "usize option"
  out_payload :: transport_payload

definition outbound_message_new ::
  "topic_address \<Rightarrow> event_id \<Rightarrow> system_time \<Rightarrow> headers \<Rightarrow> ordering_key option \<Rightarrow> duration option \<Rightarrow>
   transport_payload \<Rightarrow> outbound_message" where
  "outbound_message_new t i ts h k d p =
     \<lparr>out_topic = t, out_id = i, out_timestamp = ts, out_headers = h, out_ordering_key = k,
      out_delay = d, out_native_payload_weight_bytes = None, out_payload = p\<rparr>"

definition with_native_payload_weight_bytes :: "usize \<Rightarrow> outbound_message \<Rightarrow> outbound_message" where
  "with_native_payload_weight_bytes w m = m\<lparr>out_native_payload_weight_bytes := Some w\<rparr>"

section \<open>Settlement tokens and received messages\<close>

datatype token_state = LocalHandle nat | OtherState

record settlement_token =
  token_subscription_id :: id
  token_state :: token_state

definition settlement_token_new :: "id \<Rightarrow> token_state \<Rightarrow> settlement_token" where
  "settlement_token_new i st = \<lparr>token_subscription_id = i, token_state = st\<rparr>"

definition belongs_to :: "settlement_token \<Rightarrow> id \<Rightarrow> bool" where
  "belongs_to t i \<longleftrightarrow> token_subscription_id t = i"

text \<open>\<open>downcast_ref::<LocalSettlementHandle>()\<close>.\<close>

fun downcast_handle :: "token_state \<Rightarrow> nat option" where
  "downcast_handle (LocalHandle h) = Some h"
| "downcast_handle OtherState = None"

record inbound_message =
  in_topic :: topic_address
  in_id :: event_id
  in_timestamp :: system_time
  in_headers :: headers
  in_ordering_key :: "ordering_key option"
  in_payload :: transport_payload
  in_settlement :: "settlement_token option"
  in_provider_metadata :: headers
  in_provider_attempt :: "u32 option"

definition inbound_message_new ::
  "topic_address \<Rightarrow> event_id \<Rightarrow> system_time \<Rightarrow> headers \<Rightarrow> ordering_key option \<Rightarrow>
   transport_payload \<Rightarrow> settlement_token option \<Rightarrow> headers \<Rightarrow> inbound_message" where
  "inbound_message_new t i ts h k p s md =
     \<lparr>in_topic = t, in_id = i, in_timestamp = ts, in_headers = h, in_ordering_key = k,
      in_payload = p, in_settlement = s, in_provider_metadata = md, in_provider_attempt = None\<rparr>"

record delivery_gap =
  gap_reason :: string
  gap_missed :: "u64 option"

datatype receive_outcome = Message inbound_message | Gap delivery_gap | ReceiveTimedOut | Closed

datatype delivery_disposition = Accept | Retry | Reject

datatype shutdown_mode = Graceful duration | Immediate

datatype shutdown_outcome = Complete | ShutdownTimedOut

section \<open>Subscription requests\<close>

datatype subscription_durability = Ephemeral | Durable

datatype start_position = New | Earliest | At string

record spi_subscription_request =
  req_subscription_id :: id
  req_topic :: topic_address
  req_subscriber_id :: subscriber_id
  req_group :: "string option"
  req_durability :: subscription_durability
  req_start_position :: start_position
  req_provider_options :: "(string, string) fmap"
  req_payload_type_id :: type_id

section \<open>Provider errors\<close>

datatype publish_effect = NotAccepted | MayHaveBeenAccepted

datatype spi_error =
    PublishError (error_provider: string) (error_resource: "string option") (error_kind: string)
      (error_retryable: "bool option") (error_effect: publish_effect) (error_source: string)
  | OperationError (error_provider: string) (error_operation: string)
      (error_resource: "string option") (error_kind: string) (error_retryable: "bool option")
      (error_source: string)
  | InvalidSettlementToken (error_provider: string) (error_operation: string)
      (error_resource: "string option") (error_reason: string) (error_retryable: "bool option")
      (error_source: string)

fun spi_publish_effect :: "spi_error \<Rightarrow> publish_effect" where
  "spi_publish_effect (PublishError _ _ _ _ e _) = e"
| "spi_publish_effect _ = MayHaveBeenAccepted"

fun spi_operation :: "spi_error \<Rightarrow> string" where
  "spi_operation (PublishError _ _ _ _ _ _) = ''publish''"
| "spi_operation (OperationError _ operation _ _ _ _) = operation"
| "spi_operation (InvalidSettlementToken _ operation _ _ _ _) = operation"

fun spi_kind :: "spi_error \<Rightarrow> string" where
  "spi_kind (PublishError _ _ kind _ _ _) = kind"
| "spi_kind (OperationError _ _ _ kind _ _) = kind"
| "spi_kind (InvalidSettlementToken _ _ _ _ _ _) = ''invalid_settlement_token''"

section \<open>Publication acknowledgements\<close>

datatype admission_rejection_kind =
  SubscriptionClosed | SubscriptionCapacity | ProviderCountCapacity | ProviderWeightCapacity

datatype admission_status = Accepted | Filtered | Rejected string

record destination_admission =
  adm_subscription_id :: id
  adm_subscriber_id :: subscriber_id
  adm_status :: admission_status
  adm_rejection_kind :: "admission_rejection_kind option"

definition destination_admission_new ::
  "id \<Rightarrow> subscriber_id \<Rightarrow> admission_status \<Rightarrow> destination_admission" where
  "destination_admission_new i s st =
     \<lparr>adm_subscription_id = i, adm_subscriber_id = s, adm_status = st, adm_rejection_kind = None\<rparr>"

definition destination_admission_rejected ::
  "id \<Rightarrow> subscriber_id \<Rightarrow> admission_rejection_kind \<Rightarrow> string \<Rightarrow> destination_admission" where
  "destination_admission_rejected i s kind reason =
     \<lparr>adm_subscription_id = i, adm_subscriber_id = s, adm_status = Rejected reason,
      adm_rejection_kind = Some kind\<rparr>"

datatype publish_acknowledgement =
    AckAccepted "string option" headers
  | DestinationAdmissions "destination_admission list"
  | DroppedByInterceptor

record admission_summary =
  accepted :: usize
  filtered :: usize
  rejected :: usize

definition admission_summary_default :: admission_summary where
  "admission_summary_default = \<lparr>accepted = 0, filtered = 0, rejected = 0\<rparr>"

datatype admission_outcome =
    OpaqueAccepted
  | OutcomeAccepted admission_summary
  | PartiallyAccepted admission_summary
  | NoneAccepted admission_summary
  | NoDestinations
  | Dropped

text \<open>The loop of \<open>admission_outcome\<close>; the additions are those of \<open>usize\<close>, and
  \<open>summarise_exact\<close> shows they count.\<close>

fun summarise :: "admission_summary \<Rightarrow> destination_admission list \<Rightarrow> admission_summary" where
  "summarise s [] = s"
| "summarise s (d # ds) =
     summarise (case adm_status d of
         Accepted \<Rightarrow> s\<lparr>accepted := accepted s + 1\<rparr>
       | Filtered \<Rightarrow> s\<lparr>filtered := filtered s + 1\<rparr>
       | Rejected _ \<Rightarrow> s\<lparr>rejected := rejected s + 1\<rparr>) ds"

fun ack_admission_outcome :: "publish_acknowledgement \<Rightarrow> admission_outcome" where
  "ack_admission_outcome (AckAccepted _ _) = OpaqueAccepted"
| "ack_admission_outcome DroppedByInterceptor = Dropped"
| "ack_admission_outcome (DestinationAdmissions ds) =
     (if ds = [] then NoDestinations
      else let s = summarise admission_summary_default ds in
        if accepted s = 0 then NoneAccepted s
        else if rejected s = 0 then OutcomeAccepted s
        else PartiallyAccepted s)"

datatype admission_requirement =
  ProviderOrDestinationAccepted | AtLeastOneAccepted | AtLeastOneAcceptedAndNoRejected

datatype admission_check_error =
    VisibilityUnavailable
  | CheckDropped
  | NoAcceptedDestination
  | RejectedDestinations usize

record publish_receipt =
  input_event_id :: event_id
  dispatched_event_id :: "event_id option"
  receipt_provider_id :: string
  acknowledgement :: publish_acknowledgement
  duplicate_possible :: bool

definition publish_receipt_new ::
  "event_id \<Rightarrow> event_id option \<Rightarrow> string \<Rightarrow> publish_acknowledgement \<Rightarrow> publish_receipt" where
  "publish_receipt_new i d p a =
     \<lparr>input_event_id = i, dispatched_event_id = d, receipt_provider_id = p, acknowledgement = a,
      duplicate_possible = False\<rparr>"

definition receipt_admission_summary :: "publish_receipt \<Rightarrow> admission_summary option" where
  "receipt_admission_summary r = (case ack_admission_outcome (acknowledgement r) of
       OutcomeAccepted s \<Rightarrow> Some s
     | PartiallyAccepted s \<Rightarrow> Some s
     | NoneAccepted s \<Rightarrow> Some s
     | NoDestinations \<Rightarrow> Some admission_summary_default
     | OpaqueAccepted \<Rightarrow> None
     | Dropped \<Rightarrow> None)"

definition check_admission ::
  "publish_receipt \<Rightarrow> admission_requirement \<Rightarrow> admission_check_error + unit" where
  "check_admission r requirement = (case ack_admission_outcome (acknowledgement r) of
       OpaqueAccepted \<Rightarrow>
         if requirement = ProviderOrDestinationAccepted then Inr () else Inl VisibilityUnavailable
     | Dropped \<Rightarrow> Inl CheckDropped
     | NoDestinations \<Rightarrow> Inl NoAcceptedDestination
     | NoneAccepted _ \<Rightarrow> Inl NoAcceptedDestination
     | OutcomeAccepted _ \<Rightarrow> Inr ()
     | PartiallyAccepted s \<Rightarrow>
         if requirement = AtLeastOneAcceptedAndNoRejected
         then Inl (RejectedDestinations (rejected s)) else Inr ())"

section \<open>What a classification means\<close>

text \<open>The number of destinations with each status.\<close>

definition accepted_count :: "destination_admission list \<Rightarrow> nat" where
  "accepted_count ds = length (filter (\<lambda>d. adm_status d = Accepted) ds)"

definition filtered_count :: "destination_admission list \<Rightarrow> nat" where
  "filtered_count ds = length (filter (\<lambda>d. adm_status d = Filtered) ds)"

definition rejected_count :: "destination_admission list \<Rightarrow> nat" where
  "rejected_count ds = length (filter (\<lambda>d. \<exists>reason. adm_status d = Rejected reason) ds)"

lemmas status_counts = accepted_count_def filtered_count_def rejected_count_def

lemma summarise_counts:
  "summarise s ds =
     \<lparr>accepted = accepted s + of_nat (accepted_count ds),
      filtered = filtered s + of_nat (filtered_count ds),
      rejected = rejected s + of_nat (rejected_count ds)\<rparr>"
  by (induction s ds rule: summarise.induct)
    (auto simp: status_counts algebra_simps split: admission_status.splits)

lemma status_counts_sum:
  "accepted_count ds + filtered_count ds + rejected_count ds = length ds"
proof (induction ds)
  case (Cons d ds)
  then show ?case by (cases "adm_status d") (auto simp: status_counts)
qed (simp add: status_counts)

text \<open>A vector holds at most \<open>isize::MAX\<close> elements, so no counter of the loop wraps.\<close>

lemma summarise_exact:
  assumes "length ds < 2 ^ 63"
  shows "unat (accepted (summarise admission_summary_default ds)) = accepted_count ds"
    and "unat (filtered (summarise admission_summary_default ds)) = filtered_count ds"
    and "unat (rejected (summarise admission_summary_default ds)) = rejected_count ds"
proof -
  have "accepted_count ds < 2 ^ 64" "filtered_count ds < 2 ^ 64" "rejected_count ds < 2 ^ 64"
    using assms status_counts_sum [of ds] by simp_all
  then show "unat (accepted (summarise admission_summary_default ds)) = accepted_count ds"
    and "unat (filtered (summarise admission_summary_default ds)) = filtered_count ds"
    and "unat (rejected (summarise admission_summary_default ds)) = rejected_count ds"
    by (simp_all add: summarise_counts admission_summary_default_def unat_of_nat_small)
qed

lemma summarise_zero_iff:
  assumes "length ds < 2 ^ 63"
  shows "accepted (summarise admission_summary_default ds) = 0 \<longleftrightarrow> accepted_count ds = 0"
    and "rejected (summarise admission_summary_default ds) = 0 \<longleftrightarrow> rejected_count ds = 0"
  using summarise_exact [OF assms] unat_eq_zero by metis+

text \<open>A destination admission list meets the requirement \<open>AtLeastOneAcceptedAndNoRejected\<close>
  exactly when some destination accepted and none rejected, meets \<open>AtLeastOneAccepted\<close> (and the
  weaker \<open>ProviderOrDestinationAccepted\<close>) exactly when some destination accepted, and a failed
  strict check reports the exact number of rejections.\<close>

theorem check_admission_correct:
  fixes r :: publish_receipt and ds :: "destination_admission list"
  assumes "acknowledgement r = DestinationAdmissions ds" and "length ds < 2 ^ 63"
  shows "check_admission r AtLeastOneAcceptedAndNoRejected =
           (if accepted_count ds = 0 then Inl NoAcceptedDestination
            else if rejected_count ds = 0 then Inr ()
            else Inl (RejectedDestinations (of_nat (rejected_count ds)))) \<and>
         check_admission r AtLeastOneAccepted =
           (if accepted_count ds = 0 then Inl NoAcceptedDestination else Inr ()) \<and>
         check_admission r ProviderOrDestinationAccepted = check_admission r AtLeastOneAccepted"
proof (intro conjI)
  have empty: "accepted_count [] = 0" by (simp add: status_counts)
  note facts = check_admission_def assms(1) Let_def summarise_zero_iff [OF assms(2)]
  show "check_admission r AtLeastOneAcceptedAndNoRejected =
           (if accepted_count ds = 0 then Inl NoAcceptedDestination
            else if rejected_count ds = 0 then Inr ()
            else Inl (RejectedDestinations (of_nat (rejected_count ds))))"
    using empty
    by (auto simp: facts) (simp add: summarise_counts admission_summary_default_def)
  show "check_admission r AtLeastOneAccepted =
           (if accepted_count ds = 0 then Inl NoAcceptedDestination else Inr ())"
    using empty by (auto simp: facts)
  show "check_admission r ProviderOrDestinationAccepted = check_admission r AtLeastOneAccepted"
    by (auto simp: facts)
qed

theorem check_admission_correct_witness:
  "let ds = [destination_admission_new 1 ''audit'' Accepted,
             destination_admission_rejected 2 ''mail'' SubscriptionCapacity ''queue is full''];
       r = publish_receipt_new ''e1'' (Some ''e1'') ''local'' (DestinationAdmissions ds) in
   check_admission r AtLeastOneAcceptedAndNoRejected = Inl (RejectedDestinations 1) \<and>
   check_admission r AtLeastOneAccepted = Inr ()"
  using check_admission_correct
    [of "publish_receipt_new ''e1'' (Some ''e1'') ''local'' (DestinationAdmissions
           [destination_admission_new 1 ''audit'' Accepted,
            destination_admission_rejected 2 ''mail'' SubscriptionCapacity ''queue is full''])"]
  by (simp add: publish_receipt_new_def destination_admission_new_def
      destination_admission_rejected_def status_counts)

end
