(* ===== verification/Outstanding_Budget.thy ===== *)
theory Outstanding_Budget
  imports Reservations Spi_Model
begin

text \<open>
  The provider-wide admission budget of the local transport:
  \<open>src/src/local/outstanding_budget.rs\<close>, \<open>src/src/local/outstanding_budget/outstanding_state.rs\<close> and
  \<open>src/src/local/local_capacity_snapshot.rs\<close>.

  Every operation of the source takes the budget mutex once, so each is one atomic step on the
  record. The mutex itself, and the recovery of a poisoned one, have no counterpart here. A
  failed \<open>assert!\<close> is \<^const>\<open>None\<close>.
\<close>

section \<open>State\<close>

record outstanding_state =
  count_used :: usize
  weight_used :: usize
  rejected_subscription_closed :: u64
  rejected_subscription_capacity :: u64
  rejected_provider_count_capacity :: u64
  rejected_provider_weight_capacity :: u64

definition outstanding_state_default :: outstanding_state where
  "outstanding_state_default = \<lparr>count_used = 0, weight_used = 0, rejected_subscription_closed = 0,
     rejected_subscription_capacity = 0, rejected_provider_count_capacity = 0,
     rejected_provider_weight_capacity = 0\<rparr>"

text \<open>\<open>max_weight\<close> is an \<open>Option<NonZeroUsize>\<close>. Nothing below depends on the limit being
  positive, so the model admits a zero limit too.\<close>

record outstanding_budget =
  max_count :: usize
  max_weight :: "usize option"
  budget_state :: outstanding_state

record local_capacity_snapshot =
  outstanding_count :: usize
  max_total_outstanding :: usize
  outstanding_weight_bytes :: usize
  max_total_outstanding_weight_bytes :: "usize option"
  snapshot_queue_capacity :: usize
  snapshot_rejected_subscription_closed :: u64
  snapshot_rejected_subscription_capacity :: u64
  snapshot_rejected_provider_count_capacity :: u64
  snapshot_rejected_provider_weight_capacity :: u64

section \<open>Operations\<close>

definition budget_new :: "usize \<Rightarrow> usize option \<Rightarrow> outstanding_budget option" where
  "budget_new mc mw =
     (if 0 < mc
      then Some \<lparr>max_count = mc, max_weight = mw, budget_state = outstanding_state_default\<rparr>
      else None)"

definition requires_weight :: "outstanding_budget \<Rightarrow> bool" where
  "requires_weight b \<longleftrightarrow> max_weight b \<noteq> None"

text \<open>The weight a reservation is charged: zero when weight accounting is disabled.\<close>

definition charged_weight :: "outstanding_budget \<Rightarrow> usize \<Rightarrow> usize" where
  "charged_weight b w = (if requires_weight b then w else 0)"

definition try_reserve ::
  "outstanding_budget \<Rightarrow> usize \<Rightarrow> outstanding_budget \<times> (admission_rejection_kind + unit)" where
  "try_reserve b w =
     (let weight = charged_weight b w; st = budget_state b in
      case Option.bind (checked_add (count_used st) 1)
             (\<lambda>count. if count \<le> max_count b then Some count else None) of
        None \<Rightarrow>
          (b\<lparr>budget_state := st\<lparr>rejected_provider_count_capacity :=
               saturating_add (rejected_provider_count_capacity st) 1\<rparr>\<rparr>,
           Inl ProviderCountCapacity)
      | Some next_count \<Rightarrow>
          (case Option.bind (checked_add (weight_used st) weight)
                  (\<lambda>total. if (case max_weight b of None \<Rightarrow> True | Some limit \<Rightarrow> total \<le> limit)
                           then Some total else None) of
             None \<Rightarrow>
               (b\<lparr>budget_state := st\<lparr>rejected_provider_weight_capacity :=
                    saturating_add (rejected_provider_weight_capacity st) 1\<rparr>\<rparr>,
                Inl ProviderWeightCapacity)
           | Some next_weight \<Rightarrow>
               (b\<lparr>budget_state := st\<lparr>count_used := next_count, weight_used := next_weight\<rparr>\<rparr>,
                Inr ())))"

fun record_rejection :: "outstanding_budget \<Rightarrow> admission_rejection_kind \<Rightarrow> outstanding_budget" where
  "record_rejection b SubscriptionClosed =
     b\<lparr>budget_state := (budget_state b)\<lparr>rejected_subscription_closed :=
        saturating_add (rejected_subscription_closed (budget_state b)) 1\<rparr>\<rparr>"
| "record_rejection b SubscriptionCapacity =
     b\<lparr>budget_state := (budget_state b)\<lparr>rejected_subscription_capacity :=
        saturating_add (rejected_subscription_capacity (budget_state b)) 1\<rparr>\<rparr>"
| "record_rejection b _ = b"

definition budget_snapshot :: "outstanding_budget \<Rightarrow> usize \<Rightarrow> local_capacity_snapshot" where
  "budget_snapshot b cap =
     (let st = budget_state b in
      \<lparr>outstanding_count = count_used st,
       max_total_outstanding = max_count b,
       outstanding_weight_bytes = weight_used st,
       max_total_outstanding_weight_bytes = max_weight b,
       snapshot_queue_capacity = cap,
       snapshot_rejected_subscription_closed = rejected_subscription_closed st,
       snapshot_rejected_subscription_capacity = rejected_subscription_capacity st,
       snapshot_rejected_provider_count_capacity = rejected_provider_count_capacity st,
       snapshot_rejected_provider_weight_capacity = rejected_provider_weight_capacity st\<rparr>)"

definition release_reservation :: "outstanding_budget \<Rightarrow> usize \<Rightarrow> usize \<Rightarrow> outstanding_budget option" where
  "release_reservation b count w =
     (let weight = charged_weight b w; st = budget_state b in
      if \<not> count \<le> count_used st then None
      else if \<not> weight \<le> weight_used st then None
      else Some (b\<lparr>budget_state :=
             st\<lparr>count_used := count_used st - count, weight_used := weight_used st - weight\<rparr>\<rparr>))"

section \<open>Well-formed budgets\<close>

definition budget_wf :: "outstanding_budget \<Rightarrow> bool" where
  "budget_wf b \<longleftrightarrow>
     count_used (budget_state b) \<le> max_count b \<and>
     (case max_weight b of
        None \<Rightarrow> weight_used (budget_state b) = 0
      | Some limit \<Rightarrow> weight_used (budget_state b) \<le> limit)"

text \<open>Whether one more copy, and its weight, fit into the limits, in unbounded arithmetic.\<close>

definition count_fits :: "outstanding_budget \<Rightarrow> bool" where
  "count_fits b \<longleftrightarrow> unat (count_used (budget_state b)) + 1 \<le> unat (max_count b)"

definition weight_fits :: "outstanding_budget \<Rightarrow> usize \<Rightarrow> bool" where
  "weight_fits b w \<longleftrightarrow>
     (case max_weight b of
        None \<Rightarrow> True
      | Some limit \<Rightarrow> unat (weight_used (budget_state b)) + unat w \<le> unat limit)"

section \<open>Behaviour of the operations\<close>

lemma count_check:
  "Option.bind (checked_add (c :: usize) 1) (\<lambda>n. if n \<le> m then Some n else None)
   = (if unat c + 1 \<le> unat m then Some (c + 1) else None)"
proof (cases "unat c + 1 < 2 ^ 64")
  case True
  then show ?thesis by (simp add: checked_add_def word_le_nat_alt unat_inc_small)
next
  case False
  then have "\<not> unat c + 1 \<le> unat m" using unat_bound [of m] by simp
  with False show ?thesis by (simp add: checked_add_def)
qed

lemma weight_check:
  "Option.bind (checked_add (c :: usize) w)
     (\<lambda>n. if (case lim of None \<Rightarrow> True | Some l \<Rightarrow> n \<le> l) then Some n else None)
   = (if unat c + unat w < 2 ^ 64 \<and> (case lim of None \<Rightarrow> True | Some l \<Rightarrow> unat c + unat w \<le> unat l)
      then Some (c + w) else None)"
  by (auto simp: checked_add_def word_le_nat_alt unat_plus_small split: option.splits)

lemma weight_check_budget:
  "unat (weight_used (budget_state b)) + unat (charged_weight b w) < 2 ^ 64 \<and>
   (case max_weight b of None \<Rightarrow> True
    | Some l \<Rightarrow> unat (weight_used (budget_state b)) + unat (charged_weight b w) \<le> unat l)
   \<longleftrightarrow> weight_fits b w"
proof (cases "max_weight b")
  case None
  then show ?thesis
    using unat_bound [of "weight_used (budget_state b)"]
    by (simp add: weight_fits_def charged_weight_def requires_weight_def)
next
  case (Some l)
  then show ?thesis
    using unat_bound [of l] by (auto simp: weight_fits_def charged_weight_def requires_weight_def)
qed

lemma try_reserve_eq:
  "try_reserve b w =
     (let st = budget_state b in
      if \<not> count_fits b then
        (b\<lparr>budget_state := st\<lparr>rejected_provider_count_capacity :=
             saturating_add (rejected_provider_count_capacity st) 1\<rparr>\<rparr>, Inl ProviderCountCapacity)
      else if \<not> weight_fits b w then
        (b\<lparr>budget_state := st\<lparr>rejected_provider_weight_capacity :=
             saturating_add (rejected_provider_weight_capacity st) 1\<rparr>\<rparr>, Inl ProviderWeightCapacity)
      else
        (b\<lparr>budget_state := st\<lparr>count_used := count_used st + 1,
             weight_used := weight_used st + charged_weight b w\<rparr>\<rparr>, Inr ()))"
  unfolding try_reserve_def Let_def count_check weight_check weight_check_budget
  by (simp add: count_fits_def)

lemma try_reserve_granted:
  assumes "try_reserve b w = (b', Inr u)"
  shows "unat (count_used (budget_state b')) = unat (count_used (budget_state b)) + 1"
    and "unat (weight_used (budget_state b'))
         = unat (weight_used (budget_state b)) + unat (charged_weight b w)"
    and "max_count b' = max_count b" and "max_weight b' = max_weight b"
    and "count_fits b" and "weight_fits b w"
proof -
  have fits: "count_fits b" "weight_fits b w"
    and b': "b' = b\<lparr>budget_state := (budget_state b)\<lparr>count_used := count_used (budget_state b) + 1,
             weight_used := weight_used (budget_state b) + charged_weight b w\<rparr>\<rparr>"
    using assms by (auto simp: try_reserve_eq Let_def split: if_splits)
  then show "count_fits b" "weight_fits b w" "max_count b' = max_count b"
    "max_weight b' = max_weight b" by simp_all
  have "unat (count_used (budget_state b)) + 1 < 2 ^ 64"
    using fits(1) unat_bound [of "max_count b"] by (simp add: count_fits_def)
  then show "unat (count_used (budget_state b')) = unat (count_used (budget_state b)) + 1"
    by (simp add: b' unat_inc_small)
  have "unat (weight_used (budget_state b)) + unat (charged_weight b w) < 2 ^ 64"
    using fits(2) weight_check_budget by blast
  then show "unat (weight_used (budget_state b'))
         = unat (weight_used (budget_state b)) + unat (charged_weight b w)"
    by (simp add: b' unat_plus_small)
qed

lemma try_reserve_refused:
  assumes "try_reserve b w = (b', Inl e)"
  shows "count_used (budget_state b') = count_used (budget_state b)"
    and "weight_used (budget_state b') = weight_used (budget_state b)"
    and "max_count b' = max_count b" and "max_weight b' = max_weight b"
  using assms by (auto simp: try_reserve_eq Let_def split: if_splits)

lemma record_rejection_usage [simp]:
  "count_used (budget_state (record_rejection b k)) = count_used (budget_state b)"
  "weight_used (budget_state (record_rejection b k)) = weight_used (budget_state b)"
  "max_count (record_rejection b k) = max_count b"
  "max_weight (record_rejection b k) = max_weight b"
  by (cases k; simp)+

lemma release_reservation_Some:
  assumes "release_reservation b c w = Some b'"
  shows "unat (count_used (budget_state b')) + unat c = unat (count_used (budget_state b))"
    and "unat (weight_used (budget_state b')) + unat (charged_weight b w)
         = unat (weight_used (budget_state b))"
    and "max_count b' = max_count b" and "max_weight b' = max_weight b"
  using assms
  by (auto simp: release_reservation_def Let_def word_le_nat_alt unat_sub split: if_splits)

lemma release_reservation_ok:
  "unat c \<le> unat (count_used (budget_state b)) \<Longrightarrow>
   unat (charged_weight b w) \<le> unat (weight_used (budget_state b)) \<Longrightarrow>
   \<exists>b'. release_reservation b c w = Some b'"
  by (simp add: release_reservation_def Let_def word_le_nat_alt)

section \<open>The budget keeps the reservation contract\<close>

datatype budget_dimension = CountDim | WeightDim

fun budget_used :: "outstanding_budget \<Rightarrow> budget_dimension \<Rightarrow> nat" where
  "budget_used b CountDim = unat (count_used (budget_state b))"
| "budget_used b WeightDim = unat (weight_used (budget_state b))"

definition budget_config :: "outstanding_budget \<Rightarrow> usize \<times> usize option" where
  "budget_config b = (max_count b, max_weight b)"

fun budget_cost :: "usize \<times> usize option \<Rightarrow> usize \<Rightarrow> budget_dimension \<Rightarrow> nat" where
  "budget_cost c w CountDim = 1"
| "budget_cost c w WeightDim = (if snd c = None then 0 else unat w)"

definition budget_reserve :: "outstanding_budget \<Rightarrow> usize \<Rightarrow> outstanding_budget \<times> bool" where
  "budget_reserve b w = (case try_reserve b w of (b', r) \<Rightarrow> (b', \<not> isl r))"

definition budget_release :: "outstanding_budget \<Rightarrow> usize \<Rightarrow> outstanding_budget option" where
  "budget_release b w = release_reservation b 1 w"

lemma unat_charged_weight: "unat (charged_weight b w) = budget_cost (budget_config b) w WeightDim"
  by (simp add: charged_weight_def requires_weight_def budget_config_def)

lemma budget_wf_granted:
  assumes "budget_wf b" and "try_reserve b w = (b', Inr u)"
  shows "budget_wf b'"
  using assms(1) try_reserve_granted [OF assms(2)]
  by (auto simp: budget_wf_def count_fits_def weight_fits_def charged_weight_def
      requires_weight_def word_le_nat_alt unat_eq_zero split: option.splits)

lemma budget_wf_refused:
  assumes "budget_wf b" and "try_reserve b w = (b', Inl e)"
  shows "budget_wf b'"
  using assms(1) try_reserve_refused [OF assms(2)]
  by (auto simp: budget_wf_def split: option.splits)

lemma budget_wf_try_reserve: "budget_wf b \<Longrightarrow> budget_wf (fst (try_reserve b w))"
proof -
  assume wf: "budget_wf b"
  obtain b' r where eq: "try_reserve b w = (b', r)" by (cases "try_reserve b w") auto
  show ?thesis
  proof (cases r)
    case (Inl e)
    then show ?thesis using budget_wf_refused [OF wf] eq by simp
  next
    case (Inr u)
    then show ?thesis using budget_wf_granted [OF wf] eq by simp
  qed
qed

lemma budget_wf_record_rejection [simp]: "budget_wf (record_rejection b k) = budget_wf b"
  by (simp add: budget_wf_def split: option.splits)

lemma budget_wf_release:
  assumes "budget_wf b" and r: "release_reservation b c w = Some b'"
  shows "budget_wf b'"
  using assms(1) release_reservation_Some [OF r]
  by (auto simp: budget_wf_def word_le_nat_alt unat_eq_zero split: option.splits)

lemma budget_reserve_True:
  "budget_reserve b w = (b', True) \<Longrightarrow> try_reserve b w = (b', Inr ())"
  by (cases "snd (try_reserve b w)") (auto simp: budget_reserve_def split: prod.splits)

lemma budget_reserve_False:
  "budget_reserve b w = (b', False) \<Longrightarrow> \<exists>e. try_reserve b w = (b', Inl e)"
  by (cases "snd (try_reserve b w)") (auto simp: budget_reserve_def split: prod.splits)

interpretation ob: reservation_budget budget_config budget_used budget_wf budget_cost
  budget_reserve budget_release
proof (unfold_locales, goal_cases)
  case (1 b r b' d)
  then show ?case
    using try_reserve_granted(1,2) [OF budget_reserve_True] by (cases d) (auto simp: unat_charged_weight)
next
  case (2 b r b' d)
  then show ?case using budget_reserve_False [of b r b'] try_reserve_refused(1,2) by (cases d) auto
next
  case (3 b r b' g)
  then show ?case using budget_wf_try_reserve [of b r] by (auto simp: budget_reserve_def split: prod.splits)
next
  case (4 b r b' g)
  then show ?case
    by (auto simp: budget_reserve_def budget_config_def try_reserve_eq Let_def split: if_splits)
next
  case (5 b r)
  from 5 [of CountDim] 5 [of WeightDim] show ?case
    using release_reservation_ok [of 1 b r] by (auto simp: budget_release_def unat_charged_weight)
next
  case (6 b r b' d)
  then show ?case
    using release_reservation_Some(1,2) [of b 1 r b']
    by (cases d) (auto simp: budget_release_def unat_charged_weight)
next
  case (7 b r b')
  then show ?case using budget_wf_release by (simp add: budget_release_def)
next
  case (8 b r b')
  then show ?case
    using release_reservation_Some(3,4) by (auto simp: budget_release_def budget_config_def)
qed

lemma budget_new_holds:
  assumes "budget_new mc mw = Some b"
  shows "ob.holds b []" and "budget_config b = (mc, mw)"
proof -
  have b: "max_count b = mc" "max_weight b = mw" "budget_state b = outstanding_state_default"
    using assms by (auto simp: budget_new_def split: if_splits)
  then show "budget_config b = (mc, mw)" by (simp add: budget_config_def)
  have "budget_used b d = 0" for d using b by (cases d) (simp_all add: outstanding_state_default_def)
  moreover have "budget_wf b"
    using b by (simp add: budget_wf_def outstanding_state_default_def split: option.splits)
  ultimately show "ob.holds b []" by (simp add: ob.holds_def)
qed

section \<open>Properties\<close>

text \<open>A reservation is decided in unbounded arithmetic although the code adds 64-bit words:
  the count limit is tested first, then the weight limit, and nothing else refuses. A granted
  reservation adds one copy and its charged weight without wrapping; a refused one leaves both
  usage counters as they were.\<close>

theorem try_reserve_exact:
  "case try_reserve b w of (b', r) \<Rightarrow>
     r = (if \<not> count_fits b then Inl ProviderCountCapacity
          else if \<not> weight_fits b w then Inl ProviderWeightCapacity else Inr ()) \<and>
     unat (count_used (budget_state b'))
       = unat (count_used (budget_state b)) + (if isl r then 0 else 1) \<and>
     unat (weight_used (budget_state b'))
       = unat (weight_used (budget_state b))
         + (if \<not> isl r \<and> requires_weight b then unat w else 0)"
proof (cases "snd (try_reserve b w)")
  case (Inl e)
  then obtain b' where r: "try_reserve b w = (b', Inl e)" by (cases "try_reserve b w") auto
  then have "e = (if \<not> count_fits b then ProviderCountCapacity else ProviderWeightCapacity)"
    and "\<not> (count_fits b \<and> weight_fits b w)"
    by (auto simp: try_reserve_eq Let_def split: if_splits)
  with r try_reserve_refused [OF r] show ?thesis by simp
next
  case (Inr u)
  then obtain b' where r: "try_reserve b w = (b', Inr u)" by (cases "try_reserve b w") auto
  from r try_reserve_granted [OF r] show ?thesis by (simp add: charged_weight_def)
qed

text \<open>C30: Owners that share one budget reserve and release in any interleaving, each releasing
  only what it holds. No release ever fails the underflow assertions, the counters are exactly
  the number and the total weight of the held reservations, and both limits hold.\<close>

theorem budget_interleavings_safe:
  assumes "budget_new mc mw = Some b"
  shows "\<exists>b' held. ledger_run budget_reserve budget_release (b, []) ops = Some (b', held) \<and>
     unat (count_used (budget_state b')) = length held \<and>
     unat (weight_used (budget_state b'))
       = (if mw = None then 0 else sum_list (map unat held)) \<and>
     length held \<le> unat mc \<and>
     (\<forall>limit. mw = Some limit \<longrightarrow> sum_list (map unat held) \<le> unat limit)"
proof -
  obtain b' held where run: "ledger_run budget_reserve budget_release (b, []) ops = Some (b', held)"
    and held: "ob.holds b' held" and config: "budget_config b' = (mc, mw)"
    using ob.ledger_run_ok [OF budget_new_holds(1) [OF assms], of ops] budget_new_holds(2) [OF assms]
    by auto
  have count: "unat (count_used (budget_state b')) = length held"
    using ob.holds_used [OF held, of CountDim] by (simp add: sum_list_triv)
  have weight: "unat (weight_used (budget_state b')) = (if mw = None then 0 else sum_list (map unat held))"
    using ob.holds_used [OF held, of WeightDim] config by (cases mw) auto
  have "budget_wf b'" using held by (rule ob.holds_within)
  then have "length held \<le> unat mc" "\<forall>limit. mw = Some limit \<longrightarrow> sum_list (map unat held) \<le> unat limit"
    using config count weight by (auto simp: budget_wf_def budget_config_def word_le_nat_alt)
  with run count weight show ?thesis by blast
qed

theorem budget_interleavings_safe_witness:
  "\<exists>b' held. ledger_run budget_reserve budget_release (the (budget_new 2 (Some 6)), [])
       [Reserve 4, Reserve 3, Reserve 2, Release 4] = Some (b', held) \<and>
     unat (count_used (budget_state b')) = length held \<and> length held \<le> unat (2 :: usize)"
proof -
  have "budget_new 2 (Some 6) = Some (the (budget_new 2 (Some 6)))"
    by (simp add: budget_new_def)
  from budget_interleavings_safe [OF this, of "[Reserve 4, Reserve 3, Reserve 2, Release 4]"]
  show ?thesis by blast
qed

end
