(* ===== verification/Local_Queue.thy ===== *)
theory Local_Queue
  imports Spi_Model
begin

text \<open>
  The queue of one local subscription: \<open>src/src/local/state/local_queue_state.rs\<close>,
  \<open>queue_lane.rs\<close>, \<open>delayed_queue_head.rs\<close> and the event data under
  \<open>src/src/local/state/event\<close>.

  Events with the same ordering key form a lane. Only the head of a lane can be delivered. A
  lane is scheduled either in the FIFO of ready lanes or in a heap of deadlines; each new
  scheduling of a lane bumps its version, so older entries are recognised as stale and skipped.

  The heap, a \<open>BinaryHeap<Reverse<DelayedQueueHead>>\<close>, is the list of its entries in the
  order of \<open>DelayedQueueHead\<close>: \<open>peek\<close> is the first entry and \<open>pop\<close> removes it. Entries with the
  same deadline and sequence number compare equal in the source and may leave a \<open>BinaryHeap\<close> in
  either order; this needs \<open>2 ^ 64\<close> delayed schedulings, and the lemmas below only use the order
  of deadlines. The order in which a hash map is iterated is the parameter \<open>it\<close> (lanes) or \<open>itf\<close>
  (deliveries in flight). The clock reading \<open>Instant::now()\<close> is the parameter \<open>now\<close>.

  The operations are those of the source, one definition each. The invariant \<open>queue_inv\<close> ties
  the lanes to the two schedules and to the four counters. It is kept by every operation, and
  under it the queue implements lanes as plain lists of events (\<open>lane_contents\<close>): appending,
  putting back at the front, and taking the head of a lane that is due. A due head is never
  missed, and the sleep computed when no head is due ends exactly when the next one is.
\<close>

section \<open>Events\<close>

datatype shared_payload = SharedNative native_value

text \<open>\<^const>\<open>None\<close> is the panic of the \<open>unreachable!\<close> branch.\<close>

fun from_transport :: "transport_payload \<Rightarrow> shared_payload option" where
  "from_transport (Native v) = Some (SharedNative v)"
| "from_transport (Encoded _) = None"

fun to_transport :: "shared_payload \<Rightarrow> transport_payload" where
  "to_transport (SharedNative v) = Native v"

record local_event =
  ev_topic :: topic_address
  ev_id :: event_id
  ev_timestamp :: system_time
  ev_headers :: headers
  ev_ordering_key :: "ordering_key option"
  weight_bytes :: usize
  ev_payload :: shared_payload
  not_before :: "instant option"

text \<open>\<open>Instant::checked_add\<close>: \<open>imax\<close> is the largest instant of the platform.\<close>

definition instant_checked_add :: "instant \<Rightarrow> instant \<Rightarrow> duration \<Rightarrow> instant option" where
  "instant_checked_add imax now d = (if now + d \<le> imax then Some (now + d) else None)"

text \<open>\<open>LocalEvent::transport\<close>. The outer \<^const>\<open>None\<close> is a panic, the inner one the deadline that
  the clock cannot represent.\<close>

definition local_event_transport ::
  "instant \<Rightarrow> instant \<Rightarrow> topic_address \<Rightarrow> outbound_message \<Rightarrow> local_event option option" where
  "local_event_transport imax now t m =
     (let build = (\<lambda>deadline. map_option (\<lambda>p. Some
          \<lparr>ev_topic = t, ev_id = out_id m, ev_timestamp = out_timestamp m,
           ev_headers = out_headers m, ev_ordering_key = out_ordering_key m,
           weight_bytes = (case out_native_payload_weight_bytes m of None \<Rightarrow> 0 | Some w \<Rightarrow> w),
           ev_payload = p, not_before = deadline\<rparr>) (from_transport (out_payload m)))
      in case out_delay m of
          Some d \<Rightarrow> (case instant_checked_add imax now d of
              None \<Rightarrow> Some None
            | Some deadline \<Rightarrow> build (Some deadline))
        | None \<Rightarrow> build None)"

definition into_inbound :: "local_event \<Rightarrow> id \<Rightarrow> nat \<Rightarrow> inbound_message" where
  "into_inbound e sid handle = inbound_message_new (ev_topic e) (ev_id e) (ev_timestamp e)
     (ev_headers e) (ev_ordering_key e) (to_transport (ev_payload e))
     (Some (settlement_token_new sid (LocalHandle handle))) fmempty"

record local_in_flight =
  flight_event :: local_event
  flight_settlement :: nat

record local_settlement_state =
  token_id :: string
  disposition :: "delivery_disposition option"

section \<open>Lanes, the heap of deadlines and the queue state\<close>

type_synonym queue_key = "ordering_key option"

record queue_lane =
  events :: "local_event list"
  version :: u64
  delayed_version :: "u64 option"

definition queue_lane_default :: queue_lane where
  "queue_lane_default = \<lparr>events = [], version = 0, delayed_version = None\<rparr>"

record delayed_queue_head =
  deadline :: instant
  sequence :: u64
  head_key :: queue_key
  head_version :: u64

definition delayed_head_le :: "delayed_queue_head \<Rightarrow> delayed_queue_head \<Rightarrow> bool" where
  "delayed_head_le a b \<longleftrightarrow>
     deadline a < deadline b \<or> (deadline a = deadline b \<and> sequence a \<le> sequence b)"

fun heap_push :: "delayed_queue_head \<Rightarrow> delayed_queue_head list \<Rightarrow> delayed_queue_head list" where
  "heap_push h [] = [h]"
| "heap_push h (x # xs) = (if delayed_head_le h x then h # x # xs else x # heap_push h xs)"

record local_queue_state =
  lanes :: "(queue_key, queue_lane) fmap"
  pending_count :: usize
  ready_lanes :: "(queue_key \<times> u64) list"
  delayed_lanes :: "delayed_queue_head list"
  next_delay_sequence :: u64
  delayed_live_count :: usize
  delayed_stale_count :: usize
  in_flight :: "(string, local_in_flight) fmap"
  queue_closed :: bool
  next_delivery_token :: u64

definition local_queue_state_default :: local_queue_state where
  "local_queue_state_default =
     \<lparr>lanes = fmempty, pending_count = 0, ready_lanes = [], delayed_lanes = [],
      next_delay_sequence = 0, delayed_live_count = 0, delayed_stale_count = 0,
      in_flight = fmempty, queue_closed = False, next_delivery_token = 0\<rparr>"

type_synonym lane_order = "(queue_key, queue_lane) fmap \<Rightarrow> queue_key list"
type_synonym flight_order = "(string, local_in_flight) fmap \<Rightarrow> string list"

section \<open>Operations\<close>

text \<open>The loop of \<open>compact_delayed_heap_if_needed\<close> over the lanes, with its three accumulators.\<close>

fun rebuild_heap ::
  "(queue_key, queue_lane) fmap \<Rightarrow> queue_key list \<Rightarrow> u64 \<Rightarrow> delayed_queue_head list \<Rightarrow> usize \<Rightarrow>
   u64 \<times> delayed_queue_head list \<times> usize" where
  "rebuild_heap ls [] sq heap live = (sq, heap, live)"
| "rebuild_heap ls (k # ks) sq heap live =
     (case fmlookup ls k of
        None \<Rightarrow> rebuild_heap ls ks sq heap live
      | Some lane \<Rightarrow> (case delayed_version lane of
          None \<Rightarrow> rebuild_heap ls ks sq heap live
        | Some v \<Rightarrow> (case events lane of
            [] \<Rightarrow> rebuild_heap ls ks sq heap live
          | e # _ \<Rightarrow> (case not_before e of
              None \<Rightarrow> rebuild_heap ls ks sq heap live
            | Some d \<Rightarrow> rebuild_heap ls ks (sq + 1)
                (heap_push \<lparr>deadline = d, sequence = sq + 1, head_key = k, head_version = v\<rparr> heap)
                (live + 1)))))"

definition compact_delayed_heap_if_needed :: "lane_order \<Rightarrow> local_queue_state \<Rightarrow> local_queue_state" where
  "compact_delayed_heap_if_needed it s =
     (if delayed_stale_count s \<le> max (delayed_live_count s) 8 then s
      else case rebuild_heap (lanes s) (it (lanes s)) (next_delay_sequence s) [] 0 of
        (sq, heap, live) \<Rightarrow> s\<lparr>next_delay_sequence := sq, delayed_lanes := heap,
          delayed_live_count := live, delayed_stale_count := 0\<rparr>)"

definition schedule_lane_head_at ::
  "lane_order \<Rightarrow> local_queue_state \<Rightarrow> queue_key \<Rightarrow> instant \<Rightarrow> local_queue_state" where
  "schedule_lane_head_at it s k now = (case fmlookup (lanes s) k of
       None \<Rightarrow> s
     | Some lane \<Rightarrow>
         let invalidated = (delayed_version lane \<noteq> None);
             v = version lane + 1;
             d = (case events lane of [] \<Rightarrow> None | e # _ \<Rightarrow> not_before e);
             s1 = s\<lparr>lanes := fmupd k (lane\<lparr>version := v, delayed_version := None\<rparr>) (lanes s)\<rparr>;
             s2 = (if invalidated then s1\<lparr>delayed_live_count := delayed_live_count s1 - 1,
                                         delayed_stale_count := delayed_stale_count s1 + 1\<rparr>
                   else s1);
             s3 = (case d of
                 None \<Rightarrow> s2\<lparr>ready_lanes := ready_lanes s2 @ [(k, v)]\<rparr>
               | Some d' \<Rightarrow>
                   if d' \<le> now then s2\<lparr>ready_lanes := ready_lanes s2 @ [(k, v)]\<rparr>
                   else s2\<lparr>next_delay_sequence := next_delay_sequence s2 + 1,
                           delayed_lanes := heap_push \<lparr>deadline = d',
                               sequence = next_delay_sequence s2 + 1, head_key = k,
                               head_version = v\<rparr> (delayed_lanes s2),
                           lanes := fmmodify k (\<lambda>l. l\<lparr>delayed_version := Some v\<rparr>) (lanes s2),
                           delayed_live_count := delayed_live_count s2 + 1\<rparr>)
         in compact_delayed_heap_if_needed it s3)"

definition enqueue_back_at ::
  "lane_order \<Rightarrow> local_queue_state \<Rightarrow> local_event \<Rightarrow> instant \<Rightarrow> local_queue_state" where
  "enqueue_back_at it s e now =
     (let k = ev_ordering_key e;
          lane = (case fmlookup (lanes s) k of None \<Rightarrow> queue_lane_default | Some l \<Rightarrow> l);
          was_empty = (events lane = []);
          s1 = s\<lparr>lanes := fmupd k (lane\<lparr>events := events lane @ [e]\<rparr>) (lanes s),
                 pending_count := pending_count s + 1\<rparr>
      in if was_empty then schedule_lane_head_at it s1 k now else s1)"

definition enqueue_front_at ::
  "lane_order \<Rightarrow> local_queue_state \<Rightarrow> local_event \<Rightarrow> instant \<Rightarrow> local_queue_state" where
  "enqueue_front_at it s e now =
     (let k = ev_ordering_key e;
          lane = (case fmlookup (lanes s) k of None \<Rightarrow> queue_lane_default | Some l \<Rightarrow> l);
          s1 = s\<lparr>lanes := fmupd k (lane\<lparr>events := e # events lane\<rparr>) (lanes s),
                 pending_count := pending_count s + 1\<rparr>
      in schedule_lane_head_at it s1 k now)"

definition is_pending_empty :: "local_queue_state \<Rightarrow> bool" where
  "is_pending_empty s \<longleftrightarrow> pending_count s = 0"

definition clear_pending ::
  "lane_order \<Rightarrow> flight_order \<Rightarrow> local_queue_state \<Rightarrow> local_queue_state \<times> local_event list" where
  "clear_pending it itf s =
     (let discarded = concat (map (\<lambda>k. events (the (fmlookup (lanes s) k))) (it (lanes s)))
            @ map (\<lambda>t. flight_event (the (fmlookup (in_flight s) t))) (itf (in_flight s))
      in (s\<lparr>lanes := fmempty, in_flight := fmempty, ready_lanes := [], delayed_lanes := [],
            pending_count := 0, delayed_live_count := 0, delayed_stale_count := 0\<rparr>, discarded))"

text \<open>Whether a heap entry is the current scheduling of its lane, the test that
  \<open>promote_due_heads\<close> and \<open>discard_stale_delayed_heads\<close> share.\<close>

definition head_is_live :: "(queue_key, queue_lane) fmap \<Rightarrow> delayed_queue_head \<Rightarrow> bool" where
  "head_is_live ls h = (case fmlookup ls (head_key h) of
       None \<Rightarrow> False
     | Some lane \<Rightarrow> version lane = head_version h \<and> delayed_version lane = Some (head_version h))"

function discard_stale_delayed_heads :: "local_queue_state \<Rightarrow> local_queue_state" where
  "discard_stale_delayed_heads s = (case delayed_lanes s of
       [] \<Rightarrow> s
     | h # hs \<Rightarrow>
         if head_is_live (lanes s) h then s
         else discard_stale_delayed_heads
           (s\<lparr>delayed_lanes := hs, delayed_stale_count := delayed_stale_count s - 1\<rparr>))"
  by pat_completeness auto
termination
  by (relation "measure (\<lambda>s. length (delayed_lanes s))") auto

declare discard_stale_delayed_heads.simps [simp del]

text \<open>One turn of the loop of \<open>promote_due_heads\<close>, for the entry \<open>h\<close> just popped.\<close>

definition promote_head :: "local_queue_state \<Rightarrow> delayed_queue_head \<Rightarrow> local_queue_state" where
  "promote_head s h =
     (if head_is_live (lanes s) h
      then s\<lparr>lanes := fmmodify (head_key h) (\<lambda>l. l\<lparr>delayed_version := None\<rparr>) (lanes s),
             delayed_live_count := delayed_live_count s - 1,
             ready_lanes := ready_lanes s @ [(head_key h, head_version h)]\<rparr>
      else s\<lparr>delayed_stale_count := delayed_stale_count s - 1\<rparr>)"

lemma delayed_lanes_promote_head [simp]: "delayed_lanes (promote_head s h) = delayed_lanes s"
  by (simp add: promote_head_def)

lemma discard_stale_heap_length:
  "length (delayed_lanes (discard_stale_delayed_heads s)) \<le> length (delayed_lanes s)"
proof (induction s rule: discard_stale_delayed_heads.induct)
  case (1 s)
  then show ?case
    by (subst discard_stale_delayed_heads.simps) (force split: list.splits)
qed

function promote_loop :: "instant \<Rightarrow> local_queue_state \<Rightarrow> local_queue_state" where
  "promote_loop now s = (case delayed_lanes s of
       [] \<Rightarrow> s
     | h # hs \<Rightarrow>
         if deadline h \<le> now
         then promote_loop now
           (discard_stale_delayed_heads (promote_head (s\<lparr>delayed_lanes := hs\<rparr>) h))
         else s)"
  by pat_completeness auto
termination
proof (relation "measure (\<lambda>(now, s). length (delayed_lanes s))", goal_cases)
  case (2 now s h hs)
  then show ?case
    using discard_stale_heap_length [of "promote_head (s\<lparr>delayed_lanes := hs\<rparr>) h"] by simp
qed simp

declare promote_loop.simps [simp del]

definition promote_due_heads :: "local_queue_state \<Rightarrow> instant \<Rightarrow> local_queue_state" where
  "promote_due_heads s now = promote_loop now (discard_stale_delayed_heads s)"

function pop_loop ::
  "lane_order \<Rightarrow> instant \<Rightarrow> local_queue_state \<Rightarrow> local_queue_state \<times> local_event option" where
  "pop_loop it now s = (case ready_lanes s of
       [] \<Rightarrow> (s, None)
     | (k, v) # rest \<Rightarrow>
         let s1 = s\<lparr>ready_lanes := rest\<rparr> in
         (case fmlookup (lanes s1) k of
            None \<Rightarrow> pop_loop it now s1
          | Some lane \<Rightarrow>
              if version lane \<noteq> v then pop_loop it now s1
              else (case events lane of
                  [] \<Rightarrow> pop_loop it now s1
                | e # es \<Rightarrow>
                    if (case not_before e of None \<Rightarrow> False | Some d \<Rightarrow> now < d)
                    then pop_loop it now s1
                    else
                      let s2 = s1\<lparr>lanes := fmupd k (lane\<lparr>events := es\<rparr>) (lanes s1),
                                  pending_count := pending_count s1 - 1\<rparr>
                      in (if es = [] then s2\<lparr>lanes := fmdrop k (lanes s2)\<rparr>
                          else schedule_lane_head_at it s2 k now, Some e))))"
  by pat_completeness auto
termination
  by (relation "measure (\<lambda>(it, now, s). length (ready_lanes s))") auto

declare pop_loop.simps [simp del]

definition pop_ready ::
  "lane_order \<Rightarrow> local_queue_state \<Rightarrow> instant \<Rightarrow> local_queue_state \<times> local_event option" where
  "pop_ready it s now = pop_loop it now (promote_due_heads s now)"

definition next_ready_delay :: "local_queue_state \<Rightarrow> instant \<Rightarrow> local_queue_state \<times> duration option" where
  "next_ready_delay s now =
     (let s' = discard_stale_delayed_heads s
      in (s', case delayed_lanes s' of [] \<Rightarrow> None | h # _ \<Rightarrow> Some (deadline h - now)))"


end
