(* ===== verification/Local_Queue_Inv.thy ===== *)
theory Local_Queue_Inv
  imports Local_Queue "HOL-Library.Multiset"
begin

text \<open>
  The invariant of the queue of one local subscription, and that every operation of
  \<open>Local_Queue\<close> keeps it.

  For each lane the invariant relates three things: the lane itself, the versions that the ready
  FIFO holds for it, and the entries the heap holds for it. A lane is scheduled exactly once,
  under its current version: in the FIFO when its head is due, in the heap under the deadline of
  its head otherwise. Everything else the two schedules hold for the lane is older. The
  deadline of every heap entry belongs to an event that is still in the lane; this is why an
  emptied lane leaves nothing behind that a later lane with the same key could mistake for its
  own entry. The four counters are the sizes they stand for.

  Versions are 64-bit and wrap; \<open>versions_le n\<close> bounds them by the number of operations, and the
  lemmas assume fewer than \<open>2 ^ 64\<close> of them.
\<close>

section \<open>The invariant\<close>

text \<open>What the two schedules hold for one lane: the versions in the ready FIFO, in order, and the
  entries of the heap.\<close>

definition ready_versions :: "(queue_key \<times> u64) list \<Rightarrow> queue_key \<Rightarrow> nat list" where
  "ready_versions rl k = map (\<lambda>(_, v). unat v) (filter (\<lambda>(k', _). k' = k) rl)"

definition lane_heads :: "delayed_queue_head list \<Rightarrow> queue_key \<Rightarrow> delayed_queue_head multiset" where
  "lane_heads hs k = filter_mset (\<lambda>h. head_key h = k) (mset hs)"

definition event_due :: "instant \<Rightarrow> local_event \<Rightarrow> bool" where
  "event_due t e = (case not_before e of None \<Rightarrow> True | Some d \<Rightarrow> d \<le> t)"

definition lane_wf ::
  "nat list \<Rightarrow> delayed_queue_head multiset \<Rightarrow> queue_key \<Rightarrow> queue_lane \<Rightarrow> bool" where
  "lane_wf rv M k l \<longleftrightarrow>
     events l \<noteq> [] \<and> (\<forall>e \<in> set (events l). ev_ordering_key e = k) \<and>
     sorted_wrt (<) rv \<and> (\<forall>v \<in> set rv. v \<le> unat (version l)) \<and>
     (\<forall>h \<in># M. unat (head_version h) \<le> unat (version l) \<and>
        (\<exists>e \<in> set (events l). not_before e = Some (deadline h))) \<and>
     size {#h \<in># M. head_version h = version l#} = (if delayed_version l = None then 0 else 1) \<and>
     (\<forall>v. delayed_version l = Some v \<longrightarrow> v = version l)"

definition lane_scheduled :: "instant \<Rightarrow> nat list \<Rightarrow> delayed_queue_head multiset \<Rightarrow> queue_lane \<Rightarrow> bool" where
  "lane_scheduled t rv M l \<longleftrightarrow>
     (if delayed_version l = None
      then unat (version l) \<in> set rv \<and> event_due t (hd (events l))
      else unat (version l) \<notin> set rv \<and>
        (\<forall>h \<in># M. head_version h = version l \<longrightarrow> not_before (hd (events l)) = Some (deadline h)))"

definition pending_total :: "local_queue_state \<Rightarrow> nat" where
  "pending_total s = fmsum (\<lambda>_ l. length (events l)) (lanes s)"

definition is_delayed :: "queue_lane \<Rightarrow> bool" where
  "is_delayed l \<longleftrightarrow> delayed_version l \<noteq> None"

definition delayed_total :: "local_queue_state \<Rightarrow> nat" where
  "delayed_total s = fmcount (\<lambda>_. is_delayed) (lanes s)"

definition counters_ok :: "local_queue_state \<Rightarrow> bool" where
  "counters_ok s \<longleftrightarrow> pending_count s = of_nat (pending_total s) \<and>
     delayed_live_count s = of_nat (delayed_total s) \<and>
     delayed_live_count s + delayed_stale_count s = of_nat (length (delayed_lanes s)) \<and>
     sorted (map deadline (delayed_lanes s))"

definition key_ok :: "instant \<Rightarrow> bool \<Rightarrow> nat list \<Rightarrow> delayed_queue_head multiset \<Rightarrow> queue_key \<Rightarrow>
    queue_lane option \<Rightarrow> bool" where
  "key_ok t sched rv M k lo = (case lo of
       None \<Rightarrow> rv = [] \<and> M = {#}
     | Some l \<Rightarrow> lane_wf rv M k l \<and> (sched \<longrightarrow> lane_scheduled t rv M l))"

abbreviation key_state :: "instant \<Rightarrow> bool \<Rightarrow> local_queue_state \<Rightarrow> queue_key \<Rightarrow> bool" where
  "key_state t sched s k \<equiv>
     key_ok t sched (ready_versions (ready_lanes s) k) (lane_heads (delayed_lanes s) k) k
       (fmlookup (lanes s) k)"

text \<open>The invariant at time \<open>t\<close>, except that the lanes of \<open>X\<close> may await scheduling.\<close>

definition queue_inv_but :: "queue_key set \<Rightarrow> instant \<Rightarrow> local_queue_state \<Rightarrow> bool" where
  "queue_inv_but X t s \<longleftrightarrow> counters_ok s \<and> (\<forall>k. key_state t (k \<notin> X) s k)"

abbreviation queue_inv :: "instant \<Rightarrow> local_queue_state \<Rightarrow> bool" where
  "queue_inv \<equiv> queue_inv_but {}"

definition versions_le :: "nat \<Rightarrow> local_queue_state \<Rightarrow> bool" where
  "versions_le n s \<longleftrightarrow> (\<forall>k l. fmlookup (lanes s) k = Some l \<longrightarrow> unat (version l) \<le> n)"

definition lane_contents :: "local_queue_state \<Rightarrow> queue_key \<Rightarrow> local_event list" where
  "lane_contents s k = (case fmlookup (lanes s) k of None \<Rightarrow> [] | Some l \<Rightarrow> events l)"

section \<open>Facts about the two schedules\<close>

lemma is_delayed_simps [simp]:
  "is_delayed (l\<lparr>version := v, delayed_version := b\<rparr>) = (b \<noteq> None)"
  "is_delayed (l\<lparr>delayed_version := b\<rparr>) = (b \<noteq> None)"
  "is_delayed (l\<lparr>events := es\<rparr>) = is_delayed l"
  "is_delayed queue_lane_default = False"
  by (simp_all add: is_delayed_def queue_lane_default_def)

lemma ready_versions_simps [simp]:
  "ready_versions [] k = []"
  "ready_versions ((k', v) # rl) k = (if k' = k then unat v # ready_versions rl k else ready_versions rl k)"
  "ready_versions (rl @ rl') k = ready_versions rl k @ ready_versions rl' k"
  by (simp_all add: ready_versions_def)

lemma mset_heap_push [simp]: "mset (heap_push h hs) = add_mset h (mset hs)"
  by (induction h hs rule: heap_push.induct) auto

lemma length_heap_push [simp]: "length (heap_push h hs) = Suc (length hs)"
  by (induction h hs rule: heap_push.induct) auto

lemma set_heap_push [simp]: "set (heap_push h hs) = insert h (set hs)"
  by (induction h hs rule: heap_push.induct) auto

lemma sorted_heap_push:
  "sorted (map deadline hs) \<Longrightarrow> sorted (map deadline (heap_push h hs))"
  by (induction h hs rule: heap_push.induct) (auto simp: delayed_head_le_def)

lemma lane_heads_simps [simp]:
  "lane_heads [] k = {#}"
  "lane_heads (h # hs) k = (if head_key h = k then add_mset h (lane_heads hs k) else lane_heads hs k)"
  "lane_heads (heap_push h hs) k =
     (if head_key h = k then add_mset h (lane_heads hs k) else lane_heads hs k)"
  by (simp_all add: lane_heads_def)

lemma in_lane_heads: "h \<in># lane_heads hs k \<longleftrightarrow> h \<in> set hs \<and> head_key h = k"
  by (auto simp: lane_heads_def)

lemma event_due_mono: "event_due t e \<Longrightarrow> t \<le> t' \<Longrightarrow> event_due t' e"
  by (auto simp: event_due_def split: option.splits)

lemma key_ok_mono: "key_ok t b rv M k lo \<Longrightarrow> t \<le> t' \<Longrightarrow> key_ok t' b rv M k lo"
  by (auto simp: key_ok_def lane_scheduled_def event_due_mono split: option.splits if_splits)

lemma queue_inv_mono: "queue_inv_but X t s \<Longrightarrow> t \<le> t' \<Longrightarrow> queue_inv_but X t' s"
  by (auto simp: queue_inv_but_def intro: key_ok_mono)

lemma key_ok_weaken: "key_ok t True rv M k lo \<Longrightarrow> key_ok t b rv M k lo"
  by (auto simp: key_ok_def split: option.splits)

section \<open>Scheduling a lane\<close>

lemma lane_wf_bump:
  assumes "lane_wf rv M k l" and "unat (version l) + 1 < 2 ^ 64"
    and "event_due now (hd (events l))"
  shows "key_ok now True (rv @ [unat (version l + 1)]) M k
           (Some (l\<lparr>version := version l + 1, delayed_version := None\<rparr>))"
proof -
  have v: "unat (version l + 1) = Suc (unat (version l))"
    using unat_inc_small [of "version l"] assms(2) by simp
  have "filter_mset (\<lambda>h. head_version h = version l + 1) M = {#}"
    using assms(1) v by (auto simp: lane_wf_def filter_mset_eq_conv)
  then show ?thesis
    using assms v by (fastforce simp: key_ok_def lane_wf_def lane_scheduled_def sorted_wrt_append less_Suc_eq_le)
qed

lemma lane_wf_delay:
  assumes "lane_wf rv M k l" and "unat (version l) + 1 < 2 ^ 64"
    and "not_before (hd (events l)) = Some (deadline h)" and "head_version h = version l + 1"
  shows "key_ok now True rv (add_mset h M) k
           (Some (l\<lparr>version := version l + 1, delayed_version := Some (version l + 1)\<rparr>))"
proof -
  have v: "unat (version l + 1) = Suc (unat (version l))"
    using unat_inc_small [of "version l"] assms(2) by simp
  have old: "x \<in># M \<Longrightarrow> head_version x \<noteq> version l + 1" for x
    using assms(1) v by (force simp: lane_wf_def)
  then have "filter_mset (\<lambda>h. head_version h = version l + 1) M = {#}"
    by (auto simp: filter_mset_eq_conv)
  moreover have "\<exists>e \<in> set (events l). not_before e = Some (deadline h)"
    using assms(1,3) by (intro bexI [of _ "hd (events l)"]) (auto simp: lane_wf_def)
  ultimately show ?thesis
    using assms v old by (force simp: key_ok_def lane_wf_def lane_scheduled_def)
qed

definition delayed_entry :: "(queue_key, queue_lane) fmap \<Rightarrow> queue_key \<Rightarrow> (instant \<times> u64) option" where
  "delayed_entry ls k = (case fmlookup ls k of
       None \<Rightarrow> None
     | Some l \<Rightarrow> (case delayed_version l of
         None \<Rightarrow> None
       | Some v \<Rightarrow> (case events l of [] \<Rightarrow> None | e # _ \<Rightarrow> map_option (\<lambda>d. (d, v)) (not_before e))))"

lemma rebuild_heap_Cons:
  "rebuild_heap ls (k # ks) sq heap live = (case delayed_entry ls k of
       None \<Rightarrow> rebuild_heap ls ks sq heap live
     | Some (d, v) \<Rightarrow> rebuild_heap ls ks (sq + 1)
         (heap_push \<lparr>deadline = d, sequence = sq + 1, head_key = k, head_version = v\<rparr> heap) (live + 1))"
  by (auto simp: delayed_entry_def split: option.splits list.splits)

declare rebuild_heap.simps(2) [simp del]

lemma rebuild_heap_sizes:
  "rebuild_heap ls ks sq heap live = (sq', heap', live') \<Longrightarrow> sorted (map deadline heap) \<Longrightarrow>
   sorted (map deadline heap') \<and>
   length heap' = length heap + length (filter (\<lambda>k. delayed_entry ls k \<noteq> None) ks) \<and>
   live' = live + of_nat (length (filter (\<lambda>k. delayed_entry ls k \<noteq> None) ks))"
proof (induction ks arbitrary: sq heap live)
  case (Cons k ks)
  then show ?case
    by (fastforce simp: rebuild_heap_Cons sorted_heap_push split: option.splits prod.splits)
qed simp

lemma rebuild_heap_other:
  "rebuild_heap ls ks sq heap live = (sq', heap', live') \<Longrightarrow> k \<notin> set ks \<Longrightarrow>
   lane_heads heap' k = lane_heads heap k"
proof (induction ks arbitrary: sq heap live)
  case (Cons k' ks)
  then show ?case
    by (fastforce simp: rebuild_heap_Cons split: option.splits prod.splits)
qed simp

lemma rebuild_heap_entry:
  "rebuild_heap ls ks sq heap live = (sq', heap', live') \<Longrightarrow> distinct ks \<Longrightarrow> k \<in> set ks \<Longrightarrow>
   lane_heads heap k = {#} \<Longrightarrow>
   (case delayed_entry ls k of
      None \<Rightarrow> lane_heads heap' k = {#}
    | Some (d, v) \<Rightarrow> \<exists>n. lane_heads heap' k =
        {#\<lparr>deadline = d, sequence = n, head_key = k, head_version = v\<rparr>#})"
proof (induction ks arbitrary: sq heap live)
  case (Cons k' ks)
  show ?case
  proof (cases "k' = k")
    case True
    then have "k \<notin> set ks" using Cons.prems(2) by simp
    then show ?thesis
      using Cons.prems True
      by (auto simp: rebuild_heap_Cons split: option.splits prod.splits dest: rebuild_heap_other)
  next
    case False
    then show ?thesis
      using Cons by (auto simp: rebuild_heap_Cons split: option.splits prod.splits)
  qed
qed simp

lemma delayed_entry_iff:
  assumes "key_ok t True rv M k (Some l)" and "fmlookup ls k = Some l"
  shows "delayed_entry ls k =
           (if delayed_version l = None then None
            else Some (the (not_before (hd (events l))), version l))"
    and "delayed_version l \<noteq> None \<Longrightarrow> not_before (hd (events l)) \<noteq> None"
proof -
  have wf: "lane_wf rv M k l" and sch: "lane_scheduled t rv M l"
    using assms(1) by (auto simp: key_ok_def)
  have ne: "not_before (hd (events l)) \<noteq> None" if dv: "delayed_version l \<noteq> None"
  proof -
    have "size {#h \<in># M. head_version h = version l#} = 1"
      using wf dv by (simp add: lane_wf_def)
    then obtain h where "h \<in># {#h \<in># M. head_version h = version l#}"
      using size_eq_Suc_imp_elem [of "{#h \<in># M. head_version h = version l#}" 0] by auto
    then have "h \<in># M" "head_version h = version l" by simp_all
    then show ?thesis using sch dv by (auto simp: lane_scheduled_def)
  qed
  then show "delayed_version l \<noteq> None \<Longrightarrow> not_before (hd (events l)) \<noteq> None" .
  show "delayed_entry ls k =
      (if delayed_version l = None then None
       else Some (the (not_before (hd (events l))), version l))"
    using ne wf assms(2)
    by (auto simp: delayed_entry_def lane_wf_def split: option.splits list.splits)
qed

lemma key_ok_rebuilt:
  assumes ok: "key_ok t True rv M k lo" and lo: "lo = fmlookup ls k"
    and M': "case delayed_entry ls k of
      None \<Rightarrow> M' = {#}
    | Some (d, v) \<Rightarrow> \<exists>n. M' = {#\<lparr>deadline = d, sequence = n, head_key = k, head_version = v\<rparr>#}"
  shows "key_ok t True rv M' k lo"
proof (cases lo)
  case None
  then show ?thesis using assms by (simp add: key_ok_def delayed_entry_def)
next
  case (Some l)
  note ent = delayed_entry_iff [OF ok [unfolded Some], of ls]
  have look: "fmlookup ls k = Some l" using Some lo by simp
  have wf: "lane_wf rv M k l" and sch: "lane_scheduled t rv M l"
    using ok by (auto simp: key_ok_def Some)
  show ?thesis
  proof (cases "delayed_version l")
    case None
    then have "M' = {#}" using ent(1) look M' by simp
    then show ?thesis using wf sch None by (auto simp: Some key_ok_def lane_wf_def lane_scheduled_def)
  next
    case (Some v)
    then obtain n where M'_eq: "M' = {#\<lparr>deadline = the (not_before (hd (events l))), sequence = n,
        head_key = k, head_version = version l\<rparr>#}"
      using ent(1) look M' by auto
    have nb: "not_before (hd (events l)) = Some (the (not_before (hd (events l))))"
      using ent(2) look Some by simp
    then have "\<exists>e \<in> set (events l). not_before e = Some (the (not_before (hd (events l))))"
      using wf by (intro bexI [of _ "hd (events l)"]) (auto simp: lane_wf_def)
    then show ?thesis
      using wf sch Some nb M'_eq \<open>lo = Some l\<close>
      by (auto simp: key_ok_def lane_wf_def lane_scheduled_def)
  qed
qed

lemma compact_fields [simp]:
  "lanes (compact_delayed_heap_if_needed it s) = lanes s"
  "ready_lanes (compact_delayed_heap_if_needed it s) = ready_lanes s"
  "in_flight (compact_delayed_heap_if_needed it s) = in_flight s"
  "pending_count (compact_delayed_heap_if_needed it s) = pending_count s"
  "queue_closed (compact_delayed_heap_if_needed it s) = queue_closed s"
  "next_delivery_token (compact_delayed_heap_if_needed it s) = next_delivery_token s"
  by (auto simp: compact_delayed_heap_if_needed_def split: prod.splits)

lemma delayed_entry_count:
  assumes inv: "queue_inv t s" and it: "iteration_order it"
  shows "length (filter (\<lambda>k. delayed_entry (lanes s) k \<noteq> None) (it (lanes s))) = delayed_total s"
proof -
  have key: "key_state t True s k" for k using inv by (simp add: queue_inv_but_def)
  have "(delayed_entry (lanes s) k \<noteq> None) = (delayed_version (the (fmlookup (lanes s) k)) \<noteq> None)"
    if mem: "k \<in> set (it (lanes s))" for k
  proof -
    obtain l where look: "fmlookup (lanes s) k = Some l"
      using mem by (auto simp: iteration_order_set [OF it] fmlookup_dom_iff)
    have "key_ok t True (ready_versions (ready_lanes s) k) (lane_heads (delayed_lanes s) k) k (Some l)"
      using key [of k] look by simp
    from delayed_entry_iff(1) [OF this look] look show ?thesis by simp
  qed
  then have "filter (\<lambda>k. delayed_entry (lanes s) k \<noteq> None) (it (lanes s)) =
      filter (\<lambda>k. is_delayed (the (fmlookup (lanes s) k))) (it (lanes s))"
    unfolding is_delayed_def by (intro filter_cong refl)
  then show "length (filter (\<lambda>k. delayed_entry (lanes s) k \<noteq> None) (it (lanes s))) = delayed_total s"
    unfolding delayed_total_def fmcount_order [OF it] by simp
qed

lemma compact_inv:
  assumes inv: "queue_inv t s" and it: "iteration_order it"
  shows "queue_inv t (compact_delayed_heap_if_needed it s)"
proof (cases "delayed_stale_count s \<le> max (delayed_live_count s) 8")
  case True
  then show ?thesis using inv by (simp add: compact_delayed_heap_if_needed_def)
next
  case False
  obtain sq heap live where reb:
    "rebuild_heap (lanes s) (it (lanes s)) (next_delay_sequence s) [] 0 = (sq, heap, live)"
    by (metis prod_cases3)
  let ?s = "s\<lparr>next_delay_sequence := sq, delayed_lanes := heap, delayed_live_count := live,
      delayed_stale_count := 0\<rparr>"
  have eq: "compact_delayed_heap_if_needed it s = ?s"
    using False reb by (simp add: compact_delayed_heap_if_needed_def)
  have key: "key_state t True s k" for k using inv by (simp add: queue_inv_but_def)
  have counters: "counters_ok ?s"
    using rebuild_heap_sizes [OF reb] inv delayed_entry_count [OF inv it]
    by (auto simp: queue_inv_but_def counters_ok_def pending_total_def delayed_total_def)
  have "key_state t True ?s k" for k
  proof (cases "k \<in> set (it (lanes s))")
    case True
    show ?thesis
      using key_ok_rebuilt [OF key [of k] refl]
        rebuild_heap_entry [OF reb iteration_order_distinct [OF it] True] by simp
  next
    case False
    then have "fmlookup (lanes s) k = None"
      by (auto simp: iteration_order_set [OF it] fmlookup_dom_iff)
    then show ?thesis
      using key [of k] rebuild_heap_other [OF reb False] by (simp add: key_ok_def)
  qed
  then show ?thesis using counters by (simp add: eq queue_inv_but_def)
qed

lemma schedule_due_eq:
  assumes "fmlookup (lanes s) k = Some l" and "events l \<noteq> []" and "event_due now (hd (events l))"
  shows "schedule_lane_head_at it s k now = compact_delayed_heap_if_needed it
    (s\<lparr>lanes := fmupd k (l\<lparr>version := version l + 1, delayed_version := None\<rparr>) (lanes s),
       delayed_live_count := delayed_live_count s - of_bool (is_delayed l),
       delayed_stale_count := delayed_stale_count s + of_bool (is_delayed l),
       ready_lanes := ready_lanes s @ [(k, version l + 1)]\<rparr>)"
  using assms by (cases s; cases "events l")
    (auto simp: is_delayed_def schedule_lane_head_at_def event_due_def Let_def split: option.splits)

lemma schedule_delayed_eq:
  assumes "fmlookup (lanes s) k = Some l" and "events l \<noteq> []"
    and "not_before (hd (events l)) = Some d" and "now < d"
  shows "schedule_lane_head_at it s k now = compact_delayed_heap_if_needed it
    (s\<lparr>lanes := fmupd k (l\<lparr>version := version l + 1, delayed_version := Some (version l + 1)\<rparr>) (lanes s),
       delayed_live_count := delayed_live_count s - of_bool (is_delayed l) + 1,
       delayed_stale_count := delayed_stale_count s + of_bool (is_delayed l),
       next_delay_sequence := next_delay_sequence s + 1,
       delayed_lanes := heap_push \<lparr>deadline = d, sequence = next_delay_sequence s + 1,
         head_key = k, head_version = version l + 1\<rparr> (delayed_lanes s)\<rparr>)"
  using assms by (cases s; cases "events l") (auto simp: is_delayed_def schedule_lane_head_at_def Let_def)

lemma compact_exI:
  "queue_inv now s \<Longrightarrow> length (delayed_lanes s) \<le> n \<Longrightarrow>
   \<exists>s'. compact_delayed_heap_if_needed it s = compact_delayed_heap_if_needed it s' \<and>
     queue_inv now s' \<and> length (delayed_lanes s') \<le> n"
  by blast

lemma schedule_compact:
  assumes inv: "queue_inv_but {k} t s" and t: "t \<le> now"
    and l: "fmlookup (lanes s) k = Some l" and v: "unat (version l) + 1 < 2 ^ 64"
  shows "\<exists>s'. schedule_lane_head_at it s k now = compact_delayed_heap_if_needed it s' \<and>
    queue_inv now s' \<and> length (delayed_lanes s') \<le> Suc (length (delayed_lanes s))"
proof -
  have ctr: "counters_ok s" and key: "key_state t (x \<noteq> k) s x" for x
    using inv by (auto simp: queue_inv_but_def)
  have wf: "lane_wf (ready_versions (ready_lanes s) k) (lane_heads (delayed_lanes s) k) k l"
    using key [of k] l by (simp add: key_ok_def)
  then have ne: "events l \<noteq> []" by (simp add: lane_wf_def)
  have other: "key_state now True s x" if "x \<noteq> k" for x
    using key [of x] that t by (auto intro: key_ok_mono)
  have pend: "fmsum (\<lambda>_ l. length (events l)) (fmupd k (l\<lparr>version := a, delayed_version := b\<rparr>) (lanes s))
      = fmsum (\<lambda>_ l. length (events l)) (lanes s)" for a b
    using l by (simp add: fmsum_same)
  have del: "(of_nat (fmcount (\<lambda>_. is_delayed)
        (fmupd k (l\<lparr>version := a, delayed_version := b\<rparr>) (lanes s))) :: usize)
      = of_nat (fmcount (\<lambda>_. is_delayed) (lanes s)) + of_bool (b \<noteq> None) - of_bool (is_delayed l)"
    for a b
    using of_nat_shift [OF fmcount_upd_old [OF l, of "\<lambda>_. is_delayed"
      "l\<lparr>version := a, delayed_version := b\<rparr>"]] by (simp only: is_delayed_simps of_nat_of_bool)
  show ?thesis
  proof (cases "event_due now (hd (events l))")
    case True
    show ?thesis
      unfolding schedule_due_eq [OF l ne True]
      using ctr other lane_wf_bump [OF wf v True]
      by (intro compact_exI) (auto simp: queue_inv_but_def counters_ok_def pending_total_def delayed_total_def pend del)
  next
    case False
    then obtain d where d: "not_before (hd (events l)) = Some d" "now < d"
      by (auto simp: event_due_def split: option.splits)
    show ?thesis
      unfolding schedule_delayed_eq [OF l ne d]
      using ctr other lane_wf_delay [OF wf v, of _ now] d
      by (intro compact_exI) (auto simp: queue_inv_but_def counters_ok_def pending_total_def delayed_total_def pend del
          sorted_heap_push)
  qed
qed

lemma schedule_inv:
  assumes "queue_inv_but {k} t s" and "iteration_order it" and "t \<le> now"
    and "fmlookup (lanes s) k = Some l" and "unat (version l) + 1 < 2 ^ 64"
  shows "queue_inv now (schedule_lane_head_at it s k now)"
  using schedule_compact [OF assms(1,3-5), of it] compact_inv assms(2) by auto

lemma schedule_fields [simp]:
  "in_flight (schedule_lane_head_at it s k now) = in_flight s"
  "pending_count (schedule_lane_head_at it s k now) = pending_count s"
  "queue_closed (schedule_lane_head_at it s k now) = queue_closed s"
  "next_delivery_token (schedule_lane_head_at it s k now) = next_delivery_token s"
  by (auto simp: schedule_lane_head_at_def Let_def split: option.splits list.splits)

lemma schedule_lookup:
  "\<exists>d. fmlookup (lanes (schedule_lane_head_at it s k now)) x =
     map_option (\<lambda>l. if x = k then l\<lparr>version := version l + 1, delayed_version := d\<rparr> else l)
       (fmlookup (lanes s) x)"
  by (cases "x = k")
    (auto simp: schedule_lane_head_at_def Let_def map_option_case split: option.splits list.splits)

lemma schedule_contents [simp]:
  "lane_contents (schedule_lane_head_at it s k now) = lane_contents s"
proof
  fix x
  show "lane_contents (schedule_lane_head_at it s k now) x = lane_contents s x"
    using schedule_lookup [of it s k now x] by (auto simp: lane_contents_def split: option.splits)
qed

lemma schedule_versions:
  assumes "versions_le n s" and "n + 1 < 2 ^ 64"
  shows "versions_le (n + 1) (schedule_lane_head_at it s k now)"
  unfolding versions_le_def
proof (intro allI impI)
  fix x l
  assume "fmlookup (lanes (schedule_lane_head_at it s k now)) x = Some l"
  moreover obtain d where "fmlookup (lanes (schedule_lane_head_at it s k now)) x =
      map_option (\<lambda>l. if x = k then l\<lparr>version := version l + 1, delayed_version := d\<rparr> else l)
        (fmlookup (lanes s) x)"
    using schedule_lookup by blast
  ultimately obtain l' where l': "fmlookup (lanes s) x = Some l'"
    and "l = (if x = k then l'\<lparr>version := version l' + 1, delayed_version := d\<rparr> else l')"
    by (cases "fmlookup (lanes s) x") simp_all
  then have "version l = (if x = k then version l' + 1 else version l')" by simp
  moreover have "unat (version l') \<le> n" using l' assms(1) by (auto simp: versions_le_def)
  moreover have "unat (version l' + 1) = Suc (unat (version l'))"
    using \<open>unat (version l') \<le> n\<close> assms(2) unat_inc_small [of "version l'"] by simp
  ultimately show "unat (version l) \<le> n + 1" by simp
qed

lemma versions_le_mono: "versions_le n s \<Longrightarrow> n \<le> m \<Longrightarrow> versions_le m s"
  unfolding versions_le_def by (meson order_trans)

section \<open>Enqueueing\<close>

lemma lookup_version: "versions_le n s \<Longrightarrow> fmlookup (lanes s) k = Some l \<Longrightarrow> unat (version l) \<le> n"
  by (auto simp: versions_le_def)

lemma fmsum_events_add:
  "fmsum (\<lambda>_ l. length (events l)) (fmupd k (l\<lparr>events := es\<rparr>) m) + length (events l) =
   fmsum (\<lambda>_ l. length (events l)) m + length es"
  if "l = (case fmlookup m k of None \<Rightarrow> queue_lane_default | Some l \<Rightarrow> l)"
  using that fmsum_upd_old [of m k l "\<lambda>_ l. length (events l)" "l\<lparr>events := es\<rparr>"]
  by (cases "fmlookup m k") (simp_all add: fmsum_upd_new queue_lane_default_def)

lemma fmcount_delayed_events:
  "fmcount (\<lambda>_. is_delayed) (fmupd k (l\<lparr>events := es\<rparr>) m) = fmcount (\<lambda>_. is_delayed) m"
  if "l = (case fmlookup m k of None \<Rightarrow> queue_lane_default | Some l \<Rightarrow> l)"
  using that unfolding fmcount_def
  by (cases "fmlookup m k") (simp_all add: fmsum_upd_new fmsum_same)

lemma lane_contents_upd:
  "lane_contents (s\<lparr>lanes := fmupd k (l\<lparr>events := es\<rparr>) (lanes s), pending_count := n\<rparr>) =
   (lane_contents s)(k := es)"
  by (auto simp: lane_contents_def fun_eq_iff)

lemma lane_contents_default:
  "lane_contents s k = events (case fmlookup (lanes s) k of None \<Rightarrow> queue_lane_default | Some l \<Rightarrow> l)"
  by (simp add: lane_contents_def queue_lane_default_def split: option.splits)

lemma queue_inv_complete: "queue_inv_but {k} t s \<Longrightarrow> key_state t True s k \<Longrightarrow> queue_inv t s"
  unfolding queue_inv_but_def by (metis empty_iff insert_iff)

text \<open>Adding an event anywhere in a lane keeps the lane well formed.\<close>

lemma lane_wf_more:
  assumes "key_ok t b rv M k lo" and "l = (case lo of None \<Rightarrow> queue_lane_default | Some l \<Rightarrow> l)"
    and "set es = insert e (set (events l))" and "ev_ordering_key e = k"
  shows "lane_wf rv M k (l\<lparr>events := es\<rparr>)"
  using assms by (cases lo) (auto simp: key_ok_def lane_wf_def queue_lane_default_def)

lemma add_event_inv_but:
  assumes inv: "queue_inv t s" and k: "k = ev_ordering_key e"
    and l: "l = (case fmlookup (lanes s) k of None \<Rightarrow> queue_lane_default | Some l \<Rightarrow> l)"
    and es: "set es = insert e (set (events l))" "length es = Suc (length (events l))"
  shows "queue_inv_but {k} t
    (s\<lparr>lanes := fmupd k (l\<lparr>events := es\<rparr>) (lanes s), pending_count := pending_count s + 1\<rparr>)"
proof -
  have "fmsum (\<lambda>_ l. length (events l)) (fmupd k (l\<lparr>events := es\<rparr>) (lanes s)) =
      Suc (fmsum (\<lambda>_ l. length (events l)) (lanes s))"
    using fmsum_events_add [OF l, of es] es(2) by simp
  then have ctr: "counters_ok
      (s\<lparr>lanes := fmupd k (l\<lparr>events := es\<rparr>) (lanes s), pending_count := pending_count s + 1\<rparr>)"
    using inv by (auto simp: queue_inv_but_def counters_ok_def pending_total_def delayed_total_def
        fmcount_delayed_events [OF l])
  have old: "key_state t True s x" for x
    using inv by (simp add: queue_inv_but_def)
  have "lane_wf (ready_versions (ready_lanes s) k) (lane_heads (delayed_lanes s) k) k
      (l\<lparr>events := es\<rparr>)"
    using old k l es by (intro lane_wf_more [of t True]) auto
  then have "key_state t (x \<notin> {k}) (s\<lparr>lanes := fmupd k (l\<lparr>events := es\<rparr>) (lanes s),
      pending_count := pending_count s + 1\<rparr>) x" for x
    using old [of x] by (cases "x = k") (simp_all add: key_ok_def)
  then show ?thesis using ctr by (simp add: queue_inv_but_def)
qed

lemma enqueue_front_ok:
  assumes inv: "queue_inv t s" and n: "versions_le n s" "n + 1 < 2 ^ 64"
    and it: "iteration_order it" and t: "t \<le> now"
  shows "queue_inv now (enqueue_front_at it s e now)"
    and "versions_le (n + 1) (enqueue_front_at it s e now)"
    and "lane_contents (enqueue_front_at it s e now) =
           (lane_contents s)(ev_ordering_key e := e # lane_contents s (ev_ordering_key e))"
proof -
  let ?k = "ev_ordering_key e"
  define l where l: "l = (case fmlookup (lanes s) ?k of None \<Rightarrow> queue_lane_default | Some l \<Rightarrow> l)"
  let ?s = "s\<lparr>lanes := fmupd ?k (l\<lparr>events := e # events l\<rparr>) (lanes s),
      pending_count := pending_count s + 1\<rparr>"
  have eq: "enqueue_front_at it s e now = schedule_lane_head_at it ?s ?k now"
    by (simp add: enqueue_front_at_def l Let_def)
  have vl: "unat (version l) \<le> n"
    using n(1) by (auto simp: l queue_lane_default_def versions_le_def split: option.splits)
  have but: "queue_inv_but {?k} t ?s"
    by (rule add_event_inv_but [OF inv refl l]) auto
  show "queue_inv now (enqueue_front_at it s e now)"
    unfolding eq by (rule schedule_inv [OF but it t, of "l\<lparr>events := e # events l\<rparr>"])
      (use vl n(2) in auto)
  show "versions_le (n + 1) (enqueue_front_at it s e now)"
    unfolding eq by (rule schedule_versions) (use vl n in \<open>auto simp: versions_le_def\<close>)
  show "lane_contents (enqueue_front_at it s e now) =
      (lane_contents s)(ev_ordering_key e := e # lane_contents s (ev_ordering_key e))"
    by (simp add: eq lane_contents_upd lane_contents_default l)
qed

lemma enqueue_back_ok:
  assumes inv: "queue_inv t s" and n: "versions_le n s" "n + 1 < 2 ^ 64"
    and it: "iteration_order it" and t: "t \<le> now"
  shows "queue_inv now (enqueue_back_at it s e now)"
    and "versions_le (n + 1) (enqueue_back_at it s e now)"
    and "lane_contents (enqueue_back_at it s e now) =
           (lane_contents s)(ev_ordering_key e := lane_contents s (ev_ordering_key e) @ [e])"
proof -
  let ?k = "ev_ordering_key e"
  define l where l: "l = (case fmlookup (lanes s) ?k of None \<Rightarrow> queue_lane_default | Some l \<Rightarrow> l)"
  let ?s = "s\<lparr>lanes := fmupd ?k (l\<lparr>events := events l @ [e]\<rparr>) (lanes s),
      pending_count := pending_count s + 1\<rparr>"
  have eq: "enqueue_back_at it s e now =
      (if events l = [] then schedule_lane_head_at it ?s ?k now else ?s)"
    by (simp add: enqueue_back_at_def l Let_def)
  have vl: "unat (version l) \<le> n"
    using n(1) by (auto simp: l queue_lane_default_def versions_le_def split: option.splits)
  have but: "queue_inv_but {?k} t ?s"
    by (rule add_event_inv_but [OF inv refl l]) auto
  have full: "queue_inv t ?s" if ne: "events l \<noteq> []"
  proof -
    have "fmlookup (lanes s) ?k = Some l" using ne l by (auto simp: queue_lane_default_def split: option.splits)
    then have "lane_scheduled t (ready_versions (ready_lanes s) ?k) (lane_heads (delayed_lanes s) ?k) l"
      using inv by (auto simp: queue_inv_but_def key_ok_def dest: spec [of _ ?k])
    moreover have "lane_wf (ready_versions (ready_lanes s) ?k) (lane_heads (delayed_lanes s) ?k) ?k
        (l\<lparr>events := events l @ [e]\<rparr>)"
      using but by (auto simp: queue_inv_but_def key_ok_def dest: spec [of _ ?k])
    ultimately show ?thesis
      using ne by (intro queue_inv_complete [OF but]) (simp add: key_ok_def lane_scheduled_def)
  qed
  have vs: "versions_le n ?s" using vl n(1) by (auto simp: versions_le_def)
  show "queue_inv now (enqueue_back_at it s e now)"
    using schedule_inv [OF but it t, of "l\<lparr>events := events l @ [e]\<rparr>"] vl n(2)
      queue_inv_mono [OF full t] by (auto simp: eq)
  show "versions_le (n + 1) (enqueue_back_at it s e now)"
    using schedule_versions [OF vs n(2), of it ?k now] versions_le_mono [OF vs] by (auto simp: eq)
  show "lane_contents (enqueue_back_at it s e now) =
      (lane_contents s)(ev_ordering_key e := lane_contents s (ev_ordering_key e) @ [e])"
    by (simp add: eq lane_contents_upd lane_contents_default l)
qed

section \<open>Discarding stale heads and promoting due ones\<close>

lemma discard_step:
  "discard_stale_delayed_heads s =
     (if delayed_lanes s = [] \<or> head_is_live (lanes s) (hd (delayed_lanes s)) then s
      else discard_stale_delayed_heads
        (s\<lparr>delayed_lanes := tl (delayed_lanes s), delayed_stale_count := delayed_stale_count s - 1\<rparr>))"
  by (subst discard_stale_delayed_heads.simps) (simp split: list.split)

lemma discard_shape:
  "\<exists>hs c. discard_stale_delayed_heads s = s\<lparr>delayed_lanes := hs, delayed_stale_count := c\<rparr> \<and>
     (hs = [] \<or> head_is_live (lanes s) (hd hs))"
proof (induction s rule: discard_stale_delayed_heads.induct)
  case (1 s)
  show ?case
  proof (cases "delayed_lanes s = [] \<or> head_is_live (lanes s) (hd (delayed_lanes s))")
    case True
    then have "discard_stale_delayed_heads s = s" by (subst discard_step) simp
    moreover have "s = s\<lparr>delayed_lanes := delayed_lanes s, delayed_stale_count := delayed_stale_count s\<rparr>"
      by simp
    ultimately show ?thesis using True by metis
  next
    case False
    then show ?thesis
      using 1 [of "hd (delayed_lanes s)" "tl (delayed_lanes s)"] by (subst discard_step) auto
  qed
qed

lemma discard_fields [simp]:
  "lanes (discard_stale_delayed_heads s) = lanes s"
  "ready_lanes (discard_stale_delayed_heads s) = ready_lanes s"
  "in_flight (discard_stale_delayed_heads s) = in_flight s"
  "pending_count (discard_stale_delayed_heads s) = pending_count s"
  "queue_closed (discard_stale_delayed_heads s) = queue_closed s"
  "next_delivery_token (discard_stale_delayed_heads s) = next_delivery_token s"
  using discard_shape [of s] by auto

lemma discard_contents [simp]:
  "lane_contents (discard_stale_delayed_heads s) = lane_contents s"
  by (simp add: lane_contents_def fun_eq_iff)

lemma discard_head:
  "delayed_lanes (discard_stale_delayed_heads s) = h # hs \<Longrightarrow> head_is_live (lanes s) h"
  using discard_shape [of s] by auto

text \<open>A heap entry that is not live is no current scheduling, so dropping it changes nothing.\<close>

lemma drop_stale_inv:
  assumes inv: "queue_inv t s" and heap: "delayed_lanes s = h # hs"
    and stale: "\<not> head_is_live (lanes s) h"
  shows "queue_inv t (s\<lparr>delayed_lanes := hs, delayed_stale_count := delayed_stale_count s - 1\<rparr>)"
proof -
  have key: "key_state t True s k" for k using inv by (simp add: queue_inv_but_def)
  have "key_state t True (s\<lparr>delayed_lanes := hs, delayed_stale_count := delayed_stale_count s - 1\<rparr>) k" for k
  proof (cases "head_key h = k")
    case True
    then obtain l where l: "fmlookup (lanes s) k = Some l"
      using key [of k] heap by (cases "fmlookup (lanes s) k") (auto simp: key_ok_def)
    have "head_version h \<noteq> version l"
    proof
      assume v: "head_version h = version l"
      then have "delayed_version l = Some (version l)"
        using key [of k] heap l True
        by (cases "delayed_version l") (auto simp: key_ok_def lane_wf_def)
      then show False using stale l True v by (simp add: head_is_live_def)
    qed
    then show ?thesis
      using key [of k] heap l True by (auto simp: key_ok_def lane_wf_def lane_scheduled_def split: if_splits)
  next
    case False
    then show ?thesis using key [of k] heap by simp
  qed
  moreover have "counters_ok (s\<lparr>delayed_lanes := hs, delayed_stale_count := delayed_stale_count s - 1\<rparr>)"
    using inv heap by (auto simp: queue_inv_but_def counters_ok_def pending_total_def delayed_total_def
        algebra_simps)
  ultimately show ?thesis by (simp add: queue_inv_but_def)
qed

lemma discard_inv: "queue_inv t s \<Longrightarrow> queue_inv t (discard_stale_delayed_heads s)"
proof (induction s rule: discard_stale_delayed_heads.induct)
  case (1 s)
  then show ?case
    by (subst discard_stale_delayed_heads.simps) (auto intro: drop_stale_inv split: list.splits)
qed

lemma promote_live_inv:
  assumes inv: "queue_inv now s" and heap: "delayed_lanes s = h # hs"
    and live: "head_is_live (lanes s) h" and due: "deadline h \<le> now"
  shows "queue_inv now (promote_head (s\<lparr>delayed_lanes := hs\<rparr>) h)"
proof -
  have key: "key_state now True s k" for k using inv by (simp add: queue_inv_but_def)
  let ?k = "head_key h"
  obtain l where l: "fmlookup (lanes s) ?k = Some l" "version l = head_version h"
      "delayed_version l = Some (head_version h)"
    using live by (auto simp: head_is_live_def split: option.splits)
  let ?s = "promote_head (s\<lparr>delayed_lanes := hs\<rparr>) h"
  have wf: "lane_wf (ready_versions (ready_lanes s) ?k) (add_mset h (lane_heads hs ?k)) ?k l"
    and sch: "lane_scheduled now (ready_versions (ready_lanes s) ?k) (add_mset h (lane_heads hs ?k)) l"
    using key [of ?k] l heap by (auto simp: key_ok_def)
  have "event_due now (hd (events l))"
    using sch l due by (auto simp: lane_scheduled_def event_due_def)
  moreover have "v < unat (version l)" if "v \<in> set (ready_versions (ready_lanes s) ?k)" for v
    using wf sch l that by (auto simp: lane_wf_def lane_scheduled_def le_less)
  ultimately have new: "key_ok now True (ready_versions (ready_lanes s) ?k @ [unat (head_version h)])
      (lane_heads hs ?k) ?k (Some (l\<lparr>delayed_version := None\<rparr>))"
    using wf l by (auto simp: key_ok_def lane_wf_def lane_scheduled_def sorted_wrt_append)
  have "key_state now True ?s k" for k
    using key [of k] new live l heap by (cases "?k = k") (auto simp: promote_head_def)
  moreover have "counters_ok ?s"
  proof -
    have "fmmodify ?k (\<lambda>l. l\<lparr>delayed_version := None\<rparr>) (lanes s) =
        fmupd ?k (l\<lparr>delayed_version := None\<rparr>) (lanes s)"
      using l by (simp add: fmmodify_def)
    moreover have "fmsum (\<lambda>_ l. length (events l)) (fmupd ?k (l\<lparr>delayed_version := None\<rparr>) (lanes s)) =
        fmsum (\<lambda>_ l. length (events l)) (lanes s)"
      using l by (simp add: fmsum_same)
    moreover have "(of_nat (fmcount (\<lambda>_. is_delayed) (fmupd ?k (l\<lparr>delayed_version := None\<rparr>) (lanes s))) :: usize)
        = of_nat (fmcount (\<lambda>_. is_delayed) (lanes s)) - 1"
      using of_nat_shift [OF fmcount_upd_old [OF l(1), of "\<lambda>_. is_delayed" "l\<lparr>delayed_version := None\<rparr>"]] l(3)
      by (simp add: is_delayed_def)
    ultimately show ?thesis
      using inv heap live by (auto simp: queue_inv_but_def counters_ok_def pending_total_def
          delayed_total_def promote_head_def algebra_simps)
  qed
  ultimately show ?thesis by (simp add: queue_inv_but_def)
qed

lemma promote_head_inv:
  assumes "queue_inv now s" and "delayed_lanes s = h # hs" and "deadline h \<le> now"
  shows "queue_inv now (promote_head (s\<lparr>delayed_lanes := hs\<rparr>) h)"
proof (cases "head_is_live (lanes s) h")
  case True
  then show ?thesis by (rule promote_live_inv [OF assms(1,2) _ assms(3)])
next
  case False
  then show ?thesis using drop_stale_inv [OF assms(1,2)] by (simp add: promote_head_def)
qed

text \<open>What discarding and promoting keep: everything but the two schedules.\<close>

definition same_queue :: "local_queue_state \<Rightarrow> local_queue_state \<Rightarrow> bool" where
  "same_queue s s' \<longleftrightarrow> lane_contents s' = lane_contents s \<and> in_flight s' = in_flight s \<and>
     pending_count s' = pending_count s \<and> queue_closed s' = queue_closed s \<and>
     next_delivery_token s' = next_delivery_token s \<and>
     (\<forall>n. versions_le n s \<longrightarrow> versions_le n s')"

lemma same_queue_trans: "same_queue s s' \<Longrightarrow> same_queue s' s'' \<Longrightarrow> same_queue s s''"
  by (simp add: same_queue_def)

lemma same_queue_discard: "same_queue s (discard_stale_delayed_heads s)"
  by (simp add: same_queue_def versions_le_def)

lemma same_queue_heap: "same_queue s (s\<lparr>delayed_lanes := hs\<rparr>)"
  by (simp add: same_queue_def versions_le_def lane_contents_def fun_eq_iff)

lemma same_queue_promote_head: "same_queue s (promote_head s h)"
  by (auto simp: same_queue_def promote_head_def versions_le_def lane_contents_def fun_eq_iff
      split: option.splits)

lemma promote_loop_ok:
  "queue_inv now s \<Longrightarrow>
   queue_inv now (promote_loop now s) \<and> same_queue s (promote_loop now s) \<and>
   (\<forall>h \<in> set (delayed_lanes (promote_loop now s)). now < deadline h)"
proof (induction now s rule: promote_loop.induct)
  case (1 now s)
  show ?case
  proof (cases "\<exists>h hs. delayed_lanes s = h # hs \<and> deadline h \<le> now")
    case True
    then obtain h hs where heap: "delayed_lanes s = h # hs" "deadline h \<le> now" by blast
    let ?s = "discard_stale_delayed_heads (promote_head (s\<lparr>delayed_lanes := hs\<rparr>) h)"
    have "promote_loop now s = promote_loop now ?s"
      by (subst promote_loop.simps) (simp add: heap)
    moreover have "queue_inv now ?s"
      using "1.prems" heap by (intro discard_inv promote_head_inv)
    moreover have "same_queue s ?s"
      by (intro same_queue_trans [OF same_queue_heap [of s hs]]
          same_queue_trans [OF same_queue_promote_head same_queue_discard])
    ultimately show ?thesis using "1.IH" [OF heap] by (auto intro: same_queue_trans)
  next
    case False
    have stop: "promote_loop now s = s"
      using False by (subst promote_loop.simps) (auto split: list.split)
    have "now < deadline h" if "h \<in> set (delayed_lanes s)" for h
      using False that "1.prems"
      by (cases "delayed_lanes s") (force simp: queue_inv_but_def counters_ok_def)+
    then show ?thesis using "1.prems" by (simp add: stop same_queue_def)
  qed
qed

lemma promote_due_heads_ok:
  assumes "queue_inv t s" and "t \<le> now"
  shows "queue_inv now (promote_due_heads s now)" "same_queue s (promote_due_heads s now)"
    "h \<in> set (delayed_lanes (promote_due_heads s now)) \<Longrightarrow> now < deadline h"
  using promote_loop_ok [OF discard_inv [OF queue_inv_mono [OF assms]]] same_queue_discard [of s]
  by (auto simp: promote_due_heads_def intro: same_queue_trans)

section \<open>Taking a ready event\<close>

lemma drop_ready_inv:
  assumes inv: "queue_inv now s" and rl: "ready_lanes s = (k, v) # rest"
    and stale: "\<And>l. fmlookup (lanes s) k = Some l \<Longrightarrow> version l \<noteq> v"
  shows "queue_inv now (s\<lparr>ready_lanes := rest\<rparr>)"
proof -
  have key: "key_state now True s x" for x using inv by (simp add: queue_inv_but_def)
  have "key_state now True (s\<lparr>ready_lanes := rest\<rparr>) x" for x
  proof (cases "k = x")
    case True
    moreover have "unat (version l) \<noteq> unat v" if "fmlookup (lanes s) k = Some l" for l
      using stale [OF that] by (simp add: word_unat_eq_iff)
    ultimately show ?thesis
      using key [of x] rl
      by (cases "fmlookup (lanes s) x") (auto simp: key_ok_def lane_wf_def lane_scheduled_def split: if_splits)
  next
    case False
    then show ?thesis using key [of x] rl by simp
  qed
  then show ?thesis
    using inv by (auto simp: queue_inv_but_def counters_ok_def pending_total_def delayed_total_def)
qed

text \<open>An entry of the ready FIFO that carries the current version of its lane: it is the only
  entry of that lane, and the head of the lane is due.\<close>

lemma ready_entry_current:
  assumes inv: "queue_inv now s" and rl: "ready_lanes s = (k, v) # rest"
    and l: "fmlookup (lanes s) k = Some l" and v: "version l = v"
  shows "delayed_version l = None" "event_due now (hd (events l))" "events l \<noteq> []"
    "ready_versions rest k = []"
proof -
  have "key_state now True s k" using inv by (simp add: queue_inv_but_def)
  then have wf: "lane_wf (unat v # ready_versions rest k) (lane_heads (delayed_lanes s) k) k l"
    and sch: "lane_scheduled now (unat v # ready_versions rest k) (lane_heads (delayed_lanes s) k) l"
    using rl l by (auto simp: key_ok_def)
  show "delayed_version l = None" "event_due now (hd (events l))"
    using sch v by (auto simp: lane_scheduled_def split: if_splits)
  show "events l \<noteq> []" using wf by (simp add: lane_wf_def)
  show "ready_versions rest k = []"
    using wf v by (cases "ready_versions rest k") (auto simp: lane_wf_def)
qed

lemma take_head_counters:
  assumes "counters_ok s" and "fmlookup (lanes s) k = Some l" and "events l = e # es"
    and "delayed_version l = None"
  shows "counters_ok (s\<lparr>ready_lanes := rest, lanes := fmupd k (l\<lparr>events := es\<rparr>) (lanes s),
           pending_count := pending_count s - 1\<rparr>)"
    and "es = [] \<Longrightarrow> counters_ok (s\<lparr>ready_lanes := rest, lanes := fmdrop k (lanes s),
           pending_count := pending_count s - 1\<rparr>)"
proof -
  let ?len = "\<lambda>_ l. length (events l)"
  have "fmsum ?len (lanes s) = Suc (fmsum ?len (fmupd k (l\<lparr>events := es\<rparr>) (lanes s)))"
    using fmsum_upd_old [OF assms(2), of ?len "l\<lparr>events := es\<rparr>"] assms(3) by simp
  moreover have "fmcount (\<lambda>_. is_delayed) (fmupd k (l\<lparr>events := es\<rparr>) (lanes s)) =
      fmcount (\<lambda>_. is_delayed) (lanes s)"
    using assms(2) by (simp add: fmcount_def fmsum_same)
  ultimately show "counters_ok (s\<lparr>ready_lanes := rest, lanes := fmupd k (l\<lparr>events := es\<rparr>) (lanes s),
      pending_count := pending_count s - 1\<rparr>)"
    using assms(1) by (auto simp: counters_ok_def pending_total_def delayed_total_def)
  have "fmcount (\<lambda>_. is_delayed) (fmdrop k (lanes s)) = fmcount (\<lambda>_. is_delayed) (lanes s)"
    using fmsum_drop [OF assms(2), of "\<lambda>_ l. of_bool (is_delayed l)"] assms(4)
    by (simp add: fmcount_def is_delayed_def)
  then show "counters_ok (s\<lparr>ready_lanes := rest, lanes := fmdrop k (lanes s),
      pending_count := pending_count s - 1\<rparr>)" if "es = []"
    using assms(1) fmsum_drop [OF assms(2), of ?len] assms(3) that
    by (auto simp: counters_ok_def pending_total_def delayed_total_def)
qed

text \<open>Taking the head of a ready lane, when every deadline in the heap is in the future: what
  remains of the lane awaits scheduling, and an emptied lane leaves no entry behind.\<close>

lemma take_head_inv:
  assumes inv: "queue_inv now s" and rl: "ready_lanes s = (k, v) # rest"
    and l: "fmlookup (lanes s) k = Some l" "version l = v" and ev: "events l = e # es"
    and future: "\<And>h. h \<in> set (delayed_lanes s) \<Longrightarrow> now < deadline h"
  shows "es \<noteq> [] \<Longrightarrow> queue_inv_but {k} now (s\<lparr>ready_lanes := rest,
           lanes := fmupd k (l\<lparr>events := es\<rparr>) (lanes s), pending_count := pending_count s - 1\<rparr>)"
    and "es = [] \<Longrightarrow> queue_inv now (s\<lparr>ready_lanes := rest, lanes := fmdrop k (lanes s),
           pending_count := pending_count s - 1\<rparr>)"
proof -
  note cur = ready_entry_current [OF inv rl l]
  have key: "key_state now True s x" for x using inv by (simp add: queue_inv_but_def)
  have ctr: "counters_ok s" using inv by (simp add: queue_inv_but_def)
  have wf: "lane_wf [unat v] (lane_heads (delayed_lanes s) k) k l"
    using key [of k] rl l cur(4) by (simp add: key_ok_def)
  have remain: "\<exists>e \<in> set es. not_before e = Some (deadline h)"
    if h: "h \<in># lane_heads (delayed_lanes s) k" for h
  proof -
    have "not_before e \<noteq> Some (deadline h)"
      using cur(2) ev future [of h] h by (auto simp: event_due_def in_lane_heads)
    then show ?thesis using wf ev h by (auto simp: lane_wf_def)
  qed
  {
    assume "es \<noteq> []"
    then have "lane_wf [] (lane_heads (delayed_lanes s) k) k (l\<lparr>events := es\<rparr>)"
      using wf ev remain by (simp add: lane_wf_def)
    then have "key_state now (x \<notin> {k}) (s\<lparr>ready_lanes := rest,
        lanes := fmupd k (l\<lparr>events := es\<rparr>) (lanes s), pending_count := pending_count s - 1\<rparr>) x" for x
      using key [of x] rl cur(4) by (cases "x = k") (simp_all add: key_ok_def)
    then show "queue_inv_but {k} now (s\<lparr>ready_lanes := rest,
        lanes := fmupd k (l\<lparr>events := es\<rparr>) (lanes s), pending_count := pending_count s - 1\<rparr>)"
      using take_head_counters(1) [OF ctr l(1) ev cur(1)] by (simp add: queue_inv_but_def)
  next
    assume "es = []"
    then have "lane_heads (delayed_lanes s) k = {#}"
      using remain by (metis empty_iff empty_set multiset_nonemptyE)
    then have "key_state now True (s\<lparr>ready_lanes := rest, lanes := fmdrop k (lanes s),
        pending_count := pending_count s - 1\<rparr>) x" for x
      using key [of x] rl cur(4) by (cases "x = k") (simp_all add: key_ok_def)
    then show "queue_inv now (s\<lparr>ready_lanes := rest, lanes := fmdrop k (lanes s),
        pending_count := pending_count s - 1\<rparr>)"
      using take_head_counters(2) [OF ctr l(1) ev cur(1) \<open>es = []\<close>] by (simp add: queue_inv_but_def)
  }
qed

text \<open>What a pop promises: nothing is lost, the event is the due head of its lane, and \<^const>\<open>None\<close>
  means that no head is due.\<close>

definition same_client :: "local_queue_state \<Rightarrow> local_queue_state \<Rightarrow> bool" where
  "same_client s s' \<longleftrightarrow> in_flight s' = in_flight s \<and> queue_closed s' = queue_closed s \<and>
     next_delivery_token s' = next_delivery_token s"

definition popped :: "instant \<Rightarrow> local_queue_state \<Rightarrow> local_queue_state \<Rightarrow> local_event option \<Rightarrow> bool" where
  "popped now s s' r = (case r of
       None \<Rightarrow> lane_contents s' = lane_contents s \<and> ready_lanes s' = []
     | Some e \<Rightarrow> event_due now e \<and>
         lane_contents s = (lane_contents s')(ev_ordering_key e := e # lane_contents s' (ev_ordering_key e)))"

lemma popped_cong:
  "lane_contents s = lane_contents s' \<Longrightarrow> popped now s s'' r = popped now s' s'' r"
  by (cases r) (simp_all add: popped_def)

lemma pop_loop_stale:
  assumes "ready_lanes s = (k, v) # rest"
    and "\<And>l. fmlookup (lanes s) k = Some l \<Longrightarrow> version l \<noteq> v"
  shows "pop_loop it now s = pop_loop it now (s\<lparr>ready_lanes := rest\<rparr>)"
  using assms by (subst pop_loop.simps) (auto simp: Let_def split: option.split)

lemma pop_loop_current:
  assumes "ready_lanes s = (k, v) # rest" and "fmlookup (lanes s) k = Some l" and "version l = v"
    and "events l = e # es" and "event_due now e"
  shows "pop_loop it now s =
    (if es = [] then s\<lparr>ready_lanes := rest, lanes := fmdrop k (lanes s), pending_count := pending_count s - 1\<rparr>
     else schedule_lane_head_at it (s\<lparr>ready_lanes := rest, lanes := fmupd k (l\<lparr>events := es\<rparr>) (lanes s),
            pending_count := pending_count s - 1\<rparr>) k now, Some e)"
proof -
  have "fmdrop k (fmupd k x m) = fmdrop k m" for x :: queue_lane and m
    by (rule fmap_ext) simp
  then show ?thesis
    using assms by (subst pop_loop.simps) (auto simp: Let_def event_due_def split: option.splits)
qed

lemma take_head_result:
  assumes inv: "queue_inv now s" and rl: "ready_lanes s = (k, v) # rest"
    and l: "fmlookup (lanes s) k = Some l" "version l = v" and ev: "events l = e # es"
    and future: "\<And>h. h \<in> set (delayed_lanes s) \<Longrightarrow> now < deadline h"
    and n: "versions_le n s" "n + 1 < 2 ^ 64" and it: "iteration_order it"
    and pop: "pop_loop it now s = (s', r)"
  shows "queue_inv now s' \<and> versions_le (n + 1) s' \<and> same_client s s' \<and> popped now s s' r \<and> r \<noteq> None"
proof -
  have due: "event_due now e" using ready_entry_current(2) [OF inv rl l] ev by simp
  have ke: "ev_ordering_key e = k"
    using inv l ev by (auto simp: queue_inv_but_def key_ok_def lane_wf_def dest!: spec [of _ k])
  have vl: "unat (version l) \<le> n" using lookup_version [OF n(1) l(1)] .
  note take = take_head_inv [OF inv rl l ev future]
  note eq = pop_loop_current [OF rl l ev due, of it] pop
  show ?thesis
  proof (cases "es = []")
    case True
    then have s': "s' = s\<lparr>ready_lanes := rest, lanes := fmdrop k (lanes s),
        pending_count := pending_count s - 1\<rparr>" and r: "r = Some e"
      using eq by auto
    have "versions_le (n + 1) s'"
      by (rule versions_le_mono [of n]) (use n(1) in \<open>auto simp: s' versions_le_def\<close>)
    moreover have "popped now s s' r"
      using l ev due ke True by (auto simp: popped_def r s' lane_contents_def fun_eq_iff)
    ultimately show ?thesis using take(2) True by (simp add: s' r same_client_def)
  next
    case False
    let ?s = "s\<lparr>ready_lanes := rest, lanes := fmupd k (l\<lparr>events := es\<rparr>) (lanes s),
        pending_count := pending_count s - 1\<rparr>"
    have s': "s' = schedule_lane_head_at it ?s k now" and r: "r = Some e"
      using eq False by auto
    have "queue_inv now s'"
      unfolding s' by (rule schedule_inv [OF take(1) it, where l = "l\<lparr>events := es\<rparr>"])
        (use False vl n(2) in auto)
    moreover have "versions_le (n + 1) s'"
      unfolding s' by (rule schedule_versions) (use n l(1) vl in \<open>auto simp: versions_le_def\<close>)
    moreover have "popped now s s' r"
      unfolding popped_def r s' schedule_contents
      using l ev due ke by (auto simp: lane_contents_def fun_eq_iff)
    ultimately show ?thesis by (simp add: s' r same_client_def)
  qed
qed

lemma pop_loop_ok:
  assumes "queue_inv now s" and "\<And>h. h \<in> set (delayed_lanes s) \<Longrightarrow> now < deadline h"
    and "versions_le n s" "n + 1 < 2 ^ 64" and "iteration_order it"
    and "pop_loop it now s = (s', r)"
  shows "queue_inv now s' \<and> versions_le (n + 1) s' \<and> same_client s s' \<and> popped now s s' r \<and>
    (r = None \<longrightarrow> delayed_lanes s' = delayed_lanes s)"
  using assms
proof (induction "ready_lanes s" arbitrary: s)
  case Nil
  then have "s' = s \<and> r = None" by (subst (asm) pop_loop.simps) simp
  then show ?case using Nil versions_le_mono [of n s "n + 1"] by (simp add: same_client_def popped_def)
next
  case (Cons kv rest)
  obtain k v where rl: "ready_lanes s = (k, v) # rest" using Cons.hyps(2) [symmetric] by (cases kv) auto
  show ?case
  proof (cases "\<exists>l. fmlookup (lanes s) k = Some l \<and> version l = v")
    case True
    then obtain l where l: "fmlookup (lanes s) k = Some l" "version l = v" by blast
    obtain e es where ev: "events l = e # es"
      using ready_entry_current(3) [OF Cons.prems(1) rl l] by (cases "events l") auto
    show ?thesis
      using take_head_result [OF Cons.prems(1) rl l ev Cons.prems(2-6)] by auto
  next
    case False
    then have stale: "fmlookup (lanes s) k = Some l \<Longrightarrow> version l \<noteq> v" for l by blast
    let ?s = "s\<lparr>ready_lanes := rest\<rparr>"
    have "pop_loop it now ?s = (s', r)"
      using pop_loop_stale [OF rl stale, where it = it and now = now] Cons.prems(6) by simp
    moreover have "versions_le n ?s" using Cons.prems(3) by (simp add: versions_le_def)
    moreover have "queue_inv now ?s" by (rule drop_ready_inv [OF Cons.prems(1) rl stale])
    ultimately have "queue_inv now s' \<and> versions_le (n + 1) s' \<and> same_client ?s s' \<and>
        popped now ?s s' r \<and> (r = None \<longrightarrow> delayed_lanes s' = delayed_lanes ?s)"
      using Cons.hyps(1) [of ?s] Cons.prems(2,4,5) by simp
    moreover have "lane_contents ?s = lane_contents s"
      by (simp add: lane_contents_def fun_eq_iff)
    ultimately show ?thesis using popped_cong [of ?s s] by (simp add: same_client_def)
  qed
qed

text \<open>A lane whose head is delayed has an entry in the heap with the head's deadline.\<close>

lemma delayed_lane_entry:
  assumes "key_ok t True rv (lane_heads hs k) k (Some l)" and "delayed_version l \<noteq> None"
  obtains h where "h \<in> set hs" "head_key h = k" "not_before (hd (events l)) = Some (deadline h)"
proof -
  have "size {#h \<in># lane_heads hs k. head_version h = version l#} = Suc 0"
    using assms by (simp add: key_ok_def lane_wf_def)
  then obtain h where "h \<in># {#h \<in># lane_heads hs k. head_version h = version l#}"
    using size_eq_Suc_imp_elem by blast
  then show thesis
    using assms by (intro that [of h]) (auto simp: in_lane_heads key_ok_def lane_scheduled_def)
qed

lemma unready_lane_entry:
  assumes inv: "queue_inv now s" and rl: "ready_lanes s = []" and c: "lane_contents s k = e # es"
  shows "\<exists>h \<in> set (delayed_lanes s). not_before e = Some (deadline h)"
proof -
  obtain l where l: "fmlookup (lanes s) k = Some l" "events l = e # es"
    using c by (auto simp: lane_contents_def split: option.splits)
  have key: "key_ok now True [] (lane_heads (delayed_lanes s) k) k (Some l)"
    using inv rl l by (auto simp: queue_inv_but_def dest: spec [of _ k])
  then have "delayed_version l \<noteq> None" by (auto simp: key_ok_def lane_scheduled_def split: if_splits)
  from delayed_lane_entry [OF key this] show ?thesis using l by auto
qed

lemma no_head_due:
  assumes "queue_inv now s" and "ready_lanes s = []" and "lane_contents s k = e # es"
    and "\<And>h. h \<in> set (delayed_lanes s) \<Longrightarrow> now < deadline h"
  shows "\<not> event_due now e"
  using unready_lane_entry [OF assms(1-3)] assms(4) by (force simp: event_due_def)

lemma pop_ready_ok:
  assumes inv: "queue_inv t s" and t: "t \<le> now" and n: "versions_le n s" "n + 1 < 2 ^ 64"
    and it: "iteration_order it" and pop: "pop_ready it s now = (s', r)"
  shows "queue_inv now s'" "versions_le (n + 1) s'" "same_client s s'" "popped now s s' r"
    "r = None \<Longrightarrow> h \<in> set (delayed_lanes s') \<Longrightarrow> now < deadline h"
    "r = None \<Longrightarrow> lane_contents s k = e # es \<Longrightarrow> \<not> event_due now e"
proof -
  let ?p = "promote_due_heads s now"
  note pr = promote_due_heads_ok [OF inv t]
  have vp: "versions_le n ?p" using pr(2) n(1) by (simp add: same_queue_def)
  note res = pop_loop_ok [OF pr(1) pr(3) vp n(2) it pop [unfolded pop_ready_def]]
  show "queue_inv now s'" "versions_le (n + 1) s'" using res by simp_all
  show "same_client s s'" "popped now s s' r"
    using res pr(2) popped_cong [of ?p s] by (simp_all add: same_client_def same_queue_def)
  show future: "now < deadline h" if "r = None" "h \<in> set (delayed_lanes s')" for h
    using res pr(3) that by simp
  show "\<not> event_due now e" if "r = None" "lane_contents s k = e # es"
    using res pr(2) that
    by (intro no_head_due [of now s' k e es] future) (simp_all add: popped_def same_queue_def)
qed

section \<open>Sleeping until the next deadline\<close>

lemma next_ready_delay_ok:
  assumes inv: "queue_inv now s" and rl: "ready_lanes s = []"
    and nr: "next_ready_delay s now = (s', d)"
  shows "queue_inv now s'" "same_queue s s'" "ready_lanes s' = []"
    "d = None \<Longrightarrow> lane_contents s k = []"
    "d = Some w \<Longrightarrow> \<exists>k e es. lane_contents s k = e # es \<and> event_due (now + w) e"
    "d = Some w \<Longrightarrow> lane_contents s k = e # es \<Longrightarrow> now < u \<Longrightarrow> u < now + w \<Longrightarrow> \<not> event_due u e"
proof -
  have s': "s' = discard_stale_delayed_heads s"
    and d: "d = (case delayed_lanes s' of [] \<Rightarrow> None | h # _ \<Rightarrow> Some (deadline h - now))"
    using nr by (auto simp: next_ready_delay_def Let_def)
  show inv': "queue_inv now s'" and same: "same_queue s s'" and rl': "ready_lanes s' = []"
    using discard_inv [OF inv] same_queue_discard rl by (simp_all add: s')
  have entry: "\<exists>h \<in> set (delayed_lanes s'). not_before e = Some (deadline h)"
    if "lane_contents s k = e # es" for k e es
    using unready_lane_entry [OF inv' rl'] that same by (simp add: same_queue_def)
  show "d = None \<Longrightarrow> lane_contents s k = []"
    using entry [of k] d by (cases "lane_contents s k") (fastforce split: list.splits)+
  show "\<exists>k e es. lane_contents s k = e # es \<and> event_due (now + w) e" if dw: "d = Some w"
  proof -
    obtain h hs where h: "delayed_lanes s' = h # hs" "w = deadline h - now"
      using dw d by (auto split: list.splits)
    then have "head_is_live (lanes s) h" using discard_head by (simp add: s')
    then obtain l where l: "fmlookup (lanes s) (head_key h) = Some l" "version l = head_version h"
        "delayed_version l = Some (head_version h)"
      by (auto simp: head_is_live_def split: option.splits)
    then have "lane_wf (ready_versions (ready_lanes s') (head_key h)) (lane_heads (delayed_lanes s') (head_key h)) (head_key h) l"
      and "lane_scheduled now (ready_versions (ready_lanes s') (head_key h)) (lane_heads (delayed_lanes s') (head_key h)) l"
      using inv' by (auto simp: queue_inv_but_def key_ok_def s' dest!: spec [of _ "head_key h"])
    then have "events l \<noteq> []" "not_before (hd (events l)) = Some (deadline h)"
      using l h by (auto simp: lane_wf_def lane_scheduled_def)
    then show ?thesis
      using l h by (intro exI [of _ "head_key h"] exI [of _ "hd (events l)"] exI [of _ "tl (events l)"])
        (auto simp: lane_contents_def event_due_def)
  qed
  show "\<not> event_due u e" if dw: "d = Some w" and c: "lane_contents s k = e # es"
    and u: "now < u" "u < now + w"
  proof -
    obtain h hs where h: "delayed_lanes s' = h # hs" "w = deadline h - now"
      using dw d by (auto split: list.splits)
    obtain h' where "h' \<in> set (delayed_lanes s')" "not_before e = Some (deadline h')"
      using entry [OF c] by blast
    moreover have "sorted (map deadline (delayed_lanes s'))"
      using inv' by (simp add: queue_inv_but_def counters_ok_def)
    ultimately show ?thesis using h u by (auto simp: event_due_def)
  qed
qed

section \<open>The size of the heap\<close>

lemma fmcount_delayed_le_heap:
  assumes "queue_inv t s"
  shows "delayed_total s \<le> length (delayed_lanes s)"
proof -
  have "{k. \<exists>l. fmlookup (lanes s) k = Some l \<and> is_delayed l} \<subseteq> head_key ` set (delayed_lanes s)"
  proof (clarify)
    fix k l assume l: "fmlookup (lanes s) k = Some l" and "is_delayed l"
    moreover have "key_ok t True (ready_versions (ready_lanes s) k) (lane_heads (delayed_lanes s) k) k (Some l)"
      using assms l by (auto simp: queue_inv_but_def dest: spec [of _ k])
    ultimately show "k \<in> head_key ` set (delayed_lanes s)"
      by (auto simp: is_delayed_def elim!: delayed_lane_entry)
  qed
  then have "delayed_total s \<le> card (head_key ` set (delayed_lanes s))"
    unfolding delayed_total_def fmcount_card by (intro card_mono) auto
  also have "\<dots> \<le> length (delayed_lanes s)"
    by (metis card_image_le card_length le_trans List.finite_set)
  finally show ?thesis .
qed

lemma compact_heap_bound:
  assumes inv: "queue_inv t s" and small: "length (delayed_lanes s) < 2 ^ 64"
    and it: "iteration_order it"
  shows "length (delayed_lanes (compact_delayed_heap_if_needed it s)) \<le>
    delayed_total s + max (delayed_total s) 8"
proof -
  let ?s = "compact_delayed_heap_if_needed it s"
  have le: "delayed_total s \<le> length (delayed_lanes s)" using fmcount_delayed_le_heap [OF inv] .
  have live: "unat (delayed_live_count s) = delayed_total s"
    using inv le small by (simp add: queue_inv_but_def counters_ok_def unat_of_nat_small)
  have sum: "delayed_live_count s + delayed_stale_count s = of_nat (length (delayed_lanes s))"
    using inv by (auto simp: queue_inv_but_def counters_ok_def)
  show ?thesis
  proof (cases "delayed_stale_count s \<le> max (delayed_live_count s) 8")
    case True
    then have "unat (delayed_stale_count s) \<le> max (delayed_total s) 8"
      by (auto simp: max_def word_le_nat_alt live split: if_splits)
    moreover have "length (delayed_lanes s) = unat (delayed_live_count s + delayed_stale_count s)"
      using small by (simp add: sum unat_of_nat_small)
    moreover have "unat (delayed_live_count s + delayed_stale_count s) \<le>
        unat (delayed_live_count s) + unat (delayed_stale_count s)"
      by (simp add: unat_word_ariths)
    ultimately show ?thesis using True live by (simp add: compact_delayed_heap_if_needed_def)
  next
    case False
    then have "length (delayed_lanes ?s) = delayed_total s"
      using rebuild_heap_sizes [of "lanes s" "it (lanes s)" "next_delay_sequence s" "[]" 0]
        delayed_entry_count [OF inv it]
      by (auto simp: compact_delayed_heap_if_needed_def split: prod.split)
    then show ?thesis by simp
  qed
qed

lemma schedule_heap_bound:
  assumes "queue_inv_but {k} t s" and "iteration_order it" and "t \<le> now"
    and "fmlookup (lanes s) k = Some l" and "unat (version l) + 1 < 2 ^ 64"
    and small: "length (delayed_lanes s) + 1 < 2 ^ 64"
  shows "length (delayed_lanes (schedule_lane_head_at it s k now)) \<le>
    2 * delayed_total (schedule_lane_head_at it s k now) + 8"
proof -
  obtain s' where s': "schedule_lane_head_at it s k now = compact_delayed_heap_if_needed it s'"
      "queue_inv now s'" "length (delayed_lanes s') \<le> Suc (length (delayed_lanes s))"
    using schedule_compact [OF assms(1,3-5), of it] by blast
  have "length (delayed_lanes (compact_delayed_heap_if_needed it s')) \<le>
      delayed_total s' + max (delayed_total s') 8"
    by (rule compact_heap_bound [OF s'(2) _ assms(2)]) (use s'(3) small in linarith)
  then show ?thesis by (simp add: s'(1) delayed_total_def)
qed

end
