(* ===== verification/Lane_Queue.thy ===== *)
theory Lane_Queue
  imports Prelude
begin

text \<open>
  The contract of a queue of keyed lanes, as the local transport uses it: events are appended to
  the lane of their key or put back at its front, and a pull takes the head of some lane whose
  head is due. The client lemmas are proved from the contract alone: whatever a sequence of
  appends and pulls does, every lane is first in, first out, and nothing is lost or duplicated.
\<close>

section \<open>Lanes as functions from keys to lists\<close>

definition lanes_total :: "('e \<Rightarrow> nat) \<Rightarrow> ('k \<Rightarrow> 'e list) \<Rightarrow> nat" where
  "lanes_total f c = (\<Sum>k \<in> {k. c k \<noteq> []}. sum_list (map f (c k)))"

definition lanes_finite :: "('k \<Rightarrow> 'e list) \<Rightarrow> bool" where
  "lanes_finite c \<longleftrightarrow> finite {k. c k \<noteq> []}"

lemma lanes_total_superset:
  assumes "finite A" and "{k. c k \<noteq> []} \<subseteq> A"
  shows "lanes_total f c = (\<Sum>k \<in> A. sum_list (map f (c k)))"
  unfolding lanes_total_def using assms by (intro sum.mono_neutral_left) auto

lemma lanes_total_upd:
  assumes "lanes_finite c"
  shows "lanes_total f (c(k := xs)) + sum_list (map f (c k)) =
         lanes_total f c + sum_list (map f xs)"
proof -
  let ?A = "insert k {x. c x \<noteq> []}"
  have fin: "finite ?A" using assms by (simp add: lanes_finite_def)
  have "lanes_total f (c(k := xs)) = (\<Sum>x \<in> ?A. sum_list (map f ((c(k := xs)) x)))"
    by (rule lanes_total_superset [OF fin]) auto
  also have "\<dots> = sum_list (map f xs) + (\<Sum>x \<in> ?A - {k}. sum_list (map f (c x)))"
    using fin by (simp add: sum.remove [of ?A k])
  finally have new: "lanes_total f (c(k := xs)) =
      sum_list (map f xs) + (\<Sum>x \<in> ?A - {k}. sum_list (map f (c x)))" .
  have "lanes_total f c = (\<Sum>x \<in> ?A. sum_list (map f (c x)))"
    by (rule lanes_total_superset [OF fin]) auto
  also have "\<dots> = sum_list (map f (c k)) + (\<Sum>x \<in> ?A - {k}. sum_list (map f (c x)))"
    using fin by (intro sum.remove) auto
  finally show ?thesis using new by simp
qed

lemma lanes_finite_upd: "lanes_finite c \<Longrightarrow> lanes_finite (c(k := xs))"
  unfolding lanes_finite_def by (rule finite_subset [of _ "insert k {x. c x \<noteq> []}"]) auto

section \<open>The contract\<close>

datatype 'e lane_op = Append 'e | Pull

text \<open>A run of timed appends and pulls, with the events that the pulls returned.\<close>

fun lane_run ::
  "('s \<Rightarrow> 'e \<Rightarrow> instant \<Rightarrow> 's) \<Rightarrow> ('s \<Rightarrow> instant \<Rightarrow> 's \<times> 'e option) \<Rightarrow> 's \<Rightarrow>
   (instant \<times> 'e lane_op) list \<Rightarrow> 's \<times> 'e list" where
  "lane_run put pull s [] = (s, [])"
| "lane_run put pull s ((now, Append e) # xs) = lane_run put pull (put s e now) xs"
| "lane_run put pull s ((now, Pull) # xs) =
     (case pull s now of
        (s', None) \<Rightarrow> lane_run put pull s' xs
      | (s', Some e) \<Rightarrow> (case lane_run put pull s' xs of (s'', es) \<Rightarrow> (s'', e # es)))"

fun appended :: "(instant \<times> 'e lane_op) list \<Rightarrow> 'e list" where
  "appended [] = []"
| "appended ((_, Append e) # xs) = e # appended xs"
| "appended ((_, Pull) # xs) = appended xs"

text \<open>\<open>inv n t s\<close>: the state is consistent at time \<open>t\<close> after at most \<open>n\<close> operations.\<close>

locale lane_queue =
  fixes inv :: "nat \<Rightarrow> instant \<Rightarrow> 's \<Rightarrow> bool"
    and bound :: nat
    and contents :: "'s \<Rightarrow> 'k \<Rightarrow> 'e list"
    and key :: "'e \<Rightarrow> 'k"
    and due :: "instant \<Rightarrow> 'e \<Rightarrow> bool"
    and put :: "'s \<Rightarrow> 'e \<Rightarrow> instant \<Rightarrow> 's"
    and putback :: "'s \<Rightarrow> 'e \<Rightarrow> instant \<Rightarrow> 's"
    and pull :: "'s \<Rightarrow> instant \<Rightarrow> 's \<times> 'e option"
  assumes put_inv: "inv n t s \<Longrightarrow> Suc n < bound \<Longrightarrow> t \<le> now \<Longrightarrow> inv (Suc n) now (put s e now)"
    and put_contents: "inv n t s \<Longrightarrow> Suc n < bound \<Longrightarrow> t \<le> now \<Longrightarrow>
      contents (put s e now) = (contents s)(key e := contents s (key e) @ [e])"
    and putback_inv: "inv n t s \<Longrightarrow> Suc n < bound \<Longrightarrow> t \<le> now \<Longrightarrow> inv (Suc n) now (putback s e now)"
    and putback_contents: "inv n t s \<Longrightarrow> Suc n < bound \<Longrightarrow> t \<le> now \<Longrightarrow>
      contents (putback s e now) = (contents s)(key e := e # contents s (key e))"
    and pull_inv: "inv n t s \<Longrightarrow> Suc n < bound \<Longrightarrow> t \<le> now \<Longrightarrow> pull s now = (s', r) \<Longrightarrow>
      inv (Suc n) now s'"
    and pull_Some: "inv n t s \<Longrightarrow> Suc n < bound \<Longrightarrow> t \<le> now \<Longrightarrow> pull s now = (s', Some e) \<Longrightarrow>
      due now e \<and> contents s = (contents s')(key e := e # contents s' (key e))"
    and pull_None: "inv n t s \<Longrightarrow> Suc n < bound \<Longrightarrow> t \<le> now \<Longrightarrow> pull s now = (s', None) \<Longrightarrow>
      contents s' = contents s \<and> (\<forall>k e es. contents s k = e # es \<longrightarrow> \<not> due now e)"
begin

lemma pull_None_iff:
  assumes "inv n t s" "Suc n < bound" "t \<le> now" "pull s now = (s', r)"
  shows "r = None \<longleftrightarrow> (\<forall>k e es. contents s k = e # es \<longrightarrow> \<not> due now e)"
proof (cases r)
  case None
  then show ?thesis using pull_None assms by auto
next
  case (Some e)
  then show ?thesis using pull_Some [of n t s now s' e] assms by (metis fun_upd_same option.discI)
qed

lemma run_ok:
  assumes "inv n t s" and "n + length xs < bound" and "sorted (t # map fst xs)"
    and "lane_run put pull s xs = (s', es)"
  shows "inv (n + length xs) (last (t # map fst xs)) s' \<and>
    filter (\<lambda>e. key e = k) es @ contents s' k =
    contents s k @ filter (\<lambda>e. key e = k) (appended xs)"
  using assms
proof (induction xs arbitrary: n t s es)
  case (Cons x xs)
  obtain now oper where x: "x = (now, oper)" by (cases x)
  have t: "t \<le> now" and srt: "sorted (now # map fst xs)" and n: "Suc n < bound"
    "Suc n + length xs < bound"
    using Cons.prems(2,3) by (simp_all add: x)
  show ?case
  proof (cases oper)
    case (Append e)
    let ?s = "put s e now"
    have "lane_run put pull ?s xs = (s', es)" using Cons.prems(4) by (simp add: x Append)
    from Cons.IH [OF put_inv [OF Cons.prems(1) n(1) t] n(2) srt this]
    show ?thesis by (simp add: x Append put_contents [OF Cons.prems(1) n(1) t])
  next
    case Pull
    obtain s1 r where pull: "pull s now = (s1, r)" by fastforce
    note inv1 = pull_inv [OF Cons.prems(1) n(1) t pull]
    show ?thesis
    proof (cases r)
      case None
      then have "lane_run put pull s1 xs = (s', es)" using Cons.prems(4) pull by (simp add: x Pull)
      from Cons.IH [OF inv1 n(2) srt this]
      show ?thesis
        using pull_None [OF Cons.prems(1) n(1) t pull [unfolded None]] by (simp add: x Pull)
    next
      case (Some e)
      obtain es' where run: "lane_run put pull s1 xs = (s', es')" and es: "es = e # es'"
        using Cons.prems(4) pull Some by (auto simp: x Pull split: prod.splits)
      from Cons.IH [OF inv1 n(2) srt run]
      show ?thesis
        using pull_Some [OF Cons.prems(1) n(1) t pull [unfolded Some]] by (auto simp: x Pull es)
    qed
  qed
qed simp

end

end
