(* ===== verification/Local_Queue_Props.thy ===== *)
theory Local_Queue_Props
  imports Local_Queue_Inv Lane_Queue "HOL-Library.Option_ord" "HOL-Library.List_Lexorder"
    "HOL-Library.Char_ord"
begin

text \<open>
  The promises of the queue of one local subscription. The queue operations are an instance of
  the lane-queue contract (\<open>lq\<close>), so every lane is first in, first out. Histories of operations
  from the empty queue reach only states that satisfy the invariant, which gives the properties
  below without any assumption on the state.
\<close>

section \<open>Totals over all lanes\<close>

lemma lanes_finite_contents [simp]: "lanes_finite (lane_contents s)"
  unfolding lanes_finite_def
  by (rule finite_subset [of _ "fset (fmdom (lanes s))"])
    (auto simp: lane_contents_def fmlookup_dom_iff split: option.splits)

lemma lanes_total_lanes:
  "lanes_total f (lane_contents s) = fmsum (\<lambda>_ l. sum_list (map f (events l))) (lanes s)"
proof -
  have "lanes_total f (lane_contents s) =
      (\<Sum>k \<in> fset (fmdom (lanes s)). sum_list (map f (lane_contents s k)))"
    by (rule lanes_total_superset)
      (auto simp: lane_contents_def fmlookup_dom_iff split: option.splits)
  also have "\<dots> = fmsum (\<lambda>_ l. sum_list (map f (events l))) (lanes s)"
    unfolding fmsum_def by (rule sum.cong) (auto simp: lane_contents_def fmlookup_dom_iff)
  finally show ?thesis .
qed

lemma pending_total_lanes: "pending_total s = lanes_total (\<lambda>_. 1) (lane_contents s)"
  by (simp add: pending_total_def lanes_total_lanes sum_list_triv)

section \<open>The empty queue and clearing\<close>

lemma queue_inv_empty:
  "lanes s = fmempty \<Longrightarrow> ready_lanes s = [] \<Longrightarrow> delayed_lanes s = [] \<Longrightarrow> pending_count s = 0 \<Longrightarrow>
   delayed_live_count s = 0 \<Longrightarrow> delayed_stale_count s = 0 \<Longrightarrow> queue_inv t s"
  by (simp add: queue_inv_but_def counters_ok_def key_ok_def pending_total_def delayed_total_def
      fmcount_def)

lemma default_inv: "queue_inv t local_queue_state_default" "versions_le n local_queue_state_default"
  "lane_contents local_queue_state_default = (\<lambda>_. [])"
  by (auto simp: local_queue_state_default_def versions_le_def lane_contents_def intro: queue_inv_empty)

lemma clear_pending_inv:
  "queue_inv t (fst (clear_pending it itf s))" "versions_le n (fst (clear_pending it itf s))"
  "lane_contents (fst (clear_pending it itf s)) = (\<lambda>_. [])"
  by (auto simp: clear_pending_def Let_def versions_le_def lane_contents_def intro: queue_inv_empty)

lemma clear_pending_total:
  assumes "iteration_order it" and "iteration_order itf"
  shows "sum_list (map f (snd (clear_pending it itf s))) =
    lanes_total f (lane_contents s) + fmsum (\<lambda>_ fl. f (flight_event fl)) (in_flight s)"
proof -
  have "sum_list (map f (concat (map (\<lambda>k. events (the (fmlookup (lanes s) k))) (it (lanes s))))) =
      sum_list (map (\<lambda>k. sum_list (map f (events (the (fmlookup (lanes s) k))))) (it (lanes s)))"
    by (simp add: sum_list_map_concat comp_def)
  then show ?thesis
    using iteration_order_sum [OF assms(1), of "\<lambda>_ l. sum_list (map f (events l))" "lanes s"]
      iteration_order_sum [OF assms(2), of "\<lambda>_ fl. f (flight_event fl)" "in_flight s"]
    by (simp add: clear_pending_def Let_def lanes_total_lanes comp_def)
qed

section \<open>The queue as an instance of the contract\<close>

interpretation lq: lane_queue
  "\<lambda>n t s. queue_inv t s \<and> versions_le n s \<and> iteration_order it" "2 ^ 64" lane_contents ev_ordering_key
  event_due "enqueue_back_at it" "enqueue_front_at it" "pop_ready it"
  for it
proof (unfold_locales, goal_cases)
  case (1 n t s now e)
  then show ?case using enqueue_back_ok(1,2) by auto
next
  case (2 n t s now e)
  then show ?case using enqueue_back_ok(3) by auto
next
  case (3 n t s now e)
  then show ?case using enqueue_front_ok(1,2) by auto
next
  case (4 n t s now e)
  then show ?case using enqueue_front_ok(3) by auto
next
  case (5 n t s now s' r)
  then show ?case using pop_ready_ok(1,2) by auto
next
  case (6 n t s now s' e)
  then have "popped now s s' (Some e)" using pop_ready_ok(4) by auto
  then show ?case by (simp add: popped_def)
next
  case (7 n t s now s')
  then have "popped now s s' None" using pop_ready_ok(4) by auto
  then show ?case using 7 pop_ready_ok(6) by (auto simp: popped_def)
qed

section \<open>Histories of operations\<close>

text \<open>The calls that the transport makes on one queue. Each runs under the queue lock and reads
  the clock there, so the times of a history never decrease.\<close>

datatype queue_op =
  EnqueueBack local_event | EnqueueFront local_event | PopReady | NextReadyDelay | ClearPending

fun queue_op_step ::
  "lane_order \<Rightarrow> flight_order \<Rightarrow> local_queue_state \<Rightarrow> instant \<times> queue_op \<Rightarrow> local_queue_state" where
  "queue_op_step it itf s (now, EnqueueBack e) = enqueue_back_at it s e now"
| "queue_op_step it itf s (now, EnqueueFront e) = enqueue_front_at it s e now"
| "queue_op_step it itf s (now, PopReady) = fst (pop_ready it s now)"
| "queue_op_step it itf s (now, NextReadyDelay) = fst (next_ready_delay s now)"
| "queue_op_step it itf s (now, ClearPending) = fst (clear_pending it itf s)"

definition queue_history ::
  "lane_order \<Rightarrow> flight_order \<Rightarrow> (instant \<times> queue_op) list \<Rightarrow> local_queue_state" where
  "queue_history it itf xs = foldl (queue_op_step it itf) local_queue_state_default xs"

definition history_time :: "(instant \<times> queue_op) list \<Rightarrow> instant" where
  "history_time xs = (if xs = [] then 0 else fst (last xs))"

text \<open>A history that the clock and the width of the version counters allow.\<close>

definition history_ok :: "(instant \<times> queue_op) list \<Rightarrow> bool" where
  "history_ok xs \<longleftrightarrow> sorted (map fst xs) \<and> length xs + 1 < 2 ^ 64"

lemma next_ready_delay_inv:
  assumes "queue_inv t s" and "versions_le n s" and "t \<le> now"
  shows "queue_inv now (fst (next_ready_delay s now))" "versions_le n (fst (next_ready_delay s now))"
  using discard_inv [OF queue_inv_mono [OF assms(1,3)]] assms(2)
  by (simp_all add: next_ready_delay_def Let_def versions_le_def)

lemma queue_op_step_inv:
  assumes "queue_inv t s" "versions_le n s" "n + 1 < 2 ^ 64" "t \<le> now" "iteration_order it"
  shows "queue_inv now (queue_op_step it itf s (now, x)) \<and>
    versions_le (n + 1) (queue_op_step it itf s (now, x))"
proof (cases x)
  case (EnqueueBack e)
  then show ?thesis using enqueue_back_ok(1,2) assms by simp
next
  case (EnqueueFront e)
  then show ?thesis using enqueue_front_ok(1,2) assms by simp
next
  case PopReady
  obtain s' r where "pop_ready it s now = (s', r)" by fastforce
  then show ?thesis using pop_ready_ok(1,2) assms PopReady by simp
next
  case NextReadyDelay
  then show ?thesis
    using next_ready_delay_inv [OF assms(1,2,4)] versions_le_mono [of n _ "n + 1"] by simp
next
  case ClearPending
  then show ?thesis using clear_pending_inv by simp
qed

lemma queue_history_inv:
  assumes "iteration_order it"
  shows "sorted (map fst xs) \<Longrightarrow> length xs < 2 ^ 64 \<Longrightarrow>
    queue_inv (history_time xs) (queue_history it itf xs) \<and>
    versions_le (length xs) (queue_history it itf xs)"
proof (induction xs rule: rev_induct)
  case Nil
  then show ?case by (simp add: queue_history_def default_inv)
next
  case (snoc x xs)
  obtain now oper where x: "x = (now, oper)" by (cases x)
  have "queue_inv (history_time xs) (queue_history it itf xs)"
    "versions_le (length xs) (queue_history it itf xs)"
    using snoc by (simp_all add: sorted_append)
  moreover have "history_time xs \<le> now"
    using snoc.prems(1) by (cases xs rule: rev_cases) (auto simp: history_time_def sorted_append x)
  ultimately have "queue_inv now (queue_op_step it itf (queue_history it itf xs) (now, oper)) \<and>
      versions_le (length xs + 1) (queue_op_step it itf (queue_history it itf xs) (now, oper))"
    using snoc.prems(2) assms by (intro queue_op_step_inv) auto
  then show ?case by (simp add: queue_history_def history_time_def x)
qed

lemma history_reached:
  assumes "iteration_order it" and "history_ok xs"
  shows "queue_inv (history_time xs) (queue_history it itf xs)"
    "versions_le (length xs) (queue_history it itf xs)"
  using queue_history_inv [OF assms(1), of xs itf] assms(2) by (auto simp: history_ok_def)

lemma history_length: "history_ok xs \<Longrightarrow> length xs + 1 < 2 ^ 64"
  by (simp add: history_ok_def)

section \<open>Properties\<close>

text \<open>An event of a concrete run, with a given name, ordering key and earliest delivery.\<close>

definition sample_event :: "string \<Rightarrow> string option \<Rightarrow> instant option \<Rightarrow> local_event" where
  "sample_event name k d = \<lparr>ev_topic = ''orders'', ev_id = name, ev_timestamp = 0, ev_headers = fmempty,
     ev_ordering_key = k, weight_bytes = 1, ev_payload = SharedNative \<lparr>native_type = 0, native_object = 0\<rparr>,
     not_before = d\<rparr>"

definition sample_history :: "(instant \<times> queue_op) list" where
  "sample_history =
     [(1, EnqueueBack (sample_event ''a'' (Some ''k'') (Some 5))),
      (2, EnqueueBack (sample_event ''b'' (Some ''k'') None)),
      (2, EnqueueBack (sample_event ''c'' None None))]"

lemma sample_history_ok: "history_ok sample_history" "history_time sample_history = 2"
  by (simp_all add: history_ok_def history_time_def sample_history_def)

abbreviation sample_queue :: "(instant \<times> queue_op) list \<Rightarrow> local_queue_state" where
  "sample_queue \<equiv> queue_history key_order key_order"

text \<open>C25: After any history of operations, a receiver that asks the queue at any later time gets an
  event exactly when the head of some lane is due. It then gets the head of its lane, that head
  is due, it leaves its lane and nothing else changes in any lane. When no head is due the lanes
  are unchanged.\<close>

theorem pop_ready_serves_due_heads:
  assumes "iteration_order it" and "history_ok xs" and "history_time xs \<le> now"
    and "pop_ready it (queue_history it itf xs) now = (s', r)"
  shows "(case r of
      None \<Rightarrow> lane_contents s' = lane_contents (queue_history it itf xs)
    | Some e \<Rightarrow> event_due now e \<and> lane_contents (queue_history it itf xs) =
        (lane_contents s')(ev_ordering_key e := e # lane_contents s' (ev_ordering_key e))) \<and>
    (r = None \<longleftrightarrow>
      (\<forall>k e es. lane_contents (queue_history it itf xs) k = e # es \<longrightarrow> \<not> event_due now e))"
proof -
  note h = history_reached [OF assms(1,2), of itf]
  have "popped now (queue_history it itf xs) s' r"
    using pop_ready_ok(4) [OF h(1) assms(3) h(2) history_length [OF assms(2)] assms(1,4)] .
  moreover have "r = None \<longleftrightarrow>
      (\<forall>k e es. lane_contents (queue_history it itf xs) k = e # es \<longrightarrow> \<not> event_due now e)"
    using lq.pull_None_iff [OF conjI [OF h(1) conjI [OF h(2) assms(1)]] _ assms(3,4)] history_length [OF assms(2)] by simp
  ultimately show ?thesis by (cases r) (simp_all add: popped_def)
qed

lemma sample_pop: "snd (pop_ready key_order (sample_queue sample_history) 3) = Some (sample_event ''c'' None None)"
  by code_simp

theorem pop_ready_serves_due_heads_witness:
  "history_ok sample_history \<and> history_time sample_history \<le> 3 \<and>
   event_due 3 (sample_event ''c'' None None) \<and>
   lane_contents (sample_queue sample_history) = (lane_contents (fst (pop_ready key_order (sample_queue sample_history) 3)))
     (None := sample_event ''c'' None None # lane_contents (fst (pop_ready key_order (sample_queue sample_history) 3)) None)"
proof -
  have "pop_ready key_order (sample_queue sample_history) 3 =
      (fst (pop_ready key_order (sample_queue sample_history) 3), Some (sample_event ''c'' None None))"
    using sample_pop by (metis prod.collapse)
  from pop_ready_serves_due_heads [OF key_order_ok sample_history_ok(1) _ this]
  show ?thesis by (simp add: sample_history_ok) (simp add: sample_event_def)
qed

text \<open>C21: Every lane of a subscription queue is first in, first out: in any run of enqueues and
  receives from the empty queue, the events received with a given ordering key, followed by
  those still queued with that key, are exactly the events enqueued with that key, in order.
  Nothing is lost, duplicated or overtaken within a key, whatever the delays.\<close>

theorem lanes_fifo:
  assumes "iteration_order it" and "sorted (map fst xs)" and "length xs < 2 ^ 64"
    and "lane_run (enqueue_back_at it) (pop_ready it) local_queue_state_default xs = (s', es)"
  shows "filter (\<lambda>e. ev_ordering_key e = k) es @ lane_contents s' k =
    filter (\<lambda>e. ev_ordering_key e = k) (appended xs)"
  using lq.run_ok [of 0 local_queue_state_default 0 it xs s' es k] assms default_inv
  by simp

theorem lanes_fifo_witness:
  "let xs = [(1, Append (sample_event ''a'' (Some ''k'') (Some 5))), (2, Append (sample_event ''b'' (Some ''k'') None)),
             (3, Pull), (6, Pull), (7, Pull)];
       es = snd (lane_run (enqueue_back_at key_order) (pop_ready key_order) local_queue_state_default xs)
   in map ev_id (filter (\<lambda>e. ev_ordering_key e = Some ''k'') es) = [''a'', ''b'']"
proof -
  let ?xs = "[(1, Append (sample_event ''a'' (Some ''k'') (Some 5))), (2, Append (sample_event ''b'' (Some ''k'') None)),
    (3, Pull), (6, Pull), (7, Pull)]"
  let ?run = "lane_run (enqueue_back_at key_order) (pop_ready key_order) local_queue_state_default ?xs"
  have "lane_contents (fst ?run) (Some ''k'') = []" by code_simp
  with lanes_fifo [OF key_order_ok _ _ prod.collapse [of ?run, symmetric], of "Some ''k''"]
  show ?thesis by (simp add: Let_def) (simp add: sample_event_def)
qed

text \<open>The sleep of a receiver is exact. When a receive at time \<open>now\<close> finds nothing due, the
  delay computed next is absent exactly when no event is queued at all; otherwise no head
  becomes due before the delay has passed, and some head is due when it has.\<close>

theorem receiver_sleep_exact:
  assumes "iteration_order it" and "history_ok xs" and "history_time xs \<le> now"
    and "pop_ready it (queue_history it itf xs) now = (s', None)"
    and "next_ready_delay s' now = (s'', d)"
  shows "(d = None \<longleftrightarrow> (\<forall>k. lane_contents (queue_history it itf xs) k = [])) \<and>
    (\<forall>w. d = Some w \<longrightarrow>
      (\<forall>k e es u. lane_contents (queue_history it itf xs) k = e # es \<and> u < now + w \<longrightarrow> \<not> event_due u e) \<and>
      (\<exists>k e es. lane_contents (queue_history it itf xs) k = e # es \<and> event_due (now + w) e))"
proof -
  let ?s = "queue_history it itf xs"
  note h = history_reached [OF assms(1,2), of itf]
  note pop = pop_ready_ok [OF h(1) assms(3) h(2) history_length [OF assms(2)] assms(1,4)]
  have same: "lane_contents s' = lane_contents ?s" and rl: "ready_lanes s' = []"
    using pop(4) by (simp_all add: popped_def)
  note nrd = next_ready_delay_ok [OF pop(1) rl assms(5)]
  have "\<not> event_due u e" if "d = Some w" "lane_contents ?s k = e # es" "u < now + w" for w k e es u
  proof (cases "u \<le> now")
    case True
    then show ?thesis using pop(6) [OF refl] that(2) event_due_mono by blast
  next
    case False
    then show ?thesis using nrd(6) that same by simp
  qed
  moreover have "d = None" if "\<forall>k. lane_contents ?s k = []"
    using nrd(5) that same by (cases d) auto
  ultimately show ?thesis using nrd(4,5) same by auto
qed

definition sleeping_history :: "(instant \<times> queue_op) list" where
  "sleeping_history = [(1, EnqueueBack (sample_event ''a'' (Some ''k'') (Some 5)))]"

theorem receiver_sleep_exact_witness:
  "snd (next_ready_delay (fst (pop_ready key_order (sample_queue sleeping_history) 2)) 2) = Some 3 \<and>
   (\<nexists>k e es. lane_contents (sample_queue sleeping_history) k = e # es \<and> event_due 4 e) \<and>
   (\<exists>k e es. lane_contents (sample_queue sleeping_history) k = e # es \<and> event_due 5 e)"
proof -
  let ?p = "pop_ready key_order (sample_queue sleeping_history) 2"
  let ?d = "next_ready_delay (fst ?p) 2"
  have ok: "history_ok sleeping_history" "history_time sleeping_history \<le> 2"
    by (simp_all add: history_ok_def history_time_def sleeping_history_def)
  have "snd ?p = None" by code_simp
  then have p: "?p = (fst ?p, None)" by (metis prod.collapse)
  have d: "snd ?d = Some 3" by code_simp
  from receiver_sleep_exact [OF key_order_ok ok p prod.collapse [symmetric]] d
  show ?thesis by auto
qed



text \<open>Clearing a queue hands back every event it holds, queued or in flight, once each: the
  discarded events add up, under any measure, to what the queue held. Afterwards nothing is
  queued or in flight.\<close>

theorem clear_pending_complete:
  assumes "iteration_order it" and "iteration_order itf"
    and "clear_pending it itf s = (s', discarded)"
  shows "mset discarded = mset (concat (map (lane_contents s) (it (lanes s)))) +
      image_mset (\<lambda>t. flight_event (the (fmlookup (in_flight s) t))) (mset_set (fset (fmdom (in_flight s)))) \<and>
    sum_list (map f discarded) =
      lanes_total f (lane_contents s) + fmsum (\<lambda>_ fl. f (flight_event fl)) (in_flight s) \<and>
    lane_contents s' = (\<lambda>_. []) \<and> in_flight s' = fmempty \<and> is_pending_empty s'"
proof -
  have "map (\<lambda>k. events (the (fmlookup (lanes s) k))) (it (lanes s)) = map (lane_contents s) (it (lanes s))"
    using iteration_order_set [OF assms(1), of "lanes s"]
    by (auto simp: lane_contents_def fmlookup_dom_iff)
  moreover have "mset (itf (in_flight s)) = mset_set (fset (fmdom (in_flight s)))"
    using assms(2) by (metis iteration_order_def mset_set_set)
  moreover have "discarded = snd (clear_pending it itf s)" "s' = fst (clear_pending it itf s)"
    using assms(3) by simp_all
  ultimately show ?thesis
    using clear_pending_total [OF assms(1,2), of f s] clear_pending_inv(3) [of it itf s]
    by (simp add: clear_pending_def Let_def is_pending_empty_def del: map_eq_conv)
qed

theorem clear_pending_complete_witness:
  "let (s', discarded) = clear_pending key_order key_order (sample_queue sample_history) in
   sum_list (map (\<lambda>_. 1) discarded) = (3 :: nat) \<and> lane_contents s' = (\<lambda>_. [])"
proof -
  let ?c = "clear_pending key_order key_order (sample_queue sample_history)"
  have "fmsum (\<lambda>_ l. sum_list (map (\<lambda>_. 1) (events l))) (lanes (sample_queue sample_history)) = (3 :: nat)"
    "in_flight (sample_queue sample_history) = fmempty"
    by code_simp+
  then show ?thesis
    using clear_pending_complete [OF key_order_ok key_order_ok prod.collapse [of ?c, symmetric], of "\<lambda>_. 1"]
    by (simp add: lanes_total_lanes split_beta)
qed

text \<open>The heap of deadlines stays small: putting an event back leaves at most twice as many
  heap entries as there are delayed lanes, plus eight, however many entries have become stale.\<close>

theorem delayed_heap_bounded:
  assumes "iteration_order it" and "history_ok xs" and "history_time xs \<le> now"
    and "length (delayed_lanes (queue_history it itf xs)) + 1 < 2 ^ 64"
  shows "length (delayed_lanes (enqueue_front_at it (queue_history it itf xs) e now)) \<le>
    2 * delayed_total (enqueue_front_at it (queue_history it itf xs) e now) + 8"
proof -
  let ?s = "queue_history it itf xs" and ?k = "ev_ordering_key e"
  note h = history_reached [OF assms(1,2), of itf]
  define l where l: "l = (case fmlookup (lanes ?s) ?k of None \<Rightarrow> queue_lane_default | Some l \<Rightarrow> l)"
  let ?s' = "?s\<lparr>lanes := fmupd ?k (l\<lparr>events := e # events l\<rparr>) (lanes ?s),
      pending_count := pending_count ?s + 1\<rparr>"
  have "unat (version l) \<le> length xs"
    using h(2) by (auto simp: l queue_lane_default_def versions_le_def split: option.splits)
  moreover have "queue_inv_but {?k} (history_time xs) ?s'"
    by (rule add_event_inv_but [OF h(1) refl l]) auto
  moreover have "enqueue_front_at it ?s e now = schedule_lane_head_at it ?s' ?k now"
    by (simp add: enqueue_front_at_def l Let_def)
  ultimately show ?thesis
    using schedule_heap_bound [of ?k "history_time xs" ?s' it now "l\<lparr>events := e # events l\<rparr>"] assms history_length [OF assms(2)]
    by simp
qed

theorem delayed_heap_bounded_witness:
  "length (delayed_lanes (enqueue_front_at key_order (sample_queue sample_history)
     (sample_event ''d'' (Some ''k'') None) 3)) \<le>
   2 * delayed_total (enqueue_front_at key_order (sample_queue sample_history)
     (sample_event ''d'' (Some ''k'') None) 3) + 8"
proof -
  have "length (delayed_lanes (sample_queue sample_history)) = 1" by code_simp
  then show ?thesis
    using delayed_heap_bounded [OF key_order_ok sample_history_ok(1)] by (simp add: sample_history_ok)
qed

end
