(* ===== verification/Local_Bus.thy ===== *)
theory Local_Bus
  imports Outstanding_Budget Local_Queue_Props
begin

text \<open>
  The in-memory provider: \<open>src/src/local/local_event_bus_spi.rs\<close> (publish, subscribe, idle wait,
  shutdown), \<open>src/src/local/local_event_subscription.rs\<close> (receive, settle, close, drop),
  \<open>src/src/local/state/bus_state.rs\<close>, \<open>topic_subscriptions.rs\<close>, \<open>local_queue.rs\<close> and
  \<open>local_shared_state.rs\<close>.

  The record \<open>local_shared\<close> is everything the threads of a process share: the bus state behind its
  mutex, the budget, and three stores that stand for reference-counted objects. A queue
  (\<open>Arc<LocalQueue>\<close>) is an address in \<open>queue_store\<close>, and \<open>alive\<close> holds the addresses with a
  positive strong count, so a \<open>Weak<LocalQueue>\<close> upgrades exactly when its address is alive. A
  settlement handle (\<open>Arc<Mutex<LocalSettlementState>>\<close>) is an address in \<open>settlements\<close>;
  \<open>Arc::ptr_eq\<close> is equality of addresses.

  The source holds one lock at a time except where noted, so an operation is a sequence of
  critical sections. Each critical section is a definition of its own: \<open>publish_prepare\<close> (bus
  lock), \<open>publish_admit\<close> (queue lock, with the budget lock inside), \<open>signal_changed\<close> (bus lock),
  \<open>receive_iteration\<close>, \<open>settle\<close>, \<open>close_queue\<close> (queue lock), \<open>unregister\<close> (bus lock) and so on. The whole
  operations \<open>publish\<close>, \<open>subscribe\<close>, \<open>close_subscription\<close>, \<open>shutdown\<close> compose them in the order of
  the source. Operations that can panic return \<^const>\<open>None\<close> for the panic; provider errors are the
  left side of a sum. Poisoned locks are recovered by the source and do not appear.

  A \<open>BTreeMap\<close> is a finite map read in ascending key order. The iteration order of the topics,
  a hash map, is the parameter \<open>itt\<close>.
\<close>

section \<open>State\<close>

record local_queue =
  q_id :: id
  q_topic :: topic_address
  q_subscriber_id :: subscriber_id
  q_capacity :: usize
  q_state :: local_queue_state

record topic_subscriptions =
  queues :: "(id, nat) fmap"
  payload_type_id :: "type_id option"
  last_admission_start :: "id option"

definition topic_subscriptions_default :: topic_subscriptions where
  "topic_subscriptions_default =
     \<lparr>queues = fmempty, payload_type_id = None, last_admission_start = None\<rparr>"

record bus_state =
  topics :: "(topic_address, topic_subscriptions) fmap"
  subscription_ids :: "id fset"
  bus_closed :: bool
  bus_shutdown_outcome :: "shutdown_outcome option"
  change_version :: u64

definition bus_state_default :: bus_state where
  "bus_state_default = \<lparr>topics = fmempty, subscription_ids = {||}, bus_closed = False,
     bus_shutdown_outcome = None, change_version = 0\<rparr>"

record local_shared =
  bus :: bus_state
  shared_capacity :: usize
  outstanding :: outstanding_budget
  queue_store :: "(nat, local_queue) fmap"
  alive :: "nat fset"
  settlements :: "(nat, local_settlement_state) fmap"
  next_address :: nat

text \<open>\<open>LocalSharedState::new\<close>; \<^const>\<open>None\<close> is the failed assertion of \<open>OutstandingBudget::new\<close>.\<close>

definition local_shared_new :: "usize \<Rightarrow> usize \<Rightarrow> usize option \<Rightarrow> local_shared option" where
  "local_shared_new cap mc mw =
     map_option (\<lambda>b. \<lparr>bus = bus_state_default, shared_capacity = cap, outstanding = b,
       queue_store = fmempty, alive = {||}, settlements = fmempty, next_address = 0\<rparr>)
       (budget_new mc mw)"

type_synonym topic_order = "(topic_address, topic_subscriptions) fmap \<Rightarrow> topic_address list"

section \<open>Topic buckets\<close>

text \<open>The entries of a \<open>BTreeMap\<close> in ascending key order.\<close>

definition btree_keys :: "('k::linorder, 'v) fmap \<Rightarrow> 'k list" where
  "btree_keys m = sorted_list_of_set (fset (fmdom m))"

definition btree_values :: "('k::linorder, 'v) fmap \<Rightarrow> 'v list" where
  "btree_values m = map (\<lambda>k. the (fmlookup m k)) (btree_keys m)"

definition bucket_live_queues :: "nat fset \<Rightarrow> topic_subscriptions \<Rightarrow> topic_subscriptions \<times> nat list" where
  "bucket_live_queues live b =
     (let retained = fmfilter (\<lambda>i. the (fmlookup (queues b) i) |\<in>| live) (queues b);
          qs = btree_values retained;
          b1 = b\<lparr>queues := retained\<rparr>
      in (if qs = [] then b1\<lparr>payload_type_id := None\<rparr> else b1, qs))"

definition rotate_publish_queues ::
  "(nat \<Rightarrow> id) \<Rightarrow> topic_subscriptions \<Rightarrow> nat list \<Rightarrow> topic_subscriptions \<times> nat list" where
  "rotate_publish_queues qid b qs =
     (if qs = [] then (b, qs)
      else let start = (case Option.bind (last_admission_start b)
                          (\<lambda>last. find_position (\<lambda>a. last < qid a) qs) of None \<Rightarrow> 0 | Some i \<Rightarrow> i);
               qs' = drop start qs @ take start qs
           in (b\<lparr>last_admission_start := Some (qid (hd qs'))\<rparr>, qs'))"

definition bucket_remove :: "nat fset \<Rightarrow> topic_subscriptions \<Rightarrow> id \<Rightarrow> nat \<Rightarrow> topic_subscriptions \<times> bool" where
  "bucket_remove live b i a =
     (let matches = (case fmlookup (queues b) i of None \<Rightarrow> False | Some a' \<Rightarrow> a' |\<in>| live \<and> a' = a);
          b1 = (if matches then b\<lparr>queues := fmdrop i (queues b)\<rparr> else b)
      in (if queues b1 = fmempty then b1\<lparr>payload_type_id := None\<rparr> else b1, matches))"

section \<open>The bus state\<close>

definition live_queues_for_topic :: "nat fset \<Rightarrow> bus_state \<Rightarrow> topic_address \<Rightarrow> bus_state \<times> nat list" where
  "live_queues_for_topic live s t = (case fmlookup (topics s) t of
       None \<Rightarrow> (s, [])
     | Some b \<Rightarrow>
         let dead = filter (\<lambda>i. the (fmlookup (queues b) i) |\<notin>| live) (btree_keys (queues b));
             (b', qs) = bucket_live_queues live b;
             ids = subscription_ids s |-| fset_of_list dead
         in (s\<lparr>topics := (if queues b' = fmempty then fmdrop t (topics s) else fmupd t b' (topics s)),
               subscription_ids := ids\<rparr>, qs))"

fun live_queues_of :: "nat fset \<Rightarrow> bus_state \<Rightarrow> topic_address list \<Rightarrow> bus_state \<times> nat list" where
  "live_queues_of live s [] = (s, [])"
| "live_queues_of live s (t # ts) =
     (case live_queues_for_topic live s t of
        (s1, qs) \<Rightarrow> (case live_queues_of live s1 ts of (s2, qs') \<Rightarrow> (s2, qs @ qs')))"

definition live_queues :: "topic_order \<Rightarrow> nat fset \<Rightarrow> bus_state \<Rightarrow> bus_state \<times> nat list" where
  "live_queues itt live s = live_queues_of live s (itt (topics s))"

text \<open>The loop of \<open>remove_stale_id\<close> stops at the first bucket with a dead entry for the id.\<close>

fun remove_stale_entry ::
  "nat fset \<Rightarrow> id \<Rightarrow> topic_address list \<Rightarrow> (topic_address, topic_subscriptions) fmap \<Rightarrow>
   (topic_address, topic_subscriptions) fmap" where
  "remove_stale_entry live i [] ts = ts"
| "remove_stale_entry live i (t # rest) ts = (case fmlookup ts t of
       None \<Rightarrow> remove_stale_entry live i rest ts
     | Some b \<Rightarrow> (case fmlookup (queues b) i of
         None \<Rightarrow> remove_stale_entry live i rest ts
       | Some a \<Rightarrow>
           if a |\<in>| live then remove_stale_entry live i rest ts
           else let b1 = b\<lparr>queues := fmdrop i (queues b)\<rparr>
                in fmupd t (if queues b1 = fmempty then b1\<lparr>payload_type_id := None\<rparr> else b1) ts))"

definition remove_stale_id :: "topic_order \<Rightarrow> nat fset \<Rightarrow> bus_state \<Rightarrow> id \<Rightarrow> bus_state" where
  "remove_stale_id itt live s i =
     (let ts = remove_stale_entry live i (itt (topics s)) (topics s)
      in s\<lparr>subscription_ids := subscription_ids s |-| {|i|},
           topics := fmfilter (\<lambda>t. queues (the (fmlookup ts t)) \<noteq> fmempty) ts\<rparr>)"

definition signal_changed :: "local_shared \<Rightarrow> local_shared" where
  "signal_changed s = s\<lparr>bus := (bus s)\<lparr>change_version := change_version (bus s) + 1\<rparr>\<rparr>"

section \<open>Errors\<close>

definition operation_error :: "string \<Rightarrow> string option \<Rightarrow> string \<Rightarrow> spi_error" where
  "operation_error operation resource kind =
     OperationError ''local'' operation resource kind (Some False) kind"

definition pre_admission_publish_error :: "string option \<Rightarrow> string \<Rightarrow> spi_error" where
  "pre_admission_publish_error resource kind =
     PublishError ''local'' resource kind (Some False) NotAccepted kind"

definition missing_native_payload_weight_error :: "string \<Rightarrow> spi_error" where
  "missing_native_payload_weight_error t =
     pre_admission_publish_error (Some t) ''missing_native_payload_weight''"

definition invalid_token_error :: "string option \<Rightarrow> string \<Rightarrow> spi_error" where
  "invalid_token_error resource reason =
     InvalidSettlementToken ''local'' ''settle'' resource reason (Some False) reason"

section \<open>Publishing\<close>

definition validate_message :: "outbound_message \<Rightarrow> topic_address \<Rightarrow> spi_error + unit" where
  "validate_message m t = (case out_payload m of
       Native _ \<Rightarrow> Inr ()
     | Encoded _ \<Rightarrow> Inl (pre_admission_publish_error (Some t) ''unsupported_payload_mode''))"

fun native_payload_type_id :: "transport_payload \<Rightarrow> type_id option" where
  "native_payload_type_id (Native v) = Some (native_type v)"
| "native_payload_type_id (Encoded _) = None"

definition queue_id_at :: "local_shared \<Rightarrow> nat \<Rightarrow> id" where
  "queue_id_at s a = q_id (the (fmlookup (queue_store s) a))"

text \<open>The section under the bus lock: the queues to offer the event to, in rotation order.\<close>

definition publish_select ::
  "local_shared \<Rightarrow> outbound_message \<Rightarrow> type_id \<Rightarrow> local_shared \<times> (spi_error + nat list)" where
  "publish_select s m ty =
     (let t = out_topic m in
      if bus_closed (bus s)
      then (s, Inl (pre_admission_publish_error (Some t) ''provider_closed''))
      else case live_queues_for_topic (alive s) (bus s) t of
        (bs, qs) \<Rightarrow>
          let s1 = s\<lparr>bus := bs\<rparr>; bucket = fmlookup (topics bs) t in
          if (case bucket of None \<Rightarrow> False
              | Some b \<Rightarrow> (case payload_type_id b of None \<Rightarrow> False | Some ty' \<Rightarrow> ty' \<noteq> ty))
          then (s1, Inl (pre_admission_publish_error (Some t) ''topic_type_conflict''))
          else if requires_weight (outstanding s) \<and> out_native_payload_weight_bytes m = None
          then (s1, Inl (missing_native_payload_weight_error t))
          else (case bucket of
              None \<Rightarrow> (s1, Inr qs)
            | Some b \<Rightarrow> (case rotate_publish_queues (queue_id_at s) b qs of
                (b', qs') \<Rightarrow> (s1\<lparr>bus := bs\<lparr>topics := fmupd t b' (topics bs)\<rparr>\<rparr>, Inr qs'))))"

definition publish_prepare ::
  "instant \<Rightarrow> instant \<Rightarrow> local_shared \<Rightarrow> outbound_message \<Rightarrow>
   (local_shared \<times> (spi_error + local_event \<times> nat list)) option" where
  "publish_prepare imax now s m =
     (let t = out_topic m in
      case validate_message m t of
        Inl e \<Rightarrow> Some (s, Inl e)
      | Inr _ \<Rightarrow> (case local_event_transport imax now t m of
          None \<Rightarrow> None
        | Some None \<Rightarrow> Some (s, Inl (pre_admission_publish_error (Some t) ''delay_deadline_overflow''))
        | Some (Some event) \<Rightarrow> (case native_payload_type_id (out_payload m) of
            None \<Rightarrow> None
          | Some ty \<Rightarrow> (case publish_select s m ty of
              (s', Inl e) \<Rightarrow> Some (s', Inl e)
            | (s', Inr qs) \<Rightarrow> Some (s', Inr
                (if requires_weight (outstanding s') then event else event\<lparr>weight_bytes := 0\<rparr>, qs))))))"

text \<open>One turn of the loop over the queues, under the lock of the queue at address \<open>a\<close>. The
  addition in the capacity test is that of \<open>usize\<close>.\<close>

definition publish_admit ::
  "lane_order \<Rightarrow> instant \<Rightarrow> local_event \<Rightarrow> local_shared \<Rightarrow> nat \<Rightarrow> local_shared \<times> destination_admission option" where
  "publish_admit it now event s a = (case fmlookup (queue_store s) a of
       None \<Rightarrow> (s, None)
     | Some q \<Rightarrow>
         if q_topic q \<noteq> ev_topic event then (s, None)
         else let st = q_state q in
           if queue_closed st
           then (s\<lparr>outstanding := record_rejection (outstanding s) SubscriptionClosed\<rparr>,
                 Some (destination_admission_rejected (q_id q) (q_subscriber_id q) SubscriptionClosed
                   ''subscription is closed''))
           else if q_capacity q \<le> pending_count st + of_nat (fmlen (in_flight st))
           then (s\<lparr>outstanding := record_rejection (outstanding s) SubscriptionCapacity\<rparr>,
                 Some (destination_admission_rejected (q_id q) (q_subscriber_id q) SubscriptionCapacity
                   ''subscription queue is full''))
           else (case try_reserve (outstanding s) (weight_bytes event) of
               (b, Inl kind) \<Rightarrow> (s\<lparr>outstanding := b\<rparr>,
                 Some (destination_admission_rejected (q_id q) (q_subscriber_id q) kind
                   ''provider outstanding capacity is full''))
             | (b, Inr _) \<Rightarrow>
                 (s\<lparr>outstanding := b,
                    queue_store := fmupd a (q\<lparr>q_state := enqueue_back_at it st event now\<rparr>) (queue_store s)\<rparr>,
                  Some (destination_admission_new (q_id q) (q_subscriber_id q) Accepted))))"

text \<open>The loop; \<open>clk i\<close> is the clock when the \<open>i\<close>-th queue is served.\<close>

fun publish_loop ::
  "lane_order \<Rightarrow> (nat \<Rightarrow> instant) \<Rightarrow> local_event \<Rightarrow> local_shared \<Rightarrow> nat list \<Rightarrow>
   local_shared \<times> destination_admission list" where
  "publish_loop it clk event s [] = (s, [])"
| "publish_loop it clk event s (a # as) =
     (case publish_admit it (clk 0) event s a of
        (s1, r) \<Rightarrow> (case publish_loop it (\<lambda>i. clk (Suc i)) event s1 as of
          (s2, rs) \<Rightarrow> (s2, (case r of None \<Rightarrow> rs | Some d \<Rightarrow> d # rs))))"

definition publish ::
  "lane_order \<Rightarrow> instant \<Rightarrow> instant \<Rightarrow> (nat \<Rightarrow> instant) \<Rightarrow> local_shared \<Rightarrow> outbound_message \<Rightarrow>
   (local_shared \<times> (spi_error + publish_acknowledgement)) option" where
  "publish it imax now clk s m = (case publish_prepare imax now s m of
       None \<Rightarrow> None
     | Some (s1, Inl e) \<Rightarrow> Some (s1, Inl e)
     | Some (s1, Inr (event, qs)) \<Rightarrow> (case publish_loop it clk event s1 qs of
         (s2, admissions) \<Rightarrow>
           let s3 = (if \<exists>d \<in> set admissions. adm_status d = Accepted then signal_changed s2 else s2)
           in Some (s3, Inr (DestinationAdmissions (sort_key adm_subscription_id admissions)))))"

section \<open>Subscribing\<close>

text \<open>The result is the address of the new receiver's queue.\<close>

definition subscribe ::
  "topic_order \<Rightarrow> local_shared \<Rightarrow> spi_subscription_request \<Rightarrow> local_shared \<times> (spi_error + nat)" where
  "subscribe itt s r =
     (let i = req_subscription_id r; t = req_topic r;
          q = \<lparr>q_id = i, q_topic = t, q_subscriber_id = req_subscriber_id r,
               q_capacity = shared_capacity s, q_state = local_queue_state_default\<rparr>;
          fail = (\<lambda>s' kind. (s', Inl (operation_error ''subscribe'' (Some t) kind)))
      in if bus_closed (bus s) then fail s ''provider_closed''
         else if req_durability r \<noteq> Ephemeral \<or> req_group r \<noteq> None \<or> req_start_position r \<noteq> New
         then fail s ''unsupported_subscription_options''
         else let bs = fst (live_queues_for_topic (alive s) (bus s) t) in
           if (case Option.bind (fmlookup (topics bs) t) payload_type_id of
                 None \<Rightarrow> False | Some ty \<Rightarrow> ty \<noteq> req_payload_type_id r)
           then fail (s\<lparr>bus := bs\<rparr>) ''topic_type_conflict''
           else if i |\<in>| subscription_ids bs \<and>
             (\<exists>t' \<in> set (itt (topics bs)). case fmlookup (queues (the (fmlookup (topics bs) t'))) i of
                None \<Rightarrow> False | Some a \<Rightarrow> a |\<in>| alive s)
           then fail (s\<lparr>bus := bs\<rparr>) ''duplicate_subscription''
           else
             let bs1 = (if i |\<in>| subscription_ids bs then remove_stale_id itt (alive s) bs i else bs);
                 b = (case fmlookup (topics bs1) t of
                        None \<Rightarrow> topic_subscriptions_default | Some b \<Rightarrow> b);
                 a = next_address s;
                 b1 = b\<lparr>payload_type_id := Some (req_payload_type_id r), queues := fmupd i a (queues b)\<rparr>
             in (s\<lparr>bus := bs1\<lparr>topics := fmupd t b1 (topics bs1),
                              subscription_ids := finsert i (subscription_ids bs1)\<rparr>,
                   queue_store := fmupd a q (queue_store s), alive := finsert a (alive s),
                   next_address := Suc a\<rparr>, Inr a))"

section \<open>Receiving\<close>

text \<open>\<open>format!("{}", n)\<close> of an unsigned integer, and the token \<open>format!("{}:{sequence}", event_id)\<close>.\<close>

definition digit :: "nat \<Rightarrow> char" where
  "digit n = char_of (48 + n)"

fun decimal :: "nat \<Rightarrow> string" where
  "decimal n = (if n < 10 then [digit n] else decimal (n div 10) @ [digit (n mod 10)])"

declare decimal.simps [simp del]

definition delivery_token :: "string \<Rightarrow> u64 \<Rightarrow> string" where
  "delivery_token i n = i @ '':'' @ decimal (unat n)"

text \<open>What one turn of the loop of \<open>receive\<close> ends in: a result, or a wait on the condition
  variable for at most the given time.\<close>

datatype receive_step = ReceiveDone "spi_error + receive_outcome" | ReceiveWait duration

text \<open>One turn of the loop, under the queue lock. \<open>now\<close> is the clock reading passed to \<open>pop_ready\<close>,
  \<open>later\<close> the reading that \<open>enqueue_front\<close> takes when it puts the event back, \<open>elapsed\<close> the time
  since the call began.\<close>

definition receive_iteration ::
  "lane_order \<Rightarrow> instant \<Rightarrow> instant \<Rightarrow> duration \<Rightarrow> duration \<Rightarrow> local_shared \<Rightarrow> nat \<Rightarrow>
   (local_shared \<times> receive_step) option" where
  "receive_iteration it now later elapsed timeout s a = (case fmlookup (queue_store s) a of
       None \<Rightarrow> None
     | Some q \<Rightarrow>
         let put = (\<lambda>s' st. s'\<lparr>queue_store := fmupd a (q\<lparr>q_state := st\<rparr>) (queue_store s')\<rparr>) in
         if queue_closed (q_state q) then Some (s, ReceiveDone (Inr Closed))
         else (case pop_ready it (q_state q) now of
             (st, Some event) \<Rightarrow> (case checked_add (next_delivery_token st) 1 of
                 None \<Rightarrow> Some (put s (enqueue_front_at it st event later),
                   ReceiveDone (Inl (operation_error ''receive'' (Some (q_topic q)) ''settlement_token_exhausted'')))
               | Some sq \<Rightarrow>
                   let token = delivery_token (ev_id event) sq;
                       handle = next_address s;
                       st1 = st\<lparr>next_delivery_token := sq,
                         in_flight := fmupd token \<lparr>flight_event = event, flight_settlement = handle\<rparr> (in_flight st)\<rparr>;
                       s1 = (put s st1)\<lparr>settlements := fmupd handle \<lparr>token_id = token, disposition = None\<rparr> (settlements s),
                         next_address := Suc handle\<rparr>
                   in Some (signal_changed s1, ReceiveDone (Inr (Message (into_inbound event (q_id q) handle)))))
           | (st, None) \<Rightarrow>
               if timeout = 0 then Some (put s st, ReceiveDone (Inr ReceiveTimedOut))
               else if timeout < elapsed then Some (put s st, ReceiveDone (Inr ReceiveTimedOut))
               else let remaining = timeout - elapsed in
                 if remaining = 0 then Some (put s st, ReceiveDone (Inr ReceiveTimedOut))
                 else (case next_ready_delay st now of
                   (st1, delay) \<Rightarrow> Some (put s st1, ReceiveWait
                     (case delay of
                        None \<Rightarrow> remaining
                      | Some d \<Rightarrow> if d < remaining then d else remaining)))))"

text \<open>After the wait, with the lock held again: \<^const>\<open>None\<close> continues the loop.\<close>

definition receive_after_wait ::
  "bool \<Rightarrow> duration \<Rightarrow> duration \<Rightarrow> local_shared \<Rightarrow> nat \<Rightarrow> receive_outcome option" where
  "receive_after_wait timed_out elapsed timeout s a =
     (if timed_out \<and> timeout < elapsed
      then Some (if queue_closed (q_state (the (fmlookup (queue_store s) a))) then Closed else ReceiveTimedOut)
      else None)"

text \<open>What the clock and the other threads do around the waits of a receiver. In turn \<open>i\<close> the loop
  pops at \<open>pop_at i\<close>, puts an event back at \<open>requeue_at i\<close>, reads \<open>waited i\<close> as the time since the call
  before the wait and \<open>woken_after i\<close> after it; \<open>meanwhile i\<close> is what other threads do during the wait,
  and \<open>wait_timed_out i\<close> what the wait reports.\<close>

record receive_env =
  pop_at :: "nat \<Rightarrow> instant"
  requeue_at :: "nat \<Rightarrow> instant"
  waited :: "nat \<Rightarrow> duration"
  meanwhile :: "nat \<Rightarrow> local_shared \<Rightarrow> local_shared"
  wait_timed_out :: "nat \<Rightarrow> bool"
  woken_after :: "nat \<Rightarrow> duration"

text \<open>The whole \<open>receive\<close>, with fuel for the turns of its loop.\<close>

fun receive_loop ::
  "lane_order \<Rightarrow> receive_env \<Rightarrow> duration \<Rightarrow> nat \<Rightarrow> nat \<Rightarrow> local_shared \<Rightarrow> nat \<Rightarrow>
   (local_shared \<times> (spi_error + receive_outcome)) option" where
  "receive_loop it e timeout 0 i s a = None"
| "receive_loop it e timeout (Suc fuel) i s a =
     (case receive_iteration it (pop_at e i) (requeue_at e i) (waited e i) timeout s a of
        None \<Rightarrow> None
      | Some (s1, ReceiveDone r) \<Rightarrow> Some (s1, r)
      | Some (s1, ReceiveWait w) \<Rightarrow>
          let s2 = meanwhile e i s1 in
          (case receive_after_wait (wait_timed_out e i) (woken_after e i) timeout s2 a of
             Some r \<Rightarrow> Some (s2, Inr r)
           | None \<Rightarrow> receive_loop it e timeout fuel (Suc i) s2 a))"

section \<open>Settling\<close>

text \<open>\<open>settle\<close> on the receiver of the queue at address \<open>a\<close>, under the queue lock and the lock of the
  settlement state.\<close>

definition settle ::
  "lane_order \<Rightarrow> instant \<Rightarrow> local_shared \<Rightarrow> nat \<Rightarrow> settlement_token \<Rightarrow> delivery_disposition \<Rightarrow>
   (local_shared \<times> (spi_error + unit)) option" where
  "settle it now s a token d = (case fmlookup (queue_store s) a of
       None \<Rightarrow> None
     | Some q \<Rightarrow>
         let fail = (\<lambda>reason. Some (s, Inl (invalid_token_error (Some (q_topic q)) reason))) in
         if \<not> belongs_to token (q_id q) then fail ''foreign_subscription''
         else (case downcast_handle (token_state token) of
             None \<Rightarrow> fail ''unknown_token''
           | Some h \<Rightarrow> (case fmlookup (settlements s) h of
               None \<Rightarrow> None
             | Some ts \<Rightarrow> (case disposition ts of
                 Some previous \<Rightarrow>
                   if previous = d then Some (s, Inr ()) else fail ''conflicting_disposition''
               | None \<Rightarrow> (case fmlookup (in_flight (q_state q)) (token_id ts) of
                   None \<Rightarrow> fail ''unknown_token''
                 | Some delivery \<Rightarrow>
                     if flight_settlement delivery \<noteq> h then fail ''unknown_token''
                     else
                       let st = (q_state q)\<lparr>in_flight := fmdrop (token_id ts) (in_flight (q_state q))\<rparr>;
                           finish = (\<lambda>st' b. signal_changed
                             (s\<lparr>queue_store := fmupd a (q\<lparr>q_state := st'\<rparr>) (queue_store s),
                                outstanding := b,
                                settlements := fmupd h (ts\<lparr>disposition := Some d\<rparr>) (settlements s)\<rparr>))
                       in if d = Retry
                          then Some (finish (enqueue_front_at it st (flight_event delivery) now) (outstanding s), Inr ())
                          else map_option (\<lambda>b. (finish st b, Inr ()))
                            (release_reservation (outstanding s) 1 (weight_bytes (flight_event delivery))))))))"

section \<open>Closing\<close>

text \<open>The weights of discarded events are added as \<open>usize\<close> values.\<close>

definition total_weight :: "local_event list \<Rightarrow> usize" where
  "total_weight es = sum_list (map weight_bytes es)"

text \<open>Clearing a queue and giving its reservations back, the section that \<open>close\<close> and \<open>shutdown\<close>
  share.\<close>

definition drain_queue ::
  "lane_order \<Rightarrow> flight_order \<Rightarrow> local_shared \<Rightarrow> nat \<Rightarrow> local_queue \<Rightarrow> (local_shared \<times> local_event list) option" where
  "drain_queue it itf s a q =
     (case clear_pending it itf ((q_state q)\<lparr>queue_closed := True\<rparr>) of
        (st, discarded) \<Rightarrow>
          map_option (\<lambda>b. (s\<lparr>outstanding := b,
              queue_store := fmupd a (q\<lparr>q_state := st\<rparr>) (queue_store s)\<rparr>, discarded))
            (release_reservation (outstanding s) (of_nat (length discarded)) (total_weight discarded)))"

definition close_queue ::
  "lane_order \<Rightarrow> flight_order \<Rightarrow> local_shared \<Rightarrow> nat \<Rightarrow> local_shared option" where
  "close_queue it itf s a = (case fmlookup (queue_store s) a of
       None \<Rightarrow> None
     | Some q \<Rightarrow>
         if queue_closed (q_state q) then Some s
         else map_option fst (drain_queue it itf s a q))"

definition unregister :: "local_shared \<Rightarrow> nat \<Rightarrow> local_shared" where
  "unregister s a = (case fmlookup (queue_store s) a of
       None \<Rightarrow> s
     | Some q \<Rightarrow>
         let t = q_topic q; bs = bus s;
             (ts, removed) = (case fmlookup (topics bs) t of
                 None \<Rightarrow> (topics bs, False)
               | Some b \<Rightarrow> (case bucket_remove (alive s) b (q_id q) a of
                   (b', removed) \<Rightarrow> (fmupd t b' (topics bs), removed)));
             ids = (if removed then subscription_ids bs |-| {|q_id q|} else subscription_ids bs);
             ts1 = (case fmlookup ts t of
                 None \<Rightarrow> ts
               | Some b \<Rightarrow> if queues b = fmempty then fmdrop t ts else ts)
         in signal_changed (s\<lparr>bus := bs\<lparr>topics := ts1, subscription_ids := ids\<rparr>\<rparr>))"

definition close_subscription ::
  "lane_order \<Rightarrow> flight_order \<Rightarrow> local_shared \<Rightarrow> nat \<Rightarrow> local_shared option" where
  "close_subscription it itf s a = map_option (\<lambda>s'. unregister s' a) (close_queue it itf s a)"

text \<open>\<open>Drop\<close> closes the receiver and gives up its reference to the queue.\<close>

definition drop_subscription ::
  "lane_order \<Rightarrow> flight_order \<Rightarrow> local_shared \<Rightarrow> nat \<Rightarrow> local_shared option" where
  "drop_subscription it itf s a =
     map_option (\<lambda>s'. s'\<lparr>alive := alive s' |-| {|a|}\<rparr>) (close_subscription it itf s a)"

section \<open>Waiting for idleness and shutting down\<close>

definition queue_busy :: "local_shared \<Rightarrow> nat \<Rightarrow> bool" where
  "queue_busy s a = (case fmlookup (queue_store s) a of
       None \<Rightarrow> False
     | Some q \<Rightarrow> \<not> is_pending_empty (q_state q) \<or> in_flight (q_state q) \<noteq> fmempty)"

text \<open>The snapshot and the test that the waiting loops repeat.\<close>

definition topic_idle_poll :: "local_shared \<Rightarrow> topic_address \<Rightarrow> local_shared \<times> u64 \<times> bool" where
  "topic_idle_poll s t = (case live_queues_for_topic (alive s) (bus s) t of
       (bs, qs) \<Rightarrow> let s1 = s\<lparr>bus := bs\<rparr> in (s1, change_version bs, list_ex (queue_busy s1) qs))"

definition bus_idle_poll :: "topic_order \<Rightarrow> local_shared \<Rightarrow> local_shared \<times> u64 \<times> bool" where
  "bus_idle_poll itt s = (case live_queues itt (alive s) (bus s) of
       (bs, qs) \<Rightarrow> let s1 = s\<lparr>bus := bs\<rparr> in (s1, change_version (bus s), list_ex (queue_busy s1) qs))"

text \<open>What the other threads and the clock do while an operation does not hold the bus lock:
  \<open>env1 i\<close> runs between the poll of turn \<open>i\<close> and the test of the version, \<open>env2 i\<close> during the wait;
  \<open>elapsed i\<close> is the time since the call when turn \<open>i\<close> reads it, and \<open>timed_out i\<close> what the wait of
  that turn reports.\<close>

record wait_env =
  env1 :: "nat \<Rightarrow> local_shared \<Rightarrow> local_shared"
  env2 :: "nat \<Rightarrow> local_shared \<Rightarrow> local_shared"
  elapsed :: "nat \<Rightarrow> duration"
  timed_out :: "nat \<Rightarrow> bool"

text \<open>The graceful waiting loop of \<open>shutdown\<close>, with fuel for its turns.\<close>

fun graceful_loop ::
  "topic_order \<Rightarrow> wait_env \<Rightarrow> duration \<Rightarrow> nat \<Rightarrow> nat \<Rightarrow> local_shared \<Rightarrow>
   (local_shared \<times> shutdown_outcome) option" where
  "graceful_loop itt e timeout 0 i s = None"
| "graceful_loop itt e timeout (Suc fuel) i s = (case bus_idle_poll itt s of
     (s1, v, busy) \<Rightarrow>
       if \<not> busy then Some (s1, Complete)
       else if timeout < elapsed e i then Some (s1, ShutdownTimedOut)
       else let s2 = env1 e i s1 in
         if change_version (bus s2) \<noteq> v then graceful_loop itt e timeout fuel (Suc i) s2
         else let s3 = env2 e i s2 in
           if timed_out e i then Some (s3, ShutdownTimedOut)
           else graceful_loop itt e timeout fuel (Suc i) s3)"

text \<open>The waiting loop of \<open>wait_for_topic_idle\<close>; without a timeout it only returns when idle.\<close>

fun topic_idle_loop ::
  "wait_env \<Rightarrow> topic_address \<Rightarrow> duration option \<Rightarrow> nat \<Rightarrow> nat \<Rightarrow> local_shared \<Rightarrow>
   (local_shared \<times> bool) option" where
  "topic_idle_loop e t timeout 0 i s = None"
| "topic_idle_loop e t timeout (Suc fuel) i s = (case topic_idle_poll s t of
     (s1, v, busy) \<Rightarrow>
       if \<not> busy then Some (s1, True)
       else (case timeout of
           None \<Rightarrow>
             let s2 = env1 e i s1 in
             if change_version (bus s2) \<noteq> v then topic_idle_loop e t timeout fuel (Suc i) s2
             else topic_idle_loop e t timeout fuel (Suc i) (env2 e i s2)
         | Some limit \<Rightarrow>
             if limit < elapsed e i then Some (s1, False)
             else let s2 = env1 e i s1 in
               if change_version (bus s2) \<noteq> v then topic_idle_loop e t timeout fuel (Suc i) s2
               else let s3 = env2 e i s2 in
                 if timed_out e i then Some (s3, False)
                 else topic_idle_loop e t timeout fuel (Suc i) s3))"

fun drain_queues ::
  "lane_order \<Rightarrow> flight_order \<Rightarrow> local_shared \<Rightarrow> nat list \<Rightarrow> local_shared option" where
  "drain_queues it itf s [] = Some s"
| "drain_queues it itf s (a # as) = (case fmlookup (queue_store s) a of
       None \<Rightarrow> None
     | Some q \<Rightarrow> (case drain_queue it itf s a q of
         None \<Rightarrow> None
       | Some (s', _) \<Rightarrow> drain_queues it itf s' as))"

definition shutdown_begin :: "local_shared \<Rightarrow> local_shared" where
  "shutdown_begin s = signal_changed (s\<lparr>bus := (bus s)\<lparr>bus_closed := True\<rparr>\<rparr>)"

definition shutdown_finish ::
  "lane_order \<Rightarrow> flight_order \<Rightarrow> topic_order \<Rightarrow> local_shared \<Rightarrow> shutdown_outcome \<Rightarrow>
   (local_shared \<times> shutdown_outcome) option" where
  "shutdown_finish it itf itt s outcome =
     (case live_queues itt (alive s) (bus s) of
        (bs, qs) \<Rightarrow> (case drain_queues it itf (s\<lparr>bus := bs\<rparr>) qs of
          None \<Rightarrow> None
        | Some s' \<Rightarrow> Some (signal_changed
            (s'\<lparr>bus := (bus s')\<lparr>bus_shutdown_outcome := Some outcome\<rparr>\<rparr>), outcome)))"

text \<open>The whole \<open>shutdown\<close> of the holder of the shutdown gate. \<^const>\<open>None\<close> is a panic, or a
  graceful wait that needs more turns than the fuel.\<close>

definition shutdown ::
  "lane_order \<Rightarrow> flight_order \<Rightarrow> topic_order \<Rightarrow> wait_env \<Rightarrow> nat \<Rightarrow> local_shared \<Rightarrow> shutdown_mode \<Rightarrow>
   (local_shared \<times> shutdown_outcome) option" where
  "shutdown it itf itt e fuel s mode = (case bus_shutdown_outcome (bus s) of
       Some outcome \<Rightarrow> Some (s, outcome)
     | None \<Rightarrow>
         let s1 = shutdown_begin s in
         (case mode of
            Immediate \<Rightarrow> shutdown_finish it itf itt s1 Complete
          | Graceful timeout \<Rightarrow> (case graceful_loop itt e timeout fuel 0 s1 of
              None \<Rightarrow> None
            | Some (s2, outcome) \<Rightarrow> shutdown_finish it itf itt s2 outcome)))"

end
