(* ===== verification/Local_Bus_Inv.thy ===== *)
theory Local_Bus_Inv
  imports Local_Bus
begin

text \<open>
  The accounting invariant of the in-memory provider. At every moment between two critical
  sections, the budget's counters are exactly the number and the weight of the deliveries that
  the queues hold, queued or in flight; every queue is within its capacity and consistent; a
  closed queue holds nothing; and every delivery in flight is known under its own token and its
  own settlement handle. Each critical section keeps the invariant, whatever order the threads
  run them in, so no release can fail and no token can be lost or confused.
\<close>

section \<open>Loads\<close>

definition queue_load :: "(local_event \<Rightarrow> nat) \<Rightarrow> local_queue_state \<Rightarrow> nat" where
  "queue_load f st = lanes_total f (lane_contents st) + fmsum (\<lambda>_ fl. f (flight_event fl)) (in_flight st)"

definition event_weight :: "usize option \<Rightarrow> local_event \<Rightarrow> nat" where
  "event_weight mw e = (if mw = None then 0 else unat (weight_bytes e))"

abbreviation load_count :: "local_queue_state \<Rightarrow> nat" where
  "load_count \<equiv> queue_load (\<lambda>_. 1)"

lemma enqueue_back_fields [simp]:
  "in_flight (enqueue_back_at it st e now) = in_flight st"
  "queue_closed (enqueue_back_at it st e now) = queue_closed st"
  "next_delivery_token (enqueue_back_at it st e now) = next_delivery_token st"
  by (simp_all add: enqueue_back_at_def Let_def)

lemma enqueue_front_fields [simp]:
  "in_flight (enqueue_front_at it st e now) = in_flight st"
  "queue_closed (enqueue_front_at it st e now) = queue_closed st"
  "next_delivery_token (enqueue_front_at it st e now) = next_delivery_token st"
  by (simp_all add: enqueue_front_at_def Let_def)

lemma contents_client_fields [simp]:
  "lane_contents (st\<lparr>in_flight := x\<rparr>) = lane_contents st"
  "lane_contents (st\<lparr>next_delivery_token := y\<rparr>) = lane_contents st"
  "lane_contents (st\<lparr>queue_closed := z\<rparr>) = lane_contents st"
  by (simp_all add: lane_contents_def fun_eq_iff)

lemma inv_client_fields [simp]:
  "queue_inv_but X t (st\<lparr>in_flight := x\<rparr>) = queue_inv_but X t st"
  "queue_inv_but X t (st\<lparr>next_delivery_token := y\<rparr>) = queue_inv_but X t st"
  "queue_inv_but X t (st\<lparr>queue_closed := z\<rparr>) = queue_inv_but X t st"
  "versions_le n (st\<lparr>in_flight := x\<rparr>) = versions_le n st"
  "versions_le n (st\<lparr>next_delivery_token := y\<rparr>) = versions_le n st"
  "versions_le n (st\<lparr>queue_closed := z\<rparr>) = versions_le n st"
  by (simp_all add: queue_inv_but_def counters_ok_def pending_total_def delayed_total_def versions_le_def)

lemma lanes_total_snoc: "lanes_finite c \<Longrightarrow> lanes_total f (c(k := c k @ [e])) = lanes_total f c + f e"
  using lanes_total_upd [of c f k "c k @ [e]"] by simp

lemma lanes_total_cons: "lanes_finite c \<Longrightarrow> lanes_total f (c(k := e # c k)) = lanes_total f c + f e"
  using lanes_total_upd [of c f k "e # c k"] by simp

lemma load_popped:
  assumes "popped now st st' r" and "same_client st st'"
  shows "queue_load f st = queue_load f st' + (case r of None \<Rightarrow> 0 | Some e \<Rightarrow> f e)"
  using assms lanes_total_cons [of "lane_contents st'" f]
  by (cases r) (auto simp: popped_def same_client_def queue_load_def)

lemma load_drained:
  assumes "iteration_order it" and "iteration_order itf"
  shows "queue_load f st = sum_list (map f (snd (clear_pending it itf st)))"
    and "queue_load f (fst (clear_pending it itf st)) = 0"
  using clear_pending_total [OF assms] clear_pending_inv(3) [of it itf st]
  by (simp_all add: queue_load_def lanes_total_def) (simp add: clear_pending_def Let_def)

lemma load_count_0:
  "load_count st = 0 \<Longrightarrow> (\<forall>k. lane_contents st k = []) \<and> in_flight st = fmempty"
  using lanes_finite_contents [of st]
  by (auto simp: queue_load_def lanes_total_def lanes_finite_def sum_list_triv fmlen_0_iff [symmetric] fmlen_sum)

section \<open>The invariant\<close>

definition account_ok :: "local_shared \<Rightarrow> bool" where
  "account_ok s \<longleftrightarrow> budget_wf (outstanding s) \<and>
     unat (count_used (budget_state (outstanding s))) = fmsum (\<lambda>_ q. load_count (q_state q)) (queue_store s) \<and>
     unat (weight_used (budget_state (outstanding s))) =
       fmsum (\<lambda>_ q. queue_load (event_weight (max_weight (outstanding s))) (q_state q)) (queue_store s)"

definition queue_ok :: "nat \<Rightarrow> instant \<Rightarrow> local_queue \<Rightarrow> bool" where
  "queue_ok n t q \<longleftrightarrow> queue_inv t (q_state q) \<and> versions_le n (q_state q) \<and>
     (queue_closed (q_state q) \<longrightarrow> load_count (q_state q) = 0) \<and>
     load_count (q_state q) \<le> unat (q_capacity q)"

definition flight_ok :: "local_shared \<Rightarrow> local_queue_state \<Rightarrow> string \<Rightarrow> local_in_flight \<Rightarrow> bool" where
  "flight_ok s st tok fl \<longleftrightarrow>
     fmlookup (settlements s) (flight_settlement fl) = Some \<lparr>token_id = tok, disposition = None\<rparr> \<and>
     flight_settlement fl < next_address s \<and>
     (\<exists>m. tok = delivery_token (ev_id (flight_event fl)) m \<and> m \<le> next_delivery_token st)"

definition tokens_ok :: "local_shared \<Rightarrow> bool" where
  "tokens_ok s \<longleftrightarrow>
     (\<forall>a q. fmlookup (queue_store s) a = Some q \<longrightarrow> a < next_address s) \<and>
     (\<forall>a q tok fl. fmlookup (queue_store s) a = Some q \<and> fmlookup (in_flight (q_state q)) tok = Some fl \<longrightarrow>
        flight_ok s (q_state q) tok fl) \<and>
     (\<forall>a q tok fl a' q' tok' fl'.
        fmlookup (queue_store s) a = Some q \<and> fmlookup (in_flight (q_state q)) tok = Some fl \<and>
        fmlookup (queue_store s) a' = Some q' \<and> fmlookup (in_flight (q_state q')) tok' = Some fl' \<and>
        flight_settlement fl = flight_settlement fl' \<longrightarrow> a = a')"

definition bus_inv :: "nat \<Rightarrow> instant \<Rightarrow> local_shared \<Rightarrow> bool" where
  "bus_inv n t s \<longleftrightarrow> account_ok s \<and> tokens_ok s \<and>
     (\<forall>a q. fmlookup (queue_store s) a = Some q \<longrightarrow> queue_ok n t q)"

lemma bus_inv_bus [simp]: "bus_inv n t (s\<lparr>bus := x\<rparr>) = bus_inv n t s"
  by (simp add: bus_inv_def account_ok_def tokens_ok_def flight_ok_def)

lemma bus_inv_alive [simp]: "bus_inv n t (s\<lparr>alive := x\<rparr>) = bus_inv n t s"
  by (simp add: bus_inv_def account_ok_def tokens_ok_def flight_ok_def)

lemma bus_inv_signal [simp]: "bus_inv n t (signal_changed s) = bus_inv n t s"
  by (simp add: signal_changed_def)

lemma bus_inv_mono: "bus_inv n t s \<Longrightarrow> n \<le> n' \<Longrightarrow> t \<le> t' \<Longrightarrow> bus_inv n' t' s"
  unfolding bus_inv_def queue_ok_def by (meson queue_inv_mono versions_le_mono)

lemma bus_inv_queue: "bus_inv n t s \<Longrightarrow> fmlookup (queue_store s) a = Some q \<Longrightarrow> queue_ok n t q"
  by (simp add: bus_inv_def)

text \<open>A change of the budget and of one queue by the same amounts.\<close>

lemma account_upd:
  assumes "account_ok s" and "fmlookup (queue_store s) a = Some q" and "budget_wf b"
    and "max_weight b = max_weight (outstanding s)"
    and "unat (count_used (budget_state b)) + load_count (q_state q) =
      unat (count_used (budget_state (outstanding s))) + load_count st"
    and "unat (weight_used (budget_state b)) + queue_load (event_weight (max_weight b)) (q_state q) =
      unat (weight_used (budget_state (outstanding s))) + queue_load (event_weight (max_weight b)) st"
    and "outstanding s' = b" and "queue_store s' = fmupd a (q\<lparr>q_state := st\<rparr>) (queue_store s)"
  shows "account_ok s'"
proof -
  note upd = fmsum_upd_old [OF assms(2), of _ "q\<lparr>q_state := st\<rparr>"]
  have "unat (count_used (budget_state b)) =
      fmsum (\<lambda>_ q. load_count (q_state q)) (fmupd a (q\<lparr>q_state := st\<rparr>) (queue_store s))"
    using upd [of "\<lambda>_ q. load_count (q_state q)"] assms(1,5) by (simp add: account_ok_def)
  moreover have "unat (weight_used (budget_state b)) =
      fmsum (\<lambda>_ q. queue_load (event_weight (max_weight b)) (q_state q))
        (fmupd a (q\<lparr>q_state := st\<rparr>) (queue_store s))"
    using upd [of "\<lambda>_ q. queue_load (event_weight (max_weight b)) (q_state q)"] assms(1,4,6)
    by (simp add: account_ok_def)
  ultimately show ?thesis using assms(3,7,8) by (simp add: account_ok_def)
qed

lemma load_le_budget:
  assumes "account_ok s" and "fmlookup (queue_store s) a = Some q"
  shows "load_count (q_state q) \<le> unat (count_used (budget_state (outstanding s)))"
    and "queue_load (event_weight (max_weight (outstanding s))) (q_state q) \<le>
      unat (weight_used (budget_state (outstanding s)))"
  using fmsum_ge [OF assms(2), of "\<lambda>_ q. load_count (q_state q)"]
    fmsum_ge [OF assms(2), of "\<lambda>_ q. queue_load (event_weight (max_weight (outstanding s))) (q_state q)"]
    assms(1) by (simp_all add: account_ok_def)

lemma charged_event_weight: "unat (charged_weight b (weight_bytes e)) = event_weight (max_weight b) e"
  by (simp add: charged_weight_def requires_weight_def event_weight_def)

lemma bus_inv_upd:
  assumes inv: "bus_inv n t s" and q: "fmlookup (queue_store s) a = Some q"
    and acc: "account_ok s'" and store: "queue_store s' = fmupd a (q\<lparr>q_state := st\<rparr>) (queue_store s)"
    and tok: "tokens_ok s'" and ok: "queue_ok n' t' (q\<lparr>q_state := st\<rparr>)" and le: "n \<le> n'" "t \<le> t'"
  shows "bus_inv n' t' s'"
  using bus_inv_mono [OF inv le] acc tok ok by (auto simp: bus_inv_def store)

section \<open>Delivery tokens are distinct\<close>

lemma digit_code: "n < 10 \<Longrightarrow> (of_char (digit n) :: nat) = 48 + n"
  by (simp add: digit_def)

lemma decimal_value: "foldl (\<lambda>v c. 10 * v + (of_char c - 48)) 0 (decimal n) = (n :: nat)"
  by (induction n rule: decimal.induct) (subst decimal.simps, simp add: digit_code)

lemma decimal_inj: "decimal m = decimal n \<Longrightarrow> m = n"
  by (metis decimal_value)

lemma digit_not_colon: "n < 10 \<Longrightarrow> digit n \<noteq> CHR '':''"
  using digit_code [of n] by (auto dest!: arg_cong [of _ _ "of_char :: char \<Rightarrow> nat"])

lemma decimal_no_colon: "CHR '':'' \<notin> set (decimal n)"
proof (induction n rule: decimal.induct)
  case (1 n)
  then show ?case
    using digit_not_colon [of n] digit_not_colon [of "n mod 10"] by (subst decimal.simps) auto
qed

lemma delivery_token_inj:
  assumes "delivery_token i m = delivery_token j n"
  shows "m = n"
proof -
  have suffix: "rev (takeWhile (\<lambda>c. c \<noteq> CHR '':'') (rev (x @ '':'' @ decimal k))) = decimal k" for x k
    using decimal_no_colon [of k] by (simp, subst takeWhile_append2) auto
  have "decimal (unat m) = decimal (unat n)"
    using assms suffix [of i "unat m"] suffix [of j "unat n"] by (simp only: delivery_token_def)
  then show ?thesis using decimal_inj by (simp add: word_unat_eq_iff)
qed

lemma tokens_okD:
  assumes "tokens_ok s"
  shows "fmlookup (queue_store s) a = Some q \<Longrightarrow> a < next_address s"
    and "fmlookup (queue_store s) a = Some q \<Longrightarrow> fmlookup (in_flight (q_state q)) tk = Some fl \<Longrightarrow>
      flight_ok s (q_state q) tk fl"
    and "fmlookup (queue_store s) a = Some q \<Longrightarrow> fmlookup (in_flight (q_state q)) tk = Some fl \<Longrightarrow>
      fmlookup (queue_store s) a' = Some q' \<Longrightarrow> fmlookup (in_flight (q_state q')) tk' = Some fl' \<Longrightarrow>
      flight_settlement fl = flight_settlement fl' \<Longrightarrow> a = a'"
  using assms unfolding tokens_ok_def by blast+

lemma tokens_okI:
  assumes "\<And>a q. fmlookup (queue_store s) a = Some q \<Longrightarrow> a < next_address s"
    and "\<And>a q tk fl. fmlookup (queue_store s) a = Some q \<Longrightarrow>
      fmlookup (in_flight (q_state q)) tk = Some fl \<Longrightarrow> flight_ok s (q_state q) tk fl"
    and "\<And>a q tk fl a' q' tk' fl'. fmlookup (queue_store s) a = Some q \<Longrightarrow>
      fmlookup (in_flight (q_state q)) tk = Some fl \<Longrightarrow> fmlookup (queue_store s) a' = Some q' \<Longrightarrow>
      fmlookup (in_flight (q_state q')) tk' = Some fl' \<Longrightarrow>
      flight_settlement fl = flight_settlement fl' \<Longrightarrow> a = a'"
  shows "tokens_ok s"
  using assms unfolding tokens_ok_def by blast

lemma tokens_ok_upd:
  assumes tok: "tokens_ok s" and q: "fmlookup (queue_store s) a = Some q"
    and st: "queue_store s' = fmupd a (q\<lparr>q_state := st\<rparr>) (queue_store s)"
    and s': "settlements s' = settlements s" "next_address s' = next_address s"
    and sub: "\<And>tk fl. fmlookup (in_flight st) tk = Some fl \<Longrightarrow> fmlookup (in_flight (q_state q)) tk = Some fl"
    and le: "next_delivery_token (q_state q) \<le> next_delivery_token st"
  shows "tokens_ok s'"
proof -
  have old: "\<exists>q0. fmlookup (queue_store s) x = Some q0 \<and> fmlookup (in_flight (q_state q0)) tk = Some fl \<and>
      next_delivery_token (q_state q0) \<le> next_delivery_token (q_state q')"
    if "fmlookup (queue_store s') x = Some q'" "fmlookup (in_flight (q_state q')) tk = Some fl" for x q' tk fl
    using that q sub le by (auto simp: st split: if_splits)
  have "flight_ok s' (q_state q') tk fl"
    if "fmlookup (queue_store s') x = Some q'" "fmlookup (in_flight (q_state q')) tk = Some fl" for x q' tk fl
    using old [OF that] tok by (fastforce simp: tokens_ok_def flight_ok_def s')
  moreover have "x = x'"
    if "fmlookup (queue_store s') x = Some q1" "fmlookup (in_flight (q_state q1)) tk = Some fl"
      "fmlookup (queue_store s') x' = Some q2" "fmlookup (in_flight (q_state q2)) tk' = Some fl'"
      "flight_settlement fl = flight_settlement fl'" for x x' q1 q2 tk tk' fl fl'
    using old [OF that(1,2)] old [OF that(3,4)] that(5) tok unfolding tokens_ok_def by metis
  moreover have "x < next_address s'" if "fmlookup (queue_store s') x = Some q'" for x q'
    using that tok q by (auto simp: tokens_ok_def st s' split: if_splits)
  ultimately show ?thesis unfolding tokens_ok_def by metis
qed

lemma tokens_ok_keep:
  "tokens_ok s \<Longrightarrow> queue_store s' = queue_store s \<Longrightarrow> settlements s' = settlements s \<Longrightarrow>
   next_address s' = next_address s \<Longrightarrow> tokens_ok s'"
  by (simp only: tokens_ok_def flight_ok_def)

section \<open>Admission keeps the invariant\<close>

lemma pending_in_flight_word:
  assumes "queue_ok n t q"
  shows "unat (pending_count (q_state q) + of_nat (fmlen (in_flight (q_state q)))) = load_count (q_state q)"
proof -
  have "pending_count (q_state q) = of_nat (lanes_total (\<lambda>_. 1) (lane_contents (q_state q)))"
    using assms by (simp add: queue_ok_def queue_inv_but_def counters_ok_def pending_total_lanes)
  then have "pending_count (q_state q) + of_nat (fmlen (in_flight (q_state q))) =
      (of_nat (load_count (q_state q)) :: usize)"
    by (simp add: queue_load_def fmlen_sum)
  moreover have "load_count (q_state q) < 2 ^ 64"
    using assms unat_bound [of "q_capacity q"] by (simp add: queue_ok_def)
  ultimately show ?thesis by (simp add: unat_of_nat_small)
qed

lemma account_budget_only:
  assumes "account_ok s" and "budget_wf b" and "max_weight b = max_weight (outstanding s)"
    and "count_used (budget_state b) = count_used (budget_state (outstanding s))"
    and "weight_used (budget_state b) = weight_used (budget_state (outstanding s))"
  shows "account_ok (s\<lparr>outstanding := b\<rparr>)"
  using assms by (simp add: account_ok_def)

lemma bus_inv_budget_only:
  assumes "bus_inv n t s" and "budget_wf b" and "max_weight b = max_weight (outstanding s)"
    and "count_used (budget_state b) = count_used (budget_state (outstanding s))"
    and "weight_used (budget_state b) = weight_used (budget_state (outstanding s))"
  shows "bus_inv n t (s\<lparr>outstanding := b\<rparr>)"
  using assms account_budget_only [of s b] tokens_ok_keep [of s "s\<lparr>outstanding := b\<rparr>"]
  by (simp add: bus_inv_def)

lemma load_enqueue_back:
  assumes "queue_inv t st" "versions_le n st" "n + 1 < 2 ^ 64" "iteration_order it" "t \<le> now"
  shows "queue_load f (enqueue_back_at it st e now) = queue_load f st + f e"
  using enqueue_back_ok(3) [OF assms] lanes_total_snoc [of "lane_contents st" f]
  by (simp add: queue_load_def)

lemma load_enqueue_front:
  assumes "queue_inv t st" "versions_le n st" "n + 1 < 2 ^ 64" "iteration_order it" "t \<le> now"
  shows "queue_load f (enqueue_front_at it st e now) = queue_load f st + f e"
  using enqueue_front_ok(3) [OF assms] lanes_total_cons [of "lane_contents st" f]
  by (simp add: queue_load_def)

lemma publish_admit_inv:
  assumes inv: "bus_inv n t s" and n: "n + 1 < 2 ^ 64" and it: "iteration_order it" and t: "t \<le> now"
  shows "bus_inv (n + 1) now (fst (publish_admit it now event s a))"
proof -
  have mono: "bus_inv (n + 1) now s" using bus_inv_mono [OF inv] t by simp
  have wf: "budget_wf (outstanding s)" using inv by (simp add: bus_inv_def account_ok_def)
  show ?thesis
  proof (cases "fmlookup (queue_store s) a")
    case None
    then show ?thesis using mono by (simp add: publish_admit_def)
  next
    case (Some q)
    note ok = bus_inv_queue [OF inv Some]
    let ?st = "q_state q"
    have st: "queue_inv t ?st" "versions_le n ?st" using ok by (simp_all add: queue_ok_def)
    have rej: "bus_inv (n + 1) now (s\<lparr>outstanding := record_rejection (outstanding s) k\<rparr>)" for k
      by (rule bus_inv_budget_only [OF mono]) (use wf in simp_all)
    show ?thesis
    proof (cases "q_topic q \<noteq> ev_topic event \<or> queue_closed ?st \<or>
        q_capacity q \<le> pending_count ?st + of_nat (fmlen (in_flight ?st))")
      case True
      then show ?thesis using mono rej by (auto simp: publish_admit_def Some Let_def
            simp del: record_rejection.simps)
    next
      case False
      obtain b r where res: "try_reserve (outstanding s) (weight_bytes event) = (b, r)" by fastforce
      show ?thesis
      proof (cases r)
        case (Inl kind)
        then have "bus_inv (n + 1) now (s\<lparr>outstanding := b\<rparr>)"
          by (intro bus_inv_budget_only [OF mono])
            (use try_reserve_refused [OF res [unfolded Inl]] budget_wf_refused [OF wf res [unfolded Inl]]
              in simp_all)
        then show ?thesis using False by (simp add: publish_admit_def Some Let_def res Inl)
      next
        case (Inr u)
        note g = try_reserve_granted [OF res [unfolded Inr]]
        let ?st' = "enqueue_back_at it ?st event now"
        let ?s' = "s\<lparr>outstanding := b, queue_store := fmupd a (q\<lparr>q_state := ?st'\<rparr>) (queue_store s)\<rparr>"
        note load = load_enqueue_back [OF st n it t]
        have "load_count ?st < unat (q_capacity q)"
          using False pending_in_flight_word [OF ok] by (simp add: word_le_nat_alt)
        then have "queue_ok (n + 1) now (q\<lparr>q_state := ?st'\<rparr>)"
          using enqueue_back_ok(1,2) [OF st n it t] False by (simp add: queue_ok_def load)
        moreover have "account_ok ?s'"
          by (rule account_upd [OF _ Some, where b = b and st = ?st'])
            (use inv budget_wf_granted [OF wf res [unfolded Inr]] g
              in \<open>simp_all add: bus_inv_def load charged_event_weight\<close>)
        moreover have "tokens_ok ?s'"
          by (rule tokens_ok_upd [OF _ Some, where st = ?st']) (use inv in \<open>simp_all add: bus_inv_def\<close>)
        ultimately have "bus_inv (n + 1) now ?s'"
          by (intro bus_inv_upd [OF inv Some, where st = ?st']) (use t in simp_all)
        then show ?thesis using False by (simp add: publish_admit_def Some Let_def res Inr)
      qed
    qed
  qed
qed

section \<open>Draining a queue\<close>

lemma total_weight_unat:
  "sum_list (map (\<lambda>e. unat (weight_bytes e)) es) < 2 ^ 64 \<Longrightarrow>
   unat (total_weight es) = sum_list (map (\<lambda>e. unat (weight_bytes e)) es)"
proof (induction es)
  case (Cons e es)
  then have "unat (total_weight es) = sum_list (map (\<lambda>e. unat (weight_bytes e)) es)" by simp
  then show ?case
    using Cons.prems unat_plus_small [of "weight_bytes e" "total_weight es"]
    by (simp add: total_weight_def)
qed (simp add: total_weight_def)

lemma clear_pending_fields [simp]:
  "queue_closed (fst (clear_pending it itf st)) = queue_closed st"
  "next_delivery_token (fst (clear_pending it itf st)) = next_delivery_token st"
  "in_flight (fst (clear_pending it itf st)) = fmempty"
  by (simp_all add: clear_pending_def Let_def)

lemma load_closed [simp]: "queue_load f (st\<lparr>queue_closed := c\<rparr>) = queue_load f st"
  by (simp add: queue_load_def)

lemma charged_total_weight:
  assumes "queue_load (event_weight (max_weight b)) st \<le> unat (w :: usize)"
    and "queue_load (event_weight (max_weight b)) st = sum_list (map (event_weight (max_weight b)) es)"
  shows "unat (charged_weight b (total_weight es)) = queue_load (event_weight (max_weight b)) st"
proof (cases "max_weight b")
  case None
  then show ?thesis using assms(2) by (simp add: charged_weight_def requires_weight_def event_weight_def)
next
  case (Some l)
  then have "event_weight (max_weight b) = (\<lambda>e. unat (weight_bytes e))"
    by (simp add: event_weight_def fun_eq_iff)
  moreover have "unat w < 2 ^ 64" using unat_bound [of w] by simp
  ultimately show ?thesis
    using assms Some total_weight_unat [of es] by (simp add: charged_weight_def requires_weight_def)
qed

lemma drain_queue_ok:
  assumes inv: "bus_inv n t s" and q: "fmlookup (queue_store s) a = Some q"
    and it: "iteration_order it" "iteration_order itf"
  obtains s' es b where "drain_queue it itf s a q = Some (s', es)" and "bus_inv n t s'"
    and "s' = s\<lparr>outstanding := b, queue_store := fmupd a
      (q\<lparr>q_state := fst (clear_pending it itf ((q_state q)\<lparr>queue_closed := True\<rparr>))\<rparr>) (queue_store s)\<rparr>"
    and "unat (count_used (budget_state b)) + length es = unat (count_used (budget_state (outstanding s)))"
    and "length es = load_count (q_state q)"
proof -
  let ?c = "clear_pending it itf ((q_state q)\<lparr>queue_closed := True\<rparr>)"
  let ?b = "outstanding s" and ?st = "fst ?c" and ?es = "snd ?c"
  have acc: "account_ok s" using inv by (simp add: bus_inv_def)
  note load = load_drained [OF it, of _ "(q_state q)\<lparr>queue_closed := True\<rparr>", simplified]
  have len: "length ?es = load_count (q_state q)" using load(1) [of "\<lambda>_. 1"] by (simp add: sum_list_triv)
  note le = load_le_budget [OF acc q]
  have cnt: "unat (of_nat (length ?es) :: usize) = length ?es"
    using len le(1) unat_bound [of "count_used (budget_state ?b)"] by (simp add: unat_of_nat_small)
  have wt: "unat (charged_weight ?b (total_weight ?es)) = queue_load (event_weight (max_weight ?b)) (q_state q)"
    using charged_total_weight [OF le(2), of ?es] load(1) by simp
  obtain b where rel: "release_reservation ?b (of_nat (length ?es)) (total_weight ?es) = Some b"
    using release_reservation_ok [of "of_nat (length ?es)" ?b "total_weight ?es"] cnt wt le len by auto
  note r = release_reservation_Some [OF rel]
  let ?s' = "s\<lparr>outstanding := b, queue_store := fmupd a (q\<lparr>q_state := ?st\<rparr>) (queue_store s)\<rparr>"
  have "drain_queue it itf s a q = Some (?s', ?es)"
    using rel by (simp add: drain_queue_def split_beta)
  moreover have "account_ok ?s'"
    by (rule account_upd [OF acc q, where b = b and st = ?st])
      (use acc budget_wf_release [OF _ rel] r cnt wt len load(2) in \<open>simp_all add: account_ok_def\<close>)
  moreover have "tokens_ok ?s'"
    by (rule tokens_ok_upd [OF _ q, where st = ?st]) (use inv in \<open>simp_all add: bus_inv_def\<close>)
  moreover have "queue_ok n t (q\<lparr>q_state := ?st\<rparr>)"
    using clear_pending_inv(1,2) load(2) [of "\<lambda>_. 1"] by (simp add: queue_ok_def)
  ultimately show thesis
    using r(1) cnt len by (intro that [of ?s' ?es b] bus_inv_upd [OF inv q, where st = ?st]) simp_all
qed

lemma close_queue_ok:
  assumes inv: "bus_inv n t s" and q: "fmlookup (queue_store s) a = Some q"
    and it: "iteration_order it" "iteration_order itf"
  obtains s' where "close_queue it itf s a = Some s'" "bus_inv n t s'"
proof (cases "queue_closed (q_state q)")
  case True
  then show thesis using that [of s] inv q by (simp add: close_queue_def)
next
  case False
  obtain s' es where "drain_queue it itf s a q = Some (s', es)" "bus_inv n t s'"
    by (rule drain_queue_ok [OF inv q it])
  then show thesis using that [of s'] q False by (simp add: close_queue_def)
qed

section \<open>Settling\<close>

text \<open>A token that some receiver of this bus handed out.\<close>

definition token_known :: "local_shared \<Rightarrow> settlement_token \<Rightarrow> bool" where
  "token_known s token = (case downcast_handle (token_state token) of
     None \<Rightarrow> True | Some h \<Rightarrow> fmlookup (settlements s) h \<noteq> None)"

lemma load_drop_flight:
  assumes "fmlookup (in_flight st) tok = Some fl"
  shows "queue_load f st = queue_load f (st\<lparr>in_flight := fmdrop tok (in_flight st)\<rparr>) + f (flight_event fl)"
  using fmsum_drop [OF assms, of "\<lambda>_ fl. f (flight_event fl)"] by (simp add: queue_load_def)

text \<open>Marking the handle of a delivery that has left the in-flight map.\<close>

lemma tokens_ok_settled:
  assumes tok: "tokens_ok s" and q: "fmlookup (queue_store s) a = Some q"
    and fl: "fmlookup (in_flight (q_state q)) tk = Some fl" and h: "flight_settlement fl = h"
    and st: "in_flight st = fmdrop tk (in_flight (q_state q))"
      "next_delivery_token st = next_delivery_token (q_state q)"
    and s': "queue_store s' = fmupd a (q\<lparr>q_state := st\<rparr>) (queue_store s)"
      "settlements s' = fmupd h x (settlements s)" "next_address s' = next_address s"
  shows "tokens_ok s'"
proof -
  let ?s = "s\<lparr>queue_store := fmupd a (q\<lparr>q_state := st\<rparr>) (queue_store s)\<rparr>"
  have mid: "tokens_ok ?s"
    by (rule tokens_ok_upd [OF tok q, where st = st]) (auto simp: st split: if_splits)
  have other: "flight_settlement fl' \<noteq> h"
    if q': "fmlookup (queue_store ?s) x = Some q'" "fmlookup (in_flight (q_state q')) tk' = Some fl'"
    for x q' tk' fl'
  proof
    assume eq: "flight_settlement fl' = h"
    obtain q0 where q0: "fmlookup (queue_store s) x = Some q0" "fmlookup (in_flight (q_state q0)) tk' = Some fl'"
      "x = a \<Longrightarrow> tk' \<noteq> tk"
      using q' q st by (auto split: if_splits)
    have "x = a" using tok q0 q fl h eq unfolding tokens_ok_def by metis
    moreover have "flight_ok s (q_state q0) tk' fl'" "flight_ok s (q_state q) tk fl"
      using tok q0(1,2) q fl unfolding tokens_ok_def by blast+
    then have "tk' = tk" using eq h by (simp add: flight_ok_def)
    ultimately show False using q0(3) by simp
  qed
  have store: "queue_store s' = queue_store ?s" using s' by simp
  show ?thesis
  proof (rule tokens_okI, goal_cases)
    case (1 x q')
    then show ?case using tokens_okD(1) [OF mid] s'(3) by (simp add: store)
  next
    case (2 x q' tk' fl')
    note 2 = 2 [unfolded store]
    have "flight_settlement fl' \<noteq> h" "flight_ok ?s (q_state q') tk' fl'"
      using other [OF 2] tokens_okD(2) [OF mid 2] by blast+
    then show ?case by (simp add: flight_ok_def s')
  next
    case (3 x q1 tk1 fl1 x' q2 tk2 fl2)
    then show ?case using tokens_okD(3) [OF mid 3(1-5) [unfolded store]] by simp
  qed
qed

text \<open>The end of a settlement: the delivery has left the in-flight map, the queue and the budget
  have changed by the same amounts, and the handle records the disposition.\<close>

lemma bus_inv_settled:
  assumes inv: "bus_inv n t s" and q: "fmlookup (queue_store s) a = Some q"
    and fl: "fmlookup (in_flight (q_state q)) tk = Some fl" "flight_settlement fl = h"
    and le: "n \<le> n'" "t \<le> t'"
    and st: "in_flight st = fmdrop tk (in_flight (q_state q))"
      "next_delivery_token st = next_delivery_token (q_state q)" "queue_closed st = queue_closed (q_state q)"
      "queue_inv t' st" "versions_le n' st" "load_count st \<le> load_count (q_state q)"
    and b: "budget_wf b" "max_weight b = max_weight (outstanding s)"
      "unat (count_used (budget_state b)) + load_count (q_state q) =
        unat (count_used (budget_state (outstanding s))) + load_count st"
      "unat (weight_used (budget_state b)) + queue_load (event_weight (max_weight b)) (q_state q) =
        unat (weight_used (budget_state (outstanding s))) + queue_load (event_weight (max_weight b)) st"
  shows "bus_inv n' t' (signal_changed (s\<lparr>queue_store := fmupd a (q\<lparr>q_state := st\<rparr>) (queue_store s),
    outstanding := b, settlements := fmupd h x (settlements s)\<rparr>))"
proof -
  let ?s' = "s\<lparr>queue_store := fmupd a (q\<lparr>q_state := st\<rparr>) (queue_store s),
    outstanding := b, settlements := fmupd h x (settlements s)\<rparr>"
  have acc: "account_ok s" and tok: "tokens_ok s" using inv by (simp_all add: bus_inv_def)
  have "account_ok ?s'"
    by (rule account_upd [OF acc q, where b = b and st = st]) (use b in simp_all)
  moreover have "tokens_ok ?s'"
    by (rule tokens_ok_settled [OF tok q fl st(1,2)]) simp_all
  moreover have "queue_ok n' t' (q\<lparr>q_state := st\<rparr>)"
    using st bus_inv_queue [OF inv q] by (auto simp: queue_ok_def)
  ultimately have "bus_inv n' t' ?s'"
    by (intro bus_inv_upd [OF inv q, where st = st]) (use le in simp_all)
  then show ?thesis by simp
qed

text \<open>The deliveries that a settlement acts on.\<close>

definition settles ::
  "local_shared \<Rightarrow> local_queue \<Rightarrow> settlement_token \<Rightarrow> nat \<Rightarrow> local_settlement_state \<Rightarrow> local_in_flight \<Rightarrow> bool" where
  "settles s q token h ts fl \<longleftrightarrow> belongs_to token (q_id q) \<and> downcast_handle (token_state token) = Some h \<and>
     fmlookup (settlements s) h = Some ts \<and> disposition ts = None \<and>
     fmlookup (in_flight (q_state q)) (token_id ts) = Some fl \<and> flight_settlement fl = h"

lemma settle_noop:
  assumes "fmlookup (queue_store s) a = Some q" and "token_known s token"
    and "\<nexists>h ts fl. settles s q token h ts fl"
  shows "\<exists>r. settle it now s a token d = Some (s, r)"
  using assms by (auto simp: settle_def settles_def Let_def token_known_def split: option.splits)

lemma settle_retry_eq:
  assumes "fmlookup (queue_store s) a = Some q" and "settles s q token h ts fl"
  shows "settle it now s a token Retry = Some (signal_changed
    (s\<lparr>queue_store := fmupd a (q\<lparr>q_state := enqueue_front_at it
          ((q_state q)\<lparr>in_flight := fmdrop (token_id ts) (in_flight (q_state q))\<rparr>) (flight_event fl) now\<rparr>) (queue_store s),
       outstanding := outstanding s, settlements := fmupd h (ts\<lparr>disposition := Some Retry\<rparr>) (settlements s)\<rparr>), Inr ())"
  using assms by (simp add: settle_def settles_def Let_def)

lemma settle_final_eq:
  assumes "fmlookup (queue_store s) a = Some q" and "settles s q token h ts fl" and "d \<noteq> Retry"
    and "release_reservation (outstanding s) 1 (weight_bytes (flight_event fl)) = Some b"
  shows "settle it now s a token d = Some (signal_changed
    (s\<lparr>queue_store := fmupd a (q\<lparr>q_state :=
          (q_state q)\<lparr>in_flight := fmdrop (token_id ts) (in_flight (q_state q))\<rparr>\<rparr>) (queue_store s),
       outstanding := b, settlements := fmupd h (ts\<lparr>disposition := Some d\<rparr>) (settlements s)\<rparr>), Inr ())"
  using assms by (simp add: settle_def settles_def Let_def)

lemma settle_retry_inv:
  assumes inv: "bus_inv n t s" and q: "fmlookup (queue_store s) a = Some q"
    and fl: "settles s q token h ts fl"
    and n: "n + 1 < 2 ^ 64" and it: "iteration_order it" and t: "t \<le> now"
  shows "\<exists>s'. settle it now s a token Retry = Some (s', Inr ()) \<and> bus_inv (n + 1) now s'"
proof -
  let ?st0 = "(q_state q)\<lparr>in_flight := fmdrop (token_id ts) (in_flight (q_state q))\<rparr>"
  have tk: "fmlookup (in_flight (q_state q)) (token_id ts) = Some fl" "flight_settlement fl = h"
    using fl by (simp_all add: settles_def)
  have st0: "queue_inv t ?st0" "versions_le n ?st0"
    using bus_inv_queue [OF inv q] by (simp_all add: queue_ok_def)
  have acc: "account_ok s" using inv by (simp add: bus_inv_def)
  have "bus_inv (n + 1) now (signal_changed (s\<lparr>queue_store := fmupd a (q\<lparr>q_state :=
      enqueue_front_at it ?st0 (flight_event fl) now\<rparr>) (queue_store s),
      outstanding := outstanding s, settlements := fmupd h (ts\<lparr>disposition := Some Retry\<rparr>) (settlements s)\<rparr>))"
    by (rule bus_inv_settled [OF inv q tk]) (use enqueue_front_ok(1,2) [OF st0 n it t]
      load_enqueue_front [OF st0 n it t] load_drop_flight [OF tk(1)] acc t in \<open>simp_all add: account_ok_def\<close>)
  then show ?thesis unfolding settle_retry_eq [OF q fl] by blast
qed

lemma settle_final_inv:
  assumes inv: "bus_inv n t s" and q: "fmlookup (queue_store s) a = Some q"
    and fl: "settles s q token h ts fl" and d: "d \<noteq> Retry" and t: "t \<le> now"
  shows "\<exists>s' b. settle it now s a token d = Some (s', Inr ()) \<and> bus_inv (n + 1) now s' \<and>
    release_reservation (outstanding s) 1 (weight_bytes (flight_event fl)) = Some b \<and> outstanding s' = b"
proof -
  let ?st0 = "(q_state q)\<lparr>in_flight := fmdrop (token_id ts) (in_flight (q_state q))\<rparr>"
  let ?e = "flight_event fl"
  have tk: "fmlookup (in_flight (q_state q)) (token_id ts) = Some fl" "flight_settlement fl = h"
    using fl by (simp_all add: settles_def)
  have acc: "account_ok s" using inv by (simp add: bus_inv_def)
  note load0 = load_drop_flight [OF tk(1)]
  have "event_weight (max_weight (outstanding s)) ?e \<le> unat (weight_used (budget_state (outstanding s)))"
    "1 \<le> unat (count_used (budget_state (outstanding s)))"
    using load_le_budget [OF acc q] load0 [of "\<lambda>_. 1"] load0 [of "event_weight (max_weight (outstanding s))"]
    by simp_all
  then obtain b where rel: "release_reservation (outstanding s) 1 (weight_bytes ?e) = Some b"
    using release_reservation_ok [of 1 "outstanding s" "weight_bytes ?e"] by (auto simp: charged_event_weight)
  have st0: "queue_inv now ?st0" "versions_le (n + 1) ?st0"
    using bus_inv_queue [OF inv q] queue_inv_mono [OF _ t] versions_le_mono [of n _ "n + 1"]
    by (simp_all add: queue_ok_def)
  have "bus_inv (n + 1) now (signal_changed (s\<lparr>queue_store := fmupd a (q\<lparr>q_state := ?st0\<rparr>) (queue_store s),
      outstanding := b, settlements := fmupd h (ts\<lparr>disposition := Some d\<rparr>) (settlements s)\<rparr>))"
    by (rule bus_inv_settled [OF inv q tk]) (use st0 load0 release_reservation_Some [OF rel] acc t
      budget_wf_release [OF _ rel] in \<open>simp_all add: account_ok_def charged_event_weight\<close>)
  then show ?thesis
    using settle_final_eq [OF q fl d rel] rel by (auto simp: signal_changed_def)
qed

lemma settle_ok:
  assumes inv: "bus_inv n t s" and q: "fmlookup (queue_store s) a = Some q"
    and n: "n + 1 < 2 ^ 64" and it: "iteration_order it" and t: "t \<le> now"
    and known: "token_known s token"
  obtains s' r where "settle it now s a token d = Some (s', r)" "bus_inv (n + 1) now s'"
proof (cases "\<exists>h ts fl. settles s q token h ts fl")
  case True
  then show thesis
    using that settle_retry_inv [OF inv q _ n it t] settle_final_inv [OF inv q _ _ t] by metis
next
  case False
  then show thesis using that settle_noop [OF q known] bus_inv_mono [OF inv] t by fastforce
qed

section \<open>Receiving\<close>

lemma tokens_ok_received:
  assumes tok: "tokens_ok s" and q: "fmlookup (queue_store s) a = Some q"
    and st: "in_flight st = fmupd tk \<lparr>flight_event = e, flight_settlement = next_address s\<rparr> (in_flight (q_state q))"
      "next_delivery_token (q_state q) \<le> next_delivery_token st"
      "tk = delivery_token (ev_id e) (next_delivery_token st)"
    and s': "queue_store s' = fmupd a (q\<lparr>q_state := st\<rparr>) (queue_store s)"
      "settlements s' = fmupd (next_address s) \<lparr>token_id = tk, disposition = None\<rparr> (settlements s)"
      "next_address s' = Suc (next_address s)"
  shows "tokens_ok s'"
proof -
  have split: "(x = a \<and> tk' = tk \<and> flight_settlement fl' = next_address s \<and> q' = q\<lparr>q_state := st\<rparr> \<and> flight_event fl' = e) \<or>
      (\<exists>q0. fmlookup (queue_store s) x = Some q0 \<and> fmlookup (in_flight (q_state q0)) tk' = Some fl' \<and>
        next_delivery_token (q_state q0) \<le> next_delivery_token (q_state q') \<and>
        flight_settlement fl' < next_address s)"
    if "fmlookup (queue_store s') x = Some q'" "fmlookup (in_flight (q_state q')) tk' = Some fl'" for x q' tk' fl'
  proof (cases "x = a \<and> tk' = tk")
    case True
    then show ?thesis using that st s' by auto
  next
    case False
    then obtain q0 where q0: "fmlookup (queue_store s) x = Some q0" "fmlookup (in_flight (q_state q0)) tk' = Some fl'"
      "next_delivery_token (q_state q0) \<le> next_delivery_token (q_state q')"
      using \<open>fmlookup (queue_store s') x = Some q'\<close> \<open>fmlookup (in_flight (q_state q')) tk' = Some fl'\<close> q st s'(1)
      by (auto split: if_splits)
    then show ?thesis using tokens_okD(2) [OF tok q0(1,2)] by (auto simp: flight_ok_def)
  qed
  show ?thesis
  proof (rule tokens_okI, goal_cases)
    case (1 x q')
    then show ?case using tokens_okD(1) [OF tok] q s'(1,3) by (auto split: if_splits intro: less_SucI)
  next
    case (2 x q' tk' fl')
    from split [OF 2] show ?case
    proof
      assume "x = a \<and> tk' = tk \<and> flight_settlement fl' = next_address s \<and> q' = q\<lparr>q_state := st\<rparr> \<and> flight_event fl' = e"
      then show ?thesis using st s' by (auto simp: flight_ok_def)
    next
      assume "\<exists>q0. fmlookup (queue_store s) x = Some q0 \<and> fmlookup (in_flight (q_state q0)) tk' = Some fl' \<and>
        next_delivery_token (q_state q0) \<le> next_delivery_token (q_state q') \<and>
        flight_settlement fl' < next_address s"
      then show ?thesis using tokens_okD(2) [OF tok] s' by (fastforce simp: flight_ok_def)
    qed
  next
    case (3 x q1 tk1 fl1 x' q2 tk2 fl2)
    from split [OF 3(1,2)] split [OF 3(3,4)] 3(5) show ?case
      using tokens_okD(3) [OF tok] by (metis less_irrefl)
  qed
qed

lemma token_fresh:
  assumes "tokens_ok s" and "fmlookup (queue_store s) a = Some q"
    and "checked_add (next_delivery_token (q_state q)) 1 = Some sq"
  shows "fmlookup (in_flight (q_state q)) (delivery_token i sq) = None"
proof (rule ccontr)
  assume "fmlookup (in_flight (q_state q)) (delivery_token i sq) \<noteq> None"
  then obtain fl where "flight_ok s (q_state q) (delivery_token i sq) fl"
    using tokens_okD(2) [OF assms(1,2)] by blast
  then obtain m where "delivery_token i sq = delivery_token (ev_id (flight_event fl)) m"
    "m \<le> next_delivery_token (q_state q)"
    by (auto simp: flight_ok_def)
  then have "sq \<le> next_delivery_token (q_state q)" using delivery_token_inj by blast
  then show False using assms(3) by (simp add: checked_add_Some_iff word_le_nat_alt)
qed

text \<open>A receive that only moves schedules around.\<close>

lemma bus_inv_same_load:
  assumes inv: "bus_inv n t s" and q: "fmlookup (queue_store s) a = Some q"
    and le: "n \<le> n'" "t \<le> t'"
    and st: "\<And>f. queue_load f st = queue_load f (q_state q)" "in_flight st = in_flight (q_state q)"
      "next_delivery_token st = next_delivery_token (q_state q)" "queue_closed st = queue_closed (q_state q)"
      "queue_inv t' st" "versions_le n' st"
  shows "bus_inv n' t' (s\<lparr>queue_store := fmupd a (q\<lparr>q_state := st\<rparr>) (queue_store s)\<rparr>)"
proof -
  let ?s' = "s\<lparr>queue_store := fmupd a (q\<lparr>q_state := st\<rparr>) (queue_store s)\<rparr>"
  have "account_ok ?s'"
    by (rule account_upd [OF _ q, where b = "outstanding s" and st = st])
      (use inv st in \<open>simp_all add: bus_inv_def account_ok_def\<close>)
  moreover have "tokens_ok ?s'"
    by (rule tokens_ok_upd [OF _ q, where st = st]) (use inv st in \<open>simp_all add: bus_inv_def\<close>)
  moreover have "queue_ok n' t' (q\<lparr>q_state := st\<rparr>)"
    using st bus_inv_queue [OF inv q] by (simp add: queue_ok_def)
  ultimately show ?thesis
    by (intro bus_inv_upd [OF inv q, where st = st]) (use le in simp_all)
qed

lemma bus_inv_delivered:
  assumes inv: "bus_inv n t s" and q: "fmlookup (queue_store s) a = Some q"
    and le: "n \<le> n'" "t \<le> t'" and opn: "\<not> queue_closed (q_state q)"
    and st: "popped t' (q_state q) st (Some e)" "same_client (q_state q) st" "queue_inv t' st" "versions_le n' st"
    and sq: "checked_add (next_delivery_token st) 1 = Some sq" and tk: "tk = delivery_token (ev_id e) sq"
  shows "bus_inv n' t' (s\<lparr>queue_store := fmupd a (q\<lparr>q_state := st\<lparr>next_delivery_token := sq,
      in_flight := fmupd tk \<lparr>flight_event = e, flight_settlement = next_address s\<rparr> (in_flight st)\<rparr>\<rparr>) (queue_store s),
    settlements := fmupd (next_address s) \<lparr>token_id = tk, disposition = None\<rparr> (settlements s),
    next_address := Suc (next_address s)\<rparr>)"
proof -
  let ?st = "st\<lparr>next_delivery_token := sq,
      in_flight := fmupd tk \<lparr>flight_event = e, flight_settlement = next_address s\<rparr> (in_flight st)\<rparr>"
  let ?s' = "s\<lparr>queue_store := fmupd a (q\<lparr>q_state := ?st\<rparr>) (queue_store s),
    settlements := fmupd (next_address s) \<lparr>token_id = tk, disposition = None\<rparr> (settlements s),
    next_address := Suc (next_address s)\<rparr>"
  have cl: "in_flight st = in_flight (q_state q)" "next_delivery_token st = next_delivery_token (q_state q)"
      "queue_closed st = queue_closed (q_state q)"
    using st(2) by (simp_all add: same_client_def)
  have tok: "tokens_ok s" and acc: "account_ok s" using inv by (simp_all add: bus_inv_def)
  have fresh: "fmlookup (in_flight (q_state q)) tk = None"
    using token_fresh [OF tok q] sq by (simp add: cl tk)
  have load: "queue_load f ?st = queue_load f (q_state q)" for f
    using load_popped [OF st(1,2), of f] fmsum_upd_new [OF fresh] by (simp add: queue_load_def cl)
  have "account_ok ?s'"
    by (rule account_upd [OF acc q, where b = "outstanding s" and st = ?st])
      (use acc load in \<open>simp_all add: account_ok_def\<close>)
  moreover have "tokens_ok ?s'"
    by (rule tokens_ok_received [OF tok q, where st = ?st and tk = tk and e = e])
      (use sq tk in \<open>simp_all add: cl checked_add_Some_iff word_le_nat_alt\<close>)
  moreover have "queue_ok n' t' (q\<lparr>q_state := ?st\<rparr>)"
    using st(3,4) load [of "\<lambda>_. 1"] bus_inv_queue [OF inv q] opn by (simp add: queue_ok_def cl)
  ultimately show ?thesis
    by (intro bus_inv_upd [OF inv q, where st = ?st]) (use le in simp_all)
qed

lemma receive_iteration_ok:
  assumes inv: "bus_inv n t s" and q: "fmlookup (queue_store s) a = Some q"
    and n: "n + 2 < 2 ^ 64" and it: "iteration_order it" and t: "t \<le> now" "now \<le> later"
  obtains s' r where "receive_iteration it now later el timeout s a = Some (s', r)" "bus_inv (n + 2) later s'"
proof (cases "queue_closed (q_state q)")
  case True
  then show thesis
    using that q bus_inv_mono [OF inv, of "n + 2" later] t by (simp add: receive_iteration_def Let_def)
next
  case False
  have st: "queue_inv t (q_state q)" "versions_le n (q_state q)"
    using bus_inv_queue [OF inv q] by (simp_all add: queue_ok_def)
  have n1: "n + 1 < 2 ^ 64" "(n + 1) + 1 < 2 ^ 64" using n by simp_all
  obtain st' r where pop: "pop_ready it (q_state q) now = (st', r)" by fastforce
  note p = pop_ready_ok [OF st(1) t(1) st(2) n1(1) it pop]
  have cl: "in_flight st' = in_flight (q_state q)" "next_delivery_token st' = next_delivery_token (q_state q)"
      "queue_closed st' = queue_closed (q_state q)"
    using p(3) by (simp_all add: same_client_def)
  show thesis
  proof (cases r)
    case (Some e)
    note load = load_popped [OF p(4) [unfolded Some] p(3)]
    show thesis
    proof (cases "checked_add (next_delivery_token st') 1")
      case None
      let ?st = "enqueue_front_at it st' e later"
      have "bus_inv (n + 2) later (s\<lparr>queue_store := fmupd a (q\<lparr>q_state := ?st\<rparr>) (queue_store s)\<rparr>)"
        by (rule bus_inv_same_load [OF inv q])
          (use enqueue_front_ok(1,2) [OF p(1,2) n1(2) it t(2)] load_enqueue_front [OF p(1,2) n1(2) it t(2)]
            load cl t in simp_all)
      then show thesis using that q False pop Some None by (simp add: receive_iteration_def Let_def)
    next
      case (Some sq)
      have vl: "versions_le (n + 2) st'" by (rule versions_le_mono [OF p(2)]) simp
      have "bus_inv (n + 2) now (s\<lparr>queue_store := fmupd a (q\<lparr>q_state := st'\<lparr>next_delivery_token := sq,
          in_flight := fmupd (delivery_token (ev_id e) sq)
            \<lparr>flight_event = e, flight_settlement = next_address s\<rparr> (in_flight st')\<rparr>\<rparr>) (queue_store s),
        settlements := fmupd (next_address s) \<lparr>token_id = delivery_token (ev_id e) sq, disposition = None\<rparr> (settlements s),
        next_address := Suc (next_address s)\<rparr>)"
        by (rule bus_inv_delivered [OF inv q _ t(1) False p(4) [unfolded \<open>r = Some e\<close>] p(3) p(1) vl Some refl]) simp
      then show thesis
        using that q False pop \<open>r = Some e\<close> Some bus_inv_mono [OF _ order_refl t(2)]
        by (simp add: receive_iteration_def Let_def)
    qed
  next
    case None
    note load = load_popped [OF p(4) [unfolded None] p(3), simplified]
    have keep: "bus_inv (n + 2) later (s\<lparr>queue_store := fmupd a (q\<lparr>q_state := st''\<rparr>) (queue_store s)\<rparr>)"
      if st'': "same_queue st' st''" "queue_inv now st''" for st''
      by (rule bus_inv_same_load [OF inv q]) (use st'' queue_inv_mono [OF _ t(2)] versions_le_mono [OF p(2)] load cl t
        in \<open>simp_all add: same_queue_def queue_load_def\<close>)
    have "same_queue st' st'" by (simp add: same_queue_def)
    note k1 = keep [OF this p(1)]
    obtain st2 d where nr: "next_ready_delay st' now = (st2, d)" by fastforce
    have rl: "ready_lanes st' = []" using p(4) None by (simp add: popped_def)
    note k2 = keep [OF next_ready_delay_ok(2,1) [OF p(1) rl nr]]
    have "\<exists>r'. receive_iteration it now later el timeout s a =
        Some (s\<lparr>queue_store := fmupd a (q\<lparr>q_state := st'\<rparr>) (queue_store s)\<rparr>, r') \<or>
      receive_iteration it now later el timeout s a =
        Some (s\<lparr>queue_store := fmupd a (q\<lparr>q_state := st2\<rparr>) (queue_store s)\<rparr>, r')"
      using q False pop None nr by (auto simp: receive_iteration_def Let_def)
    then show thesis using that k1 k2 by blast
  qed
qed

section \<open>Subscribing\<close>

lemma bus_inv_new_queue:
  assumes inv: "bus_inv n t s"
    and q: "q_state q = local_queue_state_default"
  shows "bus_inv n t (s\<lparr>queue_store := fmupd (next_address s) q (queue_store s),
    next_address := Suc (next_address s)\<rparr>)"
proof -
  have tok: "tokens_ok s" and acc: "account_ok s" using inv by (simp_all add: bus_inv_def)
  have new: "fmlookup (queue_store s) (next_address s) = None"
    using tokens_okD(1) [OF tok] by (metis not_None_eq not_less_iff_gr_or_eq)
  have empty: "queue_load f local_queue_state_default = 0" for f
    using default_inv(3) by (simp add: queue_load_def lanes_total_def local_queue_state_default_def)
  have fl: "in_flight (q_state q) = fmempty" by (simp add: q local_queue_state_default_def)
  have "account_ok (s\<lparr>queue_store := fmupd (next_address s) q (queue_store s), next_address := Suc (next_address s)\<rparr>)"
    using acc fmsum_upd_new [OF new] by (simp add: account_ok_def q empty)
  moreover have "tokens_ok (s\<lparr>queue_store := fmupd (next_address s) q (queue_store s), next_address := Suc (next_address s)\<rparr>)"
  proof (rule tokens_okI, goal_cases)
    case (1 x q')
    then show ?case using tokens_okD(1) [OF tok] by (auto split: if_splits intro: less_SucI)
  next
    case (2 x q' tk fl)
    then show ?case using tokens_okD(2) [OF tok] fl by (fastforce simp: flight_ok_def split: if_splits)
  next
    case (3 x q1 tk1 fl1 x' q2 tk2 fl2)
    then show ?case using tokens_okD(3) [OF tok] fl by (auto split: if_splits)
  qed
  moreover have "queue_ok n t q"
    using default_inv(1,2) by (simp add: queue_ok_def q empty)
  ultimately show ?thesis using inv by (simp add: bus_inv_def)
qed

text \<open>A subscription changes the bus state, and allocates an empty queue when it succeeds.\<close>

lemma subscribe_shape:
  "(\<exists>x e. subscribe itt s r = (s\<lparr>bus := x\<rparr>, Inl e)) \<or>
   (\<exists>x. subscribe itt s r = (s\<lparr>queue_store := fmupd (next_address s)
        \<lparr>q_id = req_subscription_id r, q_topic = req_topic r, q_subscriber_id = req_subscriber_id r,
         q_capacity = shared_capacity s, q_state = local_queue_state_default\<rparr> (queue_store s),
      next_address := Suc (next_address s), bus := x, alive := finsert (next_address s) (alive s)\<rparr>,
      Inr (next_address s)))"
proof -
  have "\<exists>x. s = s\<lparr>bus := x\<rparr>" by (rule exI [of _ "bus s"]) simp
  then show ?thesis by (cases s) (auto simp: subscribe_def Let_def)
qed

lemma subscribe_inv: "bus_inv n t s \<Longrightarrow> bus_inv n t (fst (subscribe itt s r))"
  using subscribe_shape [of itt s r] bus_inv_new_queue [of n t s] by auto

lemma new_inv: "local_shared_new cap mc mw = Some s \<Longrightarrow> bus_inv n t s"
  by (auto simp: local_shared_new_def budget_new_def bus_inv_def account_ok_def tokens_ok_def budget_wf_def
      outstanding_state_default_def split: if_splits option.splits)

end
