(* ===== verification/Local_Registry.thy ===== *)
theory Local_Registry
  imports Local_Bus_Inv
begin

text \<open>
  The registry of the in-memory provider: which queue is registered for which topic and id
  (\<open>src/src/local/state/bus_state.rs\<close> and \<open>topic_subscriptions.rs\<close>). The invariant \<open>reg_ok\<close> says that
  every open queue is alive and registered under its own topic and id, that a registered id is
  in the id set and names a queue with that id and topic, and that no id is registered twice.
  All critical sections keep it, so a publication reaches every open queue of its topic and a
  shutdown drains every open queue.
\<close>

section \<open>Registrations\<close>

definition registered :: "bus_state \<Rightarrow> topic_address \<Rightarrow> id \<Rightarrow> nat option" where
  "registered bs t i = Option.bind (fmlookup (topics bs) t) (\<lambda>b. fmlookup (queues b) i)"

lemma btree_keys_set [simp]: "set (btree_keys m) = fset (fmdom m)"
  by (simp add: btree_keys_def)

lemma btree_keys_sorted: "sorted (btree_keys m)" "distinct (btree_keys m)"
  by (simp_all add: btree_keys_def)

lemma btree_values_set: "set (btree_values m) = {v. \<exists>k. fmlookup m k = Some v}"
  by (force simp: btree_values_def fmlookup_dom_iff)

lemma btree_values_Nil: "btree_values m = [] \<longleftrightarrow> m = fmempty"
proof
  assume "btree_values m = []"
  then have "fmlookup m k = None" for k
    using btree_values_set [of m] by (cases "fmlookup m k") auto
  then show "m = fmempty" by (intro fmap_ext) simp
qed (simp add: btree_values_def btree_keys_def)

lemma registered_topics_upd:
  "registered (bs\<lparr>topics := fmupd t b (topics bs')\<rparr>) t' i =
     (if t' = t then fmlookup (queues b) i else registered bs' t' i)"
  by (simp add: registered_def)

lemma live_queues_for_topic_registered:
  "registered (fst (live_queues_for_topic live bs t)) t' i =
     (if t' = t then (case registered bs t i of
        None \<Rightarrow> None | Some a \<Rightarrow> if a |\<in>| live then Some a else None)
      else registered bs t' i)"
proof (cases "fmlookup (topics bs) t")
  case None
  then show ?thesis by (auto simp: live_queues_for_topic_def registered_def)
next
  case (Some b)
  let ?r = "fmfilter (\<lambda>i. the (fmlookup (queues b) i) |\<in>| live) (queues b)"
  have r: "fmlookup ?r i = (case fmlookup (queues b) i of
      None \<Rightarrow> None | Some a \<Rightarrow> if a |\<in>| live then Some a else None)"
    by (auto split: option.splits)
  have qs: "queues (fst (bucket_live_queues live b)) = ?r"
    by (simp add: bucket_live_queues_def Let_def)
  show ?thesis
  proof (cases "?r = fmempty")
    case True
    then have "fmlookup ?r i = None" by simp
    then show ?thesis
      using r qs True by (auto simp: live_queues_for_topic_def Some registered_def Let_def split_beta)
  next
    case False
    then show ?thesis
      using r qs by (auto simp: live_queues_for_topic_def Some registered_def Let_def split_beta)
  qed
qed

lemma live_queues_for_topic_ids:
  "i |\<in>| subscription_ids (fst (live_queues_for_topic live bs t)) \<longleftrightarrow>
   i |\<in>| subscription_ids bs \<and> \<not> (\<exists>a. registered bs t i = Some a \<and> a |\<notin>| live)"
  by (auto simp: live_queues_for_topic_def registered_def Let_def split_beta fmlookup_dom_iff fset_of_list_elem
      split: option.splits)

lemma live_queues_for_topic_result:
  "set (snd (live_queues_for_topic live bs t)) = {a. a |\<in>| live \<and> (\<exists>i. registered bs t i = Some a)}"
proof (cases "fmlookup (topics bs) t")
  case None
  then show ?thesis by (simp add: live_queues_for_topic_def registered_def)
next
  case (Some b)
  then show ?thesis
    by (force simp: live_queues_for_topic_def registered_def Let_def split_beta bucket_live_queues_def
        btree_values_set split: if_splits)
qed

lemma live_queues_for_topic_flags [simp]:
  "bus_closed (fst (live_queues_for_topic live bs t)) = bus_closed bs"
  "bus_shutdown_outcome (fst (live_queues_for_topic live bs t)) = bus_shutdown_outcome bs"
  "change_version (fst (live_queues_for_topic live bs t)) = change_version bs"
  by (simp_all add: live_queues_for_topic_def Let_def split_beta split: option.splits)

section \<open>The registry invariant\<close>

definition reg_ok :: "local_shared \<Rightarrow> bool" where
  "reg_ok s \<longleftrightarrow>
     (\<forall>a q. fmlookup (queue_store s) a = Some q \<and> \<not> queue_closed (q_state q) \<longrightarrow>
        a |\<in>| alive s \<and> registered (bus s) (q_topic q) (q_id q) = Some a) \<and>
     (\<forall>t i a. registered (bus s) t i = Some a \<longrightarrow> i |\<in>| subscription_ids (bus s) \<and>
        (\<exists>q. fmlookup (queue_store s) a = Some q \<and> q_id q = i \<and> q_topic q = t)) \<and>
     (\<forall>t t' i. registered (bus s) t i \<noteq> None \<and> registered (bus s) t' i \<noteq> None \<longrightarrow> t = t')"

lemma reg_okD:
  assumes "reg_ok s"
  shows "fmlookup (queue_store s) a = Some q \<Longrightarrow> \<not> queue_closed (q_state q) \<Longrightarrow> a |\<in>| alive s"
    and "fmlookup (queue_store s) a = Some q \<Longrightarrow> \<not> queue_closed (q_state q) \<Longrightarrow>
      registered (bus s) (q_topic q) (q_id q) = Some a"
    and "registered (bus s) t i = Some a \<Longrightarrow> i |\<in>| subscription_ids (bus s)"
    and "registered (bus s) t i = Some a \<Longrightarrow>
      \<exists>q. fmlookup (queue_store s) a = Some q \<and> q_id q = i \<and> q_topic q = t"
    and "registered (bus s) t i = Some a \<Longrightarrow> registered (bus s) t' i = Some a' \<Longrightarrow> t = t'"
  using assms unfolding reg_ok_def by blast+

lemma reg_okI:
  assumes "\<And>a q. fmlookup (queue_store s) a = Some q \<Longrightarrow> \<not> queue_closed (q_state q) \<Longrightarrow>
      a |\<in>| alive s \<and> registered (bus s) (q_topic q) (q_id q) = Some a"
    and "\<And>t i a. registered (bus s) t i = Some a \<Longrightarrow> i |\<in>| subscription_ids (bus s) \<and>
      (\<exists>q. fmlookup (queue_store s) a = Some q \<and> q_id q = i \<and> q_topic q = t)"
    and "\<And>t t' i a a'. registered (bus s) t i = Some a \<Longrightarrow> registered (bus s) t' i = Some a' \<Longrightarrow> t = t'"
  shows "reg_ok s"
  using assms unfolding reg_ok_def by blast

text \<open>Purging dead entries.\<close>

lemma reg_ok_live_topic:
  assumes "reg_ok s"
  shows "reg_ok (s\<lparr>bus := fst (live_queues_for_topic (alive s) (bus s) t)\<rparr>)"
proof -
  note D = reg_okD [OF assms]
  show ?thesis
  proof (rule reg_okI, goal_cases)
    case (1 a q)
    then show ?case using D(1,2) [of a q] by (auto simp: live_queues_for_topic_registered)
  next
    case (2 t' i a)
    then have r: "registered (bus s) t' i = Some a" and al: "t' = t \<Longrightarrow> a |\<in>| alive s"
      by (auto simp: live_queues_for_topic_registered split: if_splits option.splits)
    have "x |\<in>| alive s" if "registered (bus s) t i = Some x" for x
      using D(5) [OF r that] r al that by simp
    then show ?case using D(3,4) [OF r] by (auto simp: live_queues_for_topic_ids)
  next
    case (3 t1 t2 i a a')
    then show ?case using D(5) by (auto simp: live_queues_for_topic_registered split: if_splits option.splits)
  qed
qed

lemma live_queues_of_ok:
  "reg_ok s \<Longrightarrow> live_queues_of (alive s) (bus s) ts = (bs, qs) \<Longrightarrow>
   reg_ok (s\<lparr>bus := bs\<rparr>) \<and> bus_closed bs = bus_closed (bus s) \<and>
   bus_shutdown_outcome bs = bus_shutdown_outcome (bus s) \<and>
   (\<forall>t \<in> set ts. \<forall>i a. registered (bus s) t i = Some a \<and> a |\<in>| alive s \<longrightarrow> a \<in> set qs) \<and>
   (\<forall>a \<in> set qs. \<exists>t i. registered (bus s) t i = Some a)"
proof (induction ts arbitrary: s bs qs)
  case Nil
  then show ?case by auto
next
  case (Cons t ts)
  obtain b1 q1 where step: "live_queues_for_topic (alive s) (bus s) t = (b1, q1)" by fastforce
  let ?s = "s\<lparr>bus := b1\<rparr>"
  obtain b2 q2 where rest: "live_queues_of (alive ?s) (bus ?s) ts = (b2, q2)" by fastforce
  have eq: "bs = b2" "qs = q1 @ q2" using Cons.prems(2) step rest by simp_all
  have r1: "reg_ok ?s" using reg_ok_live_topic [OF Cons.prems(1), of t] step by simp
  note IH = Cons.IH [OF r1 rest]
  note reg = live_queues_for_topic_registered [of "alive s" "bus s" t, unfolded step fst_conv]
  have res: "set q1 = {a. a |\<in>| alive s \<and> (\<exists>i. registered (bus s) t i = Some a)}"
    using live_queues_for_topic_result [of "alive s" "bus s" t] step by simp
  have "a \<in> set qs" if "t' \<in> set (t # ts)" "registered (bus s) t' i = Some a" "a |\<in>| alive s" for t' i a
    using that IH res reg [of t' i] by (cases "t' = t") (auto simp: eq)
  moreover have "\<exists>t i. registered (bus s) t i = Some a" if "a \<in> set qs" for a
    using that IH res reg by (fastforce simp: eq split: if_splits option.splits)
  ultimately show ?case
    using IH live_queues_for_topic_flags [of "alive s" "bus s" t] step by (auto simp: eq)
qed

lemma live_queues_ok:
  assumes "reg_ok s" and "iteration_order itt" and "live_queues itt (alive s) (bus s) = (bs, qs)"
  shows "reg_ok (s\<lparr>bus := bs\<rparr>)" "bus_closed bs = bus_closed (bus s)"
    "bus_shutdown_outcome bs = bus_shutdown_outcome (bus s)"
    "fmlookup (queue_store s) a = Some q \<Longrightarrow> \<not> queue_closed (q_state q) \<Longrightarrow> a \<in> set qs"
    "a \<in> set qs \<Longrightarrow> \<exists>q. fmlookup (queue_store s) a = Some q"
proof -
  note L = live_queues_of_ok [OF assms(1) assms(3) [unfolded live_queues_def]]
  show "reg_ok (s\<lparr>bus := bs\<rparr>)" "bus_closed bs = bus_closed (bus s)"
    "bus_shutdown_outcome bs = bus_shutdown_outcome (bus s)"
    using L by simp_all
  show "\<exists>q. fmlookup (queue_store s) a = Some q" if "a \<in> set qs"
    using L that reg_okD(4) [OF assms(1)] by blast
  show "a \<in> set qs" if "fmlookup (queue_store s) a = Some q" "\<not> queue_closed (q_state q)"
  proof -
    have r: "registered (bus s) (q_topic q) (q_id q) = Some a" and al: "a |\<in>| alive s"
      using reg_okD(1,2) [OF assms(1) that] by simp_all
    then have "q_topic q \<in> fset (fmdom (topics (bus s)))"
      by (auto simp: registered_def fmlookup_dom_iff bind_eq_Some_conv)
    then show ?thesis using L r al iteration_order_set [OF assms(2)] by blast
  qed
qed

text \<open>Changing the contents of queues, and closing them.\<close>

lemma reg_ok_store:
  assumes "reg_ok s" and "bus s' = bus s" and "alive s' = alive s"
    and "\<And>a. rel_option (\<lambda>q q'. q_id q' = q_id q \<and> q_topic q' = q_topic q \<and>
      (queue_closed (q_state q) \<longrightarrow> queue_closed (q_state q')))
      (fmlookup (queue_store s) a) (fmlookup (queue_store s') a)"
  shows "reg_ok s'"
proof -
  note D = reg_okD [OF assms(1)]
  show ?thesis
  proof (rule reg_okI, goal_cases)
    case (1 a q')
    then obtain q where "fmlookup (queue_store s) a = Some q" "q_id q' = q_id q" "q_topic q' = q_topic q"
      "\<not> queue_closed (q_state q)"
      using assms(4) [of a] by (auto simp: option_rel_Some2)
    then show ?case using D(1,2) [of a q] assms(2,3) by simp
  next
    case (2 t i a)
    then have r: "registered (bus s) t i = Some a" by (simp add: assms(2))
    then obtain q where "fmlookup (queue_store s) a = Some q" "q_id q = i" "q_topic q = t" using D(4) by blast
    then show ?case using D(3) [OF r] assms(2) assms(4) [of a] by (auto simp: option_rel_Some1)
  next
    case (3 t t' i a a')
    then show ?case using D(5) by (simp add: assms(2))
  qed
qed

lemma reg_ok_upd:
  assumes "reg_ok s" and "fmlookup (queue_store s) a = Some q" and "bus s' = bus s" and "alive s' = alive s"
    and "queue_store s' = fmupd a (q\<lparr>q_state := st\<rparr>) (queue_store s)"
    and "queue_closed (q_state q) \<Longrightarrow> queue_closed st"
  shows "reg_ok s'"
proof (rule reg_ok_store [OF assms(1,3,4)])
  show "rel_option (\<lambda>q q'. q_id q' = q_id q \<and> q_topic q' = q_topic q \<and>
      (queue_closed (q_state q) \<longrightarrow> queue_closed (q_state q')))
      (fmlookup (queue_store s) x) (fmlookup (queue_store s') x)" for x
    using assms(2,5,6) by (cases "fmlookup (queue_store s) x") auto
qed

lemma reg_ok_bus_flags [simp]:
  "reg_ok (s\<lparr>bus := (bus s)\<lparr>bus_closed := x\<rparr>\<rparr>) = reg_ok s"
  "reg_ok (s\<lparr>bus := (bus s)\<lparr>bus_shutdown_outcome := y\<rparr>\<rparr>) = reg_ok s"
  "reg_ok (s\<lparr>bus := (bus s)\<lparr>change_version := z\<rparr>\<rparr>) = reg_ok s"
  "reg_ok (s\<lparr>bus := (bus s)\<lparr>bus_closed := x, change_version := z\<rparr>\<rparr>) = reg_ok s"
  by (simp_all add: reg_ok_def registered_def)

lemma reg_ok_signal [simp]: "reg_ok (signal_changed s) = reg_ok s"
  by (simp add: signal_changed_def)

lemma reg_ok_outstanding [simp]: "reg_ok (s\<lparr>outstanding := b\<rparr>) = reg_ok s"
  by (simp add: reg_ok_def)

lemma reg_ok_same:
  "reg_ok s \<Longrightarrow> registered (bus s') = registered (bus s) \<Longrightarrow>
   subscription_ids (bus s') = subscription_ids (bus s) \<Longrightarrow> alive s' = alive s \<Longrightarrow>
   queue_store s' = queue_store s \<Longrightarrow> reg_ok s'"
  by (simp only: reg_ok_def)

text \<open>A bucket rewritten with the same queues.\<close>

lemma reg_ok_bucket:
  assumes "reg_ok s" and "fmlookup (topics (bus s)) t = Some b" and "queues b' = queues b"
  shows "reg_ok (s\<lparr>bus := (bus s)\<lparr>topics := fmupd t b' (topics (bus s))\<rparr>\<rparr>)"
proof -
  have "registered ((bus s)\<lparr>topics := fmupd t b' (topics (bus s))\<rparr>) = registered (bus s)"
    using assms(2,3) by (simp add: fun_eq_iff registered_def)
  then show ?thesis by (intro reg_ok_same [OF assms(1)]) simp_all
qed

section \<open>Critical sections keep the registry\<close>

lemma rotate_queues [simp]: "queues (fst (rotate_publish_queues qid b qs)) = queues b"
  by (simp add: rotate_publish_queues_def Let_def)

lemma publish_select_reg:
  assumes "reg_ok s"
  shows "reg_ok (fst (publish_select s m ty))"
proof -
  let ?t = "out_topic m"
  obtain bs qs where l: "live_queues_for_topic (alive s) (bus s) ?t = (bs, qs)" by fastforce
  have r: "reg_ok (s\<lparr>bus := bs\<rparr>)" using reg_ok_live_topic [OF assms, of ?t] l by simp
  have "reg_ok (s\<lparr>bus := bs\<lparr>topics := fmupd ?t (fst (rotate_publish_queues qid b qs)) (topics bs)\<rparr>\<rparr>)"
    if "fmlookup (topics bs) ?t = Some b" for qid b
    using reg_ok_bucket [OF r, of ?t b] that by simp
  then show ?thesis
    using assms r by (auto simp: publish_select_def Let_def l split: option.split prod.split) (metis fst_conv)+
qed

lemma publish_admit_reg: "reg_ok s \<Longrightarrow> reg_ok (fst (publish_admit it now event s a))"
  by (auto simp: publish_admit_def Let_def split: option.split prod.split sum.split
      intro: reg_ok_upd [where st = "enqueue_back_at it st event now" for st])

lemma receive_iteration_reg:
  assumes reg: "reg_ok s" and res: "receive_iteration it now later el timeout s a = Some (s', r)"
  shows "reg_ok s'"
proof (cases "fmlookup (queue_store s) a")
  case None
  then show ?thesis using res by (simp add: receive_iteration_def)
next
  case (Some q)
  show ?thesis
  proof (cases "queue_closed (q_state q)")
    case True
    then show ?thesis using reg res Some by (simp add: receive_iteration_def Let_def)
  next
    case False
    have "\<exists>st. queue_store s' = fmupd a (q\<lparr>q_state := st\<rparr>) (queue_store s) \<and> alive s' = alive s \<and>
        (bus s' = bus s \<or> bus s' = (bus s)\<lparr>change_version := change_version (bus s) + 1\<rparr>)"
      using res False Some
      by (auto simp: receive_iteration_def Let_def signal_changed_def
          split: prod.splits option.splits if_splits)
    then obtain st where st: "queue_store s' = fmupd a (q\<lparr>q_state := st\<rparr>) (queue_store s)" "alive s' = alive s"
      and "registered (bus s') = registered (bus s)" "subscription_ids (bus s') = subscription_ids (bus s)"
      by (auto simp: registered_def fun_eq_iff)
    moreover have "reg_ok (s\<lparr>queue_store := fmupd a (q\<lparr>q_state := st\<rparr>) (queue_store s)\<rparr>)"
      by (rule reg_ok_upd [OF reg Some, where st = st]) (use False in simp_all)
    ultimately show ?thesis by (elim reg_ok_same) simp_all
  qed
qed

lemma settle_reg:
  assumes reg: "reg_ok s" and res: "settle it now s a token d = Some (s', r)"
  shows "reg_ok s'"
proof (cases "fmlookup (queue_store s) a")
  case None
  then show ?thesis using res by (simp add: settle_def)
next
  case (Some q)
  have "s' = s \<or> (\<exists>st. queue_store s' = fmupd a (q\<lparr>q_state := st\<rparr>) (queue_store s) \<and> alive s' = alive s \<and>
      bus s' = (bus s)\<lparr>change_version := change_version (bus s) + 1\<rparr> \<and> queue_closed st = queue_closed (q_state q))"
    using res Some
    by (auto simp: settle_def Let_def signal_changed_def split: option.splits if_splits)
  then show ?thesis
  proof
    assume "\<exists>st. queue_store s' = fmupd a (q\<lparr>q_state := st\<rparr>) (queue_store s) \<and> alive s' = alive s \<and>
      bus s' = (bus s)\<lparr>change_version := change_version (bus s) + 1\<rparr> \<and> queue_closed st = queue_closed (q_state q)"
    then obtain st where st: "queue_store s' = fmupd a (q\<lparr>q_state := st\<rparr>) (queue_store s)" "alive s' = alive s"
      "registered (bus s') = registered (bus s)" "subscription_ids (bus s') = subscription_ids (bus s)"
      and cl: "queue_closed st = queue_closed (q_state q)"
      by (auto simp: registered_def fun_eq_iff)
    have "reg_ok (s\<lparr>queue_store := fmupd a (q\<lparr>q_state := st\<rparr>) (queue_store s)\<rparr>)"
      by (rule reg_ok_upd [OF reg Some, where st = st]) (use cl in simp_all)
    then show ?thesis using st by (elim reg_ok_same) simp_all
  qed (use reg in simp)
qed

lemma drain_queue_reg:
  assumes "reg_ok s" and "fmlookup (queue_store s) a = Some q"
    and "drain_queue it itf s a q = Some (s', es)"
  shows "reg_ok s'"
proof -
  have s': "queue_store s' = fmupd a (q\<lparr>q_state := fst (clear_pending it itf ((q_state q)\<lparr>queue_closed := True\<rparr>))\<rparr>)
      (queue_store s)" "bus s' = bus s" "alive s' = alive s"
    using assms(3) by (auto simp: drain_queue_def split_beta)
  show ?thesis by (rule reg_ok_upd [OF assms(1,2) s'(2,3,1)]) simp
qed

lemma close_queue_reg:
  assumes "reg_ok s" and "close_queue it itf s a = Some s'"
  shows "reg_ok s'"
  using assms drain_queue_reg [of s a _ it itf s']
  by (auto simp: close_queue_def split: option.splits if_splits)

lemma unregister_registered:
  assumes "fmlookup (queue_store s) a = Some q"
  shows "registered (bus (unregister s a)) t i =
      (if t = q_topic q \<and> i = q_id q \<and> registered (bus s) t i = Some a \<and> a |\<in>| alive s then None
       else registered (bus s) t i)"
    and "i |\<in>| subscription_ids (bus (unregister s a)) \<longleftrightarrow> i |\<in>| subscription_ids (bus s) \<and>
      \<not> (i = q_id q \<and> registered (bus s) (q_topic q) i = Some a \<and> a |\<in>| alive s)"
    and "queue_store (unregister s a) = queue_store s" and "alive (unregister s a) = alive s"
proof -
  show "registered (bus (unregister s a)) t i =
      (if t = q_topic q \<and> i = q_id q \<and> registered (bus s) t i = Some a \<and> a |\<in>| alive s then None
       else registered (bus s) t i)"
    using assms
    by (cases "fmlookup (topics (bus s)) (q_topic q)")
      (auto simp: unregister_def signal_changed_def registered_def bucket_remove_def Let_def
        split: option.splits dest: fmdrop_empty_lookup)
  show "i |\<in>| subscription_ids (bus (unregister s a)) \<longleftrightarrow> i |\<in>| subscription_ids (bus s) \<and>
      \<not> (i = q_id q \<and> registered (bus s) (q_topic q) i = Some a \<and> a |\<in>| alive s)"
    using assms
    by (cases "fmlookup (topics (bus s)) (q_topic q)")
      (auto simp: unregister_def signal_changed_def registered_def bucket_remove_def Let_def
        split: option.splits)
  show "queue_store (unregister s a) = queue_store s" "alive (unregister s a) = alive s"
    using assms by (simp_all add: unregister_def signal_changed_def Let_def split_beta)
qed

lemma unregister_reg:
  assumes reg: "reg_ok s" and q: "fmlookup (queue_store s) a = Some q" and cl: "queue_closed (q_state q)"
  shows "reg_ok (unregister s a)"
proof -
  note D = reg_okD [OF reg] and U = unregister_registered [OF q]
  show ?thesis
  proof (rule reg_okI, goal_cases)
    case (1 x q')
    then have "x \<noteq> a" using q cl by (auto simp: U)
    then show ?case using D(1,2) [of x q'] 1 by (auto simp: U)
  next
    case (2 t i x)
    then have r: "registered (bus s) t i = Some x"
      and other: "\<not> (t = q_topic q \<and> i = q_id q \<and> x = a \<and> a |\<in>| alive s)"
      by (auto simp: U split: if_splits)
    have "\<not> (i = q_id q \<and> registered (bus s) (q_topic q) i = Some a \<and> a |\<in>| alive s)"
      using D(5) [OF r] r other by fastforce
    then show ?case using D(3,4) [OF r] by (auto simp: U)
  next
    case (3 t t' i x x')
    then show ?case using D(5) by (auto simp: U split: if_splits)
  qed
qed

lemma drop_reference_reg:
  assumes reg: "reg_ok s" and q: "fmlookup (queue_store s) a = Some q" and cl: "queue_closed (q_state q)"
  shows "reg_ok (s\<lparr>alive := alive s |-| {|a|}\<rparr>)"
proof -
  note D = reg_okD [OF reg]
  show ?thesis
  proof (rule reg_okI, goal_cases)
    case (1 x q')
    then show ?case using D(1,2) [of x q'] q cl by auto
  next
    case (2 t i x)
    then show ?case using D(3,4) by simp
  next
    case (3 t t' i x x')
    then show ?case using D(5) by simp
  qed
qed

text \<open>Removing the dead entry of an id that is registered at most once.\<close>

lemma remove_stale_entry_other:
  "j \<noteq> i \<Longrightarrow> Option.bind (fmlookup (remove_stale_entry live i ks ts) t) (\<lambda>b. fmlookup (queues b) j) =
     Option.bind (fmlookup ts t) (\<lambda>b. fmlookup (queues b) j)"
  by (induction live i ks ts rule: remove_stale_entry.induct)
    (auto simp: Let_def split: option.splits dest: fmdrop_empty_lookup)

lemma remove_stale_entry_gone:
  assumes "\<And>t a. Option.bind (fmlookup ts t) (\<lambda>b. fmlookup (queues b) i) = Some a \<Longrightarrow> a |\<notin>| live \<and> t \<in> set ks"
    and "\<And>t t' a a'. Option.bind (fmlookup ts t) (\<lambda>b. fmlookup (queues b) i) = Some a \<Longrightarrow>
      Option.bind (fmlookup ts t') (\<lambda>b. fmlookup (queues b) i) = Some a' \<Longrightarrow> t = t'"
  shows "Option.bind (fmlookup (remove_stale_entry live i ks ts) t) (\<lambda>b. fmlookup (queues b) i) = None"
  using assms
proof (induction live i ks ts rule: remove_stale_entry.induct)
  case (1 live i ts)
  then show ?case by (cases "Option.bind (fmlookup ts t) (\<lambda>b. fmlookup (queues b) i)") auto
next
  case (2 live i k rest ts)
  show ?case
  proof (cases "Option.bind (fmlookup ts k) (\<lambda>b. fmlookup (queues b) i)")
    case None
    have eq: "remove_stale_entry live i (k # rest) ts = remove_stale_entry live i rest ts"
      using None by (auto split: option.splits)
    have p: "x |\<notin>| live \<and> u \<in> set rest"
      if r: "Option.bind (fmlookup ts u) (\<lambda>b. fmlookup (queues b) i) = Some x" for u x
      using "2.prems"(1) [OF r] r None by auto
    show ?thesis
    proof (cases "fmlookup ts k")
      case n: None
      show ?thesis unfolding eq by (rule "2.IH"(1) [OF n p "2.prems"(2)])
    next
      case (Some b)
      then have nb: "fmlookup (queues b) i = None" using None by simp
      show ?thesis unfolding eq by (rule "2.IH"(2) [OF Some nb p "2.prems"(2)])
    qed
  next
    case (Some a)
    then obtain b where b: "fmlookup ts k = Some b" "fmlookup (queues b) i = Some a"
      by (auto simp: bind_eq_Some_conv)
    have dead: "a |\<notin>| live" using "2.prems"(1) [OF Some] by simp
    have "Option.bind (fmlookup ts t) (\<lambda>b. fmlookup (queues b) i) = None" if "t \<noteq> k"
      using "2.prems"(2) [OF Some, of t] that
      by (cases "Option.bind (fmlookup ts t) (\<lambda>b. fmlookup (queues b) i)") simp_all
    then show ?thesis using b dead by (cases "t = k") (simp_all add: Let_def)
  qed
qed

lemma registered_nonempty_filter:
  "Option.bind (fmlookup (fmfilter (\<lambda>t. queues (the (fmlookup ts t)) \<noteq> fmempty) ts) t) (\<lambda>b. fmlookup (queues b) i) =
   Option.bind (fmlookup ts t) (\<lambda>b. fmlookup (queues b) i)"
  by (cases "fmlookup ts t") auto

text \<open>Registering a queue under an id that no bucket holds.\<close>

lemma reg_ok_register:
  assumes reg: "reg_ok s" and none: "\<And>t. registered bs t i = None"
    and sub: "\<And>t j a. j \<noteq> i \<Longrightarrow> registered bs t j = registered (bus s) t j"
      "\<And>j. j \<noteq> i \<Longrightarrow> j |\<in>| subscription_ids bs \<longleftrightarrow> j |\<in>| subscription_ids (bus s)"
    and free: "fmlookup (queue_store s) a = None" and opn: "\<And>x q. fmlookup (queue_store s) x = Some q \<Longrightarrow> q_id q = i \<Longrightarrow> queue_closed (q_state q)"
    and b: "\<And>j. fmlookup (queues b) j = (if j = i then Some a else registered bs (q_topic q) j)"
    and q: "q_id q = i"
    and s': "bus s' = bs\<lparr>topics := fmupd (q_topic q) b (topics bs), subscription_ids := finsert i (subscription_ids bs)\<rparr>"
      "queue_store s' = fmupd a q (queue_store s)" "alive s' = finsert a (alive s)"
  shows "reg_ok s'"
proof -
  note D = reg_okD [OF reg]
  have R: "registered (bus s') t j = (if j = i then (if t = q_topic q then Some a else None)
      else registered (bus s) t j)" for t j
    using none [of t] sub(1) [of j] b [of j] by (auto simp: s' registered_def)
  have ids: "subscription_ids (bus s') = finsert i (subscription_ids bs)" by (simp add: s'(1))
  show ?thesis
  proof (rule reg_okI, goal_cases)
    case (1 x q')
    then show ?case using D(1,2) [of x q'] opn [of x q'] q by (auto simp: R s'(2,3) split: if_splits)
  next
    case (2 t j x)
    then show ?case using D(3,4) [of t j x] sub(2) [of j] free q by (force simp: R ids s'(2,3) split: if_splits)
  next
    case (3 t t' j x x')
    then show ?case using D(5) by (auto simp: R split: if_splits)
  qed
qed

lemma remove_stale_id_registered:
  assumes it: "iteration_order itt"
    and dead: "\<And>t a. registered bs t i = Some a \<Longrightarrow> a |\<notin>| live"
    and uniq: "\<And>t t' a a'. registered bs t i = Some a \<Longrightarrow> registered bs t' i = Some a' \<Longrightarrow> t = t'"
  shows "registered (remove_stale_id itt live bs i) t i = None"
    and "j \<noteq> i \<Longrightarrow> registered (remove_stale_id itt live bs i) t j = registered bs t j"
    and "j \<noteq> i \<Longrightarrow> j |\<in>| subscription_ids (remove_stale_id itt live bs i) \<longleftrightarrow> j |\<in>| subscription_ids bs"
proof -
  have known: "u \<in> set (itt (topics bs))" if "registered bs u i = Some a" for u a
    using that by (auto simp: registered_def bind_eq_Some_conv iteration_order_set [OF it] fmlookup_dom_iff)
  have "Option.bind (fmlookup (remove_stale_entry live i (itt (topics bs)) (topics bs)) t)
      (\<lambda>b. fmlookup (queues b) i) = None"
    using dead known uniq unfolding registered_def by (intro remove_stale_entry_gone) blast+
  then show "registered (remove_stale_id itt live bs i) t i = None"
    by (simp add: registered_def remove_stale_id_def Let_def registered_nonempty_filter
        del: fmlookup_filter)
  show "j \<noteq> i \<Longrightarrow> registered (remove_stale_id itt live bs i) t j = registered bs t j"
    by (simp add: registered_def remove_stale_id_def Let_def registered_nonempty_filter remove_stale_entry_other
        del: fmlookup_filter)
  show "j \<noteq> i \<Longrightarrow> j |\<in>| subscription_ids (remove_stale_id itt live bs i) \<longleftrightarrow> j |\<in>| subscription_ids bs"
    by (simp add: remove_stale_id_def Let_def)
qed

lemma subscribe_reg:
  assumes reg: "reg_ok s" and tok: "tokens_ok s" and it: "iteration_order itt"
  shows "reg_ok (fst (subscribe itt s r))"
proof -
  let ?i = "req_subscription_id r" and ?t = "req_topic r"
  let ?bs = "fst (live_queues_for_topic (alive s) (bus s) ?t)"
  let ?live = "\<exists>t' \<in> set (itt (topics ?bs)). case fmlookup (queues (the (fmlookup (topics ?bs) t'))) ?i of
                None \<Rightarrow> False | Some a \<Rightarrow> a |\<in>| alive s"
  have r0: "reg_ok (s\<lparr>bus := ?bs\<rparr>)" by (rule reg_ok_live_topic [OF reg])
  note D = reg_okD [OF r0, simplified]
  show ?thesis
  proof (cases "\<exists>e. snd (subscribe itt s r) = Inl e")
    case True
    then show ?thesis using reg r0 by (auto simp: subscribe_def Let_def split: if_splits)
  next
    case False
    define bs1 where "bs1 = (if ?i |\<in>| subscription_ids ?bs then remove_stale_id itt (alive s) ?bs ?i else ?bs)"
    have nodup: "\<not> (?i |\<in>| subscription_ids ?bs \<and> ?live)"
      using False by (auto simp: subscribe_def Let_def split: if_splits)
    have dead: "a |\<notin>| alive s" if "registered ?bs t ?i = Some a" for t a
    proof
      assume "a |\<in>| alive s"
      moreover have "t \<in> set (itt (topics ?bs))"
        using that by (auto simp: registered_def bind_eq_Some_conv iteration_order_set [OF it] fmlookup_dom_iff)
      ultimately have ?live using that by (force simp: registered_def bind_eq_Some_conv)
      then show False using nodup D(3) [OF that] by blast
    qed
    note st = remove_stale_id_registered [OF it dead D(5)]
    have free: "fmlookup (queue_store s) (next_address s) = None"
      using tokens_okD(1) [OF tok] by (metis not_None_eq not_less_iff_gr_or_eq)
    define b where "b = (case fmlookup (topics bs1) ?t of
      None \<Rightarrow> topic_subscriptions_default | Some b \<Rightarrow> b)"
    define q where "q = \<lparr>q_id = ?i, q_topic = ?t, q_subscriber_id = req_subscriber_id r,
      q_capacity = shared_capacity s, q_state = local_queue_state_default\<rparr>"
    have eq: "fst (subscribe itt s r) = s\<lparr>bus := bs1\<lparr>topics := fmupd ?t (b\<lparr>payload_type_id :=
        Some (req_payload_type_id r), queues := fmupd ?i (next_address s) (queues b)\<rparr>) (topics bs1),
        subscription_ids := finsert ?i (subscription_ids bs1)\<rparr>,
        queue_store := fmupd (next_address s) q (queue_store s), alive := finsert (next_address s) (alive s),
        next_address := Suc (next_address s)\<rparr>"
      using False by (auto simp: subscribe_def Let_def bs1_def b_def q_def split: if_splits)
    have none: "registered bs1 t ?i = None" for t
      using st(1) D(3) by (cases "registered ?bs t ?i") (auto simp: bs1_def)
    have closed: "queue_closed (q_state q')" if "fmlookup (queue_store s) x = Some q'" "q_id q' = ?i" for x q'
      using D(1,2) [of x q'] dead [of "q_topic q'" x] that by auto
    have bq: "fmlookup (queues b) j = registered bs1 ?t j" for j
      by (simp add: b_def registered_def topic_subscriptions_default_def split: option.splits)
    show ?thesis
      unfolding eq
      by (rule reg_ok_register [OF r0 none, where a = "next_address s" and q = q and
          b = "b\<lparr>payload_type_id := Some (req_payload_type_id r), queues := fmupd ?i (next_address s) (queues b)\<rparr>"])
        (use st(2,3) free closed bq in \<open>simp_all add: q_def bs1_def\<close>)
  qed
qed

end
