(* ===== verification/Local_Bus_Props.thy ===== *)
theory Local_Bus_Props
  imports Local_Registry
begin

text \<open>
  The promises of the in-memory provider, for every interleaving of its critical sections. A
  reachable state is one that any number of threads can produce by running critical sections of
  \<open>Local_Bus\<close> in any order from a freshly created provider; the arguments of each step are
  unconstrained except for what the code itself guarantees where it calls the section (the queue
  exists, a queue is unregistered or released only after it was closed, a settlement token was
  handed out by a receiver). The clock of the steps never decreases, and the number of steps is
  bounded so that no 64-bit lane version wraps.
\<close>

section \<open>Steps of the provider\<close>

datatype bus_action =
    Select outbound_message type_id
  | Admit local_event nat
  | Signal
  | Subscribe spi_subscription_request
  | Receive duration duration nat
  | Settle nat settlement_token delivery_disposition
  | CloseQueue nat
  | Unregister nat
  | DropReference nat
  | PollTopic topic_address
  | PollBus
  | ShutdownBegin
  | Drain nat
  | RecordOutcome shutdown_outcome

definition known_queue :: "local_shared \<Rightarrow> nat \<Rightarrow> bool" where
  "known_queue s a \<longleftrightarrow> fmlookup (queue_store s) a \<noteq> None"

definition closed_queue :: "local_shared \<Rightarrow> nat \<Rightarrow> bool" where
  "closed_queue s a = (case fmlookup (queue_store s) a of
     None \<Rightarrow> False | Some q \<Rightarrow> queue_closed (q_state q))"

fun action_enabled :: "local_shared \<Rightarrow> bus_action \<Rightarrow> bool" where
  "action_enabled s (Receive _ _ a) = known_queue s a"
| "action_enabled s (Settle a token _) = (known_queue s a \<and> token_known s token)"
| "action_enabled s (CloseQueue a) = known_queue s a"
| "action_enabled s (Unregister a) = closed_queue s a"
| "action_enabled s (DropReference a) = closed_queue s a"
| "action_enabled s (Drain a) = known_queue s a"
| "action_enabled s _ = True"

fun bus_step ::
  "lane_order \<Rightarrow> flight_order \<Rightarrow> topic_order \<Rightarrow> local_shared \<Rightarrow> instant \<Rightarrow> instant \<Rightarrow> bus_action \<Rightarrow>
   local_shared option" where
  "bus_step it itf itt s now later (Select m ty) = Some (fst (publish_select s m ty))"
| "bus_step it itf itt s now later (Admit e a) = Some (fst (publish_admit it now e s a))"
| "bus_step it itf itt s now later Signal = Some (signal_changed s)"
| "bus_step it itf itt s now later (Subscribe r) = Some (fst (subscribe itt s r))"
| "bus_step it itf itt s now later (Receive el timeout a) =
     map_option fst (receive_iteration it now later el timeout s a)"
| "bus_step it itf itt s now later (Settle a token d) = map_option fst (settle it now s a token d)"
| "bus_step it itf itt s now later (CloseQueue a) = close_queue it itf s a"
| "bus_step it itf itt s now later (Unregister a) = Some (unregister s a)"
| "bus_step it itf itt s now later (DropReference a) = Some (s\<lparr>alive := alive s |-| {|a|}\<rparr>)"
| "bus_step it itf itt s now later (PollTopic t) = Some (fst (topic_idle_poll s t))"
| "bus_step it itf itt s now later PollBus = Some (fst (bus_idle_poll itt s))"
| "bus_step it itf itt s now later ShutdownBegin = Some (shutdown_begin s)"
| "bus_step it itf itt s now later (Drain a) =
     map_option fst (drain_queue it itf s a (the (fmlookup (queue_store s) a)))"
| "bus_step it itf itt s now later (RecordOutcome out) =
     Some (s\<lparr>bus := (bus s)\<lparr>bus_shutdown_outcome := Some out\<rparr>\<rparr>)"

type_synonym clocked = "nat \<times> instant \<times> local_shared"

inductive bus_trans :: "lane_order \<Rightarrow> flight_order \<Rightarrow> topic_order \<Rightarrow> clocked \<Rightarrow> bus_action \<Rightarrow> clocked \<Rightarrow> bool"
  for it itf itt where
  bus_transI: "action_enabled s x \<Longrightarrow> t \<le> now \<Longrightarrow> now \<le> later \<Longrightarrow> n + 2 < 2 ^ 64 \<Longrightarrow>
    bus_step it itf itt s now later x = Some s' \<Longrightarrow> bus_trans it itf itt (n, t, s) x (n + 2, later, s')"

inductive_cases bus_transE: "bus_trans it itf itt c x c'"

definition bus_init :: "usize \<Rightarrow> usize \<Rightarrow> usize option \<Rightarrow> clocked \<Rightarrow> bool" where
  "bus_init cap mc mw c = (case c of (n, t, s) \<Rightarrow> n = 0 \<and> t = 0 \<and> local_shared_new cap mc mw = Some s)"

section \<open>The invariant of the whole provider\<close>

definition config_ok :: "usize \<Rightarrow> usize \<Rightarrow> usize option \<Rightarrow> local_shared \<Rightarrow> bool" where
  "config_ok cap mc mw s \<longleftrightarrow> shared_capacity s = cap \<and> max_count (outstanding s) = mc \<and>
     max_weight (outstanding s) = mw \<and> (\<forall>a q. fmlookup (queue_store s) a = Some q \<longrightarrow> q_capacity q = cap)"

definition provider_inv :: "usize \<Rightarrow> usize \<Rightarrow> usize option \<Rightarrow> clocked \<Rightarrow> bool" where
  "provider_inv cap mc mw c = (case c of (n, t, s) \<Rightarrow> bus_inv n t s \<and> reg_ok s \<and> config_ok cap mc mw s)"

lemma config_ok_bus [simp]: "config_ok cap mc mw (s\<lparr>bus := x\<rparr>) = config_ok cap mc mw s"
  by (simp add: config_ok_def)

lemma config_ok_signal [simp]: "config_ok cap mc mw (signal_changed s) = config_ok cap mc mw s"
  by (simp add: signal_changed_def)

lemma config_ok_upd:
  "config_ok cap mc mw s \<Longrightarrow> fmlookup (queue_store s) a = Some q \<Longrightarrow> shared_capacity s' = shared_capacity s \<Longrightarrow>
   max_count (outstanding s') = max_count (outstanding s) \<Longrightarrow>
   max_weight (outstanding s') = max_weight (outstanding s) \<Longrightarrow>
   queue_store s' = fmupd a (q\<lparr>q_state := st\<rparr>) (queue_store s) \<Longrightarrow> config_ok cap mc mw s'"
  by (auto simp: config_ok_def)

lemma publish_select_only_bus: "\<exists>x. fst (publish_select s m ty) = s\<lparr>bus := x\<rparr>"
proof -
  have "\<exists>x. s = s\<lparr>bus := x\<rparr>" by (rule exI [of _ "bus s"]) simp
  then show ?thesis by (auto simp: publish_select_def Let_def split: prod.split option.split)
qed

lemma release_config: "release_reservation b c w = Some b' \<Longrightarrow> max_count b' = max_count b \<and> max_weight b' = max_weight b"
  using release_reservation_Some(3,4) by blast

lemma publish_admit_config: "config_ok cap mc mw s \<Longrightarrow> config_ok cap mc mw (fst (publish_admit it now e s a))"
proof -
  have r: "max_count b = max_count (outstanding s) \<and> max_weight b = max_weight (outstanding s)"
    if "try_reserve (outstanding s) w = (b, r)" for w b r
    using that by (auto simp: try_reserve_eq Let_def split: if_splits)
  assume "config_ok cap mc mw s"
  then show ?thesis
    by (auto simp: publish_admit_def Let_def config_ok_def simp del: record_rejection.simps
        split: option.split prod.split sum.split dest: r)
qed

lemma settle_config:
  "config_ok cap mc mw s \<Longrightarrow> settle it now s a token d = Some (s', r) \<Longrightarrow> config_ok cap mc mw s'"
  by (auto simp: settle_def Let_def config_ok_def signal_changed_def dest: release_config
      split: option.splits if_splits)

lemma receive_config:
  "config_ok cap mc mw s \<Longrightarrow> receive_iteration it now later el timeout s a = Some (s', r) \<Longrightarrow>
   config_ok cap mc mw s'"
  by (auto simp: receive_iteration_def Let_def config_ok_def signal_changed_def
      split: option.splits if_splits prod.splits)

lemma drain_config:
  "config_ok cap mc mw s \<Longrightarrow> fmlookup (queue_store s) a = Some q \<Longrightarrow>
   drain_queue it itf s a q = Some (s', es) \<Longrightarrow> config_ok cap mc mw s'"
  by (auto simp: drain_queue_def config_ok_def dest: release_config split: prod.splits if_splits)

lemma subscribe_config: "config_ok cap mc mw s \<Longrightarrow> config_ok cap mc mw (fst (subscribe itt s r))"
  using subscribe_shape [of itt s r] by (auto simp: config_ok_def split: if_splits)

lemma unregister_only_bus: "\<exists>x. unregister s a = s\<lparr>bus := x\<rparr>"
proof -
  have "\<exists>x. s = s\<lparr>bus := x\<rparr>" by (rule exI [of _ "bus s"]) simp
  then show ?thesis by (auto simp: unregister_def signal_changed_def Let_def split: option.split prod.split)
qed

text \<open>The steps that change the bus state or the reference counts only.\<close>

lemma bus_only_step:
  assumes inv: "provider_inv cap mc mw (n, t, s)" and le: "n \<le> n'" "t \<le> t'"
    and reg: "reg_ok s'" and s': "s' = s\<lparr>bus := b, alive := al\<rparr>"
  shows "provider_inv cap mc mw (n', t', s')"
  using assms bus_inv_mono [of n t s n' t'] by (simp add: provider_inv_def config_ok_def)

lemma bus_only_step_ok:
  assumes inv: "provider_inv cap mc mw (n, t, s)" and en: "action_enabled s x"
    and t: "t \<le> later" and it: "iteration_order itt"
    and x: "x \<in> {Signal, PollBus, ShutdownBegin} \<union> range Unregister \<union> range DropReference \<union>
      range PollTopic \<union> range RecordOutcome \<or> (\<exists>m ty. x = Select m ty)"
  shows "\<exists>s'. bus_step lo fo itt s now later x = Some s' \<and> provider_inv cap mc mw (n + 2, later, s')"
proof -
  have reg: "reg_ok s" using inv by (simp add: provider_inv_def)
  have keep: "provider_inv cap mc mw (n + 2, later, s')" if "reg_ok s'" "s' = s\<lparr>bus := b, alive := al\<rparr>" for s' b al
    using bus_only_step [OF inv _ t that] by simp
  have closed: "\<exists>q. fmlookup (queue_store s) a = Some q \<and> queue_closed (q_state q)" if "closed_queue s a" for a
    using that by (auto simp: closed_queue_def split: option.splits)
  have "\<exists>s' b al. bus_step lo fo itt s now later x = Some s' \<and> reg_ok s' \<and> s' = s\<lparr>bus := b, alive := al\<rparr>"
  proof (cases x)
    case (Select m ty)
    obtain b where "fst (publish_select s m ty) = s\<lparr>bus := b\<rparr>" using publish_select_only_bus by blast
    then show ?thesis
      using publish_select_reg [OF reg, of m ty] Select by (auto intro!: exI [of _ b] exI [of _ "alive s"])
  next
    case (Unregister a)
    obtain b where "unregister s a = s\<lparr>bus := b\<rparr>" using unregister_only_bus by blast
    then show ?thesis
      using closed [of a] en Unregister unregister_reg [OF reg, of a]
      by (auto intro!: exI [of _ b] exI [of _ "alive s"])
  next
    case (DropReference a)
    then show ?thesis
      using closed [of a] en drop_reference_reg [OF reg, of a] by (auto intro!: exI [of _ "bus s"])
  next
    case (PollTopic u)
    then show ?thesis
      using reg_ok_live_topic [OF reg, of u]
      by (auto simp: topic_idle_poll_def Let_def split_beta intro!: exI [of _ "alive s"])
  next
    case PollBus
    then show ?thesis
      using live_queues_ok(1) [OF reg it prod.collapse [symmetric]]
      by (auto simp: bus_idle_poll_def Let_def split_beta intro!: exI [of _ "alive s"])
  qed (use x reg in \<open>auto simp: signal_changed_def shutdown_begin_def intro!: exI [of _ "alive s"]\<close>)
  then show ?thesis using keep by blast
qed

text \<open>Every enabled step returns, and keeps the invariant.\<close>

lemma bus_step_ok:
  assumes inv: "provider_inv cap mc mw (n, t, s)" and en: "action_enabled s x"
    and t: "t \<le> now" "now \<le> later" and n: "n + 2 < 2 ^ 64"
    and it: "iteration_order it" "iteration_order itf" "iteration_order itt"
  shows "\<exists>s'. bus_step it itf itt s now later x = Some s' \<and> provider_inv cap mc mw (n + 2, later, s')"
proof -
  have bi: "bus_inv n t s" and reg: "reg_ok s" and cf: "config_ok cap mc mw s"
    using inv by (simp_all add: provider_inv_def)
  have tok: "tokens_ok s" using bi by (simp add: bus_inv_def)
  have mono: "bus_inv (n + 2) later s'" if "bus_inv m u s'" "m \<le> n + 2" "u \<le> later" for m u s'
    using bus_inv_mono that by blast
  have n1: "n + 1 < 2 ^ 64" and le: "t \<le> later" using n t by simp_all
  have queue: "\<exists>q. fmlookup (queue_store s) a = Some q" if "known_queue s a" for a
    using that by (simp add: known_queue_def)
  note pi = provider_inv_def prod.case
  show ?thesis
  proof (cases x)
    case (Admit e a)
    then show ?thesis
      using mono [OF publish_admit_inv [OF bi n1 it(1) t(1)]] t publish_admit_reg [OF reg]
        publish_admit_config [OF cf] by (simp add: pi)
  next
    case (Subscribe r)
    then show ?thesis
      using mono [OF subscribe_inv [OF bi]] le subscribe_reg [OF reg tok it(3)] subscribe_config [OF cf]
      by (simp add: pi)
  next
    case (Receive el timeout a)
    then obtain q where "fmlookup (queue_store s) a = Some q" using en queue by auto
    from receive_iteration_ok [OF bi this n it(1) t] obtain s' r where
      res: "receive_iteration it now later el timeout s a = Some (s', r)" "bus_inv (n + 2) later s'" .
    then show ?thesis
      using Receive receive_iteration_reg [OF reg res(1)] receive_config [OF cf res(1)] by (simp add: pi)
  next
    case (Settle a token d)
    then obtain q where q: "fmlookup (queue_store s) a = Some q" "token_known s token" using en queue by auto
    from settle_ok [OF bi q(1) n1 it(1) t(1) q(2)] obtain s' r where
      res: "settle it now s a token d = Some (s', r)" "bus_inv (n + 1) now s'" .
    then show ?thesis
      using Settle mono [OF res(2)] t settle_reg [OF reg res(1)] settle_config [OF cf res(1)] by (simp add: pi)
  next
    case (CloseQueue a)
    then obtain q where q: "fmlookup (queue_store s) a = Some q" using en queue by auto
    from close_queue_ok [OF bi q it(1,2)] obtain s' where
      res: "close_queue it itf s a = Some s'" "bus_inv n t s'" .
    moreover have "config_ok cap mc mw s'"
      using res(1) q cf drain_config [OF cf q] by (auto simp: close_queue_def split: if_splits)
    ultimately show ?thesis
      using CloseQueue mono [OF res(2)] le close_queue_reg [OF reg res(1)] by (simp add: pi)
  next
    case (Drain a)
    then obtain q where q: "fmlookup (queue_store s) a = Some q" using en queue by auto
    obtain s' es where res: "drain_queue it itf s a q = Some (s', es)" "bus_inv n t s'"
      by (rule drain_queue_ok [OF bi q it(1,2)])
    then show ?thesis
      using Drain q mono [OF res(2)] le drain_queue_reg [OF reg q res(1)] drain_config [OF cf q res(1)]
      by (simp add: pi)
  qed (use bus_only_step_ok [OF inv en le it(3)] in auto)
qed

lemma provider_inv_init: "bus_init cap mc mw c \<Longrightarrow> provider_inv cap mc mw c"
  using new_inv [of cap mc mw]
  by (auto simp: bus_init_def provider_inv_def config_ok_def reg_ok_def registered_def local_shared_new_def
      bus_state_default_def budget_new_def split: prod.splits if_splits)

text \<open>The interleaving of critical sections, as a transition system with this invariant.\<close>

interpretation pv: transition_invariant "bus_init cap mc mw"
  "\<lambda>c x c'. iteration_order it \<and> iteration_order itf \<and> iteration_order itt \<and> bus_trans it itf itt c x c'"
  "provider_inv cap mc mw" for cap mc mw it itf itt
proof (unfold_locales, goal_cases)
  case (1 c)
  then show ?case by (rule provider_inv_init)
next
  case (2 c x c')
  from 2(2) have it: "iteration_order it" "iteration_order itf" "iteration_order itt"
    and tr: "bus_trans it itf itt c x c'" by simp_all
  from tr show ?case
  proof (cases rule: bus_trans.cases)
    case (bus_transI s t now later n s')
    then show ?thesis using bus_step_ok [of cap mc mw n t s x now later] 2(1) it by fastforce
  qed
qed

definition provider_reach ::
  "lane_order \<Rightarrow> flight_order \<Rightarrow> topic_order \<Rightarrow> usize \<Rightarrow> usize \<Rightarrow> usize option \<Rightarrow> clocked \<Rightarrow> bool" where
  "provider_reach it itf itt cap mc mw =
     reach (bus_init cap mc mw) (\<lambda>c x c'. iteration_order it \<and> iteration_order itf \<and> iteration_order itt \<and>
       bus_trans it itf itt c x c')"

lemma provider_reach_inv: "provider_reach it itf itt cap mc mw c \<Longrightarrow> provider_inv cap mc mw c"
  unfolding provider_reach_def by (rule pv.inv_reach)

section \<open>Concrete runs\<close>

text \<open>An executable run of a few steps, for instances of the properties.\<close>

fun bus_run ::
  "lane_order \<Rightarrow> flight_order \<Rightarrow> topic_order \<Rightarrow> clocked \<Rightarrow> (instant \<times> bus_action) list \<Rightarrow> clocked option" where
  "bus_run it itf itt c [] = Some c"
| "bus_run it itf itt (n, t, s) ((now, x) # xs) =
     (if action_enabled s x \<and> t \<le> now \<and> n + 2 < 64
      then case bus_step it itf itt s now now x of
          None \<Rightarrow> None | Some s' \<Rightarrow> bus_run it itf itt (n + 2, now, s') xs
      else None)"

lemma bus_run_reach:
  assumes "iteration_order it" "iteration_order itf" "iteration_order itt"
    and "provider_reach it itf itt cap mc mw c" and "bus_run it itf itt c xs = Some c'"
  shows "provider_reach it itf itt cap mc mw c'"
  using assms(4,5)
proof (induction xs arbitrary: c)
  case (Cons x xs)
  obtain n t s now y where c: "c = (n, t, s)" and x: "x = (now, y)" by (metis prod_cases3 surj_pair)
  obtain s' where en: "action_enabled s y" "t \<le> now" "n + 2 < 64"
    and st: "bus_step it itf itt s now now y = Some s'" and run: "bus_run it itf itt (n + 2, now, s') xs = Some c'"
    using Cons.prems(2) by (auto simp: c x split: if_splits option.splits)
  have "bus_trans it itf itt c y (n + 2, now, s')"
    unfolding c by (rule bus_transI [OF en(1,2) order_refl _ st]) (use en(3) in simp)
  then have "provider_reach it itf itt cap mc mw (n + 2, now, s')"
    using Cons.prems(1) assms(1-3) unfolding provider_reach_def by (auto intro: reach_step)
  then show ?case using Cons.IH run by blast
qed simp

definition sample_message :: outbound_message where
  "sample_message = with_native_payload_weight_bytes 3
     (outbound_message_new ''orders'' ''e'' 0 fmempty (Some ''k'') None (Native \<lparr>native_type = 7, native_object = 0\<rparr>))"

definition sample_request :: "id \<Rightarrow> spi_subscription_request" where
  "sample_request i = \<lparr>req_subscription_id = i, req_topic = ''orders'', req_subscriber_id = ''audit'',
     req_group = None, req_durability = Ephemeral, req_start_position = New,
     req_provider_options = fmempty, req_payload_type_id = 7\<rparr>"

text \<open>One subscription, one event delivered to it, and a second event still queued.\<close>

definition sample_provider :: local_shared where
  "sample_provider = the (local_shared_new 4 10 (Some 100))"

definition sample_steps :: "(instant \<times> bus_action) list" where
  "sample_steps =
     [(1, Subscribe (sample_request 5)),
      (2, Admit (sample_event ''e'' (Some ''k'') None) 0),
      (3, Admit (sample_event ''f'' (Some ''k'') None) 0),
      (4, Receive 0 0 0)]"

definition sample_run :: clocked where
  "sample_run = the (bus_run key_order key_order key_order (0, 0, sample_provider) sample_steps)"

lemma sample_start: "provider_reach key_order key_order key_order 4 10 (Some 100) (0, 0, sample_provider)"
  unfolding provider_reach_def
  by (rule reach_init) (simp add: bus_init_def sample_provider_def local_shared_new_def budget_new_def)

lemma sample_run_Some:
  "bus_run key_order key_order key_order (0, 0, sample_provider) sample_steps = Some sample_run"
proof -
  have "bus_run key_order key_order key_order (0, 0, sample_provider) sample_steps \<noteq> None"
    by code_simp
  then show ?thesis by (auto simp: sample_run_def)
qed

end
