(* ===== verification/Local_Bus_Promises.thy ===== *)
theory Local_Bus_Promises
  imports Local_Bus_Props
begin

text \<open>
  What callers of the in-memory provider can rely on: no step of any interleaving panics, capacity
  is accounted for exactly, a delivery is settled once, a publication reports and charges exactly
  what it admitted, publications are offered to the subscribers of a topic in fair turns, topics
  carry one payload type, and shutdown and idle waits end in the state they report. Each promise
  is stated for every state that any interleaving of critical sections can reach.
\<close>

section \<open>A reachable state for the instances\<close>

definition sample_state :: local_shared where
  "sample_state = snd (snd sample_run)"

definition sample_queue_at :: "local_shared \<Rightarrow> nat \<Rightarrow> local_queue" where
  "sample_queue_at s a = the (fmlookup (queue_store s) a)"

definition sample_token :: settlement_token where
  "sample_token = settlement_token_new 5 (LocalHandle 1)"

lemma sample_run_eq: "sample_run = (8, 4, sample_state)"
proof -
  have "fst sample_run = 8" "fst (snd sample_run) = 4" by code_simp+
  then show ?thesis by (simp add: sample_state_def prod_eq_iff)
qed

lemma sample_reach: "provider_reach key_order key_order key_order 4 10 (Some 100) (8, 4, sample_state)"
  using bus_run_reach [OF key_order_ok key_order_ok key_order_ok sample_start sample_run_Some]
  by (simp add: sample_run_eq)

lemma sample_queue_eq: "fmlookup (queue_store sample_state) 0 = Some (sample_queue_at sample_state 0)"
proof -
  have "fmlookup (queue_store sample_state) 0 \<noteq> None" by code_simp
  then show ?thesis by (auto simp: sample_queue_at_def)
qed

lemma sample_flight_eq:
  "fmlookup (in_flight (q_state (sample_queue_at sample_state 0))) ''e:1'' =
     Some \<lparr>flight_event = sample_event ''e'' (Some ''k'') None, flight_settlement = 1\<rparr>"
  by code_simp

section \<open>Safety of every interleaving\<close>



text \<open>C2: In every reachable state the budget equals what the queues hold: the count in use is the
  number of queued and in-flight events over all queues and the weight in use the sum of their
  weights. Both stay within the configured limits, and every queue within its capacity; a closed
  queue holds nothing.\<close>

theorem bus_accounting_exact:
  assumes "provider_reach it itf itt cap mc mw (n, t, s)"
  shows "unat (count_used (budget_state (outstanding s))) = fmsum (\<lambda>_ q. load_count (q_state q)) (queue_store s) \<and>
    unat (weight_used (budget_state (outstanding s))) =
      fmsum (\<lambda>_ q. queue_load (event_weight mw) (q_state q)) (queue_store s) \<and>
    unat (count_used (budget_state (outstanding s))) \<le> unat mc \<and>
    (\<forall>w. mw = Some w \<longrightarrow> unat (weight_used (budget_state (outstanding s))) \<le> unat w) \<and>
    (\<forall>a q. fmlookup (queue_store s) a = Some q \<longrightarrow> load_count (q_state q) \<le> unat cap \<and>
      (queue_closed (q_state q) \<longrightarrow> load_count (q_state q) = 0))"
proof -
  have inv: "bus_inv n t s" and cf: "config_ok cap mc mw s"
    using provider_reach_inv [OF assms] by (simp_all add: provider_inv_def)
  have acc: "account_ok s" using inv by (simp add: bus_inv_def)
  have "load_count (q_state q) \<le> unat cap \<and> (queue_closed (q_state q) \<longrightarrow> load_count (q_state q) = 0)"
    if "fmlookup (queue_store s) a = Some q" for a q
    using bus_inv_queue [OF inv that] cf that by (auto simp: queue_ok_def config_ok_def)
  then show ?thesis
    using acc cf by (auto simp: account_ok_def budget_wf_def config_ok_def word_le_nat_alt)
qed

theorem bus_accounting_exact_witness:
  "unat (count_used (budget_state (outstanding sample_state))) = 2 \<and>
   fmsum (\<lambda>_ q. load_count (q_state q)) (queue_store sample_state) = 2 \<and>
   fmsum (\<lambda>_ q. queue_load (event_weight (Some 100)) (q_state q)) (queue_store sample_state) = 2"
proof -
  have "unat (count_used (budget_state (outstanding sample_state))) = 2"
    "unat (weight_used (budget_state (outstanding sample_state))) = 2" by code_simp+
  with bus_accounting_exact [OF sample_reach] show ?thesis by simp
qed

section \<open>Settlement\<close>

text \<open>C4: Settling a delivery that is in flight succeeds once and is final. The delivery leaves the
  in-flight set; acceptance and rejection give exactly one reservation back and leave the lanes
  alone, a retry keeps the reservation and puts the event back at the front of its lane. Afterwards
  the same token with the same disposition succeeds again without effect, and with any other
  disposition is refused as conflicting, also without effect.\<close>

theorem settlement_final:
  assumes "provider_reach it itf itt cap mc mw (n, t, s)" and "iteration_order it"
    and "fmlookup (queue_store s) a = Some q" and "fmlookup (in_flight (q_state q)) tok = Some fl"
    and "token = settlement_token_new (q_id q) (LocalHandle (flight_settlement fl))"
    and "t \<le> now" and "n + 1 < 2 ^ 64"
  shows "\<exists>s1 q1. settle it now s a token d = Some (s1, Inr ()) \<and>
    fmlookup (queue_store s1) a = Some q1 \<and> in_flight (q_state q1) = fmdrop tok (in_flight (q_state q)) \<and>
    unat (count_used (budget_state (outstanding s1))) + (if d = Retry then 0 else 1) =
      unat (count_used (budget_state (outstanding s))) \<and>
    lane_contents (q_state q1) = (let k = ev_ordering_key (flight_event fl) in
      if d = Retry then (lane_contents (q_state q))(k := flight_event fl # lane_contents (q_state q) k)
      else lane_contents (q_state q)) \<and>
    (\<forall>now' d'. settle it now' s1 a token d' = Some (s1, if d' = d then Inr ()
      else Inl (invalid_token_error (Some (q_topic q)) ''conflicting_disposition'')))"
proof -
  let ?h = "flight_settlement fl" and ?ts = "\<lparr>token_id = tok, disposition = None\<rparr>"
  let ?st = "(q_state q)\<lparr>in_flight := fmdrop tok (in_flight (q_state q))\<rparr>"
  have inv: "bus_inv n t s" using provider_reach_inv [OF assms(1)] by (simp add: provider_inv_def)
  have "flight_ok s (q_state q) tok fl"
    using tokens_okD(2) [OF _ assms(3,4)] inv by (simp add: bus_inv_def)
  then have st: "settles s q token ?h ?ts fl"
    using assms(4,5) by (simp add: settles_def flight_ok_def settlement_token_new_def belongs_to_def)
  have bel: "belongs_to token (q_id q)" "downcast_handle (token_state token) = Some ?h"
    using st by (simp_all add: settles_def)
  have again: "settle it now' s1 a token d' = Some (s1, if d' = d then Inr ()
      else Inl (invalid_token_error (Some (q_topic q)) ''conflicting_disposition''))"
    if "fmlookup (queue_store s1) a = Some (q\<lparr>q_state := st'\<rparr>)"
      "fmlookup (settlements s1) ?h = Some (?ts\<lparr>disposition := Some d\<rparr>)" for s1 st' now' d'
    using that bel by (simp add: settle_def)
  show ?thesis
  proof (cases "d = Retry")
    case True
    have q: "queue_inv t ?st" "versions_le n ?st"
      using bus_inv_queue [OF inv assms(3)] by (simp_all add: queue_ok_def)
    show ?thesis
      using again enqueue_front_ok(3) [OF q assms(7,2,6)] settle_retry_eq [OF assms(3) st, of it now] True
      by (simp add: signal_changed_def Let_def)
  next
    case False
    from settle_final_inv [OF inv assms(3) st False assms(6)] obtain b where
      b: "release_reservation (outstanding s) 1 (weight_bytes (flight_event fl)) = Some b" by blast
    have "unat (count_used (budget_state b)) + 1 = unat (count_used (budget_state (outstanding s)))"
      using release_reservation_Some(1) [OF b] by simp
    then show ?thesis
      using again settle_final_eq [OF assms(3) st False b, of it now] False
      by (simp add: signal_changed_def Let_def)
  qed
qed

theorem settlement_final_witness:
  "\<exists>s1 q1. settle key_order 5 sample_state 0 sample_token Reject = Some (s1, Inr ()) \<and>
    fmlookup (queue_store s1) 0 = Some q1 \<and>
    in_flight (q_state q1) = fmdrop ''e:1'' (in_flight (q_state (sample_queue_at sample_state 0))) \<and>
    unat (count_used (budget_state (outstanding s1))) = 1 \<and>
    settle key_order 6 s1 0 sample_token Accept =
      Some (s1, Inl (invalid_token_error (Some ''orders'') ''conflicting_disposition''))"
proof -
  have q: "q_id (sample_queue_at sample_state 0) = 5" "q_topic (sample_queue_at sample_state 0) = ''orders''"
    "unat (count_used (budget_state (outstanding sample_state))) = 2" by code_simp+
  have tok: "sample_token = settlement_token_new (q_id (sample_queue_at sample_state 0))
    (LocalHandle (flight_settlement \<lparr>flight_event = sample_event ''e'' (Some ''k'') None, flight_settlement = 1\<rparr>))"
    by (simp add: q sample_token_def)
  from settlement_final [OF sample_reach key_order_ok sample_queue_eq sample_flight_eq tok, of 5 Reject]
  obtain s1 q1 where "settle key_order 5 sample_state 0 sample_token Reject = Some (s1, Inr ())"
    "fmlookup (queue_store s1) 0 = Some q1"
    "in_flight (q_state q1) = fmdrop ''e:1'' (in_flight (q_state (sample_queue_at sample_state 0)))"
    "unat (count_used (budget_state (outstanding s1))) + 1 = 2"
    "settle key_order 6 s1 0 sample_token Accept =
      Some (s1, Inl (invalid_token_error (Some ''orders'') ''conflicting_disposition''))"
    unfolding q by auto
  then show ?thesis by auto
qed

text \<open>A token that does not name a delivery in flight on the receiver's own queue changes nothing,
  whoever presents it: a token of another subscription, a token of another provider, one whose
  delivery was discarded or already settled. The call returns, reports an error, and only an exact
  repetition of an earlier settlement through the same subscription is answered with success.\<close>

theorem settle_without_delivery:
  assumes "fmlookup (queue_store s) a = Some q" and "token_known s token"
    and "\<nexists>tok fl. fmlookup (in_flight (q_state q)) tok = Some fl \<and>
      token = settlement_token_new (q_id q) (LocalHandle (flight_settlement fl))"
  shows "\<exists>r. settle it now s a token d = Some (s, r) \<and>
    (r = Inr () \<longleftrightarrow> token_subscription_id token = q_id q \<and>
      (\<exists>h ts. token_state token = LocalHandle h \<and> fmlookup (settlements s) h = Some ts \<and> disposition ts = Some d))"
proof -
  have "\<not> settles s q token h ts fl" for h ts fl
    using assms(3)
    by (cases token, cases "token_state token")
      (auto simp: settles_def settlement_token_new_def belongs_to_def)
  then obtain r where r: "settle it now s a token d = Some (s, r)"
    using settle_noop [OF assms(1,2)] by blast
  have "r = Inr () \<longleftrightarrow> token_subscription_id token = q_id q \<and>
      (\<exists>h ts. token_state token = LocalHandle h \<and> fmlookup (settlements s) h = Some ts \<and> disposition ts = Some d)"
    using r assms
    by (cases token, cases "token_state token")
      (auto simp: settle_def belongs_to_def Let_def settlement_token_new_def split: if_splits option.splits)
  then show ?thesis using r by blast
qed

theorem settle_without_delivery_witness:
  "\<exists>e. settle key_order 5 sample_state 0 (settlement_token_new 6 (LocalHandle 1)) Accept = Some (sample_state, Inl e)"
proof -
  have q: "q_id (sample_queue_at sample_state 0) = 5" by code_simp
  have known: "token_known sample_state (settlement_token_new 6 (LocalHandle 1))" by code_simp
  from settle_without_delivery [OF sample_queue_eq known, of key_order 5 Accept]
  obtain r where r: "settle key_order 5 sample_state 0 (settlement_token_new 6 (LocalHandle 1)) Accept = Some (sample_state, r)"
    "r \<noteq> Inr ()"
    by (auto simp: q settlement_token_new_def)
  then show ?thesis by (cases r) auto
qed

section \<open>Receiving\<close>

text \<open>C31: A receiver of an open queue gets a message in its first turn whenever the head of some lane
  is due. The message is the head of its lane and is due; it moves from its lane into the in-flight
  set under a token that no delivery in flight has, so nothing is lost and the reservation stays
  held. The settlement token in the message is the handle recorded with the delivery.\<close>

theorem receive_delivers_due_head:
  assumes "provider_reach it itf itt cap mc mw (n, t, s)" and "iteration_order it"
    and "fmlookup (queue_store s) a = Some q" and "\<not> queue_closed (q_state q)"
    and "next_delivery_token (q_state q) \<noteq> - 1"
    and "lane_contents (q_state q) k0 = e0 # es0" and "event_due now e0"
    and "t \<le> now" and "n + 1 < 2 ^ 64"
  shows "\<exists>s' q' e tok. receive_iteration it now later el timeout s a =
      Some (s', ReceiveDone (Inr (Message (into_inbound e (q_id q) (next_address s))))) \<and>
    event_due now e \<and> fmlookup (queue_store s') a = Some q' \<and>
    lane_contents (q_state q) =
      (lane_contents (q_state q'))(ev_ordering_key e := e # lane_contents (q_state q') (ev_ordering_key e)) \<and>
    fmlookup (in_flight (q_state q)) tok = None \<and>
    in_flight (q_state q') =
      fmupd tok \<lparr>flight_event = e, flight_settlement = next_address s\<rparr> (in_flight (q_state q)) \<and>
    outstanding s' = outstanding s"
proof -
  have inv: "bus_inv n t s" using provider_reach_inv [OF assms(1)] by (simp add: provider_inv_def)
  have st: "queue_inv t (q_state q)" "versions_le n (q_state q)"
    using bus_inv_queue [OF inv assms(3)] by (simp_all add: queue_ok_def)
  obtain st' r where pop: "pop_ready it (q_state q) now = (st', r)" by fastforce
  note p = pop_ready_ok [OF st(1) assms(8) st(2) assms(9,2) pop]
  obtain e where r: "r = Some e" using p(6) [OF _ assms(6)] assms(7) by (cases r) auto
  obtain sq where sq: "checked_add (next_delivery_token st') 1 = Some sq"
    using assms(5) p(3) checked_add_1_None [of "next_delivery_token st'"] by (auto simp: same_client_def)
  let ?tok = "delivery_token (ev_id e) sq"
  have "fmlookup (in_flight (q_state q)) ?tok = None"
    by (rule token_fresh [OF _ assms(3)]) (use inv sq p(3) in \<open>simp_all add: bus_inv_def same_client_def\<close>)
  then show ?thesis
    using pop r sq assms(3,4) p(3,4)
    by (auto simp: receive_iteration_def Let_def signal_changed_def popped_def same_client_def)
qed

theorem receive_delivers_due_head_witness:
  "\<exists>s' q' e tok. receive_iteration key_order 5 5 0 0 sample_state 0 =
      Some (s', ReceiveDone (Inr (Message (into_inbound e 5 2)))) \<and>
    event_due 5 e \<and> fmlookup (queue_store s') 0 = Some q' \<and>
    fmlookup (in_flight (q_state (sample_queue_at sample_state 0))) tok = None \<and>
    outstanding s' = outstanding sample_state"
proof -
  have q: "q_id (sample_queue_at sample_state 0) = 5" "next_address sample_state = 2"
    "\<not> queue_closed (q_state (sample_queue_at sample_state 0))"
    "next_delivery_token (q_state (sample_queue_at sample_state 0)) \<noteq> - 1"
    "lane_contents (q_state (sample_queue_at sample_state 0)) (Some ''k'') = [sample_event ''f'' (Some ''k'') None]"
    by code_simp+
  have due: "event_due 5 (sample_event ''f'' (Some ''k'') None)" by (simp add: event_due_def sample_event_def)
  from receive_delivers_due_head [OF sample_reach key_order_ok sample_queue_eq q(3,4,5) due, of 5 0 0]
  show ?thesis unfolding q by auto
qed

text \<open>When the token sequence of a well-formed queue is exhausted, a receive that would have delivered an event
  fails with the kind \<open>settlement_token_exhausted\<close> and loses nothing: every lane, the in-flight set and
  the budget are as before, the event is again the head of its lane.\<close>

theorem token_exhaustion_keeps_events:
  assumes "queue_ok n t q" and "iteration_order it"
    and "fmlookup (queue_store s) a = Some q" and "\<not> queue_closed (q_state q)"
    and "next_delivery_token (q_state q) = - 1"
    and "lane_contents (q_state q) k0 = e0 # es0" and "event_due now e0"
    and "t \<le> now" and "now \<le> later" and "n + 2 < 2 ^ 64"
  shows "\<exists>s' q'. receive_iteration it now later el timeout s a = Some (s', ReceiveDone
      (Inl (operation_error ''receive'' (Some (q_topic q)) ''settlement_token_exhausted''))) \<and>
    fmlookup (queue_store s') a = Some q' \<and> lane_contents (q_state q') = lane_contents (q_state q) \<and>
    in_flight (q_state q') = in_flight (q_state q) \<and> outstanding s' = outstanding s"
proof -
  have st: "queue_inv t (q_state q)" "versions_le n (q_state q)" using assms(1) by (simp_all add: queue_ok_def)
  have n: "n + 1 < 2 ^ 64" "(n + 1) + 1 < 2 ^ 64" using assms(10) by simp_all
  obtain st' r where pop: "pop_ready it (q_state q) now = (st', r)" by fastforce
  note p = pop_ready_ok [OF st(1) assms(8) st(2) n(1) assms(2) pop]
  obtain e where r: "r = Some e" using p(6) [OF _ assms(6)] assms(7) by (cases r) auto
  have none: "checked_add (next_delivery_token st') 1 = None"
    using assms(5) p(3) by (simp add: checked_add_1_None same_client_def)
  have "lane_contents (enqueue_front_at it st' e later) = lane_contents (q_state q)"
    using enqueue_front_ok(3) [OF p(1,2) n(2) assms(2,9)] p(4) r by (simp add: popped_def)
  then show ?thesis
    using pop r none assms(3,4) p(3) by (simp add: receive_iteration_def Let_def same_client_def)
qed

theorem token_exhaustion_keeps_events_witness:
  "let q = (sample_queue_at sample_state 0)\<lparr>q_state := (q_state (sample_queue_at sample_state 0))\<lparr>next_delivery_token := - 1\<rparr>\<rparr>;
       s = sample_state\<lparr>queue_store := fmupd 0 q (queue_store sample_state)\<rparr>
   in \<exists>s' q'. receive_iteration key_order 5 5 0 0 s 0 = Some (s', ReceiveDone
        (Inl (operation_error ''receive'' (Some ''orders'') ''settlement_token_exhausted''))) \<and>
      fmlookup (queue_store s') 0 = Some q' \<and> lane_contents (q_state q') = lane_contents (q_state q)"
proof -
  define q where "q = (sample_queue_at sample_state 0)\<lparr>q_state :=
    (q_state (sample_queue_at sample_state 0))\<lparr>next_delivery_token := - 1\<rparr>\<rparr>"
  define s where "s = sample_state\<lparr>queue_store := fmupd 0 q (queue_store sample_state)\<rparr>"
  have "bus_inv 8 4 sample_state"
    using provider_reach_inv [OF sample_reach] by (simp add: provider_inv_def)
  then have ok: "queue_ok 8 4 q"
    using bus_inv_queue sample_queue_eq by (auto simp: q_def queue_ok_def queue_load_def)
  have q: "q_topic (sample_queue_at sample_state 0) = ''orders''"
    "\<not> queue_closed (q_state (sample_queue_at sample_state 0))"
    "lane_contents (q_state (sample_queue_at sample_state 0)) (Some ''k'') = [sample_event ''f'' (Some ''k'') None]"
    by code_simp+
  have due: "event_due 5 (sample_event ''f'' (Some ''k'') None)" by (simp add: event_due_def sample_event_def)
  have "\<exists>s' q'. receive_iteration key_order 5 5 0 0 s 0 = Some (s', ReceiveDone
        (Inl (operation_error ''receive'' (Some (q_topic q)) ''settlement_token_exhausted''))) \<and>
      fmlookup (queue_store s') 0 = Some q' \<and> lane_contents (q_state q') = lane_contents (q_state q) \<and>
      in_flight (q_state q') = in_flight (q_state q) \<and> outstanding s' = outstanding s"
    by (rule token_exhaustion_keeps_events [OF ok key_order_ok _ _ _ _ due, where ?k0.0 = "Some ''k''" and ?es0.0 = "[]"])
      (simp_all add: q_def s_def q)
  then show ?thesis unfolding q_def [symmetric] Let_def s_def [symmetric] by (auto simp: q_def q)
qed

end
