(* ===== verification/Local_Publish_Props.thy ===== *)
theory Local_Publish_Props
  imports Local_Bus_Promises
begin

text \<open>
  Publication through the in-memory provider: which subscriptions an event is offered to and in
  which order, what the acknowledgement reports, and what a refused publication leaves behind.
\<close>

section \<open>The destinations of a publication\<close>

lemma rotate_mset: "mset (snd (rotate_publish_queues qid b qs)) = mset qs"
proof -
  have "mset (drop n qs @ take n qs) = mset qs" for n
    by (metis append_take_drop_id mset_append union_commute)
  then show ?thesis by (simp add: rotate_publish_queues_def Let_def)
qed

lemma live_topic_ids:
  assumes "reg_ok s"
  shows "sorted_wrt (<) (map (queue_id_at s) (snd (live_queues_for_topic (alive s) (bus s) t)))"
proof (cases "fmlookup (topics (bus s)) t")
  case (Some b)
  let ?m = "fmfilter (\<lambda>i. the (fmlookup (queues b) i) |\<in>| alive s) (queues b)"
  have "queue_id_at s (the (fmlookup ?m i)) = i" if "i |\<in>| fmdom ?m" for i
  proof -
    from that obtain a where a: "fmlookup ?m i = Some a" by (meson fmdomE)
    then have "registered (bus s) t i = Some a"
      by (auto simp: registered_def Some fmlookup_filter split: if_splits)
    then show ?thesis using reg_okD(4) [OF assms] a by (fastforce simp: queue_id_at_def)
  qed
  then have "map (queue_id_at s) (btree_values ?m) = btree_keys ?m"
    unfolding btree_values_def map_map by (intro map_idI) (simp del: fmlookup_filter)
  then show ?thesis
    using Some btree_keys_sorted [of ?m]
    by (simp add: live_queues_for_topic_def bucket_live_queues_def Let_def strict_sorted_iff split_beta)
qed (simp add: live_queues_for_topic_def)

lemma publish_select_ok:
  assumes reg: "reg_ok s" and sel: "publish_select s m ty = (s', Inr qs)"
  shows "distinct (map (queue_id_at s) qs)"
    and "set qs = {a. a |\<in>| alive s \<and> (\<exists>i. registered (bus s) (out_topic m) i = Some a)}"
proof -
  let ?l = "snd (live_queues_for_topic (alive s) (bus s) (out_topic m))"
  have "mset qs = mset ?l"
    using sel rotate_mset [of "queue_id_at s"]
    by (auto simp: publish_select_def Let_def split: prod.splits if_splits option.splits)
      (metis snd_conv)+
  then have "mset (map (queue_id_at s) qs) = mset (map (queue_id_at s) ?l)" "set qs = set ?l"
    by (simp, metis mset_eq_setD)
  then show "distinct (map (queue_id_at s) qs)"
    and "set qs = {a. a |\<in>| alive s \<and> (\<exists>i. registered (bus s) (out_topic m) i = Some a)}"
    using live_topic_ids [OF reg, of "out_topic m"] live_queues_for_topic_result
    by (metis mset_eq_imp_distinct_iff strict_sorted_iff, simp)
qed

section \<open>One destination and the loop over all of them\<close>

definition admitted_at ::
  "local_event \<Rightarrow> local_shared \<Rightarrow> local_shared \<Rightarrow> nat \<Rightarrow> destination_admission \<Rightarrow> bool" where
  "admitted_at e s s' a d \<longleftrightarrow> (\<exists>q q'. fmlookup (queue_store s) a = Some q \<and> fmlookup (queue_store s') a = Some q' \<and>
     adm_subscription_id d = q_id q \<and> in_flight (q_state q') = in_flight (q_state q) \<and>
     (if adm_status d = Accepted
      then \<not> queue_closed (q_state q) \<and> lane_contents (q_state q') =
        (lane_contents (q_state q))(ev_ordering_key e := lane_contents (q_state q) (ev_ordering_key e) @ [e])
      else lane_contents (q_state q') = lane_contents (q_state q)))"

abbreviation accepted_total :: "destination_admission list \<Rightarrow> nat" where
  "accepted_total ds \<equiv> length (filter (\<lambda>d. adm_status d = Accepted) ds)"

abbreviation count_in_use :: "local_shared \<Rightarrow> nat" where
  "count_in_use s \<equiv> unat (count_used (budget_state (outstanding s)))"

lemma publish_admit_effect:
  assumes inv: "bus_inv n t s" and n: "n + 1 < 2 ^ 64" and it: "iteration_order it" and t: "t \<le> now"
    and q: "fmlookup (queue_store s) a = Some q" "q_topic q = ev_topic e"
    and res: "publish_admit it now e s a = (s', r)"
  obtains d where "r = Some d" and "admitted_at e s s' a d"
    and "count_in_use s' = count_in_use s + accepted_total [d]"
    and "\<And>x. x \<noteq> a \<Longrightarrow> fmlookup (queue_store s') x = fmlookup (queue_store s) x"
    and "rel_option (\<lambda>q q'. q_id q' = q_id q \<and> q_topic q' = q_topic q)
      (fmlookup (queue_store s) a) (fmlookup (queue_store s') a)"
proof -
  have st: "queue_inv t (q_state q)" "versions_le n (q_state q)"
    using bus_inv_queue [OF inv q(1)] by (simp_all add: queue_ok_def)
  note eb = enqueue_back_ok(3) [OF st n it t, of e]
  obtain b v where tr: "try_reserve (outstanding s) (weight_bytes e) = (b, v)" by fastforce
  have cnt: "unat (count_used (budget_state b)) =
      unat (count_used (budget_state (outstanding s))) + (if v = Inr () then 1 else 0)"
    using tr try_reserve_granted(1) try_reserve_refused(1) by (cases v) auto
  show thesis
    using that res q tr cnt eb
    by (cases v) (auto simp: publish_admit_def Let_def admitted_at_def destination_admission_new_def
        destination_admission_rejected_def split: if_splits)
qed

lemma admitted_at_trans:
  "admitted_at e s s1 a d \<Longrightarrow> fmlookup (queue_store s2) a = fmlookup (queue_store s1) a \<Longrightarrow> admitted_at e s s2 a d"
  by (auto simp: admitted_at_def)

lemma admitted_at_from:
  "admitted_at e s1 s2 a d \<Longrightarrow> fmlookup (queue_store s1) a = fmlookup (queue_store s) a \<Longrightarrow> admitted_at e s s2 a d"
  by (auto simp: admitted_at_def)

lemma publish_loop_ok:
  assumes "bus_inv n t s" and "n + length as < 2 ^ 64" and "iteration_order it"
    and "mono clk" and "t \<le> clk 0" and "distinct as"
    and "\<And>a. a \<in> set as \<Longrightarrow> \<exists>q. fmlookup (queue_store s) a = Some q \<and> q_topic q = ev_topic e"
    and "publish_loop it clk e s as = (s', ds)"
  shows "list_all2 (admitted_at e s s') as ds \<and> count_in_use s' = count_in_use s + accepted_total ds \<and>
    (\<forall>x. x \<notin> set as \<longrightarrow> fmlookup (queue_store s') x = fmlookup (queue_store s) x)"
  using assms
proof (induction as arbitrary: n t s clk ds)
  case (Cons a as)
  obtain s1 r where ad: "publish_admit it (clk 0) e s a = (s1, r)" by fastforce
  obtain rs where lp: "publish_loop it (\<lambda>i. clk (Suc i)) e s1 as = (s', rs)"
    and ds: "ds = (case r of None \<Rightarrow> rs | Some d \<Rightarrow> d # rs)"
    using Cons.prems(8) ad by (auto split: prod.splits)
  have n1: "n + 1 < 2 ^ 64" using Cons.prems(2) by simp
  obtain q where q: "fmlookup (queue_store s) a = Some q" "q_topic q = ev_topic e"
    using Cons.prems(7) [of a] by auto
  from publish_admit_effect [OF Cons.prems(1) n1 Cons.prems(3,5) q ad] obtain d where
    d: "r = Some d" "admitted_at e s s1 a d" "count_in_use s1 = count_in_use s + accepted_total [d]"
    and other: "\<And>x. x \<noteq> a \<Longrightarrow> fmlookup (queue_store s1) x = fmlookup (queue_store s) x" by blast
  have inv1: "bus_inv (n + 1) (clk 0) s1"
    using publish_admit_inv [OF Cons.prems(1) n1 Cons.prems(3,5), of e a] by (simp add: ad)
  have ih: "list_all2 (admitted_at e s1 s') as rs \<and> count_in_use s' = count_in_use s1 + accepted_total rs \<and>
      (\<forall>x. x \<notin> set as \<longrightarrow> fmlookup (queue_store s') x = fmlookup (queue_store s1) x)"
  proof (rule Cons.IH [OF inv1 _ Cons.prems(3) _ _ _ _ lp])
    show "mono (\<lambda>i. clk (Suc i))" "clk 0 \<le> clk (Suc 0)" using Cons.prems(4) by (simp_all add: mono_def)
    show "\<exists>q. fmlookup (queue_store s1) x = Some q \<and> q_topic q = ev_topic e" if "x \<in> set as" for x
      using Cons.prems(7) [of x] other [of x] that Cons.prems(6) by (cases "x = a") simp_all
  qed (use Cons.prems(2,6) in simp_all)
  have "list_all2 (admitted_at e s s') as rs"
    by (rule list.rel_mono_strong [OF conjunct1 [OF ih]])
      (metis Cons.prems(6) other admitted_at_from distinct.simps(2))
  then show ?case
    using ih d other Cons.prems(6) admitted_at_trans [OF d(2), of s'] by (simp add: ds)
qed simp

lemma publish_prepare_ok:
  assumes reg: "reg_ok s" and prep: "publish_prepare imax now s m = Some (s1, Inr (e, qs))"
  shows "(ev_topic e, ev_id e, ev_ordering_key e, to_transport (ev_payload e)) =
      (out_topic m, out_id m, out_ordering_key m, out_payload m)"
    and "distinct (map (queue_id_at s) qs)"
    and "set qs = {a. a |\<in>| alive s \<and> (\<exists>i. registered (bus s) (out_topic m) i = Some a)}"
    and "\<exists>x. s1 = s\<lparr>bus := x\<rparr>"
proof -
  obtain ev ty where ev: "local_event_transport imax now (out_topic m) m = Some (Some ev)"
    and sel: "publish_select s m ty = (s1, Inr qs)" and e: "e = ev \<or> e = ev\<lparr>weight_bytes := 0\<rparr>"
    using prep by (auto simp: publish_prepare_def Let_def split: sum.splits option.splits prod.splits if_splits)
  have "to_transport p = out_payload m" if "from_transport (out_payload m) = Some p" for p
    using that by (cases "out_payload m") auto
  then show "(ev_topic e, ev_id e, ev_ordering_key e, to_transport (ev_payload e)) =
      (out_topic m, out_id m, out_ordering_key m, out_payload m)"
    using ev e by (auto simp: local_event_transport_def Let_def split: option.splits)
  show "distinct (map (queue_id_at s) qs)"
    and "set qs = {a. a |\<in>| alive s \<and> (\<exists>i. registered (bus s) (out_topic m) i = Some a)}"
    and "\<exists>x. s1 = s\<lparr>bus := x\<rparr>"
    using publish_select_ok [OF reg sel] publish_select_only_bus [of s m ty] sel by simp_all
qed

lemma list_all2_ids:
  "list_all2 (admitted_at e s s') as ds \<Longrightarrow> map adm_subscription_id ds = map (queue_id_at s) as"
  by (induction rule: list_all2_induct) (auto simp: admitted_at_def queue_id_at_def)

lemma list_all2_in1: "list_all2 P xs ys \<Longrightarrow> x \<in> set xs \<Longrightarrow> \<exists>y \<in> set ys. P x y"
  by (induction rule: list_all2_induct) auto

lemma queue_admission:
  assumes reg: "reg_ok s" and q: "fmlookup (queue_store s) a = Some q"
    and qs: "distinct (map (queue_id_at s) qs)"
      "set qs = {a. a |\<in>| alive s \<and> (\<exists>i. registered (bus s) topic i = Some a)}"
    and ad: "list_all2 (admitted_at e s s') qs ds"
    and other: "a \<notin> set qs \<Longrightarrow> fmlookup (queue_store s') a = fmlookup (queue_store s) a"
  shows "\<exists>q'. fmlookup (queue_store s') a = Some q' \<and> lane_contents (q_state q') =
    (if \<not> queue_closed (q_state q) \<and> q_topic q = topic \<and>
        (\<exists>d \<in> set ds. adm_subscription_id d = q_id q \<and> adm_status d = Accepted)
     then (lane_contents (q_state q))(ev_ordering_key e := lane_contents (q_state q) (ev_ordering_key e) @ [e])
     else lane_contents (q_state q))"
    and "\<not> queue_closed (q_state q) \<Longrightarrow> q_topic q = topic \<Longrightarrow> q_id q \<in> adm_subscription_id ` set ds"
proof -
  have mem: "a \<in> set qs" if "\<not> queue_closed (q_state q)" "q_topic q = topic"
    using reg_okD(1,2) [OF reg q] that qs(2) by auto
  show listed: "q_id q \<in> adm_subscription_id ` set ds" if "\<not> queue_closed (q_state q)" "q_topic q = topic"
    using list_all2_in1 [OF ad mem [OF that]] q by (force simp: admitted_at_def)
  show "\<exists>q'. fmlookup (queue_store s') a = Some q' \<and> lane_contents (q_state q') =
    (if \<not> queue_closed (q_state q) \<and> q_topic q = topic \<and>
        (\<exists>d \<in> set ds. adm_subscription_id d = q_id q \<and> adm_status d = Accepted)
     then (lane_contents (q_state q))(ev_ordering_key e := lane_contents (q_state q) (ev_ordering_key e) @ [e])
     else lane_contents (q_state q))"
  proof (cases "a \<in> set qs")
    case True
    from list_all2_in1 [OF ad True] obtain d where d: "d \<in> set ds" "admitted_at e s s' a d" by blast
    have "inj_on adm_subscription_id (set ds)"
      using qs(1) list_all2_ids [OF ad] by (metis distinct_map)
    then have uniq: "d' = d" if "d' \<in> set ds" "adm_subscription_id d' = q_id q" for d'
      using that d q by (auto simp: admitted_at_def inj_on_def)
    have "adm_subscription_id d = q_id q" using d(2) q by (auto simp: admitted_at_def)
    with uniq d(1) have ex: "(\<exists>d \<in> set ds. adm_subscription_id d = q_id q \<and> adm_status d = Accepted) \<longleftrightarrow>
        adm_status d = Accepted" by blast
    have "q_topic q = topic" using True qs(2) reg_okD(4) [OF reg] q by fastforce
    then show ?thesis
      using d(2) q unfolding ex by (cases "adm_status d = Accepted") (auto simp: admitted_at_def)
  next
    case False
    then show ?thesis using mem other q by auto
  qed
qed

text \<open>C7: An acknowledged publication reports exactly what it did. The acknowledgement lists each
  destination once, in ascending order of subscription ids, and every open subscription of the
  topic is listed; the provider is charged for one delivery per accepted destination; and each
  open queue of the topic has the event appended to its lane if its destination is listed as
  accepted, while every other lane of every queue is unchanged.\<close>

theorem publish_reports_admissions:
  assumes "provider_reach it itf itt cap mc mw (n, t, s)" and "iteration_order it"
    and "publish it imax now clk s m = Some (s', Inr ack)"
    and "mono clk" and "t \<le> clk 0" and "n + fcard (alive s) < 2 ^ 64"
  shows "\<exists>ds e. ack = DestinationAdmissions ds \<and> sorted_wrt (<) (map adm_subscription_id ds) \<and>
    (ev_topic e, ev_id e, ev_ordering_key e, to_transport (ev_payload e)) =
      (out_topic m, out_id m, out_ordering_key m, out_payload m) \<and>
    count_in_use s' = count_in_use s + accepted_total ds \<and>
    (\<forall>a q. fmlookup (queue_store s) a = Some q \<longrightarrow> (\<exists>q'. fmlookup (queue_store s') a = Some q' \<and>
      lane_contents (q_state q') =
        (if \<not> queue_closed (q_state q) \<and> q_topic q = out_topic m \<and>
            (\<exists>d \<in> set ds. adm_subscription_id d = q_id q \<and> adm_status d = Accepted)
         then (lane_contents (q_state q))(ev_ordering_key e := lane_contents (q_state q) (ev_ordering_key e) @ [e])
         else lane_contents (q_state q)))) \<and>
    (\<forall>a q. fmlookup (queue_store s) a = Some q \<longrightarrow> \<not> queue_closed (q_state q) \<longrightarrow> q_topic q = out_topic m \<longrightarrow>
      q_id q \<in> adm_subscription_id ` set ds)"
proof -
  have inv: "bus_inv n t s" and reg: "reg_ok s"
    using provider_reach_inv [OF assms(1)] by (simp_all add: provider_inv_def)
  obtain s1 e qs s2 ds where prep: "publish_prepare imax now s m = Some (s1, Inr (e, qs))"
    and lp: "publish_loop it clk e s1 qs = (s2, ds)"
    and ack: "ack = DestinationAdmissions (sort_key adm_subscription_id ds)"
    and s': "queue_store s' = queue_store s2" "outstanding s' = outstanding s2"
    using assms(3) by (auto simp: publish_def Let_def signal_changed_def split: option.splits sum.splits prod.splits if_splits)
  note p = publish_prepare_ok [OF reg prep]
  have len: "length qs \<le> fcard (alive s)"
    using p(2,3) by (metis (no_types, lifting) card_mono distinct_card distinct_map fcard.rep_eq finite_fset mem_Collect_eq subsetI)
  have known: "\<exists>q. fmlookup (queue_store s1) a = Some q \<and> q_topic q = ev_topic e" if "a \<in> set qs" for a
    using that p(1,3,4) reg_okD(4) [OF reg] by fastforce
  have inv1: "bus_inv n t s1" and s1: "queue_store s1 = queue_store s" "outstanding s1 = outstanding s"
    using inv p(4) by auto
  have l: "list_all2 (admitted_at e s s2) qs ds" "count_in_use s2 = count_in_use s + accepted_total ds"
    "\<And>x. x \<notin> set qs \<Longrightarrow> fmlookup (queue_store s2) x = fmlookup (queue_store s) x"
    using publish_loop_ok [OF inv1 _ assms(2,4,5) _ known lp] p(2) s1 len assms(6)
    by (auto simp: distinct_map admitted_at_def elim!: list.rel_mono_strong)
  have ids: "distinct (map adm_subscription_id (sort_key adm_subscription_id ds))"
    using list_all2_ids [OF l(1)] p(2) by (metis distinct_map mset_map mset_eq_imp_distinct_iff mset_sort)
  have acc: "accepted_total (sort_key adm_subscription_id ds) = accepted_total ds"
    by (metis mset_filter mset_sort size_mset)
  note qa = queue_admission [OF reg _ p(2,3) l(1)]
  show ?thesis
    using p(1) ids acc l(2) s' ack qa l(3)
    by (intro exI [of _ "sort_key adm_subscription_id ds"] exI [of _ e])
      (auto simp: strict_sorted_iff)
qed

lemma sample_publish:
  "\<exists>s' ack. publish key_order 100 5 (\<lambda>_. 5) sample_state sample_message = Some (s', Inr ack)"
proof -
  have "case publish key_order 100 5 (\<lambda>_. 5) sample_state sample_message of
      None \<Rightarrow> False | Some (_, r) \<Rightarrow> (case r of Inl _ \<Rightarrow> False | Inr _ \<Rightarrow> True)" by code_simp
  then show ?thesis by (auto split: option.splits prod.splits sum.split_asm)
qed

theorem publish_reports_admissions_witness:
  "\<exists>s' ds. publish key_order 100 5 (\<lambda>_. 5) sample_state sample_message = Some (s', Inr (DestinationAdmissions ds)) \<and>
    count_in_use s' = count_in_use sample_state + accepted_total ds \<and> 5 \<in> adm_subscription_id ` set ds"
proof -
  obtain s' ack where p: "publish key_order 100 5 (\<lambda>_. 5) sample_state sample_message = Some (s', Inr ack)"
    using sample_publish by blast
  have c: "fcard (alive sample_state) = 1" "q_id (sample_queue_at sample_state 0) = 5"
    "\<not> queue_closed (q_state (sample_queue_at sample_state 0))"
    "q_topic (sample_queue_at sample_state 0) = out_topic sample_message" by code_simp+
  from publish_reports_admissions [OF sample_reach key_order_ok p] c(1)
  obtain ds where "ack = DestinationAdmissions ds" "count_in_use s' = count_in_use sample_state + accepted_total ds"
    "\<And>a q. fmlookup (queue_store sample_state) a = Some q \<Longrightarrow> \<not> queue_closed (q_state q) \<Longrightarrow>
      q_topic q = out_topic sample_message \<Longrightarrow> q_id q \<in> adm_subscription_id ` set ds"
    by (auto simp: mono_def)
  from this(1,2) this(3) [OF sample_queue_eq c(3,4)] p c(2) show ?thesis by auto
qed

text \<open>C35: A refused publication has no effect a caller could miss: its error says that nothing was
  accepted, which is true (every queue, the budget and every settlement are as before), and names
  one of the documented kinds.\<close>

theorem refused_publish_harmless:
  assumes "publish it imax now clk s m = Some (s', Inl e)"
  shows "spi_publish_effect e = NotAccepted \<and> (\<exists>bs. s' = s\<lparr>bus := bs\<rparr>) \<and>
    spi_kind e \<in> {''unsupported_payload_mode'', ''delay_deadline_overflow'', ''provider_closed'',
      ''topic_type_conflict'', ''missing_native_payload_weight''}"
proof -
  have keep: "\<exists>x. s = s\<lparr>bus := x\<rparr>" by (rule exI [of _ "bus s"]) simp
  have sel: "spi_publish_effect e = NotAccepted \<and> (\<exists>bs. s' = s\<lparr>bus := bs\<rparr>) \<and>
      spi_kind e \<in> {''provider_closed'', ''topic_type_conflict'', ''missing_native_payload_weight''}"
    if "publish_select s m ty = (s', Inl e)" for ty
    using that publish_select_only_bus [of s m ty]
    by (auto simp: publish_select_def Let_def pre_admission_publish_error_def
        missing_native_payload_weight_error_def split: prod.splits if_splits option.splits)
  have "publish_prepare imax now s m = Some (s', Inl e)"
    using assms by (auto simp: publish_def Let_def split: option.splits sum.splits prod.splits)
  then show ?thesis
    using keep sel
    by (auto simp: publish_prepare_def validate_message_def Let_def pre_admission_publish_error_def
        split: sum.splits option.splits prod.splits transport_payload.splits)
qed

theorem refused_publish_harmless_witness:
  "\<exists>s' e. publish key_order 100 5 (\<lambda>_. 5) (shutdown_begin sample_state) sample_message = Some (s', Inl e) \<and>
    spi_publish_effect e = NotAccepted"
proof -
  have "case publish key_order 100 5 (\<lambda>_. 5) (shutdown_begin sample_state) sample_message of
      None \<Rightarrow> False | Some (_, r) \<Rightarrow> (case r of Inl _ \<Rightarrow> True | Inr _ \<Rightarrow> False)" by code_simp
  then obtain s' e where p: "publish key_order 100 5 (\<lambda>_. 5) (shutdown_begin sample_state) sample_message = Some (s', Inl e)"
    by (auto split: option.splits prod.splits sum.split_asm)
  from refused_publish_harmless [OF this] p show ?thesis by auto
qed

section \<open>Fair admission order\<close>

text \<open>The subscriptions that are offered the event first in a row of publications to one topic, while
  its set of subscriptions \<open>qs\<close> (in ascending order of ids) stays the same.\<close>

fun admission_starts :: "(nat \<Rightarrow> id) \<Rightarrow> topic_subscriptions \<Rightarrow> nat list \<Rightarrow> nat \<Rightarrow> nat list" where
  "admission_starts qid b qs 0 = []"
| "admission_starts qid b qs (Suc n) = (case rotate_publish_queues qid b qs of
     (b', qs') \<Rightarrow> hd qs' # admission_starts qid b' qs n)"

lemma hd_rotated: "i < length qs \<Longrightarrow> hd (drop i qs @ take i qs) = qs ! i"
  by (simp add: hd_append hd_drop_conv_nth)

lemma next_start:
  assumes "sorted_wrt (<) (map qid qs)" and "r < length qs" and "last_admission_start b = Some (qid (qs ! r))"
  shows "rotate_publish_queues qid b qs = (let i = Suc r mod length qs in
    (b\<lparr>last_admission_start := Some (qid (qs ! i))\<rparr>, drop i qs @ take i qs))"
proof -
  have less: "qid (qs ! i) < qid (qs ! j) \<longleftrightarrow> i < j" if "i < length qs" "j < length qs" for i j
    using assms(1) that sorted_wrt_nth_less [of "(<)" "map qid qs"]
    by (metis length_map less_asym' linorder_neqE nth_map order_less_irrefl)
  have "(case find_position (\<lambda>a. qid (qs ! r) < qid a) qs of None \<Rightarrow> 0 | Some i \<Rightarrow> i) = Suc r mod length qs"
  proof (cases "Suc r < length qs")
    case True
    then have "find_position (\<lambda>a. qid (qs ! r) < qid a) qs = Some (Suc r)"
      by (auto simp: find_position_Some less)
    then show ?thesis using True by simp
  next
    case False
    then have "find_position (\<lambda>a. qid (qs ! r) < qid a) qs = None"
      using assms(2) by (auto simp: find_position_None in_set_conv_nth less)
    moreover have "Suc r = length qs" using False assms(2) by simp
    ultimately show ?thesis by simp
  qed
  then show ?thesis
    using assms(2,3) hd_rotated [OF mod_less_divisor [of "length qs" "Suc r"]]
    by (auto simp: rotate_publish_queues_def Let_def)
qed

lemma starts_after:
  assumes "sorted_wrt (<) (map qid qs)" and "r < length qs" and "last_admission_start b = Some (qid (qs ! r))"
  shows "admission_starts qid b qs n = map (\<lambda>i. qs ! ((Suc r + i) mod length qs)) [0..<n]"
  using assms(2,3)
proof (induction n arbitrary: b r)
  case (Suc n)
  let ?i = "Suc r mod length qs"
  have i: "?i < length qs" using Suc.prems(1) by (intro mod_less_divisor) linarith
  have shift: "(Suc ?i + j) mod length qs = (Suc r + Suc j) mod length qs" for j
    using mod_add_left_eq [of "Suc r" "length qs" "Suc j"] by simp
  have "admission_starts qid b qs (Suc n) = qs ! ?i # map (\<lambda>j. qs ! ((Suc ?i + j) mod length qs)) [0..<n]"
    using next_start [OF assms(1) Suc.prems] Suc.IH [OF i] i by (simp add: Let_def hd_drop_conv_nth)
  then show ?case
    unfolding shift by (simp add: map_upt_Suc del: upt_Suc)
qed simp

text \<open>The first choice among the subscriptions of a topic goes round in turn. Whatever subscription
  came first last time, even one that is gone, there is a position \<open>r\<close> such that publication number \<open>i\<close>
  from now on is first offered to subscription \<open>(r + i) mod k\<close> of the \<open>k\<close> subscriptions. So each of
  them comes first exactly once in any \<open>k\<close> consecutive publications.\<close>

theorem admission_round_robin:
  assumes "sorted_wrt (<) (map qid qs)" and "qs \<noteq> []"
  shows "\<exists>r < length qs. \<forall>n. admission_starts qid b qs n = map (\<lambda>i. qs ! ((r + i) mod length qs)) [0..<n]"
proof -
  define r where "r = (case Option.bind (last_admission_start b) (\<lambda>last. find_position (\<lambda>a. last < qid a) qs) of
    None \<Rightarrow> 0 | Some i \<Rightarrow> i)"
  have r: "r < length qs"
    using assms(2) by (auto simp: r_def find_position_Some bind_eq_Some_conv split: option.splits)
  have rot: "rotate_publish_queues qid b qs = (b\<lparr>last_admission_start := Some (qid (qs ! r))\<rparr>, drop r qs @ take r qs)"
    using assms(2) r by (simp add: rotate_publish_queues_def Let_def r_def [symmetric] hd_drop_conv_nth)
  have "admission_starts qid b qs n = map (\<lambda>i. qs ! ((r + i) mod length qs)) [0..<n]" for n
  proof (cases n)
    case (Suc m)
    then show ?thesis
      using rot r starts_after [OF assms(1) r, of "b\<lparr>last_admission_start := Some (qid (qs ! r))\<rparr>" m]
      by (simp add: hd_drop_conv_nth map_upt_Suc del: upt_Suc)
  qed simp
  then show ?thesis using r by blast
qed

theorem admission_round_robin_witness:
  "\<exists>r < 3. admission_starts (\<lambda>a. a) \<lparr>queues = fmempty, payload_type_id = None, last_admission_start = Some 4\<rparr>
     [2, 5, 9] 4 = map (\<lambda>i. [2, 5, 9] ! ((r + i) mod 3)) [0..<4]"
proof -
  let ?b = "\<lparr>queues = fmempty, payload_type_id = None, last_admission_start = Some 4\<rparr>"
  from admission_round_robin [of "\<lambda>a. a" "[2, 5, 9]" ?b] obtain r where
    "r < length [2, 5, 9 :: nat]"
    "admission_starts (\<lambda>a. a) ?b [2, 5, 9] 4 = map (\<lambda>i. [2, 5, 9] ! ((r + i) mod length [2, 5, 9 :: nat])) [0..<4]"
    by auto
  then show ?thesis by (intro exI [of _ r]) (simp del: upt_rec_numeral)
qed

end
