(* ===== verification/Local_Lifecycle_Props.thy ===== *)
theory Local_Lifecycle_Props
  imports Local_Publish_Props
begin

text \<open>
  The life of subscriptions and of the whole in-memory provider: unique subscription ids, one payload
  type per topic, the waits of receivers and of idle watchers, and shutdown.

  The waiting operations release their locks between turns. What other threads do meanwhile is a
  parameter of the model; the properties below ask of it only what every critical section of the
  provider was shown to keep: the invariant of the provider and the closed flag.
\<close>

section \<open>Subscriptions\<close>

text \<open>At any time, two open subscriptions of a provider have different ids, also when they belong to
  different topics.\<close>

theorem open_subscription_ids_unique:
  assumes "provider_reach it itf itt cap mc mw (n, t, s)"
    and "fmlookup (queue_store s) a = Some q" and "\<not> queue_closed (q_state q)"
    and "fmlookup (queue_store s) a' = Some q'" and "\<not> queue_closed (q_state q')" and "q_id q = q_id q'"
  shows "a = a'"
proof -
  have reg: "reg_ok s" using provider_reach_inv [OF assms(1)] by (simp add: provider_inv_def)
  have r: "registered (bus s) (q_topic q) (q_id q) = Some a" "registered (bus s) (q_topic q') (q_id q) = Some a'"
    using reg_okD(2) [OF reg assms(2,3)] reg_okD(2) [OF reg assms(4,5)] assms(6) by simp_all
  then show ?thesis using reg_okD(5) [OF reg r] by simp
qed

definition two_subscriptions :: "(instant \<times> bus_action) list" where
  "two_subscriptions = [(1, Subscribe (sample_request 5)), (2, Subscribe (sample_request 6)), (3, Subscribe (sample_request 5))]"

definition two_state :: local_shared where
  "two_state = snd (snd (the (bus_run key_order key_order key_order (0, 0, sample_provider) two_subscriptions)))"

lemma two_reach: "provider_reach key_order key_order key_order 4 10 (Some 100) (6, 3, two_state)"
proof -
  have "bus_run key_order key_order key_order (0, 0, sample_provider) two_subscriptions \<noteq> None"
    "fst (the (bus_run key_order key_order key_order (0, 0, sample_provider) two_subscriptions)) = 6"
    "fst (snd (the (bus_run key_order key_order key_order (0, 0, sample_provider) two_subscriptions))) = 3" by code_simp+
  then have "bus_run key_order key_order key_order (0, 0, sample_provider) two_subscriptions = Some (6, 3, two_state)"
    by (auto simp: two_state_def)
  from bus_run_reach [OF key_order_ok key_order_ok key_order_ok sample_start this] show ?thesis .
qed

theorem open_subscription_ids_unique_witness:
  "fmlookup (queue_store two_state) 1 = Some (sample_queue_at two_state 1) \<and>
   fmdom' (queue_store two_state) = {0, 1} \<and>
   q_id (sample_queue_at two_state 0) \<noteq> q_id (sample_queue_at two_state 1)"
proof -
  have d: "fmdom' (queue_store two_state) = {0, 1}" by code_simp
  have "fmlookup (queue_store two_state) 0 \<noteq> None" "fmlookup (queue_store two_state) 1 \<noteq> None" by code_simp+
  then have e: "fmlookup (queue_store two_state) 0 = Some (sample_queue_at two_state 0)"
    "fmlookup (queue_store two_state) 1 = Some (sample_queue_at two_state 1)"
    by (auto simp: sample_queue_at_def)
  have c: "\<not> queue_closed (q_state (sample_queue_at two_state 0))" "\<not> queue_closed (q_state (sample_queue_at two_state 1))"
    by code_simp+
  show ?thesis
    using open_subscription_ids_unique [OF two_reach e(1) c(1) e(2) c(2)] d e by auto
qed

text \<open>Every bucket of the routing table has an entry and a payload type.\<close>

definition buckets_typed :: "bus_state \<Rightarrow> bool" where
  "buckets_typed bs \<longleftrightarrow> (\<forall>t b. fmlookup (topics bs) t = Some b \<longrightarrow> queues b \<noteq> fmempty \<and> payload_type_id b \<noteq> None)"

lemma buckets_typed_flags [simp]:
  "buckets_typed (bs\<lparr>change_version := v\<rparr>) = buckets_typed bs"
  "buckets_typed (bs\<lparr>bus_closed := c\<rparr>) = buckets_typed bs"
  "buckets_typed (bs\<lparr>bus_shutdown_outcome := out\<rparr>) = buckets_typed bs"
  "buckets_typed (bs\<lparr>subscription_ids := ids\<rparr>) = buckets_typed bs"
  by (simp_all add: buckets_typed_def)

lemma typed_live_topic:
  assumes "buckets_typed bs"
  shows "buckets_typed (fst (live_queues_for_topic live bs t))"
proof -
  have "queues b' \<noteq> fmempty \<and> payload_type_id b' \<noteq> None"
    if "bucket_live_queues live b = (b', qs)" "fmlookup (topics bs) t = Some b" "queues b' \<noteq> fmempty" for b b' qs
    using that assms by (auto simp: bucket_live_queues_def Let_def buckets_typed_def btree_values_Nil split: if_splits)
  then show ?thesis
    using assms by (auto simp: live_queues_for_topic_def buckets_typed_def Let_def split: option.splits prod.splits if_splits)
qed

lemma typed_live_of: "buckets_typed bs \<Longrightarrow> buckets_typed (fst (live_queues_of live bs ts))"
proof (induction ts arbitrary: bs)
  case (Cons t ts)
  then show ?case
    using typed_live_topic [OF Cons.prems, of live t]
    by (auto split: prod.splits) (metis Cons.IH fst_conv)
qed simp

lemma typed_rotate: "payload_type_id (fst (rotate_publish_queues qid b qs)) = payload_type_id b"
  by (simp add: rotate_publish_queues_def Let_def)

lemma typed_bucket_upd:
  "buckets_typed bs \<Longrightarrow> queues b \<noteq> fmempty \<Longrightarrow> payload_type_id b \<noteq> None \<Longrightarrow>
   buckets_typed (bs\<lparr>topics := fmupd t b (topics bs)\<rparr>)"
  by (simp add: buckets_typed_def)

lemma typed_stale_entry:
  assumes "\<And>t b. fmlookup ts t = Some b \<Longrightarrow> payload_type_id b \<noteq> None"
    and "fmlookup (remove_stale_entry live i ks ts) t = Some b" and "queues b \<noteq> fmempty"
  shows "payload_type_id b \<noteq> None"
  using assms(2,3)
proof (induction ks)
  case (Cons k ks)
  then show ?case
    using assms(1) by (auto simp: Let_def split: option.splits if_splits)
qed (use assms(1) in simp)

lemma typed_stale_id:
  assumes "buckets_typed bs"
  shows "buckets_typed (remove_stale_id itt live bs i)"
proof -
  have ty: "payload_type_id b \<noteq> None" if "fmlookup (topics bs) t = Some b" for t b
    using assms that by (auto simp: buckets_typed_def)
  show ?thesis
    using typed_stale_entry [OF ty] by (auto simp: remove_stale_id_def Let_def buckets_typed_def split: if_splits)
qed

lemma typed_select: "buckets_typed (bus s) \<Longrightarrow> buckets_typed (bus (fst (publish_select s m ty)))"
proof -
  assume typed: "buckets_typed (bus s)"
  obtain bs qs where l: "live_queues_for_topic (alive s) (bus s) (out_topic m) = (bs, qs)" by fastforce
  have bs: "buckets_typed bs" using typed_live_topic [OF typed] l by (metis fst_conv)
  have "buckets_typed (bs\<lparr>topics := fmupd (out_topic m) b' (topics bs)\<rparr>)"
    if "fmlookup (topics bs) (out_topic m) = Some b" "rotate_publish_queues qid b qs = (b', qs')" for qid b b' qs'
    using bs that typed_rotate [of qid b qs] rotate_queues [of qid b qs]
    by (intro typed_bucket_upd) (auto simp: buckets_typed_def)
  then show ?thesis
    using typed bs l by (auto simp: publish_select_def Let_def split: prod.splits option.splits)
qed

lemma typed_subscribe: "buckets_typed (bus s) \<Longrightarrow> buckets_typed (bus (fst (subscribe itt s r)))"
proof -
  assume typed: "buckets_typed (bus s)"
  note l = typed_live_topic [OF typed, of "alive s" "req_topic r"]
  note st = typed_stale_id [OF l, of itt "alive s" "req_subscription_id r"]
  have "fmupd k v m \<noteq> fmempty" for k v and m :: "(nat, nat) fmap"
    by (metis fmupd_lookup fmempty_lookup option.distinct(1))
  then show ?thesis
    using typed l st by (simp add: subscribe_def Let_def buckets_typed_def)
qed

lemma typed_unregister:
  assumes typed: "buckets_typed (bus s)"
  shows "buckets_typed (bus (unregister s a))"
proof -
  have "payload_type_id (fst (bucket_remove live b i x)) \<noteq> None"
    if "fmlookup (topics (bus s)) t = Some b" "queues (fst (bucket_remove live b i x)) \<noteq> fmempty" for live b i x t
    using that typed by (auto simp: bucket_remove_def Let_def buckets_typed_def split: if_splits)
  then show ?thesis
    using typed
    by (auto simp: unregister_def signal_changed_def Let_def buckets_typed_def split: option.split prod.split if_splits)
      (metis fst_conv)+
qed

lemma typed_step:
  assumes typed: "buckets_typed (bus s)" and step: "bus_step it itf itt s now later x = Some s'"
  shows "buckets_typed (bus s')"
proof (cases x)
  case (Admit e a)
  have "bus (fst (publish_admit it now e s a)) = bus s"
    by (auto simp: publish_admit_def Let_def split: option.split prod.split sum.split)
  then show ?thesis using assms Admit by auto
next
  case (Receive el timeout a)
  then show ?thesis
    using assms by (auto simp: receive_iteration_def Let_def signal_changed_def split: option.splits if_splits prod.splits)
next
  case (Settle a token d)
  then show ?thesis
    using assms by (auto simp: settle_def Let_def signal_changed_def split: option.splits if_splits)
next
  case (CloseQueue a)
  then show ?thesis
    using assms by (auto simp: close_queue_def drain_queue_def split: option.splits if_splits prod.splits)
next
  case (Drain a)
  then show ?thesis using assms by (auto simp: drain_queue_def split: prod.splits)
next
  case (PollTopic u)
  then show ?thesis
    using assms typed_live_topic [OF typed] by (auto simp: topic_idle_poll_def Let_def split_beta)
next
  case PollBus
  then show ?thesis
    using assms typed_live_of [OF typed] by (auto simp: bus_idle_poll_def live_queues_def Let_def split_beta)
qed (use assms typed_select [OF typed] typed_subscribe [OF typed] typed_unregister [OF typed] in
    \<open>auto simp: signal_changed_def shutdown_begin_def\<close>)

interpretation typed: transition_invariant "bus_init cap mc mw"
  "\<lambda>c x c'. iteration_order it \<and> iteration_order itf \<and> iteration_order itt \<and> bus_trans it itf itt c x c'"
  "\<lambda>c. buckets_typed (bus (snd (snd c)))" for cap mc mw it itf itt
proof (unfold_locales, goal_cases)
  case (1 c)
  then show ?case
    by (auto simp: bus_init_def local_shared_new_def bus_state_default_def buckets_typed_def split: prod.splits)
next
  case (2 c x c')
  then have "bus_trans it itf itt c x c'" by simp
  then show ?case using 2(1) by (cases rule: bus_trans.cases) (auto intro: typed_step)
qed

text \<open>C34: A topic carries one payload type as long as it has an open subscription: there is one type such
  that every publication with another payload type, and every subscription that asks for another
  one, is refused.\<close>

theorem topic_type_exclusive:
  assumes "provider_reach it itf itt cap mc mw (n, t, s)"
    and "fmlookup (queue_store s) a = Some q" and "\<not> queue_closed (q_state q)"
  shows "\<exists>ty. \<forall>ty'. ty' \<noteq> ty \<longrightarrow>
    (\<forall>m. out_topic m = q_topic q \<longrightarrow> (\<exists>e. snd (publish_select s m ty') = Inl e)) \<and>
    (\<forall>r. req_topic r = q_topic q \<longrightarrow> req_payload_type_id r = ty' \<longrightarrow> (\<exists>e. snd (subscribe itt s r) = Inl e))"
proof -
  let ?l = "live_queues_for_topic (alive s) (bus s) (q_topic q)"
  have reg: "reg_ok s" using provider_reach_inv [OF assms(1)] by (simp add: provider_inv_def)
  have "buckets_typed (bus s)" using typed.inv_reach [OF assms(1) [unfolded provider_reach_def]] by simp
  then have typed: "buckets_typed (fst ?l)" by (rule typed_live_topic)
  have "registered (fst ?l) (q_topic q) (q_id q) = Some a"
    using reg_okD(1,2) [OF reg assms(2,3)] by (simp add: live_queues_for_topic_registered)
  then obtain b where b1: "fmlookup (topics (fst ?l)) (q_topic q) = Some b"
    by (auto simp: registered_def bind_eq_Some_conv)
  then obtain ty where b: "fmlookup (topics (fst ?l)) (q_topic q) = Some b" "payload_type_id b = Some ty"
    using typed by (auto simp: buckets_typed_def)
  have "\<exists>e. snd (publish_select s m ty') = Inl e" if "ty' \<noteq> ty" "out_topic m = q_topic q" for m ty'
    using b that by (auto simp: publish_select_def Let_def split: prod.split)
  moreover have "\<exists>e. snd (subscribe itt s r) = Inl e"
    if "ty' \<noteq> ty" "req_topic r = q_topic q" "req_payload_type_id r = ty'" for r ty'
    using b that by (auto simp: subscribe_def Let_def)
  ultimately show ?thesis by blast
qed

theorem topic_type_exclusive_witness:
  "\<exists>ty e. ty \<noteq> 7 \<and> snd (subscribe key_order sample_state ((sample_request 6)\<lparr>req_payload_type_id := ty\<rparr>)) = Inl e"
proof -
  have c: "\<not> queue_closed (q_state (sample_queue_at sample_state 0))" "q_topic (sample_queue_at sample_state 0) = ''orders''"
    by code_simp+
  obtain ty where ty: "\<exists>e. snd (subscribe key_order sample_state r) = Inl e"
    if "req_payload_type_id r \<noteq> ty" "req_topic r = ''orders''" for r
    using topic_type_exclusive [OF sample_reach sample_queue_eq c(1)] unfolding c(2) by blast
  define other :: type_id where "other = (if ty = 8 then 9 else 8)"
  have "\<exists>e. snd (subscribe key_order sample_state ((sample_request 6)\<lparr>req_payload_type_id := other\<rparr>)) = Inl e"
    by (rule ty) (simp_all add: other_def sample_request_def)
  moreover have "other \<noteq> 7" by (simp add: other_def)
  ultimately show ?thesis by blast
qed

section \<open>Waiting receivers\<close>

lemma receive_iteration_Some:
  "known_queue s a \<Longrightarrow> \<exists>s' r. receive_iteration it now later el timeout s a = Some (s', r) \<and> known_queue s' a"
  by (auto simp: known_queue_def receive_iteration_def Let_def signal_changed_def split: option.splits prod.splits)

lemma receive_iteration_deadline:
  "receive_iteration it now later el timeout s a = Some (s', ReceiveWait w) \<Longrightarrow> el < timeout"
  by (auto simp: receive_iteration_def Let_def split: option.splits prod.splits if_splits)

lemma receive_loop_Some:
  assumes "known_queue s a" and "\<And>i s. known_queue s a \<Longrightarrow> known_queue (meanwhile e i s) a"
    and "i \<le> j" and "j < i + fuel" and "timeout \<le> waited e j"
  shows "\<exists>s' r. receive_loop it e timeout fuel i s a = Some (s', r)"
  using assms(1,3,4)
proof (induction fuel arbitrary: i s)
  case (Suc fuel)
  from receive_iteration_Some [OF Suc.prems(1)] obtain s1 st where
    it: "receive_iteration it (pop_at e i) (requeue_at e i) (waited e i) timeout s a = Some (s1, st)" "known_queue s1 a"
    by blast
  show ?case
  proof (cases st)
    case (ReceiveWait w)
    then have "i \<noteq> j" using receive_iteration_deadline it(1) assms(5) by fastforce
    then have "\<exists>s' r. receive_loop it e timeout fuel (Suc i) (meanwhile e i s1) a = Some (s', r)"
      using Suc.IH [of "meanwhile e i s1" "Suc i"] Suc.prems(2,3) assms(2) it(2) by auto
    then show ?thesis
      using it(1) ReceiveWait
      by (cases "receive_after_wait (wait_timed_out e i) (woken_after e i) timeout (meanwhile e i s1) a")
        (simp_all add: Let_def)
  qed (use it in simp)
qed simp

text \<open>C33: A receive always ends: if the clock passes the timeout in some turn \<open>j\<close> of its loop, the loop
  returns within \<open>j + 1\<close> turns, whatever the other threads do and however often the receiver is woken
  in vain. With a timeout of zero it returns in its first turn.\<close>

theorem receive_returns:
  assumes "known_queue s a" and "\<And>i s. known_queue s a \<Longrightarrow> known_queue (meanwhile e i s) a"
    and "timeout = 0 \<or> timeout \<le> waited e j"
  shows "\<exists>s' r. receive_loop it e timeout (Suc (if timeout = 0 then 0 else j)) 0 s a = Some (s', r)"
proof (cases "timeout = 0")
  case True
  then show ?thesis using receive_loop_Some [OF assms(1,2), of 0 0 1 timeout it] by simp
next
  case False
  then show ?thesis using receive_loop_Some [OF assms(1,2), of 0 j "Suc j" timeout it] assms(3) by simp
qed

definition sample_receive_env :: receive_env where
  "sample_receive_env = \<lparr>pop_at = (\<lambda>i. 5 + i), requeue_at = (\<lambda>i. 5 + i), waited = (\<lambda>i. 3 * i),
     meanwhile = (\<lambda>_ s. s), wait_timed_out = (\<lambda>_. False), woken_after = (\<lambda>i. 3 * i + 2)\<rparr>"

theorem receive_returns_witness:
  "\<exists>s' r. receive_loop key_order sample_receive_env 5 3 0 two_state 0 = Some (s', r)"
proof -
  have k: "known_queue two_state 0" by code_simp
  from receive_returns [OF this, of sample_receive_env 5 2 key_order] show ?thesis
    by (simp add: sample_receive_env_def numeral_3_eq_3)
qed

section \<open>Idle waits and shutdown\<close>

text \<open>States that satisfy the invariant of the provider at some time, and other threads that keep it
  and never reopen a closed provider.\<close>

definition sane :: "usize \<Rightarrow> usize \<Rightarrow> usize option \<Rightarrow> local_shared \<Rightarrow> bool" where
  "sane cap mc mw s \<longleftrightarrow> (\<exists>n t. provider_inv cap mc mw (n, t, s))"

definition others_ok :: "usize \<Rightarrow> usize \<Rightarrow> usize option \<Rightarrow> (local_shared \<Rightarrow> local_shared) \<Rightarrow> bool" where
  "others_ok cap mc mw f \<longleftrightarrow> (\<forall>s. sane cap mc mw s \<longrightarrow>
     sane cap mc mw (f s) \<and> (bus_closed (bus s) \<longrightarrow> bus_closed (bus (f s))))"

lemma saneI: "provider_inv cap mc mw (n, t, s) \<Longrightarrow> sane cap mc mw s"
  by (auto simp: sane_def)

lemma sane_bus: "sane cap mc mw s \<Longrightarrow> reg_ok (s\<lparr>bus := bs\<rparr>) \<Longrightarrow> sane cap mc mw (s\<lparr>bus := bs\<rparr>)"
  by (auto simp: sane_def provider_inv_def)

lemma sane_reg: "sane cap mc mw s \<Longrightarrow> reg_ok s"
  by (auto simp: sane_def provider_inv_def)

lemma sane_queue:
  assumes "sane cap mc mw s" and "fmlookup (queue_store s) a = Some q"
  obtains n t where "queue_ok n t q"
proof -
  from assms(1) obtain n t where "bus_inv n t s" by (auto simp: sane_def provider_inv_def)
  then show thesis using that bus_inv_queue assms(2) by blast
qed

lemma idle_queue:
  assumes "sane cap mc mw s" and "fmlookup (queue_store s) a = Some q" and "\<not> queue_busy s a"
  shows "load_count (q_state q) = 0"
proof -
  obtain n t where "queue_ok n t q" using sane_queue assms by blast
  from pending_in_flight_word [OF this] assms(2,3) show ?thesis
    by (auto simp: queue_busy_def is_pending_empty_def fmlen_def fcard_fempty)
qed

lemma nothing_held:
  assumes "sane cap mc mw s" and "\<And>a q. fmlookup (queue_store s) a = Some q \<Longrightarrow> load_count (q_state q) = 0"
  shows "count_in_use s = 0" and "weight_used (budget_state (outstanding s)) = 0"
proof -
  have acc: "account_ok s" using assms(1) by (auto simp: sane_def provider_inv_def bus_inv_def)
  then show "count_in_use s = 0" using assms(2) by (simp add: account_ok_def fmsum_0_iff)
  have "queue_load f (q_state q) = 0" if "fmlookup (queue_store s) a = Some q" for a q f
    using load_count_0 [OF assms(2) [OF that]] by (simp add: queue_load_def lanes_total_def)
  then have "unat (weight_used (budget_state (outstanding s))) = 0"
    using acc by (simp add: account_ok_def fmsum_0_iff)
  then show "weight_used (budget_state (outstanding s)) = 0" by (simp add: unat_eq_zero)
qed

lemma bus_poll_ok:
  assumes "sane cap mc mw s" and "iteration_order itt" and "bus_idle_poll itt s = (s', v, busy)"
  shows "sane cap mc mw s'" "bus_closed (bus s') = bus_closed (bus s)"
    "\<not> busy \<Longrightarrow> count_in_use s' = 0"
proof -
  obtain bs qs where l: "live_queues itt (alive s) (bus s) = (bs, qs)" by fastforce
  note lo = live_queues_ok [OF sane_reg [OF assms(1)] assms(2) l]
  have s': "s' = s\<lparr>bus := bs\<rparr>" "busy = list_ex (queue_busy s') qs"
    using assms(3) l by (auto simp: bus_idle_poll_def Let_def)
  show sn: "sane cap mc mw s'" "bus_closed (bus s') = bus_closed (bus s)"
    using sane_bus [OF assms(1) lo(1)] lo(2) by (simp_all add: s')
  show "count_in_use s' = 0" if idle: "\<not> busy"
  proof (rule nothing_held(1) [OF sn(1)])
    fix a q assume q: "fmlookup (queue_store s') a = Some q"
    show "load_count (q_state q) = 0"
    proof (cases "queue_closed (q_state q)")
      case True
      with q show ?thesis using sane_queue [OF sn(1) q] by (auto simp: queue_ok_def)
    next
      case False
      then have "a \<in> set qs" using lo(4) q s' by simp
      then show ?thesis using idle_queue [OF sn(1) q] idle s'(2) by (auto simp: list_ex_iff)
    qed
  qed
qed

lemma topic_poll_ok:
  assumes "sane cap mc mw s" and "topic_idle_poll s topic = (s', v, busy)"
  shows "sane cap mc mw s'"
    and "\<not> busy \<Longrightarrow> fmlookup (queue_store s') a = Some q \<Longrightarrow> \<not> queue_closed (q_state q) \<Longrightarrow> q_topic q = topic \<Longrightarrow>
      load_count (q_state q) = 0"
proof -
  obtain bs qs where l: "live_queues_for_topic (alive s) (bus s) topic = (bs, qs)" by fastforce
  have reg: "reg_ok s" by (rule sane_reg [OF assms(1)])
  have s': "s' = s\<lparr>bus := bs\<rparr>" "busy = list_ex (queue_busy s') qs"
    using assms(2) l by (auto simp: topic_idle_poll_def Let_def)
  show sn: "sane cap mc mw s'"
    using sane_bus [OF assms(1)] reg_ok_live_topic [OF reg, of topic] by (simp add: s' l)
  show "load_count (q_state q) = 0"
    if "\<not> busy" "fmlookup (queue_store s') a = Some q" "\<not> queue_closed (q_state q)" "q_topic q = topic"
  proof -
    have "fmlookup (queue_store s) a = Some q" using that(2) by (simp add: s')
    from reg_okD(1,2) [OF reg this that(3)] have "a \<in> set qs"
      using live_queues_for_topic_result [of "alive s" "bus s" topic] l that(4) by auto
    then show ?thesis using idle_queue [OF sn that(2)] that(1) s'(2) by (auto simp: list_ex_iff)
  qed
qed

lemma graceful_loop_ok:
  assumes "sane cap mc mw s" and "iteration_order itt"
    and "\<And>i. others_ok cap mc mw (env1 e i)" and "\<And>i. others_ok cap mc mw (env2 e i)"
    and "graceful_loop itt e timeout fuel i s = Some (s', out)"
  shows "sane cap mc mw s' \<and> (bus_closed (bus s) \<longrightarrow> bus_closed (bus s')) \<and> (out = Complete \<longrightarrow> count_in_use s' = 0)"
  using assms(1,5)
proof (induction fuel arbitrary: i s)
  case (Suc fuel)
  obtain s1 v busy where poll: "bus_idle_poll itt s = (s1, v, busy)" by (metis prod_cases3)
  note p = bus_poll_ok [OF Suc.prems(1) assms(2) poll]
  have env: "sane cap mc mw (env1 e i s1)" "sane cap mc mw (env2 e i (env1 e i s1))"
    "bus_closed (bus s) \<Longrightarrow> bus_closed (bus (env1 e i s1))"
    "bus_closed (bus s) \<Longrightarrow> bus_closed (bus (env2 e i (env1 e i s1)))"
    using assms(3,4) p(1,2) unfolding others_ok_def by blast+
  show ?case
    using Suc.prems(2) poll p env Suc.IH [OF env(1), of "Suc i"] Suc.IH [OF env(2), of "Suc i"]
    by (auto simp: Let_def split: if_splits)
qed simp

lemma graceful_loop_Some:
  assumes "i \<le> j" and "j < i + fuel" and "timeout < elapsed e j"
  shows "\<exists>s' out. graceful_loop itt e timeout fuel i s = Some (s', out)"
  using assms(1,2)
proof (induction fuel arbitrary: i s)
  case (Suc fuel)
  obtain s1 v busy where poll: "bus_idle_poll itt s = (s1, v, busy)" by (metis prod_cases3)
  have "\<exists>s' out. graceful_loop itt e timeout fuel (Suc i) s2 = Some (s', out)" if "i \<noteq> j" for s2
    using Suc.IH [of "Suc i" s2] Suc.prems that by simp
  then show ?case using poll assms(3) by (cases "i = j") (auto simp: Let_def)
qed simp

lemma drain_queues_ok:
  assumes "sane cap mc mw s" and "iteration_order it" and "iteration_order itf"
    and "\<And>a. a \<in> set as \<Longrightarrow> \<exists>q. fmlookup (queue_store s) a = Some q"
  shows "\<exists>s'. drain_queues it itf s as = Some s' \<and> sane cap mc mw s' \<and> bus s' = bus s \<and>
    (\<forall>a q'. fmlookup (queue_store s') a = Some q' \<longrightarrow> queue_closed (q_state q') \<or>
      a \<notin> set as \<and> fmlookup (queue_store s) a = Some q')"
  using assms(1,4)
proof (induction as arbitrary: s)
  case (Cons a as)
  obtain q where q: "fmlookup (queue_store s) a = Some q" using Cons.prems(2) [of a] by auto
  obtain n t where inv: "bus_inv n t s" and reg: "reg_ok s" and cf: "config_ok cap mc mw s"
    using Cons.prems(1) by (auto simp: sane_def provider_inv_def)
  obtain s1 es b where d: "drain_queue it itf s a q = Some (s1, es)" "bus_inv n t s1"
    and s1: "s1 = s\<lparr>outstanding := b, queue_store := fmupd a
      (q\<lparr>q_state := fst (clear_pending it itf ((q_state q)\<lparr>queue_closed := True\<rparr>))\<rparr>) (queue_store s)\<rparr>"
    by (rule drain_queue_ok [OF inv q assms(2,3)])
  have "provider_inv cap mc mw (n, t, s1)"
    using d(2) drain_queue_reg [OF reg q d(1)] drain_config [OF cf q d(1)] by (simp add: provider_inv_def)
  from Cons.IH [OF saneI [OF this]] obtain s' where
    "drain_queues it itf s1 as = Some s'" "sane cap mc mw s'" "bus s' = bus s1"
    "\<forall>x q'. fmlookup (queue_store s') x = Some q' \<longrightarrow> queue_closed (q_state q') \<or>
      x \<notin> set as \<and> fmlookup (queue_store s1) x = Some q'"
    using Cons.prems(2) s1 by fastforce
  then show ?case using q d(1) s1 by (fastforce split: if_splits)
qed simp

lemma shutdown_finish_ok:
  assumes "sane cap mc mw s" and it: "iteration_order it" "iteration_order itf" "iteration_order itt"
  shows "\<exists>s'. shutdown_finish it itf itt s out = Some (s', out) \<and> sane cap mc mw s' \<and>
    bus_closed (bus s') = bus_closed (bus s) \<and> bus_shutdown_outcome (bus s') = Some out \<and>
    (\<forall>a q. fmlookup (queue_store s') a = Some q \<longrightarrow> queue_closed (q_state q) \<and> load_count (q_state q) = 0)"
proof -
  obtain bs qs where l: "live_queues itt (alive s) (bus s) = (bs, qs)" by fastforce
  note lo = live_queues_ok [OF sane_reg [OF assms(1)] it(3) l]
  have sn: "sane cap mc mw (s\<lparr>bus := bs\<rparr>)" by (rule sane_bus [OF assms(1) lo(1)])
  have "\<exists>q. fmlookup (queue_store (s\<lparr>bus := bs\<rparr>)) a = Some q" if "a \<in> set qs" for a
    using lo(5) that by simp
  from drain_queues_ok [OF sn it(1,2) this] obtain s1 where
    d: "drain_queues it itf (s\<lparr>bus := bs\<rparr>) qs = Some s1" "sane cap mc mw s1" "bus s1 = bs"
    and cl: "\<And>a q'. fmlookup (queue_store s1) a = Some q' \<Longrightarrow> queue_closed (q_state q')"
    using lo(4) by fastforce
  let ?s = "signal_changed (s1\<lparr>bus := (bus s1)\<lparr>bus_shutdown_outcome := Some out\<rparr>\<rparr>)"
  have sn': "sane cap mc mw ?s" using d(2) by (simp add: sane_def provider_inv_def)
  have "load_count (q_state q) = 0" if "fmlookup (queue_store ?s) a = Some q" for a q
  proof -
    have "fmlookup (queue_store s1) a = Some q" using that by (simp add: signal_changed_def)
    then show ?thesis using cl sane_queue [OF d(2)] by (metis queue_ok_def)
  qed
  then show ?thesis
    using l d sn' cl lo(2) by (auto simp: shutdown_finish_def signal_changed_def)
qed

text \<open>A wait during which nothing else happens.\<close>

definition quiet_env :: wait_env where
  "quiet_env = \<lparr>env1 = (\<lambda>_ s. s), env2 = (\<lambda>_ s. s), elapsed = (\<lambda>i. 4 * i), timed_out = (\<lambda>_. False)\<rparr>"

lemma quiet_env_ok: "others_ok cap mc mw (env1 quiet_env i)" "others_ok cap mc mw (env2 quiet_env i)"
  by (simp_all add: others_ok_def quiet_env_def)



text \<open>C12: Shutdown ends, and ends everything: if the clock passes the timeout in some turn of a graceful
  shutdown (an immediate one does not wait), the call returns; every subscription is then closed
  and empty and every reservation is given back. The outcome is recorded, so every later call of
  shutdown returns it at once, in any mode; no publication finds a destination and no subscription
  is accepted any more.\<close>

theorem shutdown_completes:
  assumes "provider_reach it itf itt cap mc mw (n, t, s)"
    and it: "iteration_order it" "iteration_order itf" "iteration_order itt"
    and env: "\<And>i. others_ok cap mc mw (env1 e i)" "\<And>i. others_ok cap mc mw (env2 e i)"
    and "\<And>timeout. mode = Graceful timeout \<Longrightarrow> \<exists>j < fuel. timeout < elapsed e j"
    and "bus_shutdown_outcome (bus s) = None"
  shows "\<exists>s' out. shutdown it itf itt e fuel s mode = Some (s', out) \<and>
    (\<forall>a q. fmlookup (queue_store s') a = Some q \<longrightarrow> queue_closed (q_state q) \<and> load_count (q_state q) = 0) \<and>
    count_in_use s' = 0 \<and> weight_used (budget_state (outstanding s')) = 0 \<and>
    (\<forall>e' fuel' mode'. shutdown it itf itt e' fuel' s' mode' = Some (s', out)) \<and>
    (\<forall>m ty. snd (publish_select s' m ty) = Inl (pre_admission_publish_error (Some (out_topic m)) ''provider_closed'')) \<and>
    (\<forall>r. snd (subscribe itt s' r) = Inl (operation_error ''subscribe'' (Some (req_topic r)) ''provider_closed''))"
proof -
  let ?s1 = "shutdown_begin s"
  have "provider_inv cap mc mw (n, t, s)" by (rule provider_reach_inv [OF assms(1)])
  then have s1: "sane cap mc mw ?s1" "bus_closed (bus ?s1)"
    by (auto simp: sane_def provider_inv_def shutdown_begin_def signal_changed_def)
  have "\<exists>s2 out. sane cap mc mw s2 \<and> bus_closed (bus s2) \<and>
      shutdown it itf itt e fuel s mode = shutdown_finish it itf itt s2 out"
  proof (cases mode)
    case (Graceful timeout)
    then obtain j where "j < fuel" "timeout < elapsed e j" using assms(7) by blast
    then obtain s2 out where g: "graceful_loop itt e timeout fuel 0 ?s1 = Some (s2, out)"
      using graceful_loop_Some [of 0 j fuel timeout e itt ?s1] by auto
    then show ?thesis
      using graceful_loop_ok [OF s1(1) it(3) env g] s1(2) Graceful assms(8) by (auto simp: shutdown_def Let_def)
  next
    case Immediate
    then show ?thesis using s1 assms(8) by (auto simp: shutdown_def Let_def)
  qed
  then obtain s2 out where s2: "sane cap mc mw s2" "bus_closed (bus s2)"
    and eq: "shutdown it itf itt e fuel s mode = shutdown_finish it itf itt s2 out" by blast
  from shutdown_finish_ok [OF s2(1) it, of out] obtain s' where
    s': "shutdown_finish it itf itt s2 out = Some (s', out)" "sane cap mc mw s'" "bus_closed (bus s')"
      "bus_shutdown_outcome (bus s') = Some out"
    and q: "\<And>a q. fmlookup (queue_store s') a = Some q \<Longrightarrow> queue_closed (q_state q) \<and> load_count (q_state q) = 0"
    using s2(2) by auto
  show ?thesis
    using eq s' q nothing_held [OF s'(2)]
    by (intro exI [of _ s'] exI [of _ out]) (simp add: shutdown_def publish_select_def subscribe_def Let_def)
qed

theorem shutdown_completes_witness:
  "\<exists>s' out. shutdown key_order key_order key_order quiet_env 3 sample_state (Graceful 5) = Some (s', out) \<and>
    count_in_use s' = 0 \<and> shutdown key_order key_order key_order quiet_env 0 s' Immediate = Some (s', out)"
proof -
  have n: "bus_shutdown_outcome (bus sample_state) = None" by code_simp
  have j: "\<exists>j < 3. timeout < elapsed quiet_env j" if "Graceful 5 = Graceful timeout" for timeout
    using that by (intro exI [of _ 2]) (simp add: quiet_env_def)
  show ?thesis
    using shutdown_completes [OF sample_reach key_order_ok key_order_ok key_order_ok quiet_env_ok j n] by blast
qed

text \<open>Waiting for a topic to become idle ends by its timeout, and answers truthfully: if the clock
  passes the timeout in some turn, the wait returns, and when the answer is yes, no open subscription
  of the topic holds a queued or in-flight event in the state the wait observed.\<close>

theorem topic_idle_truthful:
  assumes "provider_reach it itf itt cap mc mw (n, t, s)"
    and "\<And>i. others_ok cap mc mw (env1 e i)" and "\<And>i. others_ok cap mc mw (env2 e i)"
    and "limit < elapsed e j"
  shows "\<exists>s' r. topic_idle_loop e topic (Some limit) (Suc j) 0 s = Some (s', r) \<and>
    (r \<longrightarrow> (\<forall>a q. fmlookup (queue_store s') a = Some q \<and> \<not> queue_closed (q_state q) \<and> q_topic q = topic \<longrightarrow>
      load_count (q_state q) = 0))"
proof -
  have loop: "\<exists>s' r. topic_idle_loop e topic (Some limit) fuel i s = Some (s', r) \<and>
      (r \<longrightarrow> (\<forall>a q. fmlookup (queue_store s') a = Some q \<and> \<not> queue_closed (q_state q) \<and> q_topic q = topic \<longrightarrow>
        load_count (q_state q) = 0))"
    if "sane cap mc mw s" "i \<le> j" "j < i + fuel" for fuel i
    using that
  proof (induction fuel arbitrary: i s)
    case (Suc fuel)
    obtain s1 v busy where poll: "topic_idle_poll s topic = (s1, v, busy)" by (metis prod_cases3)
    note p = topic_poll_ok [OF Suc.prems(1) poll]
    have env: "sane cap mc mw (env1 e i s1)" "sane cap mc mw (env2 e i (env1 e i s1))"
      using assms(2,3) p(1) unfolding others_ok_def by blast+
    show ?case
    proof (cases "\<not> busy \<or> i = j")
      case True
      then show ?thesis using poll p(2) assms(4) by auto
    next
      case False
      then show ?thesis
        using poll Suc.IH [OF env(1), of "Suc i"] Suc.IH [OF env(2), of "Suc i"] Suc.prems(2,3)
        by (auto simp: Let_def)
    qed
  qed simp
  have "sane cap mc mw s" by (rule saneI [OF provider_reach_inv [OF assms(1)]])
  then show ?thesis by (rule loop) simp_all
qed

theorem topic_idle_truthful_witness:
  "\<exists>s' r. topic_idle_loop quiet_env ''orders'' (Some 5) 3 0 sample_state = Some (s', r)"
  using topic_idle_truthful [OF sample_reach quiet_env_ok, of 5 2 "''orders''"]
  by (auto simp: quiet_env_def numeral_3_eq_3)

end
