(* ===== verification/Scheduler.thy ===== *)
theory Scheduler
  imports Spi_Model
begin

text \<open>
  The delivery scheduler of the facade: \<open>src/src/facade/internal/delivery_scheduler_core.rs\<close>,
  \<open>delivery_scheduler_state.rs\<close>, \<open>subscription_schedule_state.rs\<close>, \<open>owned_delivery_phase.rs\<close>,
  \<open>owned_delivery_record.rs\<close>, \<open>delivery_snapshot_input.rs\<close>, and the configuration
  \<open>src/src/facade/delivery_scheduling_config.rs\<close>.

  The scheduler holds metadata only. A \<^emph>\<open>lease\<close> is one unit of delivery capacity; it is reserved for a
  receive, claimed by the adapter that receives, queued in a lane of its subscription, granted to run
  a handler or to settle, and completed. Every method of the core takes one mutex for its whole body,
  so each is one function from states to states here. The arithmetic on \<open>usize\<close> counters panics on
  overflow where overflow checks are enabled; such a panic is the value \<^const>\<open>None\<close>. The \<open>expect\<close> of
  \<open>wake_retry\<close> looks up a lease that the same call has just found.
\<close>

section \<open>Configuration and errors\<close>

datatype configuration_error =
    InvalidSubscriberId string
  | InvalidEventId string
  | MissingField string
  | InvalidField string string

record scheduling_config =
  max_running_handlers :: usize
  max_owned_deliveries :: usize
  max_owned_per_subscription :: usize
  max_subscriptions :: usize

text \<open>The arguments are \<open>NonZeroUsize\<close> values.\<close>

definition scheduling_config_new ::
  "usize \<Rightarrow> usize \<Rightarrow> usize \<Rightarrow> usize \<Rightarrow> configuration_error + scheduling_config" where
  "scheduling_config_new running owned per_sub subs =
     (if owned < running
      then Inl (InvalidField ''max_running_handlers'' ''must not exceed max_owned_deliveries'')
      else if owned < per_sub
      then Inl (InvalidField ''max_owned_per_subscription'' ''must not exceed max_owned_deliveries'')
      else Inr \<lparr>max_running_handlers = running, max_owned_deliveries = owned,
        max_owned_per_subscription = per_sub, max_subscriptions = subs\<rparr>)"

definition scheduling_config_default :: scheduling_config where
  "scheduling_config_default = \<lparr>max_running_handlers = 4, max_owned_deliveries = 256,
     max_owned_per_subscription = 32, max_subscriptions = 256\<rparr>"

section \<open>State\<close>

record ordering_lane_key =
  lane_topic :: string
  lane_ordering_key :: "string option"
  lane_subscription_id :: id

datatype owned_delivery_phase =
  ReservedReceive | Queued | QueuedSettlement | Running | WaitingRetry | Settling

record owned_delivery_record =
  rec_subscription_id :: id
  rec_phase :: owned_delivery_phase
  rec_created_at :: "instant option"
  rec_lane :: "ordering_lane_key option"

type_synonym lease = u64
type_synonym lane_queue = "ordering_lane_key option \<times> lease list"
type_synonym owned_map = "(lease, owned_delivery_record) fmap"

record subscription_schedule_state =
  sub_owned :: usize
  dispatch_active :: bool
  stopped :: bool
  receive_waiting :: bool
  receive_reservation :: "lease option"
  receive_taken :: bool
  sub_lanes :: "lane_queue list"
  locked_lanes :: "ordering_lane_key fset"

definition subscription_schedule_state_default :: subscription_schedule_state where
  "subscription_schedule_state_default = \<lparr>sub_owned = 0, dispatch_active = False, stopped = False,
     receive_waiting = False, receive_reservation = None, receive_taken = False, sub_lanes = [],
     locked_lanes = {||}\<rparr>"

record delivery_scheduler_state =
  config :: scheduling_config
  owned :: owned_map
  running :: usize
  subscriptions :: "(id, subscription_schedule_state) fmap"
  ready :: "id list"
  receive_waiters :: "id list"
  notifications :: "id fset"
  next_lease :: "lease option"

definition scheduler_new :: "scheduling_config \<Rightarrow> delivery_scheduler_state" where
  "scheduler_new cfg = \<lparr>config = cfg, owned = fmempty, running = 0, subscriptions = fmempty,
     ready = [], receive_waiters = [], notifications = {||}, next_lease = Some 1\<rparr>"

section \<open>One subscription\<close>

text \<open>Whether the head of a lane can be granted.\<close>

definition lane_grantable ::
  "owned_map \<Rightarrow> bool \<Rightarrow> ordering_lane_key fset \<Rightarrow> lane_queue \<Rightarrow> bool" where
  "lane_grantable own handler_available locked lq =
     ((case fst lq of None \<Rightarrow> True | Some key \<Rightarrow> key |\<notin>| locked) \<and>
      (case snd lq of
         [] \<Rightarrow> False
       | l # _ \<Rightarrow> (case fmlookup own l of
           None \<Rightarrow> False
         | Some r \<Rightarrow> rec_phase r = QueuedSettlement \<or> handler_available \<and> rec_phase r = Queued)))"

definition eligible_lane ::
  "subscription_schedule_state \<Rightarrow> owned_map \<Rightarrow> bool \<Rightarrow> nat option" where
  "eligible_lane sub own handler_available =
     (if stopped sub \<or> \<not> dispatch_active sub then None
      else find_position (lane_grantable own handler_available (locked_lanes sub)) (sub_lanes sub))"

text \<open>\<open>iter_mut().find\<close> of a lane and a change to its queue: the first lane with the key.\<close>

fun update_lane ::
  "ordering_lane_key option \<Rightarrow> (lease list \<Rightarrow> lease list) \<Rightarrow> lane_queue list \<Rightarrow> lane_queue list" where
  "update_lane k f [] = []"
| "update_lane k f ((k', q) # ls) = (if k' = k then (k', f q) # ls else (k', q) # update_lane k f ls)"

text \<open>Joining the lane of a key, at the place that \<open>f\<close> puts the lease, or opening a new lane.\<close>

definition join_lane ::
  "(lease list \<Rightarrow> lease list) \<Rightarrow> lease \<Rightarrow> ordering_lane_key option \<Rightarrow> lane_queue list \<Rightarrow> lane_queue list" where
  "join_lane f l k ls =
     (if k \<noteq> None \<and> k \<in> fst ` set ls then update_lane k f ls else ls @ [(k, [l])])"

definition sub_enqueue ::
  "subscription_schedule_state \<Rightarrow> lease \<Rightarrow> ordering_lane_key option \<Rightarrow> subscription_schedule_state" where
  "sub_enqueue sub l k = sub\<lparr>sub_lanes := join_lane (\<lambda>q. q @ [l]) l k (sub_lanes sub)\<rparr>"

definition sub_take_ready ::
  "subscription_schedule_state \<Rightarrow> nat \<Rightarrow> subscription_schedule_state \<times> lease option" where
  "sub_take_ready sub i =
     (if i < length (sub_lanes sub)
      then (let (k, q) = sub_lanes sub ! i;
                rest = take i (sub_lanes sub) @ drop (Suc i) (sub_lanes sub)
            in case q of
                 [] \<Rightarrow> (sub\<lparr>sub_lanes := rest\<rparr>, None)
               | l # q' \<Rightarrow>
                   (sub\<lparr>locked_lanes := (case k of None \<Rightarrow> locked_lanes sub | Some key \<Rightarrow> finsert key (locked_lanes sub)),
                        sub_lanes := (if q' = [] then rest else rest @ [(k, q')])\<rparr>, Some l))
      else (sub, None))"

definition remove_queued :: "subscription_schedule_state \<Rightarrow> lease \<Rightarrow> subscription_schedule_state" where
  "remove_queued sub l = sub\<lparr>sub_lanes :=
     filter (\<lambda>lq. snd lq \<noteq> []) (map (\<lambda>(k, q). (k, filter (\<lambda>c. c \<noteq> l) q)) (sub_lanes sub))\<rparr>"

section \<open>The scheduler state\<close>

text \<open>\<open>iter().find_map\<close> over the ready subscriptions.\<close>

fun find_ready ::
  "delivery_scheduler_state \<Rightarrow> bool \<Rightarrow> id list \<Rightarrow> (id \<times> nat) option" where
  "find_ready s handler_available [] = None"
| "find_ready s handler_available (i # is) =
     (case Option.bind (fmlookup (subscriptions s) i) (\<lambda>sub. eligible_lane sub (owned s) handler_available) of
        Some index \<Rightarrow> Some (i, index)
      | None \<Rightarrow> find_ready s handler_available is)"

definition selected_ready :: "delivery_scheduler_state \<Rightarrow> (id \<times> nat) option" where
  "selected_ready s = find_ready s (running s < max_running_handlers (config s)) (ready s)"

definition refresh_ready :: "delivery_scheduler_state \<Rightarrow> id \<Rightarrow> delivery_scheduler_state" where
  "refresh_ready s i =
     (let eligible = (case fmlookup (subscriptions s) i of
            None \<Rightarrow> False | Some sub \<Rightarrow> eligible_lane sub (owned s) True \<noteq> None)
      in if eligible
         then if i \<in> set (ready s) then s else s\<lparr>ready := ready s @ [i]\<rparr>
         else s\<lparr>ready := filter (\<lambda>c. c \<noteq> i) (ready s)\<rparr>)"

definition notify_ready :: "delivery_scheduler_state \<Rightarrow> delivery_scheduler_state" where
  "notify_ready s = (case selected_ready s of
       None \<Rightarrow> s
     | Some (i, _) \<Rightarrow> s\<lparr>notifications := finsert i (notifications s)\<rparr>)"

text \<open>The loop of \<open>grant_receives\<close>: \<open>n\<close> turns are left.\<close>

fun grant_loop :: "nat \<Rightarrow> delivery_scheduler_state \<Rightarrow> delivery_scheduler_state option" where
  "grant_loop 0 s = Some s"
| "grant_loop (Suc n) s =
     (if max_owned_deliveries (config s) \<le> of_nat (fmlen (owned s)) then Some s
      else case receive_waiters s of
          [] \<Rightarrow> Some s
        | i # rest \<Rightarrow>
            let s1 = s\<lparr>receive_waiters := rest\<rparr> in
            (case fmlookup (subscriptions s) i of
               None \<Rightarrow> grant_loop n s1
             | Some sub \<Rightarrow>
                 if stopped sub \<or> \<not> receive_waiting sub then grant_loop n s1
                 else if max_owned_per_subscription (config s) \<le> sub_owned sub
                 then grant_loop n (s1\<lparr>receive_waiters := rest @ [i]\<rparr>)
                 else (case next_lease s of
                     None \<Rightarrow> Some (s\<lparr>notifications := notifications s |\<union>| fset_of_list (i # rest)\<rparr>)
                   | Some l \<Rightarrow> (case checked_add (sub_owned sub) 1 of
                       None \<Rightarrow> None
                     | Some c \<Rightarrow> grant_loop n (s1\<lparr>next_lease := checked_add l 1,
                         subscriptions := fmupd i (sub\<lparr>receive_waiting := False, receive_reservation := Some l,
                           receive_taken := False, sub_owned := c\<rparr>) (subscriptions s),
                         owned := fmupd l \<lparr>rec_subscription_id = i, rec_phase = ReservedReceive,
                           rec_created_at = None, rec_lane = None\<rparr> (owned s),
                         notifications := finsert i (notifications s)\<rparr>)))))"

definition grant_receives :: "delivery_scheduler_state \<Rightarrow> delivery_scheduler_state option" where
  "grant_receives s = grant_loop (length (receive_waiters s)) s"

definition queued_phase :: "owned_delivery_phase \<Rightarrow> bool" where
  "queued_phase p \<longleftrightarrow> p = Queued \<or> p = QueuedSettlement"

definition holding_phase :: "owned_delivery_phase \<Rightarrow> bool" where
  "holding_phase p \<longleftrightarrow> p = Running \<or> p = Settling \<or> p = WaitingRetry"

definition release :: "delivery_scheduler_state \<Rightarrow> lease \<Rightarrow> delivery_scheduler_state option" where
  "release s l = (case fmlookup (owned s) l of
       None \<Rightarrow> Some s
     | Some r \<Rightarrow>
         let i = rec_subscription_id r; s1 = s\<lparr>owned := fmdrop l (owned s)\<rparr> in
         (case fmlookup (subscriptions s) i of
            None \<Rightarrow> Some s1
          | Some sub \<Rightarrow> (case checked_sub (sub_owned sub) 1 of
              None \<Rightarrow> None
            | Some c \<Rightarrow>
                let sub1 = sub\<lparr>sub_owned := c\<rparr>;
                    sub2 = (if receive_reservation sub1 = Some l
                            then sub1\<lparr>receive_reservation := None, receive_taken := False\<rparr> else sub1);
                    sub3 = (if queued_phase (rec_phase r) then remove_queued sub2 l else sub2);
                    sub4 = (case rec_lane r of
                        None \<Rightarrow> sub3
                      | Some key \<Rightarrow> if holding_phase (rec_phase r)
                          then sub3\<lparr>locked_lanes := locked_lanes sub3 |-| {|key|}\<rparr> else sub3);
                    finish = (\<lambda>n. refresh_ready (s1\<lparr>subscriptions := fmupd i sub4 (subscriptions s),
                      running := n, notifications := finsert i (notifications s)\<rparr>) i)
                in if rec_phase r = Running then map_option finish (checked_sub (running s) 1)
                   else Some (finish (running s)))))"

section \<open>Operations of the core\<close>

definition lease_ids_exhausted :: "delivery_scheduler_state \<Rightarrow> bool" where
  "lease_ids_exhausted s \<longleftrightarrow> next_lease s = None"

definition register :: "delivery_scheduler_state \<Rightarrow> id \<Rightarrow> delivery_scheduler_state \<times> bool" where
  "register s i =
     (if fmlookup (subscriptions s) i \<noteq> None \<or> max_subscriptions (config s) \<le> of_nat (fmlen (subscriptions s))
      then (s, False)
      else (s\<lparr>subscriptions := fmupd i subscription_schedule_state_default (subscriptions s)\<rparr>, True))"

definition set_dispatch_active :: "delivery_scheduler_state \<Rightarrow> id \<Rightarrow> bool \<Rightarrow> delivery_scheduler_state" where
  "set_dispatch_active s i active =
     notify_ready (refresh_ready (case fmlookup (subscriptions s) i of
         None \<Rightarrow> s
       | Some sub \<Rightarrow> s\<lparr>subscriptions := fmupd i (sub\<lparr>dispatch_active := active \<and> \<not> stopped sub\<rparr>) (subscriptions s)\<rparr>) i)"

definition request_receive :: "delivery_scheduler_state \<Rightarrow> id \<Rightarrow> delivery_scheduler_state option" where
  "request_receive s i = (case fmlookup (subscriptions s) i of
       None \<Rightarrow> Some s
     | Some sub \<Rightarrow>
         if stopped sub \<or> receive_waiting sub \<or> receive_reservation sub \<noteq> None then Some s
         else grant_receives (s\<lparr>subscriptions := fmupd i (sub\<lparr>receive_waiting := True\<rparr>) (subscriptions s),
           receive_waiters := receive_waiters s @ [i]\<rparr>))"

text \<open>The reservation that nobody has claimed yet, which a cancellation or a stop gives back.\<close>

definition unclaimed :: "subscription_schedule_state \<Rightarrow> lease option" where
  "unclaimed sub = (if receive_taken sub then None else receive_reservation sub)"

definition release_unclaimed ::
  "delivery_scheduler_state \<Rightarrow> lease option \<Rightarrow> delivery_scheduler_state option" where
  "release_unclaimed s u = (case u of None \<Rightarrow> Some s | Some l \<Rightarrow> release s l)"

definition cancel_receive :: "delivery_scheduler_state \<Rightarrow> id \<Rightarrow> delivery_scheduler_state option" where
  "cancel_receive s i = (case fmlookup (subscriptions s) i of
       None \<Rightarrow> Some s
     | Some sub \<Rightarrow>
         let s1 = s\<lparr>subscriptions := fmupd i (sub\<lparr>receive_waiting := False\<rparr>) (subscriptions s),
                    receive_waiters := filter (\<lambda>c. c \<noteq> i) (receive_waiters s)\<rparr>
         in map_option notify_ready (Option.bind (release_unclaimed s1 (unclaimed sub)) grant_receives))"

definition take_receive_reservation ::
  "delivery_scheduler_state \<Rightarrow> id \<Rightarrow> delivery_scheduler_state \<times> lease option" where
  "take_receive_reservation s i = (case fmlookup (subscriptions s) i of
       None \<Rightarrow> (s, None)
     | Some sub \<Rightarrow>
         if stopped sub \<or> receive_taken sub then (s, None)
         else (case receive_reservation sub of
             None \<Rightarrow> (s, None)
           | Some l \<Rightarrow>
               (s\<lparr>subscriptions := fmupd i (sub\<lparr>receive_taken := True\<rparr>) (subscriptions s)\<rparr>, Some l)))"

definition enqueue_phase ::
  "delivery_scheduler_state \<Rightarrow> lease \<Rightarrow> ordering_lane_key option \<Rightarrow> owned_delivery_phase \<Rightarrow>
   delivery_scheduler_state" where
  "enqueue_phase s l lane phase = (case fmlookup (owned s) l of
       None \<Rightarrow> s
     | Some r \<Rightarrow>
         if rec_phase r \<noteq> ReservedReceive then s
         else let i = rec_subscription_id r in
           (case fmlookup (subscriptions s) i of
              None \<Rightarrow> s
            | Some sub \<Rightarrow>
                if stopped sub \<or> \<not> receive_taken sub then s
                else let sub1 = sub_enqueue (sub\<lparr>receive_reservation := None, receive_taken := False\<rparr>) l lane
                     in notify_ready (refresh_ready (s\<lparr>subscriptions := fmupd i sub1 (subscriptions s),
                          owned := fmupd l (r\<lparr>rec_phase := phase, rec_lane := lane\<rparr>) (owned s)\<rparr>) i)))"

definition enqueue ::
  "delivery_scheduler_state \<Rightarrow> lease \<Rightarrow> ordering_lane_key option \<Rightarrow> delivery_scheduler_state" where
  "enqueue s l lane = enqueue_phase s l lane Queued"

definition enqueue_settlement ::
  "delivery_scheduler_state \<Rightarrow> lease \<Rightarrow> ordering_lane_key option \<Rightarrow> delivery_scheduler_state" where
  "enqueue_settlement s l lane = enqueue_phase s l lane QueuedSettlement"

text \<open>\<open>take_grant\<close>; the \<open>?\<close> of the source returns with the state reached so far. The outer
  \<^const>\<open>None\<close> is the overflow of \<open>running\<close>.\<close>

definition take_grant ::
  "delivery_scheduler_state \<Rightarrow> id \<Rightarrow> owned_delivery_phase \<Rightarrow> (delivery_scheduler_state \<times> lease option) option" where
  "take_grant s i expected = (case selected_ready s of
       None \<Rightarrow> Some (s, None)
     | Some (selected, index) \<Rightarrow>
         if selected \<noteq> i then Some (notify_ready s, None)
         else (case fmlookup (subscriptions s) selected of
             None \<Rightarrow> Some (s, None)
           | Some sub \<Rightarrow>
               if \<not> index < length (sub_lanes sub) then Some (s, None)
               else (case snd (sub_lanes sub ! index) of
                   [] \<Rightarrow> Some (s, None)
                 | candidate # _ \<Rightarrow> (case fmlookup (owned s) candidate of
                     None \<Rightarrow> Some (s, None)
                   | Some r \<Rightarrow>
                       if rec_phase r \<noteq> expected then Some (notify_ready s, None)
                       else (case sub_take_ready sub index of
                           (sub1, None) \<Rightarrow> Some (s\<lparr>subscriptions := fmupd selected sub1 (subscriptions s)\<rparr>, None)
                         | (sub1, Some l) \<Rightarrow>
                             let s1 = s\<lparr>subscriptions := fmupd selected sub1 (subscriptions s),
                                        ready := filter (\<lambda>c. c \<noteq> selected) (ready s)\<rparr>;
                                 finish = (\<lambda>phase n. (notify_ready (refresh_ready (s1\<lparr>running := n,
                                   owned := fmupd l (r\<lparr>rec_phase := phase\<rparr>) (owned s)\<rparr>) selected), Some l))
                             in if expected = Queued
                                then map_option (finish Running) (checked_add (running s) 1)
                                else Some (finish Settling (running s)))))))"

definition take_ready :: "delivery_scheduler_state \<Rightarrow> id \<Rightarrow> (delivery_scheduler_state \<times> lease option) option" where
  "take_ready s i = take_grant s i Queued"

definition take_settlement_ready ::
  "delivery_scheduler_state \<Rightarrow> id \<Rightarrow> (delivery_scheduler_state \<times> lease option) option" where
  "take_settlement_ready s i = take_grant s i QueuedSettlement"

text \<open>Leaving the running phase, which \<open>handler_finished\<close> and \<open>defer_unstarted_retry\<close> share.\<close>

definition leave_running ::
  "delivery_scheduler_state \<Rightarrow> lease \<Rightarrow> owned_delivery_phase \<Rightarrow> delivery_scheduler_state option" where
  "leave_running s l phase = (case fmlookup (owned s) l of
       None \<Rightarrow> Some s
     | Some r \<Rightarrow>
         if rec_phase r \<noteq> Running then Some s
         else map_option (\<lambda>n. notify_ready (s\<lparr>owned := fmupd l (r\<lparr>rec_phase := phase\<rparr>) (owned s), running := n\<rparr>))
           (checked_sub (running s) 1))"

definition handler_finished :: "delivery_scheduler_state \<Rightarrow> lease \<Rightarrow> delivery_scheduler_state option" where
  "handler_finished s l = leave_running s l Settling"

definition defer_unstarted_retry :: "delivery_scheduler_state \<Rightarrow> lease \<Rightarrow> delivery_scheduler_state option" where
  "defer_unstarted_retry s l = leave_running s l WaitingRetry"

definition finish_attempt_waiting :: "delivery_scheduler_state \<Rightarrow> lease \<Rightarrow> delivery_scheduler_state" where
  "finish_attempt_waiting s l = (case fmlookup (owned s) l of
       None \<Rightarrow> s
     | Some r \<Rightarrow> if rec_phase r = Settling
         then s\<lparr>owned := fmupd l (r\<lparr>rec_phase := WaitingRetry\<rparr>) (owned s)\<rparr> else s)"

definition wake_retry :: "delivery_scheduler_state \<Rightarrow> lease \<Rightarrow> delivery_scheduler_state" where
  "wake_retry s l = (case fmlookup (owned s) l of
       None \<Rightarrow> s
     | Some r \<Rightarrow>
         if rec_phase r \<noteq> WaitingRetry then s
         else let i = rec_subscription_id r; lane = rec_lane r in
           (case fmlookup (subscriptions s) i of
              None \<Rightarrow> s
            | Some sub \<Rightarrow>
                if stopped sub then s
                else let sub1 = (case lane of None \<Rightarrow> sub
                           | Some key \<Rightarrow> sub\<lparr>locked_lanes := locked_lanes sub |-| {|key|}\<rparr>);
                         sub2 = sub1\<lparr>sub_lanes := join_lane (\<lambda>q. l # q) l lane (sub_lanes sub1)\<rparr>
                     in notify_ready (refresh_ready (s\<lparr>subscriptions := fmupd i sub2 (subscriptions s),
                          owned := fmupd l (r\<lparr>rec_phase := Queued\<rparr>) (owned s)\<rparr>) i)))"

definition complete :: "delivery_scheduler_state \<Rightarrow> lease \<Rightarrow> delivery_scheduler_state option" where
  "complete s l = map_option notify_ready (Option.bind (release s l) grant_receives)"

definition stop_subscription :: "delivery_scheduler_state \<Rightarrow> id \<Rightarrow> delivery_scheduler_state option" where
  "stop_subscription s i = (case fmlookup (subscriptions s) i of
       None \<Rightarrow> Some s
     | Some sub \<Rightarrow>
         let s1 = s\<lparr>subscriptions := fmupd i (sub\<lparr>stopped := True, dispatch_active := False,
                      receive_waiting := False\<rparr>) (subscriptions s),
                    receive_waiters := filter (\<lambda>c. c \<noteq> i) (receive_waiters s)\<rparr>
         in map_option notify_ready (Option.bind (release_unclaimed s1 (unclaimed sub))
              (\<lambda>s2. let s3 = refresh_ready s2 i
                    in grant_receives (s3\<lparr>notifications := finsert i (notifications s3)\<rparr>))))"

definition sched_unregister :: "delivery_scheduler_state \<Rightarrow> id \<Rightarrow> delivery_scheduler_state \<times> bool" where
  "sched_unregister s i = (case fmlookup (subscriptions s) i of
       None \<Rightarrow> (s, False)
     | Some sub \<Rightarrow>
         if sub_owned sub \<noteq> 0 then (s, False)
         else (notify_ready (s\<lparr>subscriptions := fmdrop i (subscriptions s),
                 ready := filter (\<lambda>c. c \<noteq> i) (ready s),
                 receive_waiters := filter (\<lambda>c. c \<noteq> i) (receive_waiters s),
                 notifications := notifications s |-| {|i|}\<rparr>), True))"

text \<open>The drained set of wake targets; its order is that of the hash set.\<close>

definition take_notifications :: "delivery_scheduler_state \<Rightarrow> delivery_scheduler_state \<times> id fset" where
  "take_notifications s = (s\<lparr>notifications := {||}\<rparr>, notifications s)"

definition record_owned_start :: "delivery_scheduler_state \<Rightarrow> lease \<Rightarrow> instant \<Rightarrow> delivery_scheduler_state" where
  "record_owned_start s l at = (case fmlookup (owned s) l of
       None \<Rightarrow> s
     | Some r \<Rightarrow>
         if rec_phase r \<noteq> ReservedReceive \<or> rec_created_at r \<noteq> None then s
         else if (case fmlookup (subscriptions s) (rec_subscription_id r) of
             None \<Rightarrow> False | Some sub \<Rightarrow> receive_taken sub)
         then s\<lparr>owned := fmupd l (r\<lparr>rec_created_at := Some at\<rparr>) (owned s)\<rparr>
         else s)"

end
