(* ===== verification/Local_Config.thy ===== *)
theory Local_Config
  imports Local_Bus_Inv Scheduler
begin

text \<open>
  The configuration of the in-memory provider: \<open>LocalEventBusConfig\<close> of \<open>src/src/local/local_event_bus_config.rs\<close>, its
  options in text form and back. The option map is a
  \<open>BTreeMap\<close>; its iteration order is a parameter, since nothing depends on it but which of several errors is reported. Parsing an unsigned number
  is \<open>str::parse\<close> of the standard library: an optional plus sign, then digits, with overflow as an error.
\<close>

section \<open>Parsing numbers\<close>

definition checked_mul :: "u64 \<Rightarrow> u64 \<Rightarrow> u64 option" where
  "checked_mul a b = (if unat a * unat b < 2 ^ 64 then Some (a * b) else None)"

definition to_digit :: "char \<Rightarrow> u64 option" where
  "to_digit c = (let n = of_char c :: nat in if 48 \<le> n \<and> n < 58 then Some (of_nat (n - 48)) else None)"

definition parse_digit :: "u64 option \<Rightarrow> char \<Rightarrow> u64 option" where
  "parse_digit acc c = Option.bind acc (\<lambda>v. Option.bind (checked_mul v 10) (\<lambda>m. Option.bind (to_digit c) (checked_add m)))"

definition parse_usize :: "string \<Rightarrow> usize option" where
  "parse_usize s =
     (if s = [] \<or> s = ''+'' \<or> s = ''-'' then None
      else foldl parse_digit (Some 0) (if hd s = CHR ''+'' then tl s else s))"

definition parse_nonzero :: "string \<Rightarrow> usize option" where
  "parse_nonzero s = (case parse_usize s of Some v \<Rightarrow> if v = 0 then None else Some v | None \<Rightarrow> None)"

section \<open>The configuration\<close>

record local_config =
  queue_capacity :: usize
  max_total_outstanding :: usize
  max_total_outstanding_weight_bytes :: "usize option"

definition local_config_new :: local_config where
  "local_config_new = \<lparr>queue_capacity = 1024, max_total_outstanding = 65536, max_total_outstanding_weight_bytes = None\<rparr>"

definition with_queue_capacity :: "usize \<Rightarrow> local_config \<Rightarrow> local_config" where
  "with_queue_capacity capacity c = c\<lparr>queue_capacity := capacity\<rparr>"

definition with_max_total_outstanding :: "usize \<Rightarrow> local_config \<Rightarrow> local_config" where
  "with_max_total_outstanding capacity c = c\<lparr>max_total_outstanding := capacity\<rparr>"

definition with_max_total_outstanding_weight_bytes :: "usize \<Rightarrow> local_config \<Rightarrow> local_config" where
  "with_max_total_outstanding_weight_bytes capacity c = c\<lparr>max_total_outstanding_weight_bytes := Some capacity\<rparr>"

abbreviation queue_capacity_option :: string where
  "queue_capacity_option \<equiv> ''local.queue_capacity''"

abbreviation max_total_outstanding_option :: string where
  "max_total_outstanding_option \<equiv> ''local.max_total_outstanding''"

abbreviation max_weight_option :: string where
  "max_weight_option \<equiv> ''local.max_total_outstanding_weight_bytes''"

definition validate :: "local_config \<Rightarrow> configuration_error + unit" where
  "validate c =
     (if queue_capacity c = 0 then Inl (InvalidField queue_capacity_option ''must be greater than zero'')
      else if max_total_outstanding c = 0 then Inl (InvalidField max_total_outstanding_option ''must be greater than zero'')
      else Inr ())"

definition provider_options :: "local_config \<Rightarrow> (string, string) fmap" where
  "provider_options c =
     (let options = fmupd max_total_outstanding_option (decimal (unat (max_total_outstanding c)))
            (fmupd queue_capacity_option (decimal (unat (queue_capacity c))) fmempty)
      in case max_total_outstanding_weight_bytes c of
          None \<Rightarrow> options
        | Some weight \<Rightarrow> fmupd max_weight_option (decimal (unat weight)) options)"

definition apply_option :: "string \<Rightarrow> string \<Rightarrow> local_config \<Rightarrow> configuration_error + local_config" where
  "apply_option key text c =
     (if key = queue_capacity_option then (case parse_usize text of
          None \<Rightarrow> Inl (InvalidField queue_capacity_option ''must be a positive integer'')
        | Some v \<Rightarrow> Inr (c\<lparr>queue_capacity := v\<rparr>))
      else if key = max_total_outstanding_option then (case parse_usize text of
          None \<Rightarrow> Inl (InvalidField max_total_outstanding_option ''must be a positive integer'')
        | Some v \<Rightarrow> Inr (c\<lparr>max_total_outstanding := v\<rparr>))
      else if key = max_weight_option then (case parse_nonzero text of
          None \<Rightarrow> Inl (InvalidField max_weight_option ''must be a positive integer'')
        | Some v \<Rightarrow> Inr (c\<lparr>max_total_outstanding_weight_bytes := Some v\<rparr>))
      else Inl (InvalidField ''provider_options'' (''unknown local provider option `'' @ key @ ''`'')))"

fun apply_options :: "(string, string) fmap \<Rightarrow> string list \<Rightarrow> local_config \<Rightarrow> configuration_error + local_config" where
  "apply_options options [] c = Inr c"
| "apply_options options (key # keys) c = (case fmlookup options key of
       None \<Rightarrow> apply_options options keys c
     | Some text \<Rightarrow> (case apply_option key text c of
         Inl e \<Rightarrow> Inl e
       | Inr c' \<Rightarrow> apply_options options keys c'))"

definition from_provider_options ::
  "((string, string) fmap \<Rightarrow> string list) \<Rightarrow> (string, string) fmap \<Rightarrow> configuration_error + local_config" where
  "from_provider_options it options = (case apply_options options (it options) local_config_new of
       Inl e \<Rightarrow> Inl e
     | Inr c \<Rightarrow> (case validate c of Inl e \<Rightarrow> Inl e | Inr _ \<Rightarrow> Inr c))"

section \<open>Numbers round-trip\<close>

lemma parse_step:
  assumes "n < 2 ^ 64"
  shows "parse_digit (Some (of_nat (n div 10))) (digit (n mod 10)) = Some (of_nat n)"
proof -
  have d: "(of_char (digit (n mod 10)) :: nat) = 48 + n mod 10" by (simp add: digit_code)
  have u: "unat (of_nat (n div 10) :: u64) = n div 10" "unat (of_nat (n mod 10) :: u64) = n mod 10" "unat (of_nat n :: u64) = n"
    using assms by (simp_all add: unat_of_nat_small)
  have "10 * (n div 10) \<le> n" by simp
  then have m: "checked_mul (of_nat (n div 10)) 10 = Some (of_nat (n div 10 * 10))" using assms u(1) by (simp add: checked_mul_def)
  have "unat (of_nat (n div 10 * 10) :: u64) = n div 10 * 10" using assms by (intro unat_of_nat_small) simp
  then have "checked_add (of_nat (n div 10 * 10)) (of_nat (n mod 10)) = Some (of_nat n :: u64)"
    using u by (simp add: checked_add_Some_iff)
  then show ?thesis using m d by (simp add: parse_digit_def to_digit_def)
qed

lemma parse_digits_decimal: "n < 2 ^ 64 \<Longrightarrow> foldl parse_digit (Some 0) (decimal n) = Some (of_nat n)"
proof (induction n rule: decimal.induct)
  case (1 n)
  show ?case
  proof (cases "n < 10")
    case True
    then show ?thesis using parse_step [OF "1.prems"] by (subst decimal.simps) simp
  next
    case False
    moreover have "foldl parse_digit (Some 0) (decimal (n div 10)) = Some (of_nat (n div 10))" using 1 False by simp
    ultimately show ?thesis using parse_step [OF "1.prems"] by (subst decimal.simps) simp
  qed
qed

lemma decimal_chars: "c \<in> set (decimal n) \<Longrightarrow> 48 \<le> (of_char c :: nat)"
proof (induction n rule: decimal.induct)
  case (1 n)
  show ?case using 1 digit_code [of n] digit_code [of "n mod 10"] by (subst (asm) (2) decimal.simps) (auto split: if_splits)
qed

lemma decimal_nonempty: "decimal n \<noteq> []"
  by (subst decimal.simps) simp

lemma parse_decimal [simp]: "parse_usize (decimal (unat v)) = Some v"
proof -
  have sign: "x \<notin> set (decimal (unat v))" if "x = CHR ''+'' \<or> x = CHR ''-''" for x
    using decimal_chars [of x "unat v"] that by auto
  then have "decimal (unat v) \<noteq> ''+''" "decimal (unat v) \<noteq> ''-''" by (metis list.set_intros(1))+
  moreover have "hd (decimal (unat v)) \<noteq> CHR ''+''" using sign decimal_nonempty list.set_sel(1) by metis
  moreover have "unat v < 2 ^ 64" using unat_bound [of v] by simp
  ultimately show ?thesis using decimal_nonempty by (simp add: parse_usize_def parse_digits_decimal)
qed

section \<open>Configurations round-trip\<close>

text \<open>What the options in \<open>keys\<close> take over from \<open>source\<close>.\<close>

definition take_over :: "local_config \<Rightarrow> string set \<Rightarrow> local_config \<Rightarrow> local_config" where
  "take_over source keys c =
     \<lparr>queue_capacity = (if queue_capacity_option \<in> keys then queue_capacity source else queue_capacity c),
      max_total_outstanding = (if max_total_outstanding_option \<in> keys then max_total_outstanding source else max_total_outstanding c),
      max_total_outstanding_weight_bytes =
        (if max_weight_option \<in> keys then max_total_outstanding_weight_bytes source else max_total_outstanding_weight_bytes c)\<rparr>"

lemma options_lookup:
  "fmlookup (provider_options c) queue_capacity_option = Some (decimal (unat (queue_capacity c)))"
  "fmlookup (provider_options c) max_total_outstanding_option = Some (decimal (unat (max_total_outstanding c)))"
  "fmlookup (provider_options c) max_weight_option = map_option (\<lambda>v. decimal (unat v)) (max_total_outstanding_weight_bytes c)"
  by (simp_all add: provider_options_def Let_def split: option.split)

lemma options_dom:
  "fset (fmdom (provider_options c)) = {queue_capacity_option, max_total_outstanding_option} \<union>
     (if max_total_outstanding_weight_bytes c = None then {} else {max_weight_option})"
  by (auto simp: provider_options_def Let_def split: option.split)

lemma apply_options_take_over:
  assumes "max_total_outstanding_weight_bytes source \<noteq> Some 0" and "set keys \<subseteq> fset (fmdom (provider_options source))"
  shows "apply_options (provider_options source) keys c = Inr (take_over source (set keys) c)"
  using assms(2)
proof (induction keys arbitrary: c)
  case Nil
  show ?case by (simp add: take_over_def)
next
  case (Cons key keys)
  from Cons.prems consider "key = queue_capacity_option" | "key = max_total_outstanding_option"
    | weight where "key = max_weight_option" "max_total_outstanding_weight_bytes source = Some weight"
    by (auto simp: options_dom split: if_splits)
  then show ?case
  proof cases
    case 3
    then have "weight \<noteq> 0" using assms(1) by simp
    then show ?thesis using Cons 3 by (simp add: options_lookup apply_option_def parse_nonzero_def take_over_def)
  qed (use Cons in \<open>simp_all add: options_lookup apply_option_def take_over_def\<close>)
qed

lemma apply_options_known:
  assumes "apply_options options keys c = Inr c'" and "key \<in> set keys" and "fmlookup options key \<noteq> None"
  shows "key \<in> {queue_capacity_option, max_total_outstanding_option, max_weight_option}"
  using assms
proof (induction keys arbitrary: c)
  case (Cons k keys)
  then show ?case by (auto simp: apply_option_def split: option.splits sum.splits if_splits)
qed simp

text \<open>C28: A valid configuration of the in-memory provider survives its text form: parsing the options it writes gives it
  back, in whatever order the map is iterated. Conversely every configuration that parsing accepts is valid and comes
  from the three known options only.\<close>

theorem config_roundtrip:
  assumes "iteration_order it"
  shows "(validate c = Inr () \<and> max_total_outstanding_weight_bytes c \<noteq> Some 0 \<longrightarrow> from_provider_options it (provider_options c) = Inr c) \<and>
    (from_provider_options it options = Inr c' \<longrightarrow> validate c' = Inr () \<and>
       fset (fmdom options) \<subseteq> {queue_capacity_option, max_total_outstanding_option, max_weight_option})"
proof (intro conjI impI)
  assume c: "validate c = Inr () \<and> max_total_outstanding_weight_bytes c \<noteq> Some 0"
  have dom: "set (it (provider_options c)) = fset (fmdom (provider_options c))" by (rule iteration_order_set [OF assms])
  then have "apply_options (provider_options c) (it (provider_options c)) local_config_new = Inr (take_over c (fset (fmdom (provider_options c))) local_config_new)"
    using apply_options_take_over c by simp
  moreover have "take_over c (fset (fmdom (provider_options c))) local_config_new = c"
    by (simp add: options_dom take_over_def local_config_new_def)
  ultimately show "from_provider_options it (provider_options c) = Inr c" using c by (simp add: from_provider_options_def)
next
  assume p: "from_provider_options it options = Inr c'"
  then show "validate c' = Inr ()" by (auto simp: from_provider_options_def split: sum.splits)
  have run: "apply_options options (it options) local_config_new = Inr c'"
    using p by (auto simp: from_provider_options_def split: sum.splits)
  show "fset (fmdom options) \<subseteq> {queue_capacity_option, max_total_outstanding_option, max_weight_option}"
  proof
    fix key assume "key \<in> fset (fmdom options)"
    then show "key \<in> {queue_capacity_option, max_total_outstanding_option, max_weight_option}"
      using apply_options_known [OF run, of key] iteration_order_set [OF assms, of options] by (auto simp: fmlookup_dom_iff)
  qed
qed

theorem config_roundtrip_witness:
  "from_provider_options key_order (provider_options (with_max_total_outstanding_weight_bytes 4096 (with_queue_capacity 64 local_config_new)))
     = Inr \<lparr>queue_capacity = 64, max_total_outstanding = 65536, max_total_outstanding_weight_bytes = Some 4096\<rparr>"
proof -
  let ?c = "with_max_total_outstanding_weight_bytes 4096 (with_queue_capacity 64 local_config_new)"
  have c: "?c = \<lparr>queue_capacity = 64, max_total_outstanding = 65536, max_total_outstanding_weight_bytes = Some 4096\<rparr>"
    by (simp add: with_max_total_outstanding_weight_bytes_def with_queue_capacity_def local_config_new_def)
  then show ?thesis using config_roundtrip [OF key_order_ok, of ?c] by (simp add: validate_def)
qed

end
