(* ===== verification/Scheduler_Lanes.thy ===== *)
theory Scheduler_Lanes
  imports Scheduler
begin

text \<open>
  The lanes of one subscription. A \<open>view\<close> is the part of the lease table that belongs to the
  subscription. The lanes are well formed for a view when every queue is non-empty, no lease is queued
  twice, no key has two lanes, and the queued leases are exactly those whose record is in a queued
  phase, each in the lane that its record names. Joining a lane, taking a head and removing a lease
  keep this for the view they produce, and act on the queue of each key as a queue.
\<close>

type_synonym view = "lease \<Rightarrow> owned_delivery_record option"

definition queued_leases :: "lane_queue list \<Rightarrow> lease list" where
  "queued_leases ls = concat (map snd ls)"

definition queue_of :: "lane_queue list \<Rightarrow> ordering_lane_key option \<Rightarrow> lease list" where
  "queue_of ls k = concat (map snd (filter (\<lambda>lq. fst lq = k) ls))"

definition keys_distinct :: "lane_queue list \<Rightarrow> bool" where
  "keys_distinct ls \<longleftrightarrow> distinct (filter (\<lambda>k. k \<noteq> None) (map fst ls))"

definition lanes_ok :: "view \<Rightarrow> lane_queue list \<Rightarrow> bool" where
  "lanes_ok v ls \<longleftrightarrow> [] \<notin> snd ` set ls \<and> distinct (queued_leases ls) \<and> keys_distinct ls \<and>
     (\<forall>l k. l \<in> set (queue_of ls k) \<longrightarrow> (\<exists>r. v l = Some r \<and> queued_phase (rec_phase r) \<and> rec_lane r = k)) \<and>
     (\<forall>l r. v l = Some r \<and> queued_phase (rec_phase r) \<longrightarrow> l \<in> set (queued_leases ls))"

lemma queued_leases_simps [simp]:
  "queued_leases [] = []" "queued_leases (lq # ls) = snd lq @ queued_leases ls"
  "queued_leases (ls @ ls') = queued_leases ls @ queued_leases ls'"
  by (simp_all add: queued_leases_def)

lemma queue_of_simps [simp]:
  "queue_of [] k = []" "queue_of (lq # ls) k = (if fst lq = k then snd lq else []) @ queue_of ls k"
  "queue_of (ls @ ls') k = queue_of ls k @ queue_of ls' k"
  by (simp_all add: queue_of_def)

lemma keys_distinct_simps [simp]:
  "keys_distinct []"
  "keys_distinct (ls @ (k, q) # ls') \<longleftrightarrow> keys_distinct (ls @ ls') \<and> (k = None \<or> k \<notin> fst ` set (ls @ ls'))"
  by (auto simp: keys_distinct_def)

lemma queue_of_notin: "k \<notin> fst ` set ls \<Longrightarrow> queue_of ls k = []"
  by (induction ls) auto

lemma queue_of_subset: "l \<in> set (queue_of ls k) \<Longrightarrow> l \<in> set (queued_leases ls)"
  by (induction ls) (auto split: if_splits)

lemma queued_in_queue_of: "l \<in> set (queued_leases ls) \<Longrightarrow> \<exists>k. l \<in> set (queue_of ls k)"
  by (induction ls) auto

lemma update_lane_split:
  "k \<in> fst ` set ls \<Longrightarrow> \<exists>as q bs. ls = as @ (k, q) # bs \<and> k \<notin> fst ` set as \<and> update_lane k f ls = as @ (k, f q) # bs"
proof (induction ls)
  case (Cons lq ls)
  obtain k' q' where lq: "lq = (k', q')" by fastforce
  show ?case
  proof (cases "k' = k")
    case True
    then show ?thesis using lq by (intro exI [of _ "[]"] exI [of _ q'] exI [of _ ls]) simp
  next
    case False
    then obtain as q bs where "ls = as @ (k, q) # bs" "k \<notin> fst ` set as" "update_lane k f ls = as @ (k, f q) # bs"
      using Cons lq by auto
    then show ?thesis using lq False by (intro exI [of _ "lq # as"]) auto
  qed
qed simp

text \<open>A lane list and its replacement by a join, in one shape: the queue of the joined key becomes
  \<open>f\<close> of what it was.\<close>

lemma join_lane_split:
  assumes "keys_distinct ls"
  obtains as q bs where "ls = as @ (if q = None then [] else [(k, the q)]) @ bs"
    and "join_lane f l k ls = as @ (k, case q of None \<Rightarrow> [l] | Some q \<Rightarrow> f q) # bs"
    and "k \<noteq> None \<Longrightarrow> k \<notin> fst ` set (as @ bs)"
proof (cases "k \<noteq> None \<and> k \<in> fst ` set ls")
  case True
  then obtain as q bs where "ls = as @ (k, q) # bs" "update_lane k f ls = as @ (k, f q) # bs"
    using update_lane_split by blast
  then show thesis using that [of as "Some q" bs] True assms by (auto simp: join_lane_def)
next
  case False
  then show thesis using that [of ls None "[]"] by (auto simp: join_lane_def)
qed

lemma lanes_okI:
  assumes "[] \<notin> snd ` set ls" and "distinct (queued_leases ls)" and "keys_distinct ls"
    and "\<And>l k. l \<in> set (queue_of ls k) \<Longrightarrow> \<exists>r. v l = Some r \<and> queued_phase (rec_phase r) \<and> rec_lane r = k"
    and "\<And>l r. v l = Some r \<Longrightarrow> queued_phase (rec_phase r) \<Longrightarrow> l \<in> set (queued_leases ls)"
  shows "lanes_ok v ls"
  using assms unfolding lanes_ok_def by blast

lemma lanes_ok_queued:
  assumes "lanes_ok v ls"
  shows "l \<in> set (queue_of ls k) \<Longrightarrow> \<exists>r. v l = Some r \<and> queued_phase (rec_phase r) \<and> rec_lane r = k"
    and "l \<in> set (queued_leases ls) \<Longrightarrow> \<exists>r. v l = Some r \<and> queued_phase (rec_phase r)"
    and "v l = Some r \<Longrightarrow> queued_phase (rec_phase r) \<Longrightarrow> l \<in> set (queued_leases ls)"
proof -
  show q: "l \<in> set (queue_of ls k) \<Longrightarrow> \<exists>r. v l = Some r \<and> queued_phase (rec_phase r) \<and> rec_lane r = k" for k
    using assms unfolding lanes_ok_def by blast
  show "l \<in> set (queued_leases ls) \<Longrightarrow> \<exists>r. v l = Some r \<and> queued_phase (rec_phase r)"
    using q queued_in_queue_of by blast
  show "v l = Some r \<Longrightarrow> queued_phase (rec_phase r) \<Longrightarrow> l \<in> set (queued_leases ls)"
    using assms unfolding lanes_ok_def by blast
qed

lemma join_lane_ok:
  assumes ok: "lanes_ok v ls" and l: "\<And>r. v l = Some r \<Longrightarrow> \<not> queued_phase (rec_phase r)"
    and r: "queued_phase (rec_phase r')" "rec_lane r' = k"
    and f: "\<And>q. set (f q) = insert l (set q)" "\<And>q. distinct (f q) \<longleftrightarrow> l \<notin> set q \<and> distinct q"
  shows "lanes_ok (v(l \<mapsto> r')) (join_lane f l k ls)"
proof -
  have kd: "keys_distinct ls" using ok by (simp add: lanes_ok_def)
  have notin: "l \<notin> set (queued_leases ls)"
    using lanes_ok_queued(2) [OF ok] l by blast
  obtain as q bs where ls: "ls = as @ (if q = None then [] else [(k, the q)]) @ bs"
    and jl: "join_lane f l k ls = as @ (k, case q of None \<Rightarrow> [l] | Some q \<Rightarrow> f q) # bs"
    and k: "k \<noteq> None \<Longrightarrow> k \<notin> fst ` set (as @ bs)"
    using join_lane_split [OF kd, of k f l] by metis
  have ne: "f q \<noteq> []" for q using f(1) [of q] by auto
  have mem: "\<exists>r. (v(l \<mapsto> r')) x = Some r \<and> queued_phase (rec_phase r) \<and> rec_lane r = j"
    if "x \<in> set (queue_of ls j) \<or> x = l \<and> j = k" for x j
    using that lanes_ok_queued(1) [OF ok, of x j] r notin queue_of_subset [of x ls j] by auto
  have all: "x = l \<or> x \<in> set (queued_leases ls)" if "(v(l \<mapsto> r')) x = Some r" "queued_phase (rec_phase r)" for x r
    using that lanes_ok_queued(3) [OF ok] by (auto split: if_splits)
  have shape: "[] \<notin> snd ` set ls" "distinct (queued_leases ls)" using ok by (simp_all add: lanes_ok_def)
  let ?n = "as @ (k, case q of None \<Rightarrow> [l] | Some q \<Rightarrow> f q) # bs"
  have n1: "[] \<notin> snd ` set ?n" using shape(1) by (cases q) (auto simp: ls image_Un ne ne [symmetric])
  have n2: "distinct (queued_leases ?n)" using shape(2) notin by (cases q) (auto simp: ls f)
  have n3: "keys_distinct ?n" using kd k by (cases q) (auto simp: ls image_Un)
  have n4: "x \<in> set (queue_of ls j) \<or> x = l \<and> j = k" if "x \<in> set (queue_of ?n j)" for x j
    using that unfolding ls by (cases q) (auto simp: f(1) split: if_splits)
  have n5: "insert l (set (queued_leases ls)) \<subseteq> set (queued_leases ?n)"
    unfolding ls by (cases q) (auto simp: f(1))
  show ?thesis
    unfolding jl by (rule lanes_okI [OF n1 n2 n3 mem [OF n4]]) (use all n5 in blast)+
qed

lemma join_lane_queue:
  assumes "keys_distinct ls" and "k \<noteq> None"
  shows "queue_of (join_lane (\<lambda>q. q @ [l]) l k ls) j = (if j = k then queue_of ls k @ [l] else queue_of ls j)"
    and "queue_of (join_lane (\<lambda>q. l # q) l k ls) j = (if j = k then l # queue_of ls k else queue_of ls j)"
proof -
  have "queue_of (join_lane f l k ls) j =
      (if j = k then (case queue_of ls k of [] \<Rightarrow> (if k \<in> fst ` set ls then f [] else [l]) | q \<Rightarrow> f q) else queue_of ls j)" for f
  proof -
    obtain as q bs where ls: "ls = as @ (if q = None then [] else [(k, the q)]) @ bs"
      and jl: "join_lane f l k ls = as @ (k, case q of None \<Rightarrow> [l] | Some q \<Rightarrow> f q) # bs"
      and k: "k \<noteq> None \<Longrightarrow> k \<notin> fst ` set (as @ bs)"
      using join_lane_split [OF assms(1), of k f l] by metis
    have "queue_of as k = []" "queue_of bs k = []" using k assms(2) queue_of_notin by (metis Un_iff image_Un set_append)+
    then show ?thesis
      unfolding jl using k assms(2) by (cases q) (auto simp: ls split: list.split)
  qed
  note this [of "\<lambda>q. q @ [l]"] this [of "\<lambda>q. l # q"]
  then show "queue_of (join_lane (\<lambda>q. q @ [l]) l k ls) j = (if j = k then queue_of ls k @ [l] else queue_of ls j)"
    and "queue_of (join_lane (\<lambda>q. l # q) l k ls) j = (if j = k then l # queue_of ls k else queue_of ls j)"
    by (simp_all split: list.split)
qed

lemma join_lane_independent: "queue_of (join_lane f l None ls) (Some k) = queue_of ls (Some k)"
  by (simp add: join_lane_def)

text \<open>Taking the head of the lane at an index, whose remaining queue goes to the back.\<close>

lemma take_head_ok:
  assumes ok: "lanes_ok v (as @ (k, l # q) # bs)" and r: "v l = Some r" and p: "\<not> queued_phase p"
    and n: "n = (if q = [] then as @ bs else (as @ bs) @ [(k, q)])"
  shows "lanes_ok (v(l \<mapsto> r\<lparr>rec_phase := p\<rparr>)) n"
    and "j \<noteq> None \<Longrightarrow> queue_of (as @ (k, l # q) # bs) j = (if j = k then l # queue_of n j else queue_of n j)"
proof -
  let ?ls = "as @ (k, l # q) # bs"
  have shape: "[] \<notin> snd ` set ?ls" "distinct (queued_leases ?ls)" "keys_distinct ?ls"
    using ok unfolding lanes_ok_def by blast+
  have n1: "[] \<notin> snd ` set n" using shape(1) by (auto simp: n image_Un)
  have n2: "distinct (queued_leases n)" using shape(2) by (auto simp: n)
  have n3: "keys_distinct n" using shape(3) keys_distinct_simps(2) [of "as @ bs" k q "[]"] by (simp add: n)
  have mem: "x \<noteq> l \<and> x \<in> set (queue_of ?ls i)" if "x \<in> set (queue_of n i)" for x i
    using that shape(2) queue_of_subset [of x as i] queue_of_subset [of x bs i] by (auto simp: n split: if_splits)
  show "lanes_ok (v(l \<mapsto> r\<lparr>rec_phase := p\<rparr>)) n"
  proof (rule lanes_okI [OF n1 n2 n3])
    show "\<exists>r'. (v(l \<mapsto> r\<lparr>rec_phase := p\<rparr>)) x = Some r' \<and> queued_phase (rec_phase r') \<and> rec_lane r' = i"
      if "x \<in> set (queue_of n i)" for x i
      using mem [OF that] lanes_ok_queued(1) [OF ok, of x i] by auto
    show "x \<in> set (queued_leases n)"
      if "(v(l \<mapsto> r\<lparr>rec_phase := p\<rparr>)) x = Some r'" "queued_phase (rec_phase r')" for x r'
    proof -
      have "x \<noteq> l" using that p by auto
      then have "x \<in> set (queued_leases ?ls)" using that lanes_ok_queued(3) [OF ok, of x r'] by simp
      then show ?thesis using \<open>x \<noteq> l\<close> by (auto simp: n)
    qed
  qed
  show "queue_of ?ls j = (if j = k then l # queue_of n j else queue_of n j)" if "j \<noteq> None"
    using shape(3) that queue_of_notin [of j as] queue_of_notin [of j bs] by (auto simp: n image_Un)
qed

definition drop_lease :: "lease \<Rightarrow> lane_queue list \<Rightarrow> lane_queue list" where
  "drop_lease l ls = filter (\<lambda>lq. snd lq \<noteq> []) (map (\<lambda>(k, q). (k, filter (\<lambda>c. c \<noteq> l) q)) ls)"

lemma remove_queued_eq: "remove_queued sub l = sub\<lparr>sub_lanes := drop_lease l (sub_lanes sub)\<rparr>"
  by (simp add: remove_queued_def drop_lease_def)

lemma drop_lease_queues [simp]:
  "queued_leases (drop_lease l ls) = filter (\<lambda>c. c \<noteq> l) (queued_leases ls)"
  "queue_of (drop_lease l ls) k = filter (\<lambda>c. c \<noteq> l) (queue_of ls k)"
  by (induction ls; auto simp: drop_lease_def)+

lemma drop_lease_keys: "keys_distinct ls \<Longrightarrow> keys_distinct (drop_lease l ls)"
proof (induction ls)
  case (Cons lq ls)
  have sub: "fst ` set (drop_lease l ls) \<subseteq> fst ` set ls" by (force simp: drop_lease_def)
  obtain k q where lq: "lq = (k, q)" by fastforce
  have eq: "drop_lease l (lq # ls) = (if filter (\<lambda>c. c \<noteq> l) q = [] then [] else [(k, filter (\<lambda>c. c \<noteq> l) q)]) @ drop_lease l ls"
    by (simp add: drop_lease_def lq)
  have "keys_distinct ls" "k = None \<or> k \<notin> fst ` set ls"
    using Cons.prems keys_distinct_simps(2) [of "[]" k q ls] by (simp_all add: lq)
  then show ?case
    using Cons.IH sub keys_distinct_simps(2) [of "[]" k _ "drop_lease l ls"] by (auto simp: eq)
qed (simp add: drop_lease_def)

lemma drop_lease_ok:
  assumes ok: "lanes_ok v ls"
  shows "lanes_ok (v(l := None)) (drop_lease l ls)"
proof (rule lanes_okI)
  show "[] \<notin> snd ` set (drop_lease l ls)" by (auto simp: drop_lease_def)
  show "distinct (queued_leases (drop_lease l ls))" "keys_distinct (drop_lease l ls)"
    using ok drop_lease_keys by (simp_all add: lanes_ok_def)
  show "\<exists>r. (v(l := None)) x = Some r \<and> queued_phase (rec_phase r) \<and> rec_lane r = k"
    if "x \<in> set (queue_of (drop_lease l ls) k)" for x k
    using that lanes_ok_queued(1) [OF ok] by auto
  show "x \<in> set (queued_leases (drop_lease l ls))"
    if "(v(l := None)) x = Some r" "queued_phase (rec_phase r)" for x r
    using that lanes_ok_queued(3) [OF ok] by (auto split: if_splits)
qed

text \<open>Changing the record of a lease between phases that are not queued.\<close>

lemma lanes_ok_outside:
  assumes ok: "lanes_ok v ls" and "\<And>r. v l = Some r \<Longrightarrow> \<not> queued_phase (rec_phase r)"
    and "\<And>r. x = Some r \<Longrightarrow> \<not> queued_phase (rec_phase r)"
  shows "lanes_ok (v(l := x)) ls"
proof (rule lanes_okI)
  show "[] \<notin> snd ` set ls" "distinct (queued_leases ls)" "keys_distinct ls" using ok by (simp_all add: lanes_ok_def)
  show "\<exists>r. (v(l := x)) y = Some r \<and> queued_phase (rec_phase r) \<and> rec_lane r = k"
    if "y \<in> set (queue_of ls k)" for y k
    using lanes_ok_queued(1) [OF ok that] assms(2) by fastforce
  show "y \<in> set (queued_leases ls)" if "(v(l := x)) y = Some r" "queued_phase (rec_phase r)" for y r
    using that lanes_ok_queued(3) [OF ok] assms(3) by (auto split: if_splits)
qed

end
