(* ===== verification/Scheduler_Sub.thy ===== *)
theory Scheduler_Sub
  imports Scheduler_Lanes
begin

text \<open>
  The invariant of one subscription of the scheduler against its view of the lease table, and its
  preservation by each change that an operation makes to the subscription and to one of its leases:
  granting and claiming a receive, queueing, granting a lane head, the phases of a running delivery,
  the return to the queue for a retry, and release.
\<close>

section \<open>The invariant of a subscription\<close>

definition holds :: "view \<Rightarrow> lease \<Rightarrow> ordering_lane_key \<Rightarrow> bool" where
  "holds v l k \<longleftrightarrow> (\<exists>r. v l = Some r \<and> holding_phase (rec_phase r) \<and> rec_lane r = Some k)"

definition holders_ok :: "view \<Rightarrow> subscription_schedule_state \<Rightarrow> bool" where
  "holders_ok v sub \<longleftrightarrow> (\<forall>k. k |\<in>| locked_lanes sub \<longleftrightarrow> (\<exists>l. holds v l k)) \<and>
     (\<forall>l l' k. holds v l k \<and> holds v l' k \<longrightarrow> l = l')"

definition reserved :: "view \<Rightarrow> lease \<Rightarrow> bool" where
  "reserved v l \<longleftrightarrow> (\<exists>r. v l = Some r \<and> rec_phase r = ReservedReceive)"

definition receive_ok :: "view \<Rightarrow> subscription_schedule_state \<Rightarrow> bool" where
  "receive_ok v sub \<longleftrightarrow> (\<forall>l. receive_reservation sub = Some l \<longleftrightarrow> reserved v l) \<and>
     (receive_waiting sub \<longrightarrow> receive_reservation sub = None \<and> \<not> stopped sub) \<and>
     (receive_taken sub \<longrightarrow> receive_reservation sub \<noteq> None) \<and> (stopped sub \<longrightarrow> \<not> dispatch_active sub)"

definition sub_ok :: "scheduling_config \<Rightarrow> view \<Rightarrow> subscription_schedule_state \<Rightarrow> bool" where
  "sub_ok cfg v sub \<longleftrightarrow> lanes_ok v (sub_lanes sub) \<and> holders_ok v sub \<and> receive_ok v sub \<and> finite (dom v) \<and>
     unat (sub_owned sub) = card (dom v) \<and> card (dom v) \<le> unat (max_owned_per_subscription cfg)"

lemma sub_okD:
  assumes "sub_ok cfg v sub"
  shows "lanes_ok v (sub_lanes sub)" "holders_ok v sub" "receive_ok v sub" "finite (dom v)"
    "unat (sub_owned sub) = card (dom v)" "card (dom v) \<le> unat (max_owned_per_subscription cfg)"
  using assms by (simp_all add: sub_ok_def)

lemma sub_okI:
  assumes "lanes_ok v (sub_lanes sub)" "holders_ok v sub" "receive_ok v sub" "finite (dom v)"
    "unat (sub_owned sub) = card (dom v)" "card (dom v) \<le> unat (max_owned_per_subscription cfg)"
  shows "sub_ok cfg v sub"
  using assms by (simp add: sub_ok_def)

lemma phases_disjoint [simp]:
  "queued_phase Queued" "queued_phase QueuedSettlement" "\<not> queued_phase ReservedReceive"
  "\<not> queued_phase Running" "\<not> queued_phase Settling" "\<not> queued_phase WaitingRetry"
  "holding_phase Running" "holding_phase Settling" "holding_phase WaitingRetry"
  "\<not> holding_phase Queued" "\<not> holding_phase QueuedSettlement" "\<not> holding_phase ReservedReceive"
  by (simp_all add: queued_phase_def holding_phase_def)

lemma phase_cases:
  obtains "p = ReservedReceive" | "queued_phase p" | "holding_phase p"
  by (cases p) (auto simp: queued_phase_def holding_phase_def)

lemma queued_not_holding: "queued_phase p \<Longrightarrow> \<not> holding_phase p \<and> p \<noteq> ReservedReceive"
  and holding_not_queued: "holding_phase p \<Longrightarrow> \<not> queued_phase p \<and> p \<noteq> ReservedReceive"
  by (auto simp: queued_phase_def holding_phase_def)

lemma holds_upd:
  "holds (v(l := x)) l' k \<longleftrightarrow> (if l' = l then (\<exists>r. x = Some r \<and> holding_phase (rec_phase r) \<and> rec_lane r = Some k) else holds v l' k)"
  by (simp add: holds_def)

lemma reserved_upd:
  "reserved (v(l := x)) l' \<longleftrightarrow> (if l' = l then (\<exists>r. x = Some r \<and> rec_phase r = ReservedReceive) else reserved v l')"
  by (simp add: reserved_def)

lemma reserved_iff: "receive_ok v sub \<Longrightarrow> reserved v l \<longleftrightarrow> receive_reservation sub = Some l"
  by (simp add: receive_ok_def)

lemma reserved_unique: "receive_ok v sub \<Longrightarrow> reserved v l \<Longrightarrow> reserved v l' \<Longrightarrow> l = l'"
  by (metis receive_ok_def option.inject)

lemma card_dom_upd: "finite (dom v) \<Longrightarrow> v l = Some r \<Longrightarrow> card (dom (v(l \<mapsto> r'))) = card (dom v)"
  by (simp add: insert_absorb domI)

lemma card_dom_remove:
  assumes "finite (dom v)" and "v l = Some r"
  shows "card (dom v) = Suc (card (dom (v(l := None))))"
proof -
  have "l \<in> dom v" using assms(2) by (simp add: domI)
  from card.remove [OF assms(1) this] show ?thesis by simp
qed

section \<open>Changes of one lease\<close>

text \<open>Between phases that hold the lane, and changes that keep phase and lane.\<close>

lemma sub_ok_same_role:
  assumes ok: "sub_ok cfg v sub" and r: "v l = Some r"
    and same: "rec_lane r' = rec_lane r"
      "rec_phase r' = rec_phase r \<or> holding_phase (rec_phase r) \<and> holding_phase (rec_phase r')"
  shows "sub_ok cfg (v(l \<mapsto> r')) sub"
proof (rule sub_okI)
  have h: "holds (v(l \<mapsto> r')) = holds v"
    using r same by (intro ext) (auto simp: holds_upd, auto simp: holds_def)
  show "holders_ok (v(l \<mapsto> r')) sub" using sub_okD(2) [OF ok] unfolding holders_ok_def h .
  have rs: "reserved (v(l \<mapsto> r')) = reserved v"
    using r same by (intro ext) (auto simp: reserved_upd, auto simp: reserved_def)
  show "receive_ok (v(l \<mapsto> r')) sub" using sub_okD(3) [OF ok] unfolding receive_ok_def rs .
  show "lanes_ok (v(l \<mapsto> r')) (sub_lanes sub)"
  proof (cases "queued_phase (rec_phase r)")
    case True
    then have "rec_phase r' = rec_phase r" using same(2) queued_not_holding by blast
    then have "(\<exists>r''. (v(l \<mapsto> r')) x = Some r'' \<and> queued_phase (rec_phase r'') \<and> rec_lane r'' = k) \<longleftrightarrow>
        (\<exists>r''. v x = Some r'' \<and> queued_phase (rec_phase r'') \<and> rec_lane r'' = k)" for x k
      using r same(1) by auto
    then show ?thesis
      using sub_okD(1) [OF ok] unfolding lanes_ok_def by (metis (no_types, lifting))
  next
    case False
    then show ?thesis
      using lanes_ok_outside [OF sub_okD(1) [OF ok], of l "Some r'"] r same(2) holding_not_queued by auto
  qed
qed (use sub_okD(4-6) [OF ok] card_dom_upd [OF sub_okD(4) [OF ok] r] in simp_all)

text \<open>Granting a receive to a subscription that waits for one.\<close>

lemma sub_ok_grant:
  assumes ok: "sub_ok cfg v sub" and l: "v l = None" and w: "receive_waiting sub"
    and r: "rec_phase r = ReservedReceive" and c: "card (dom v) < unat (max_owned_per_subscription cfg)"
    and own: "checked_add (sub_owned sub) 1 = Some n"
  shows "sub_ok cfg (v(l \<mapsto> r)) (sub\<lparr>receive_waiting := False, receive_reservation := Some l,
    receive_taken := False, sub_owned := n\<rparr>)"
proof (rule sub_okI)
  note d = sub_okD [OF ok]
  have "receive_reservation sub = None" "\<not> stopped sub" using d(3) w by (simp_all add: receive_ok_def)
  then have "\<not> reserved v l'" for l' using d(3) by (metis receive_ok_def option.distinct(1))
  then show "receive_ok (v(l \<mapsto> r)) (sub\<lparr>receive_waiting := False, receive_reservation := Some l,
    receive_taken := False, sub_owned := n\<rparr>)"
    using d(3) r by (auto simp: receive_ok_def reserved_upd)
  show "lanes_ok (v(l \<mapsto> r)) (sub_lanes (sub\<lparr>receive_waiting := False, receive_reservation := Some l,
    receive_taken := False, sub_owned := n\<rparr>))"
    using lanes_ok_outside [OF d(1), of l "Some r"] l r by simp
  have "holds (v(l \<mapsto> r)) = holds v" using l r by (intro ext) (auto simp: holds_upd, auto simp: holds_def)
  then show "holders_ok (v(l \<mapsto> r)) (sub\<lparr>receive_waiting := False, receive_reservation := Some l,
    receive_taken := False, sub_owned := n\<rparr>)"
    using d(2) by (simp add: holders_ok_def)
  have "card (dom (v(l \<mapsto> r))) = Suc (card (dom v))" using l d(4) by (simp add: domIff)
  then show "unat (sub_owned (sub\<lparr>receive_waiting := False, receive_reservation := Some l,
    receive_taken := False, sub_owned := n\<rparr>)) = card (dom (v(l \<mapsto> r)))"
    and "card (dom (v(l \<mapsto> r))) \<le> unat (max_owned_per_subscription cfg)"
    using own d(5) c by (simp_all add: checked_add_Some_iff)
qed (use sub_okD(4) [OF ok] in simp)

text \<open>Changes of the flags alone.\<close>

lemma sub_ok_flags:
  assumes ok: "sub_ok cfg v sub"
  shows "receive_reservation sub = Some l \<Longrightarrow> sub_ok cfg v (sub\<lparr>receive_taken := True\<rparr>)"
    and "sub_ok cfg v (sub\<lparr>receive_waiting := False\<rparr>)"
    and "\<not> stopped sub \<Longrightarrow> receive_reservation sub = None \<Longrightarrow> sub_ok cfg v (sub\<lparr>receive_waiting := True\<rparr>)"
    and "sub_ok cfg v (sub\<lparr>dispatch_active := active \<and> \<not> stopped sub\<rparr>)"
    and "sub_ok cfg v (sub\<lparr>stopped := True, dispatch_active := False, receive_waiting := False\<rparr>)"
  using ok by (auto simp: sub_ok_def holders_ok_def receive_ok_def)

text \<open>Queueing a claimed receive.\<close>

lemma sub_ok_enqueue:
  assumes ok: "sub_ok cfg v sub" and r: "v l = Some r" "rec_phase r = ReservedReceive" and p: "queued_phase p"
  shows "sub_ok cfg (v(l \<mapsto> r\<lparr>rec_phase := p, rec_lane := k\<rparr>))
    (sub_enqueue (sub\<lparr>receive_reservation := None, receive_taken := False\<rparr>) l k)"
proof (rule sub_okI)
  let ?v = "v(l \<mapsto> r\<lparr>rec_phase := p, rec_lane := k\<rparr>)"
  let ?sub = "sub_enqueue (sub\<lparr>receive_reservation := None, receive_taken := False\<rparr>) l k"
  note d = sub_okD [OF ok]
  show "lanes_ok ?v (sub_lanes ?sub)"
    using join_lane_ok [OF d(1), of l "r\<lparr>rec_phase := p, rec_lane := k\<rparr>" k "\<lambda>q. q @ [l]"] r p
    by (auto simp: sub_enqueue_def)
  have "holds ?v = holds v" using r p queued_not_holding by (intro ext) (auto simp: holds_upd, auto simp: holds_def)
  then show "holders_ok ?v ?sub" using d(2) by (simp add: holders_ok_def sub_enqueue_def)
  have "receive_reservation sub = Some l" using d(3) r by (auto simp: receive_ok_def reserved_def)
  then have "\<not> reserved ?v l'" for l' using p queued_not_holding by (auto simp: reserved_upd reserved_iff [OF d(3)])
  then show "receive_ok ?v ?sub" using d(3) \<open>receive_reservation sub = Some l\<close> by (auto simp: receive_ok_def sub_enqueue_def)
qed (use sub_okD(4-6) [OF ok] card_dom_upd [OF sub_okD(4) [OF ok] r(1)] in \<open>simp_all add: sub_enqueue_def\<close>)

text \<open>Granting the head of a lane that is not locked.\<close>

lemma lane_split:
  "i < length ls \<Longrightarrow> ls ! i = lq \<Longrightarrow> ls = take i ls @ lq # drop (Suc i) ls"
  using id_take_nth_drop by blast

lemma sub_ok_take:
  assumes ok: "sub_ok cfg v sub" and i: "i < length (sub_lanes sub)" "sub_lanes sub ! i = (k, l # q)"
    and free: "\<forall>key. k = Some key \<longrightarrow> key |\<notin>| locked_lanes sub"
    and r: "v l = Some r" and p: "holding_phase p"
    and tk: "sub_take_ready sub i = (sub1, Some l')"
  shows "l' = l" and "sub_ok cfg (v(l \<mapsto> r\<lparr>rec_phase := p\<rparr>)) sub1" and "rec_lane r = k" and "queued_phase (rec_phase r)"
    and "j \<noteq> None \<Longrightarrow> queue_of (sub_lanes sub) j = (if j = k then l # queue_of (sub_lanes sub1) j else queue_of (sub_lanes sub1) j)"
proof -
  let ?v = "v(l \<mapsto> r\<lparr>rec_phase := p\<rparr>)" and ?as = "take i (sub_lanes sub)" and ?bs = "drop (Suc i) (sub_lanes sub)"
  let ?n = "if q = [] then ?as @ ?bs else (?as @ ?bs) @ [(k, q)]"
  note d = sub_okD [OF ok] and split = lane_split [OF i]
  have s1: "l' = l" "sub1 = sub\<lparr>locked_lanes := (case k of None \<Rightarrow> locked_lanes sub | Some key \<Rightarrow> finsert key (locked_lanes sub)),
      sub_lanes := ?n\<rparr>"
    using tk i by (auto simp: sub_take_ready_def Let_def)
  have okl: "lanes_ok v (?as @ (k, l # q) # ?bs)" using d(1) split by simp
  have "l \<in> set (queue_of (sub_lanes sub) k)" by (subst split) simp
  then show lane: "rec_lane r = k" and ph: "queued_phase (rec_phase r)"
    using lanes_ok_queued(1) [OF d(1)] r by fastforce+
  show "l' = l" by (rule s1)
  show "queue_of (sub_lanes sub) j = (if j = k then l # queue_of (sub_lanes sub1) j else queue_of (sub_lanes sub1) j)"
    if "j \<noteq> None"
    using take_head_ok(2) [OF okl r _ refl that, of p] p holding_not_queued split s1(2) by simp
  have nh: "\<not> holds v l key" for key using r ph queued_not_holding by (auto simp: holds_def)
  have h: "holds ?v l'' key \<longleftrightarrow> holds v l'' key \<or> l'' = l \<and> k = Some key" for l'' key
    using nh lane p by (auto simp: holds_upd)
  show "sub_ok cfg ?v sub1"
  proof (rule sub_okI)
    show "lanes_ok ?v (sub_lanes sub1)"
      using take_head_ok(1) [OF okl r _ refl, of p] p holding_not_queued s1(2) by simp
    show "holders_ok ?v sub1"
      using d(2) free unfolding holders_ok_def h s1(2) by (cases k) (simp_all, metis)
    have "reserved ?v = reserved v"
      using r p ph holding_not_queued queued_not_holding by (intro ext) (auto simp: reserved_upd, auto simp: reserved_def)
    then show "receive_ok ?v sub1" using d(3) by (auto simp: receive_ok_def s1(2))
  qed (use d(4-6) card_dom_upd [OF d(4) r] s1(2) in simp_all)
qed

text \<open>Returning a waiting delivery to the front of its lane.\<close>

definition requeued :: "subscription_schedule_state \<Rightarrow> lease \<Rightarrow> ordering_lane_key option \<Rightarrow> subscription_schedule_state" where
  "requeued sub l k = (let sub1 = (case k of None \<Rightarrow> sub | Some key \<Rightarrow> sub\<lparr>locked_lanes := locked_lanes sub |-| {|key|}\<rparr>)
     in sub1\<lparr>sub_lanes := join_lane (\<lambda>q. l # q) l k (sub_lanes sub1)\<rparr>)"

lemma requeued_fields [simp]:
  "sub_lanes (requeued sub l k) = join_lane (\<lambda>q. l # q) l k (sub_lanes sub)"
  "locked_lanes (requeued sub l k) = (case k of None \<Rightarrow> locked_lanes sub | Some key \<Rightarrow> locked_lanes sub |-| {|key|})"
  "receive_reservation (requeued sub l k) = receive_reservation sub" "receive_waiting (requeued sub l k) = receive_waiting sub"
  "receive_taken (requeued sub l k) = receive_taken sub" "stopped (requeued sub l k) = stopped sub"
  "dispatch_active (requeued sub l k) = dispatch_active sub" "sub_owned (requeued sub l k) = sub_owned sub"
  by (simp_all add: requeued_def Let_def split: option.split)

lemma sub_ok_requeue:
  assumes ok: "sub_ok cfg v sub" and r: "v l = Some r" "holding_phase (rec_phase r)" and p: "queued_phase p"
  shows "sub_ok cfg (v(l \<mapsto> r\<lparr>rec_phase := p\<rparr>)) (requeued sub l (rec_lane r))"
proof (rule sub_okI)
  let ?v = "v(l \<mapsto> r\<lparr>rec_phase := p\<rparr>)" and ?sub = "requeued sub l (rec_lane r)"
  note d = sub_okD [OF ok]
  show "lanes_ok ?v (sub_lanes ?sub)"
    using join_lane_ok [OF d(1), of l "r\<lparr>rec_phase := p\<rparr>" "rec_lane r" "\<lambda>q. l # q"] r p holding_not_queued by auto
  have h: "holds ?v l'' key \<longleftrightarrow> holds v l'' key \<and> l'' \<noteq> l" for l'' key
    using p queued_not_holding by (auto simp: holds_upd)
  have own: "holds v l key \<longleftrightarrow> rec_lane r = Some key" for key using r by (auto simp: holds_def)
  show "holders_ok ?v ?sub"
    using d(2) own unfolding holders_ok_def h by (cases "rec_lane r") (simp_all, metis+)
  have "reserved ?v = reserved v"
    using r p holding_not_queued queued_not_holding by (intro ext) (auto simp: reserved_upd, auto simp: reserved_def)
  then show "receive_ok ?v ?sub" using d(3) unfolding receive_ok_def requeued_fields by metis
qed (use sub_okD(4-6) [OF ok] card_dom_upd [OF sub_okD(4) [OF ok] r(1)] in simp_all)

text \<open>Releasing a lease in any phase.\<close>

definition released ::
  "subscription_schedule_state \<Rightarrow> lease \<Rightarrow> owned_delivery_record \<Rightarrow> usize \<Rightarrow> subscription_schedule_state" where
  "released sub l r c = (let sub1 = sub\<lparr>sub_owned := c\<rparr>;
     sub2 = (if receive_reservation sub1 = Some l
             then sub1\<lparr>receive_reservation := None, receive_taken := False\<rparr> else sub1);
     sub3 = (if queued_phase (rec_phase r) then remove_queued sub2 l else sub2)
   in (case rec_lane r of
        None \<Rightarrow> sub3
      | Some key \<Rightarrow> if holding_phase (rec_phase r)
          then sub3\<lparr>locked_lanes := locked_lanes sub3 |-| {|key|}\<rparr> else sub3))"

lemma released_fields [simp]:
  "sub_owned (released sub l r c) = c" "stopped (released sub l r c) = stopped sub"
  "dispatch_active (released sub l r c) = dispatch_active sub" "receive_waiting (released sub l r c) = receive_waiting sub"
  "receive_reservation (released sub l r c) = (if receive_reservation sub = Some l then None else receive_reservation sub)"
  "receive_taken (released sub l r c) \<longleftrightarrow> receive_taken sub \<and> receive_reservation sub \<noteq> Some l"
  "sub_lanes (released sub l r c) = (if queued_phase (rec_phase r) then drop_lease l (sub_lanes sub) else sub_lanes sub)"
  "locked_lanes (released sub l r c) = (case rec_lane r of None \<Rightarrow> locked_lanes sub
     | Some key \<Rightarrow> if holding_phase (rec_phase r) then locked_lanes sub |-| {|key|} else locked_lanes sub)"
  by (auto simp: released_def Let_def remove_queued_eq split: option.split)

lemma sub_ok_release:
  assumes ok: "sub_ok cfg v sub" and r: "v l = Some r" and c: "checked_sub (sub_owned sub) 1 = Some c"
  shows "sub_ok cfg (v(l := None)) (released sub l r c)"
proof (rule sub_okI)
  let ?v = "v(l := None)" and ?sub = "released sub l r c"
  note d = sub_okD [OF ok]
  show "lanes_ok ?v (sub_lanes ?sub)"
    using drop_lease_ok [OF d(1), of l] lanes_ok_outside [OF d(1), of l None] r by auto
  have own: "holds v l key \<longleftrightarrow> holding_phase (rec_phase r) \<and> rec_lane r = Some key" for key
    using r by (auto simp: holds_def)
  have h: "holds ?v l'' key \<longleftrightarrow> holds v l'' key \<and> l'' \<noteq> l" for l'' key by (simp add: holds_upd)
  show "holders_ok ?v ?sub"
    using d(2) own unfolding holders_ok_def h by (cases "rec_lane r") (simp_all, metis+)
  have "reserved ?v x \<longleftrightarrow> receive_reservation ?sub = Some x" for x
    by (auto simp: reserved_upd reserved_iff [OF d(3)])
  then show "receive_ok ?v ?sub" using d(3) by (auto simp: receive_ok_def)
  have "card (dom v) = Suc (card (dom ?v))" by (rule card_dom_remove [OF d(4) r])
  then show "unat (sub_owned ?sub) = card (dom ?v)" "card (dom ?v) \<le> unat (max_owned_per_subscription cfg)"
    using d(5,6) c by (simp_all add: checked_sub_Some_iff)
qed (use sub_okD(4) [OF ok] in simp)

end
