(* ===== verification/Scheduler_Inv.thy ===== *)
theory Scheduler_Inv
  imports Scheduler_Sub
begin

text \<open>
  The invariant of the whole scheduler and its preservation by every operation of the core. It has three
  parts: \<open>core_inv\<close> (bounds, the counters, the subscriptions against their leases, the waiters), \<open>ready_inv\<close>
  (the ready list holds exactly the subscriptions with a grantable lane), and \<open>credit_inv\<close> (no receive
  credit lies idle while a subscription below its own limit waits for one).
\<close>

section \<open>The lease table seen by one subscription\<close>

definition part :: "owned_map \<Rightarrow> id \<Rightarrow> view" where
  "part own i l = (case fmlookup own l of
     None \<Rightarrow> None | Some r \<Rightarrow> if rec_subscription_id r = i then Some r else None)"

lemma part_Some [simp]: "part own i l = Some r \<longleftrightarrow> fmlookup own l = Some r \<and> rec_subscription_id r = i"
  by (auto simp: part_def split: option.splits)

lemma part_upd: "part (fmupd l r own) i = (part own i)(l := if rec_subscription_id r = i then Some r else None)"
  by (auto simp: part_def)

lemma part_drop: "part (fmdrop l own) i = (part own i)(l := None)"
  by (auto simp: part_def)

lemma part_None: "fmlookup own l = None \<Longrightarrow> part own i l = None"
  by (simp add: part_def)

lemma part_other: "fmlookup own l = Some r \<Longrightarrow> rec_subscription_id r \<noteq> i \<Longrightarrow> part own i l = None"
  by (simp add: part_def)

lemma part_upd_other:
  assumes "\<And>r0. fmlookup own l = Some r0 \<Longrightarrow> rec_subscription_id r0 = rec_subscription_id r"
    and "i \<noteq> rec_subscription_id r"
  shows "part (fmupd l r own) i = part own i"
proof
  have "part own i l = None" using assms(1) assms(2) by (cases "fmlookup own l") (fastforce simp: part_def)+
  then show "part (fmupd l r own) i x = part own i x" for x
    using assms(2) by (simp add: part_upd)
qed

lemma part_drop_other: "fmlookup own l = Some r \<Longrightarrow> i \<noteq> rec_subscription_id r \<Longrightarrow> part (fmdrop l own) i = part own i"
  by (rule ext) (simp add: part_def)

section \<open>The invariant\<close>

definition running_count :: "owned_map \<Rightarrow> nat" where
  "running_count own = fmcount (\<lambda>_ r. rec_phase r = Running) own"

definition waiters_ok :: "delivery_scheduler_state \<Rightarrow> bool" where
  "waiters_ok s \<longleftrightarrow> distinct (receive_waiters s) \<and>
     (\<forall>i. i \<in> set (receive_waiters s) \<longleftrightarrow> (\<exists>sub. fmlookup (subscriptions s) i = Some sub \<and> receive_waiting sub))"

definition leases_ok :: "delivery_scheduler_state \<Rightarrow> bool" where
  "leases_ok s \<longleftrightarrow>
     (\<forall>l r. fmlookup (owned s) l = Some r \<longrightarrow> fmlookup (subscriptions s) (rec_subscription_id r) \<noteq> None) \<and>
     (\<forall>l r n. fmlookup (owned s) l = Some r \<and> next_lease s = Some n \<longrightarrow> l < n)"

definition bounds_ok :: "delivery_scheduler_state \<Rightarrow> bool" where
  "bounds_ok s \<longleftrightarrow> unat (running s) = running_count (owned s) \<and>
     running_count (owned s) \<le> unat (max_running_handlers (config s)) \<and>
     fmlen (owned s) \<le> unat (max_owned_deliveries (config s)) \<and>
     fmlen (subscriptions s) \<le> unat (max_subscriptions (config s))"

definition core_inv :: "delivery_scheduler_state \<Rightarrow> bool" where
  "core_inv s \<longleftrightarrow>
     (\<forall>i sub. fmlookup (subscriptions s) i = Some sub \<longrightarrow> sub_ok (config s) (part (owned s) i) sub) \<and>
     leases_ok s \<and> bounds_ok s \<and> waiters_ok s \<and>
     distinct (ready s) \<and> (\<forall>i. i |\<in>| notifications s \<longrightarrow> fmlookup (subscriptions s) i \<noteq> None)"

definition can_dispatch :: "delivery_scheduler_state \<Rightarrow> id \<Rightarrow> bool" where
  "can_dispatch s i \<longleftrightarrow> (\<exists>sub. fmlookup (subscriptions s) i = Some sub \<and> eligible_lane sub (owned s) True \<noteq> None)"

definition ready_inv :: "id set \<Rightarrow> delivery_scheduler_state \<Rightarrow> bool" where
  "ready_inv X s \<longleftrightarrow> (\<forall>i. i \<notin> X \<longrightarrow> (i \<in> set (ready s) \<longleftrightarrow> can_dispatch s i))"

definition credit_inv :: "delivery_scheduler_state \<Rightarrow> bool" where
  "credit_inv s \<longleftrightarrow> (fmlen (owned s) < unat (max_owned_deliveries (config s)) \<and> next_lease s \<noteq> None \<longrightarrow>
     (\<forall>i sub. fmlookup (subscriptions s) i = Some sub \<and> receive_waiting sub \<longrightarrow>
        max_owned_per_subscription (config s) \<le> sub_owned sub))"

definition sched_inv :: "delivery_scheduler_state \<Rightarrow> bool" where
  "sched_inv s \<longleftrightarrow> core_inv s \<and> ready_inv {} s \<and> credit_inv s"

lemma core_invD:
  assumes "core_inv s"
  shows "fmlookup (subscriptions s) i = Some sub \<Longrightarrow> sub_ok (config s) (part (owned s) i) sub"
    and "leases_ok s" "bounds_ok s" "waiters_ok s" "distinct (ready s)"
    and "i |\<in>| notifications s \<Longrightarrow> fmlookup (subscriptions s) i \<noteq> None"
  using assms by (auto simp: core_inv_def)

lemma core_invI:
  assumes "\<And>i sub. fmlookup (subscriptions s) i = Some sub \<Longrightarrow> sub_ok (config s) (part (owned s) i) sub"
    and "leases_ok s" "bounds_ok s" "waiters_ok s" "distinct (ready s)"
    and "\<And>i. i |\<in>| notifications s \<Longrightarrow> fmlookup (subscriptions s) i \<noteq> None"
  shows "core_inv s"
  using assms by (auto simp: core_inv_def)

section \<open>Eligibility depends on the subscription's own leases\<close>

lemma find_position_cong: "(\<And>x. x \<in> set xs \<Longrightarrow> P x = Q x) \<Longrightarrow> find_position P xs = find_position Q xs"
  by (induction xs) auto

lemma lane_head_queued: "(k, l # q) \<in> set ls \<Longrightarrow> l \<in> set (queued_leases ls)"
  by (force simp: queued_leases_def)

lemma eligible_cong:
  assumes "\<And>l. l \<in> set (queued_leases (sub_lanes sub)) \<Longrightarrow> fmlookup own' l = fmlookup own l"
  shows "eligible_lane sub own' h = eligible_lane sub own h"
proof -
  have "lane_grantable own' h (locked_lanes sub) lq = lane_grantable own h (locked_lanes sub) lq"
    if "lq \<in> set (sub_lanes sub)" for lq
  proof (cases "snd lq")
    case (Cons l q)
    then have "l \<in> set (queued_leases (sub_lanes sub))" using that lane_head_queued by (metis prod.collapse)
    then show ?thesis using assms Cons by (simp add: lane_grantable_def)
  qed (simp add: lane_grantable_def)
  then show ?thesis by (auto simp: eligible_lane_def intro: find_position_cong)
qed

lemma queued_in_table:
  assumes "sub_ok cfg (part own i) sub" and "l \<in> set (queued_leases (sub_lanes sub))"
  obtains r where "fmlookup own l = Some r" "rec_subscription_id r = i" "queued_phase (rec_phase r)"
  using lanes_ok_queued(2) [OF sub_okD(1) [OF assms(1)] assms(2)] by auto

lemma can_dispatch_other:
  assumes "core_inv s" and "j \<noteq> i"
    and "fmlookup (subscriptions s') j = fmlookup (subscriptions s) j"
    and "\<And>l r. fmlookup (owned s) l = Some r \<Longrightarrow> rec_subscription_id r = j \<Longrightarrow> fmlookup (owned s') l = Some r"
  shows "can_dispatch s' j = can_dispatch s j"
proof -
  have "eligible_lane sub (owned s') True = eligible_lane sub (owned s) True"
    if "fmlookup (subscriptions s) j = Some sub" for sub
    by (rule eligible_cong) (metis queued_in_table core_invD(1) [OF assms(1) that] assms(4))
  then show ?thesis unfolding can_dispatch_def assms(3) by (metis (no_types, lifting))
qed

lemma ready_inv_other:
  assumes "core_inv s" and "ready_inv X s" and "ready s' = ready s"
    and "\<And>j. j \<noteq> i \<Longrightarrow> fmlookup (subscriptions s') j = fmlookup (subscriptions s) j"
    and "\<And>j l r. j \<noteq> i \<Longrightarrow> fmlookup (owned s) l = Some r \<Longrightarrow> rec_subscription_id r = j \<Longrightarrow> fmlookup (owned s') l = Some r"
  shows "ready_inv (insert i X) s'"
proof -
  have "can_dispatch s' j = can_dispatch s j" if "j \<noteq> i" for j
    by (rule can_dispatch_other [OF assms(1) that assms(4) [OF that]]) (rule assms(5) [OF that])
  then show ?thesis using assms(2,3) by (simp add: ready_inv_def)
qed

section \<open>Refreshing and notifying\<close>

lemma refresh_fields [simp]:
  "config (refresh_ready s i) = config s" "owned (refresh_ready s i) = owned s"
  "running (refresh_ready s i) = running s" "subscriptions (refresh_ready s i) = subscriptions s"
  "receive_waiters (refresh_ready s i) = receive_waiters s" "notifications (refresh_ready s i) = notifications s"
  "next_lease (refresh_ready s i) = next_lease s"
  by (simp_all add: refresh_ready_def Let_def)

lemma notify_fields [simp]:
  "config (notify_ready s) = config s" "owned (notify_ready s) = owned s"
  "running (notify_ready s) = running s" "subscriptions (notify_ready s) = subscriptions s"
  "receive_waiters (notify_ready s) = receive_waiters s" "ready (notify_ready s) = ready s"
  "next_lease (notify_ready s) = next_lease s"
  by (simp_all add: notify_ready_def split: option.split)

lemma can_dispatch_fields [simp]:
  "can_dispatch (refresh_ready s i) = can_dispatch s" "can_dispatch (notify_ready s) = can_dispatch s"
  by (simp_all add: can_dispatch_def fun_eq_iff)

lemma credit_fields [simp]:
  "credit_inv (refresh_ready s i) = credit_inv s" "credit_inv (notify_ready s) = credit_inv s"
  by (simp_all add: credit_inv_def)

lemma refresh_ready_set: "set (ready (refresh_ready s i)) = (if can_dispatch s i then insert i (set (ready s)) else set (ready s) - {i})"
  by (auto simp: refresh_ready_def can_dispatch_def Let_def split: option.splits)

lemma refresh_ready_inv: "ready_inv (insert i X) s \<Longrightarrow> ready_inv X (refresh_ready s i)"
  by (auto simp: ready_inv_def refresh_ready_set)

lemma ready_inv_notify [simp]: "ready_inv X (notify_ready s) = ready_inv X s"
  by (simp add: ready_inv_def)

lemma refresh_core: "core_inv s \<Longrightarrow> core_inv (refresh_ready s i)"
  by (auto simp: core_inv_def leases_ok_def bounds_ok_def waiters_ok_def)
    (auto simp: refresh_ready_def Let_def split: option.splits)

lemma find_ready_Some:
  "find_ready s h is = Some (i, n) \<Longrightarrow>
   i \<in> set is \<and> (\<exists>sub. fmlookup (subscriptions s) i = Some sub \<and> eligible_lane sub (owned s) h = Some n)"
  by (induction "is") (auto split: option.splits simp: bind_eq_Some_conv)

lemma find_ready_None:
  "find_ready s h is = None \<longleftrightarrow>
   (\<forall>i \<in> set is. \<forall>sub. fmlookup (subscriptions s) i = Some sub \<longrightarrow> eligible_lane sub (owned s) h = None)"
  by (induction "is") (auto split: option.splits simp: bind_eq_Some_conv bind_eq_None_conv)

lemma selected_known: "selected_ready s = Some (i, n) \<Longrightarrow> fmlookup (subscriptions s) i \<noteq> None"
  using find_ready_Some by (fastforce simp: selected_ready_def)

lemma notify_core: "core_inv s \<Longrightarrow> core_inv (notify_ready s)"
  using selected_known [of s]
  by (auto simp: core_inv_def leases_ok_def bounds_ok_def waiters_ok_def)
    (auto simp: notify_ready_def split: option.splits)

end
