(* ===== verification/Scheduler_Ops.thy ===== *)
theory Scheduler_Ops
  imports Scheduler_Inv
begin

text \<open>
  Every operation of the scheduler core returns and keeps the invariant of \<open>Scheduler_Inv\<close>, for
  whatever lease or subscription it is called with.
\<close>

section \<open>Changing one lease and its subscription\<close>

lemma lease_registered:
  "core_inv s \<Longrightarrow> fmlookup (owned s) l = Some r \<Longrightarrow> \<exists>sub. fmlookup (subscriptions s) (rec_subscription_id r) = Some sub"
  using core_invD(2) [of s] unfolding leases_ok_def by blast

lemma notifications_only [simp]:
  "leases_ok (s\<lparr>notifications := N\<rparr>) = leases_ok s" "bounds_ok (s\<lparr>notifications := N\<rparr>) = bounds_ok s"
  "waiters_ok (s\<lparr>notifications := N\<rparr>) = waiters_ok s" "can_dispatch (s\<lparr>notifications := N\<rparr>) = can_dispatch s"
  "ready_inv X (s\<lparr>notifications := N\<rparr>) = ready_inv X s" "credit_inv (s\<lparr>notifications := N\<rparr>) = credit_inv s"
  by (simp_all add: leases_ok_def bounds_ok_def waiters_ok_def ready_inv_def credit_inv_def can_dispatch_def fun_eq_iff)

lemma notifications_core:
  "core_inv s \<Longrightarrow> (\<And>i. i |\<in>| N \<Longrightarrow> fmlookup (subscriptions s) i \<noteq> None) \<Longrightarrow> core_inv (s\<lparr>notifications := N\<rparr>)"
  by (simp add: core_inv_def)

lemma core_change:
  assumes inv: "core_inv s" and l: "fmlookup (owned s) l = Some r" and i: "rec_subscription_id r = i" "rec_subscription_id r' = i"
    and sub: "fmlookup (subscriptions s) i = Some sub"
    and ok: "sub_ok (config s) ((part (owned s) i)(l \<mapsto> r')) sub'" "receive_waiting sub' = receive_waiting sub"
    and run: "unat n + of_bool (rec_phase r = Running) = unat (running s) + of_bool (rec_phase r' = Running)"
      "n \<le> max_running_handlers (config s)"
    and s': "config s' = config s" "subscriptions s' = fmupd i sub' (subscriptions s)" "owned s' = fmupd l r' (owned s)"
      "running s' = n" "receive_waiters s' = receive_waiters s" "next_lease s' = next_lease s"
      "notifications s' = notifications s" "distinct (ready s')"
  shows "core_inv s'"
proof (rule core_invI)
  note d = core_invD [OF inv]
  show "sub_ok (config s') (part (owned s') j) sub''" if "fmlookup (subscriptions s') j = Some sub''" for j sub''
  proof (cases "j = i")
    case True
    then show ?thesis using that ok(1) i by (simp add: s' part_upd)
  next
    case False
    then have "part (owned s') j = part (owned s) j" using part_upd_other [of "owned s" l r' j] l i by (simp add: s')
    then show ?thesis using that False d(1) by (simp add: s'(1,2))
  qed
  show "leases_ok s'" using d(2) l i sub by (auto simp: leases_ok_def s')
  have cnt: "running_count (owned s') = unat n"
    using fmcount_upd_old [OF l, of "\<lambda>_ r. rec_phase r = Running" r'] run(1) d(3) by (simp add: running_count_def bounds_ok_def s')
  show "bounds_ok s'"
    using d(3) run(2) cnt l sub unfolding bounds_ok_def by (simp add: s' fm_laws word_le_nat_alt)
  show "waiters_ok s'" using d(4) sub ok(2) by (auto simp: waiters_ok_def s')
  show "distinct (ready s')" by (rule s')
  show "fmlookup (subscriptions s') j \<noteq> None" if "j |\<in>| notifications s'" for j
    using d(6) that by (simp add: s')
qed

text \<open>A change of the subscription alone.\<close>

lemma core_sub:
  assumes inv: "core_inv s" and sub: "fmlookup (subscriptions s) i = Some sub"
    and ok: "sub_ok (config s) (part (owned s) i) sub'"
    and s': "config s' = config s" "subscriptions s' = fmupd i sub' (subscriptions s)" "owned s' = owned s"
      "running s' = running s" "next_lease s' = next_lease s" "notifications s' = notifications s" "ready s' = ready s"
    and w: "waiters_ok s'"
  shows "core_inv s'"
proof (rule core_invI)
  note d = core_invD [OF inv]
  show "sub_ok (config s') (part (owned s') j) sub''" if "fmlookup (subscriptions s') j = Some sub''" for j sub''
    using that ok d(1) by (auto simp: s' split: if_splits)
  show "leases_ok s'" using d(2) by (auto simp: leases_ok_def s')
  show "bounds_ok s'" using d(3) sub by (simp add: bounds_ok_def s' fm_laws)
  show "distinct (ready s')" using d(5) by (simp add: s')
  show "fmlookup (subscriptions s') j \<noteq> None" if "j |\<in>| notifications s'" for j
    using d(6) that by (simp add: s')
qed (rule w)

lemma ready_inv_change:
  assumes inv: "core_inv s" and "ready_inv X s" and l: "fmlookup (owned s) l = Some r" "rec_subscription_id r = i"
    and s': "ready s' = ready s" "subscriptions s' = fmupd i sub' (subscriptions s)" "owned s' = fmupd l r' (owned s)"
  shows "ready_inv (insert i X) s'"
  by (rule ready_inv_other [OF inv assms(2)]) (use l s' in auto)

lemma ready_inv_sub:
  assumes inv: "core_inv s" and "ready_inv X s"
    and s': "ready s' = ready s" "subscriptions s' = fmupd i sub' (subscriptions s)" "owned s' = owned s"
  shows "ready_inv (insert i X) s'"
  by (rule ready_inv_other [OF inv assms(2)]) (use s' in auto)

text \<open>A change that leaves what \<open>eligible_lane\<close> reads.\<close>

lemma ready_inv_same:
  assumes "ready_inv X s" and "ready s' = ready s" and "\<And>i. can_dispatch s' i = can_dispatch s i"
  shows "ready_inv X s'"
  using assms by (simp add: ready_inv_def)

lemma can_dispatch_unqueued:
  assumes inv: "core_inv s" and l: "fmlookup (owned s) l = Some r" "\<not> queued_phase (rec_phase r)"
    and s': "subscriptions s' = subscriptions s" "owned s' = fmupd l r' (owned s)"
  shows "can_dispatch s' i = can_dispatch s i"
proof -
  have "eligible_lane sub (owned s') True = eligible_lane sub (owned s) True"
    if "fmlookup (subscriptions s) i = Some sub" for sub
  proof (rule eligible_cong)
    fix x assume "x \<in> set (queued_leases (sub_lanes sub))"
    then have "x \<noteq> l" using queued_in_table [OF core_invD(1) [OF inv that]] l by (metis option.inject)
    then show "fmlookup (owned s') x = fmlookup (owned s) x" by (simp add: s')
  qed
  then show ?thesis unfolding can_dispatch_def s'(1) by (metis (no_types, lifting))
qed

lemma credit_inv_same:
  assumes "credit_inv s" and "config s' = config s" and "fmlen (owned s') = fmlen (owned s)" and "next_lease s' = next_lease s"
    and "\<And>i sub'. fmlookup (subscriptions s') i = Some sub' \<Longrightarrow> receive_waiting sub' \<Longrightarrow>
      \<exists>sub. fmlookup (subscriptions s) i = Some sub \<and> receive_waiting sub \<and> sub_owned sub = sub_owned sub'"
  shows "credit_inv s'"
  using assms unfolding credit_inv_def by (metis (no_types, lifting))

section \<open>Operations that do not touch the credit\<close>

lemma sched_finish:
  assumes "core_inv s" and "ready_inv {i} s" and "credit_inv s"
  shows "sched_inv (notify_ready (refresh_ready s i))"
  using assms refresh_core notify_core refresh_ready_inv [of i "{}"] by (simp add: sched_inv_def)

lemma sched_notify: "sched_inv s \<Longrightarrow> sched_inv (notify_ready s)"
  using notify_core by (simp add: sched_inv_def)

lemma new_sched_inv: "sched_inv (scheduler_new cfg)"
  by (simp add: sched_inv_def core_inv_def ready_inv_def credit_inv_def scheduler_new_def leases_ok_def bounds_ok_def
      waiters_ok_def running_count_def can_dispatch_def fmcount_def fmsum_def fmlen_def fcard_fempty)

lemma default_sub_ok: "(\<And>l. v l = None) \<Longrightarrow> sub_ok cfg v subscription_schedule_state_default"
  by (auto simp: sub_ok_def subscription_schedule_state_default_def lanes_ok_def holders_ok_def receive_ok_def
      holds_def reserved_def dom_def)

lemma register_inv: "sched_inv s \<Longrightarrow> sched_inv (fst (register s i))"
proof (cases "snd (register s i)")
  case True
  assume inv: "sched_inv s"
  let ?s = "s\<lparr>subscriptions := fmupd i subscription_schedule_state_default (subscriptions s)\<rparr>"
  from True have new: "fmlookup (subscriptions s) i = None" and reg: "fst (register s i) = ?s"
    and cap: "\<not> max_subscriptions (config s) \<le> of_nat (fmlen (subscriptions s))"
    by (auto simp: register_def split: if_splits)
  have ci: "core_inv s" "ready_inv {} s" "credit_inv s" using inv by (simp_all add: sched_inv_def)
  note d = core_invD [OF ci(1)]
  have none: "part (owned s) i l = None" for l
    using d(2) new by (cases "fmlookup (owned s) l") (fastforce simp: part_def leases_ok_def)+
  have "core_inv ?s"
  proof (rule core_invI)
    show "sub_ok (config ?s) (part (owned ?s) j) sub" if "fmlookup (subscriptions ?s) j = Some sub" for j sub
      using that d(1) none default_sub_ok by (auto split: if_splits)
    have "fmlen (subscriptions s) < unat (max_subscriptions (config s))"
      using cap d(3) unat_bound [of "max_subscriptions (config s)"]
      by (simp add: bounds_ok_def word_le_nat_alt unat_of_nat_small)
    then show "bounds_ok ?s" using d(3) new by (simp add: bounds_ok_def fm_laws)
    show "leases_ok ?s" using d(2) by (auto simp: leases_ok_def)
    show "waiters_ok ?s" using d(4) new
      by (auto simp: waiters_ok_def subscription_schedule_state_default_def)
  qed (use d in auto)
  moreover have "can_dispatch ?s j = can_dispatch s j" for j
    using new by (auto simp: can_dispatch_def eligible_lane_def subscription_schedule_state_default_def)
  then have "ready_inv {} ?s" using ready_inv_same [OF ci(2)] by simp
  moreover have "credit_inv ?s"
    using ci(3) by (auto simp: credit_inv_def subscription_schedule_state_default_def)
  ultimately show ?thesis using reg by (simp add: sched_inv_def)
next
  case False
  assume "sched_inv s"
  then show ?thesis using False by (auto simp: register_def)
qed

lemma set_dispatch_active_inv:
  assumes inv: "sched_inv s"
  shows "sched_inv (set_dispatch_active s i active)"
proof -
  have ci: "core_inv s" "ready_inv {} s" "credit_inv s" using inv by (simp_all add: sched_inv_def)
  show ?thesis
  proof (cases "fmlookup (subscriptions s) i")
    case None
    then show ?thesis
      using sched_finish [OF ci(1) _ ci(3), of i] ci(2) by (simp add: set_dispatch_active_def ready_inv_def)
  next
    case (Some sub)
    let ?s = "s\<lparr>subscriptions := fmupd i (sub\<lparr>dispatch_active := active \<and> \<not> stopped sub\<rparr>) (subscriptions s)\<rparr>"
    have "waiters_ok ?s" using core_invD(4) [OF ci(1)] Some by (auto simp: waiters_ok_def)
    then have "core_inv ?s"
      using core_sub [OF ci(1) Some sub_ok_flags(4) [OF core_invD(1) [OF ci(1) Some]], of ?s active] by simp
    moreover have "ready_inv {i} ?s" by (rule ready_inv_sub [OF ci(1,2)]) simp_all
    moreover have "credit_inv ?s" by (rule credit_inv_same [OF ci(3)]) (use Some in \<open>auto split: if_splits\<close>)
    ultimately show ?thesis using sched_finish Some by (simp add: set_dispatch_active_def)
  qed
qed

lemma take_receive_inv:
  assumes inv: "sched_inv s"
  shows "sched_inv (fst (take_receive_reservation s i))"
proof (cases "snd (take_receive_reservation s i)")
  case None
  then have "fst (take_receive_reservation s i) = s"
    by (auto simp: take_receive_reservation_def split: option.splits if_splits)
  then show ?thesis using inv by simp
next
  case (Some l)
  have ci: "core_inv s" "ready_inv {} s" "credit_inv s" using inv by (simp_all add: sched_inv_def)
  obtain sub where sub: "fmlookup (subscriptions s) i = Some sub" "receive_reservation sub = Some l"
    and s': "fst (take_receive_reservation s i) = s\<lparr>subscriptions := fmupd i (sub\<lparr>receive_taken := True\<rparr>) (subscriptions s)\<rparr>"
    (is "_ = ?s")
    using Some by (auto simp: take_receive_reservation_def split: option.splits if_splits)
  have "waiters_ok ?s" using core_invD(4) [OF ci(1)] sub by (auto simp: waiters_ok_def)
  then have "core_inv ?s"
    using core_sub [OF ci(1) sub(1) sub_ok_flags(1) [OF core_invD(1) [OF ci(1) sub(1)] sub(2)], of ?s] by simp
  moreover have "can_dispatch ?s j = can_dispatch s j" for j
    using sub by (auto simp: can_dispatch_def eligible_lane_def)
  then have "ready_inv {} ?s" using ready_inv_same [OF ci(2)] by simp
  moreover have "credit_inv ?s" by (rule credit_inv_same [OF ci(3)]) (use sub in \<open>auto split: if_splits\<close>)
  ultimately show ?thesis using s' by (simp add: sched_inv_def)
qed

lemma enqueue_phase_inv:
  assumes inv: "sched_inv s" and p: "queued_phase p"
  shows "sched_inv (enqueue_phase s l k p)"
proof (cases "enqueue_phase s l k p = s")
  case False
  have ci: "core_inv s" "ready_inv {} s" "credit_inv s" using inv by (simp_all add: sched_inv_def)
  obtain r sub where r: "fmlookup (owned s) l = Some r" "rec_phase r = ReservedReceive"
    and sub: "fmlookup (subscriptions s) (rec_subscription_id r) = Some sub"
    and s': "enqueue_phase s l k p = notify_ready (refresh_ready (s\<lparr>subscriptions :=
        fmupd (rec_subscription_id r) (sub_enqueue (sub\<lparr>receive_reservation := None, receive_taken := False\<rparr>) l k) (subscriptions s),
      owned := fmupd l (r\<lparr>rec_phase := p, rec_lane := k\<rparr>) (owned s)\<rparr>) (rec_subscription_id r))"
    (is "_ = notify_ready (refresh_ready ?s _)")
    using False by (auto simp: enqueue_phase_def Let_def split: option.splits if_splits)
  have ok: "sub_ok (config s) ((part (owned s) (rec_subscription_id r))(l \<mapsto> r\<lparr>rec_phase := p, rec_lane := k\<rparr>))
      (sub_enqueue (sub\<lparr>receive_reservation := None, receive_taken := False\<rparr>) l k)"
    by (rule sub_ok_enqueue [OF core_invD(1) [OF ci(1) sub] _ r(2) p]) (use r in simp)
  have n: "running s \<le> max_running_handlers (config s)"
    using core_invD(3) [OF ci(1)] by (simp add: bounds_ok_def word_le_nat_alt)
  have "core_inv ?s"
    by (rule core_change [OF ci(1) r(1) refl _ sub ok, where n = "running s"])
      (use p r n core_invD(5) [OF ci(1)] in \<open>auto simp: sub_enqueue_def queued_phase_def\<close>)
  moreover have "ready_inv {rec_subscription_id r} ?s"
    using ready_inv_change [OF ci(1,2) r(1) refl, of ?s] by simp
  moreover have "credit_inv ?s"
    by (rule credit_inv_same [OF ci(3)]) (use sub r in \<open>auto simp: sub_enqueue_def fm_laws split: if_splits\<close>)
  ultimately show ?thesis using sched_finish s' by simp
qed (use inv in simp)

text \<open>A lease that is not queued changes its record without changing its role.\<close>

lemma same_role_inv:
  assumes inv: "sched_inv s" and r: "fmlookup (owned s) l = Some r" "\<not> queued_phase (rec_phase r)"
    and r': "rec_subscription_id r' = rec_subscription_id r" "rec_lane r' = rec_lane r"
      "rec_phase r' = rec_phase r \<or> holding_phase (rec_phase r) \<and> holding_phase (rec_phase r')"
    and n: "unat n + of_bool (rec_phase r = Running) = unat (running s) + of_bool (rec_phase r' = Running)"
      "n \<le> max_running_handlers (config s)"
  shows "sched_inv (s\<lparr>owned := fmupd l r' (owned s), running := n\<rparr>)" (is "sched_inv ?s")
proof -
  have ci: "core_inv s" "ready_inv {} s" "credit_inv s" using inv by (simp_all add: sched_inv_def)
  obtain sub where sub: "fmlookup (subscriptions s) (rec_subscription_id r) = Some sub"
    using lease_registered [OF ci(1) r(1)] by blast
  have ok: "sub_ok (config s) ((part (owned s) (rec_subscription_id r))(l \<mapsto> r')) sub"
    by (rule sub_ok_same_role [OF core_invD(1) [OF ci(1) sub] _ r'(2,3)]) (use r in simp)
  have "fmupd (rec_subscription_id r) sub (subscriptions s) = subscriptions s"
    using sub by (intro fmap_ext) auto
  then have "core_inv ?s"
    by (intro core_change [OF ci(1) r(1) refl r'(1) sub ok _ n]) (use core_invD(5) [OF ci(1)] in simp_all)
  moreover have "can_dispatch ?s j = can_dispatch s j" for j
    by (rule can_dispatch_unqueued [OF ci(1) r]) simp_all
  then have "ready_inv {} ?s" using ready_inv_same [OF ci(2)] by simp
  moreover have "credit_inv ?s" by (rule credit_inv_same [OF ci(3)]) (use r in \<open>auto simp: fm_laws\<close>)
  ultimately show ?thesis by (simp add: sched_inv_def)
qed

lemma checked_sub_1:
  assumes "unat a \<noteq> 0"
  obtains n where "checked_sub a 1 = Some n" "unat n + 1 = unat a"
proof (cases "checked_sub a 1")
  case None
  then show thesis using assms by (simp add: checked_sub_def word_le_nat_alt split: if_splits)
next
  case (Some n)
  then show thesis using that checked_sub_Some_iff [of a 1 n] by simp
qed

lemma running_le: "core_inv s \<Longrightarrow> running s \<le> max_running_handlers (config s)"
  using core_invD(3) [of s] by (simp add: bounds_ok_def word_le_nat_alt)

lemma running_pos:
  assumes "core_inv s" and "fmlookup (owned s) l = Some r" and "rec_phase r = Running"
  shows "unat (running s) \<noteq> 0"
proof -
  have "fmcount (\<lambda>_ r. rec_phase r = Running) (owned s) \<noteq> 0" using assms(2,3) by (auto simp: fmcount_def fmsum_0_iff)
  then show ?thesis using core_invD(3) [OF assms(1)] by (simp add: bounds_ok_def running_count_def)
qed

lemma leave_running_inv:
  assumes inv: "sched_inv s" and p: "holding_phase p" "p \<noteq> Running"
  shows "\<exists>s'. leave_running s l p = Some s' \<and> sched_inv s'"
proof (cases "\<exists>r. fmlookup (owned s) l = Some r \<and> rec_phase r = Running")
  case True
  then obtain r where r: "fmlookup (owned s) l = Some r" "rec_phase r = Running" by blast
  have ci: "core_inv s" using inv by (simp add: sched_inv_def)
  obtain n where n: "checked_sub (running s) 1 = Some n" "unat n + 1 = unat (running s)"
    using checked_sub_1 running_pos [OF ci r] by blast
  have "n \<le> max_running_handlers (config s)" using n(2) running_le [OF ci] by (simp add: word_le_nat_alt)
  then have "sched_inv (s\<lparr>owned := fmupd l (r\<lparr>rec_phase := p\<rparr>) (owned s), running := n\<rparr>)"
    by (intro same_role_inv [OF inv r(1)]) (use r p n in auto)
  from sched_notify [OF this] show ?thesis using r n by (simp add: leave_running_def)
qed (use inv in \<open>auto simp: leave_running_def split: option.splits\<close>)

lemma finish_attempt_waiting_inv:
  assumes inv: "sched_inv s"
  shows "sched_inv (finish_attempt_waiting s l)"
proof (cases "\<exists>r. fmlookup (owned s) l = Some r \<and> rec_phase r = Settling")
  case True
  then obtain r where r: "fmlookup (owned s) l = Some r" "rec_phase r = Settling" by blast
  have "sched_inv (s\<lparr>owned := fmupd l (r\<lparr>rec_phase := WaitingRetry\<rparr>) (owned s), running := running s\<rparr>)"
    by (rule same_role_inv [OF inv r(1)]) (use r running_le inv in \<open>auto simp: sched_inv_def\<close>)
  then show ?thesis using r by (simp add: finish_attempt_waiting_def)
qed (use inv in \<open>auto simp: finish_attempt_waiting_def split: option.splits\<close>)

lemma record_owned_start_inv:
  assumes inv: "sched_inv s"
  shows "sched_inv (record_owned_start s l at)"
proof (cases "record_owned_start s l at = s")
  case False
  then obtain r where r: "fmlookup (owned s) l = Some r" "rec_phase r = ReservedReceive"
    and s': "record_owned_start s l at = s\<lparr>owned := fmupd l (r\<lparr>rec_created_at := Some at\<rparr>) (owned s)\<rparr>"
    by (auto simp: record_owned_start_def split: option.splits if_splits)
  have "sched_inv (s\<lparr>owned := fmupd l (r\<lparr>rec_created_at := Some at\<rparr>) (owned s), running := running s\<rparr>)"
    by (rule same_role_inv [OF inv r(1)]) (use r running_le inv in \<open>auto simp: sched_inv_def\<close>)
  then show ?thesis using s' by simp
qed (use inv in simp)

lemma wake_retry_inv:
  assumes inv: "sched_inv s"
  shows "sched_inv (wake_retry s l)"
proof (cases "wake_retry s l = s")
  case False
  have ci: "core_inv s" "ready_inv {} s" "credit_inv s" using inv by (simp_all add: sched_inv_def)
  obtain r sub where r: "fmlookup (owned s) l = Some r" "rec_phase r = WaitingRetry"
    and sub: "fmlookup (subscriptions s) (rec_subscription_id r) = Some sub"
    and s': "wake_retry s l = notify_ready (refresh_ready (s\<lparr>subscriptions :=
        fmupd (rec_subscription_id r) (requeued sub l (rec_lane r)) (subscriptions s),
      owned := fmupd l (r\<lparr>rec_phase := Queued\<rparr>) (owned s)\<rparr>) (rec_subscription_id r))"
    (is "_ = notify_ready (refresh_ready ?s _)")
    using False by (auto simp: wake_retry_def requeued_def Let_def split: option.splits if_splits)
  have ok: "sub_ok (config s) ((part (owned s) (rec_subscription_id r))(l \<mapsto> r\<lparr>rec_phase := Queued\<rparr>)) (requeued sub l (rec_lane r))"
    by (rule sub_ok_requeue [OF core_invD(1) [OF ci(1) sub]]) (use r in simp_all)
  have "core_inv ?s"
    by (rule core_change [OF ci(1) r(1) refl _ sub ok, where n = "running s"])
      (use r running_le [OF ci(1)] core_invD(5) [OF ci(1)] in simp_all)
  moreover have "ready_inv {rec_subscription_id r} ?s"
    using ready_inv_change [OF ci(1,2) r(1) refl, of ?s] by simp
  moreover have "credit_inv ?s"
    by (rule credit_inv_same [OF ci(3)]) (use sub r in \<open>auto simp: fm_laws split: if_splits\<close>)
  ultimately show ?thesis using sched_finish s' by simp
qed (use inv in simp)

lemma take_notifications_inv: "sched_inv s \<Longrightarrow> sched_inv (fst (take_notifications s))"
  using notifications_core [of s "{||}"] by (simp add: sched_inv_def take_notifications_def)

lemma unregister_inv:
  assumes inv: "sched_inv s"
  shows "sched_inv (fst (sched_unregister s i))"
proof (cases "snd (sched_unregister s i)")
  case False
  then have "fst (sched_unregister s i) = s" by (auto simp: sched_unregister_def split: option.splits if_splits)
  then show ?thesis using inv by simp
next
  case True
  have ci: "core_inv s" "ready_inv {} s" "credit_inv s" using inv by (simp_all add: sched_inv_def)
  note d = core_invD [OF ci(1)]
  obtain sub where sub: "fmlookup (subscriptions s) i = Some sub" "sub_owned sub = 0"
    and s': "fst (sched_unregister s i) = notify_ready (s\<lparr>subscriptions := fmdrop i (subscriptions s),
      ready := filter (\<lambda>c. c \<noteq> i) (ready s), receive_waiters := filter (\<lambda>c. c \<noteq> i) (receive_waiters s),
      notifications := notifications s |-| {|i|}\<rparr>)" (is "_ = notify_ready ?s")
    using True by (auto simp: sched_unregister_def split: option.splits if_splits)
  have "dom (part (owned s) i) = {}" using sub_okD(4,5) [OF d(1) [OF sub(1)]] sub(2) by simp
  then have none: "rec_subscription_id r \<noteq> i" if "fmlookup (owned s) l = Some r" for l r
    using that by (metis domI emptyE part_Some)
  have "core_inv ?s"
  proof (rule core_invI)
    show "sub_ok (config ?s) (part (owned ?s) j) sub'" if "fmlookup (subscriptions ?s) j = Some sub'" for j sub'
      using that d(1) by (auto split: if_splits)
    show "leases_ok ?s" using d(2) none by (auto simp: leases_ok_def)
    show "bounds_ok ?s" using d(3) fmlen_drop [OF sub(1)] by (simp add: bounds_ok_def)
    show "waiters_ok ?s" using d(4) by (auto simp: waiters_ok_def)
    show "fmlookup (subscriptions ?s) j \<noteq> None" if "j |\<in>| notifications ?s" for j using that d(6) [of j] by auto
  qed (use d(5) in simp)
  moreover have "can_dispatch ?s j \<longleftrightarrow> j \<noteq> i \<and> can_dispatch s j" for j by (auto simp: can_dispatch_def)
  then have "ready_inv {} ?s" using ci(2) by (auto simp: ready_inv_def)
  moreover have "credit_inv ?s" by (rule credit_inv_same [OF ci(3)]) (auto split: if_splits)
  ultimately have "sched_inv ?s" by (simp add: sched_inv_def)
  from sched_notify [OF this] show ?thesis using s' by simp
qed

section \<open>Granting\<close>

text \<open>What the selection promises about the lane it points to.\<close>

lemma selected_head:
  assumes "selected_ready s = Some (i, index)"
  obtains sub k l q r where "fmlookup (subscriptions s) i = Some sub" "index < length (sub_lanes sub)"
    "sub_lanes sub ! index = (k, l # q)" "\<forall>key. k = Some key \<longrightarrow> key |\<notin>| locked_lanes sub"
    "fmlookup (owned s) l = Some r" "\<not> stopped sub" "dispatch_active sub"
    "rec_phase r = QueuedSettlement \<or> running s < max_running_handlers (config s) \<and> rec_phase r = Queued"
proof -
  let ?h = "running s < max_running_handlers (config s)"
  from assms obtain sub where sub: "fmlookup (subscriptions s) i = Some sub" "eligible_lane sub (owned s) ?h = Some index"
    using find_ready_Some by (fastforce simp: selected_ready_def)
  then have pos: "find_position (lane_grantable (owned s) ?h (locked_lanes sub)) (sub_lanes sub) = Some index"
    and act: "\<not> stopped sub" "dispatch_active sub"
    by (auto simp: eligible_lane_def split: if_splits)
  obtain k q' where lane: "sub_lanes sub ! index = (k, q')" by fastforce
  from pos have "index < length (sub_lanes sub)" and g: "lane_grantable (owned s) ?h (locked_lanes sub) (k, q')"
    using lane by (auto simp: find_position_Some)
  moreover obtain l q r where "q' = l # q" "fmlookup (owned s) l = Some r"
    "rec_phase r = QueuedSettlement \<or> ?h \<and> rec_phase r = Queued"
    using g by (auto simp: lane_grantable_def split: list.splits option.splits)
  moreover have "\<forall>key. k = Some key \<longrightarrow> key |\<notin>| locked_lanes sub"
    using g by (auto simp: lane_grantable_def)
  ultimately show thesis using that sub(1) act lane by blast
qed

lemma sub_take_ready_head:
  "i < length (sub_lanes sub) \<Longrightarrow> sub_lanes sub ! i = (k, l # q) \<Longrightarrow> \<exists>sub1. sub_take_ready sub i = (sub1, Some l) \<and>
     receive_waiting sub1 = receive_waiting sub \<and> sub_owned sub1 = sub_owned sub"
  by (simp add: sub_take_ready_def Let_def)

lemma ready_inv_filter: "ready_inv {i} s \<Longrightarrow> ready_inv {i} (s\<lparr>ready := filter (\<lambda>c. c \<noteq> i) (ready s)\<rparr>)"
  by (auto simp: ready_inv_def can_dispatch_def)

text \<open>The state before the refresh of a successful grant.\<close>

definition granted ::
  "delivery_scheduler_state \<Rightarrow> id \<Rightarrow> subscription_schedule_state \<Rightarrow> lease \<Rightarrow> owned_delivery_record \<Rightarrow>
   owned_delivery_phase \<Rightarrow> usize \<Rightarrow> delivery_scheduler_state" where
  "granted s i sub1 l r p n = s\<lparr>subscriptions := fmupd i sub1 (subscriptions s),
     ready := filter (\<lambda>c. c \<noteq> i) (ready s), running := n, owned := fmupd l (r\<lparr>rec_phase := p\<rparr>) (owned s)\<rparr>"

lemma granted_inv:
  assumes inv: "sched_inv s" and sub: "fmlookup (subscriptions s) i = Some sub"
    and lane: "index < length (sub_lanes sub)" "sub_lanes sub ! index = (k, l # q)"
      "\<forall>key. k = Some key \<longrightarrow> key |\<notin>| locked_lanes sub"
    and r: "fmlookup (owned s) l = Some r" and tk: "sub_take_ready sub index = (sub1, Some l)"
    and p: "holding_phase p" and n: "unat n = unat (running s) + of_bool (p = Running)" "n \<le> max_running_handlers (config s)"
  shows "sched_inv (notify_ready (refresh_ready (granted s i sub1 l r p n) i))"
proof -
  have ci: "core_inv s" "ready_inv {} s" "credit_inv s" using inv by (simp_all add: sched_inv_def)
  note ok = core_invD(1) [OF ci(1) sub]
  have "l \<in> set (queued_leases (sub_lanes sub))"
    using lane(1,2) lane_head_queued [of k l q "sub_lanes sub"] nth_mem by metis
  then have v: "rec_subscription_id r = i" "part (owned s) i l = Some r"
    using queued_in_table [OF ok] r by (metis option.inject part_Some)+
  note tr = sub_ok_take [OF ok lane v(2) p tk]
  have nr: "rec_phase r \<noteq> Running" using tr(4) by (auto simp: queued_phase_def)
  have same: "receive_waiting sub1 = receive_waiting sub" "sub_owned sub1 = sub_owned sub"
    using sub_take_ready_head [OF lane(1,2)] tk by auto
  let ?s = "granted s i sub1 l r p n"
  have "core_inv ?s"
    by (rule core_change [OF ci(1) r v(1) _ sub tr(2) same(1) _ n(2)])
      (use v nr n(1) core_invD(5) [OF ci(1)] in \<open>simp_all add: granted_def\<close>)
  moreover have "ready_inv {i} (s\<lparr>subscriptions := fmupd i sub1 (subscriptions s), running := n,
      owned := fmupd l (r\<lparr>rec_phase := p\<rparr>) (owned s)\<rparr>)"
    by (rule ready_inv_change [OF ci(1,2) r v(1)]) simp_all
  then have "ready_inv {i} ?s" by (auto simp: ready_inv_def can_dispatch_def granted_def)
  moreover have "credit_inv ?s"
    by (rule credit_inv_same [OF ci(3)]) (use sub r same in \<open>auto simp: granted_def fm_laws split: if_splits\<close>)
  ultimately show ?thesis by (rule sched_finish)
qed

lemma take_grant_inv:
  assumes inv: "sched_inv s" and e: "queued_phase expected"
  shows "\<exists>s' r. take_grant s i expected = Some (s', r) \<and> sched_inv s'"
proof (cases "selected_ready s")
  case (Some sel)
  obtain j index where sel: "selected_ready s = Some (j, index)" using Some by (cases sel) auto
  show ?thesis
  proof (cases "j = i")
    case True
    obtain sub k l q r where
      sub: "fmlookup (subscriptions s) i = Some sub" and lane: "index < length (sub_lanes sub)" "sub_lanes sub ! index = (k, l # q)"
        "\<forall>key. k = Some key \<longrightarrow> key |\<notin>| locked_lanes sub"
      and r: "fmlookup (owned s) l = Some r" "\<not> stopped sub" "dispatch_active sub"
      and ph: "rec_phase r = QueuedSettlement \<or> running s < max_running_handlers (config s) \<and> rec_phase r = Queued"
      by (rule selected_head [OF sel [unfolded True]])
    obtain sub1 where tk: "sub_take_ready sub index = (sub1, Some l)" using sub_take_ready_head [OF lane(1,2)] by blast
    note g = granted_inv [OF inv sub lane r(1) tk]
    consider "rec_phase r \<noteq> expected" | "rec_phase r = expected" "expected = Queued" | "rec_phase r = expected" "expected = QueuedSettlement"
      using e by (auto simp: queued_phase_def)
    then show ?thesis
    proof cases
      case 1
      then show ?thesis using sched_notify [OF inv] sel True sub lane r by (simp add: take_grant_def)
    next
      case 2
      then have lt: "running s < max_running_handlers (config s)" using ph by auto
      then obtain n where n: "checked_add (running s) 1 = Some n" "unat n = unat (running s) + 1"
        using checked_add_1_None [of "running s"] word_order.extremum_strict
        by (cases "checked_add (running s) 1") (auto simp: checked_add_Some_iff)
      then have "n \<le> max_running_handlers (config s)" using lt by (simp add: word_le_nat_alt word_less_nat_alt)
      then show ?thesis
        using g [of Running n] n 2 sel True sub lane r tk by (simp add: take_grant_def granted_def)
    next
      case 3
      then show ?thesis
        using g [of Settling "running s"] running_le [of s] inv sel True sub lane r tk
        by (simp add: take_grant_def granted_def sched_inv_def)
    qed
  qed (use inv sched_notify sel in \<open>auto simp: take_grant_def\<close>)
qed (use inv in \<open>simp add: take_grant_def\<close>)

section \<open>Releasing\<close>

lemma release_eq:
  assumes "fmlookup (owned s) l = Some r" and "fmlookup (subscriptions s) (rec_subscription_id r) = Some sub"
    and "checked_sub (sub_owned sub) 1 = Some c"
    and "if rec_phase r = Running then checked_sub (running s) 1 = Some n else n = running s"
  shows "release s l = Some (refresh_ready (s\<lparr>owned := fmdrop l (owned s),
    subscriptions := fmupd (rec_subscription_id r) (released sub l r c) (subscriptions s), running := n,
    notifications := finsert (rec_subscription_id r) (notifications s)\<rparr>) (rec_subscription_id r))"
  using assms by (cases "rec_phase r = Running") (simp_all add: release_def Let_def released_def)

lemma core_release:
  assumes inv: "core_inv s" and l: "fmlookup (owned s) l = Some r" "rec_subscription_id r = i"
    and sub: "fmlookup (subscriptions s) i = Some sub" and c: "checked_sub (sub_owned sub) 1 = Some c"
    and n: "unat n + of_bool (rec_phase r = Running) = unat (running s)"
  shows "core_inv (s\<lparr>owned := fmdrop l (owned s), subscriptions := fmupd i (released sub l r c) (subscriptions s),
    running := n, notifications := finsert i (notifications s)\<rparr>)" (is "core_inv ?s")
proof (rule core_invI)
  note d = core_invD [OF inv]
  have ok: "sub_ok (config s) ((part (owned s) i)(l := None)) (released sub l r c)"
    by (rule sub_ok_release [OF d(1) [OF sub] _ c]) (use l in simp)
  show "sub_ok (config ?s) (part (owned ?s) j) sub''" if "fmlookup (subscriptions ?s) j = Some sub''" for j sub''
  proof (cases "j = i")
    case True
    then show ?thesis using that ok by (simp add: part_drop)
  next
    case False
    then show ?thesis using that d(1) part_drop_other [OF l(1)] l(2) by simp
  qed
  show "leases_ok ?s" using d(2) by (auto simp: leases_ok_def)
  have "running_count (owned s) = running_count (fmdrop l (owned s)) + of_bool (rec_phase r = Running)"
    unfolding running_count_def fmcount_def by (simp add: fmsum_drop [OF l(1)])
  then show "bounds_ok ?s"
    using d(3) n fmlen_drop [OF l(1)] sub unfolding bounds_ok_def by (simp add: fm_laws)
  show "waiters_ok ?s" using d(4) sub by (auto simp: waiters_ok_def)
  show "distinct (ready ?s)" using d(5) by simp
  show "fmlookup (subscriptions ?s) j \<noteq> None" if "j |\<in>| notifications ?s" for j using that d(6) [of j] by auto
qed

lemma release_ok:
  assumes inv: "core_inv s" and rdy: "ready_inv X s"
  shows "\<exists>s'. release s l = Some s' \<and> core_inv s' \<and> ready_inv X s'"
proof (cases "fmlookup (owned s) l")
  case None
  then show ?thesis using assms by (simp add: release_def)
next
  case (Some r)
  let ?i = "rec_subscription_id r"
  obtain sub where sub: "fmlookup (subscriptions s) ?i = Some sub" using lease_registered [OF inv Some] by blast
  note ok = core_invD(1) [OF inv sub]
  have "l \<in> dom (part (owned s) ?i)" using Some by (intro domI [of _ _ r]) simp
  then have "card (dom (part (owned s) ?i)) \<noteq> 0" using sub_okD(4) [OF ok] by auto
  then obtain c where c: "checked_sub (sub_owned sub) 1 = Some c"
    using checked_sub_1 [of "sub_owned sub"] sub_okD(5) [OF ok] by auto
  obtain n where n: "if rec_phase r = Running then checked_sub (running s) 1 = Some n else n = running s"
    "unat n + of_bool (rec_phase r = Running) = unat (running s)"
  proof (cases "rec_phase r = Running")
    case True
    then show thesis using that checked_sub_1 [OF running_pos [OF inv Some True]] by auto
  qed (use that in auto)
  let ?s = "s\<lparr>owned := fmdrop l (owned s), subscriptions := fmupd ?i (released sub l r c) (subscriptions s),
    running := n, notifications := finsert ?i (notifications s)\<rparr>"
  have "core_inv (refresh_ready ?s ?i)"
    by (rule refresh_core [OF core_release [OF inv Some refl sub c n(2)]])
  moreover have "ready_inv (insert ?i X) ?s"
    by (rule ready_inv_other [OF inv rdy]) (use Some in auto)
  then have "ready_inv X (refresh_ready ?s ?i)" by (rule refresh_ready_inv)
  ultimately show ?thesis using release_eq [OF Some sub c n(1)] by blast
qed

section \<open>Granting receives\<close>

lemma core_grant:
  assumes inv: "core_inv s" and sub: "fmlookup (subscriptions s) i = Some sub" "receive_waiting sub"
    and w: "receive_waiters s = i # rest" and l: "next_lease s = Some l"
    and c: "checked_add (sub_owned sub) 1 = Some c" "sub_owned sub < max_owned_per_subscription (config s)"
    and room: "fmlen (owned s) < unat (max_owned_deliveries (config s))"
    and s': "s' = s\<lparr>receive_waiters := rest, next_lease := checked_add l 1,
      subscriptions := fmupd i (sub\<lparr>receive_waiting := False, receive_reservation := Some l,
        receive_taken := False, sub_owned := c\<rparr>) (subscriptions s),
      owned := fmupd l \<lparr>rec_subscription_id = i, rec_phase = ReservedReceive, rec_created_at = None, rec_lane = None\<rparr> (owned s),
      notifications := finsert i (notifications s)\<rparr>"
  shows "core_inv s'" and "fmlookup (owned s) l = None" and "can_dispatch s' j = can_dispatch s j"
proof -
  note d = core_invD [OF inv] and ok = core_invD(1) [OF inv sub(1)]
  let ?r = "\<lparr>rec_subscription_id = i, rec_phase = ReservedReceive, rec_created_at = None, rec_lane = None\<rparr>"
  show new: "fmlookup (owned s) l = None"
    using d(2) l by (cases "fmlookup (owned s) l") (auto simp: leases_ok_def)
  have oks: "sub_ok (config s) ((part (owned s) i)(l \<mapsto> ?r))
      (sub\<lparr>receive_waiting := False, receive_reservation := Some l, receive_taken := False, sub_owned := c\<rparr>)"
    by (rule sub_ok_grant [OF ok part_None [OF new] sub(2) _ _ c(1)])
      (use c(2) sub_okD(5) [OF ok] in \<open>simp_all add: word_less_nat_alt\<close>)
  show "core_inv s'"
  proof (rule core_invI)
    show "sub_ok (config s') (part (owned s') j) sub''" if "fmlookup (subscriptions s') j = Some sub''" for j sub''
    proof (cases "j = i")
      case True
      then show ?thesis using that oks by (simp add: s' part_upd)
    next
      case False
      then show ?thesis using that d(1) part_upd_other [of "owned s" l ?r j] new by (simp add: s')
    qed
    have "x < m" if "fmlookup (owned s') x = Some r" "next_lease s' = Some m" for x r m
    proof -
      have m: "unat m = unat l + 1" using that(2) by (simp add: s' checked_add_Some_iff)
      have "x = l \<or> x < l" using that(1) d(2) l by (auto simp: s' leases_ok_def split: if_splits)
      then show ?thesis using m by (auto simp: word_less_nat_alt)
    qed
    then show "leases_ok s'" using d(2) by (auto simp: leases_ok_def s')
    show "bounds_ok s'"
      using d(3) new room sub(1) unfolding bounds_ok_def running_count_def fmcount_def
      by (simp add: s' fm_laws fmsum_upd_new)
    show "waiters_ok s'" using d(4) w sub by (auto simp: waiters_ok_def s')
    show "distinct (ready s')" using d(5) by (simp add: s')
    show "fmlookup (subscriptions s') j \<noteq> None" if "j |\<in>| notifications s'" for j using that d(6) [of j] by (auto simp: s')
  qed
  have "eligible_lane x (owned s') True = eligible_lane x (owned s) True" if "fmlookup (subscriptions s) k = Some x" for k x
  proof (rule eligible_cong)
    fix y assume "y \<in> set (queued_leases (sub_lanes x))"
    then have "y \<noteq> l" using queued_in_table [OF d(1) [OF that]] new by (metis option.distinct(1))
    then show "fmlookup (owned s') y = fmlookup (owned s) y" by (simp add: s')
  qed
  moreover have "eligible_lane (sub\<lparr>receive_waiting := False, receive_reservation := Some l, receive_taken := False,
      sub_owned := c\<rparr>) own True = eligible_lane sub own True" for own
    by (simp add: eligible_lane_def)
  ultimately have "fmlookup (subscriptions s') j = Some x' \<Longrightarrow> \<exists>x. fmlookup (subscriptions s) j = Some x \<and>
      eligible_lane x' (owned s') True = eligible_lane x (owned s) True" for x'
    using sub(1) by (auto simp: s' split: if_splits)
  moreover have "fmlookup (subscriptions s') j = None \<longleftrightarrow> fmlookup (subscriptions s) j = None" using sub(1) by (auto simp: s')
  ultimately show "can_dispatch s' j = can_dispatch s j"
    unfolding can_dispatch_def by (metis not_None_eq option.inject)
qed

text \<open>What a round of grants leaves alone: the lanes, the records of existing leases; the leases it adds
  are reservations with identities that were never used.\<close>

definition dispatch_part :: "subscription_schedule_state \<Rightarrow> lane_queue list \<times> ordering_lane_key fset \<times> bool \<times> bool" where
  "dispatch_part sub = (sub_lanes sub, locked_lanes sub, stopped sub, dispatch_active sub)"

definition subs_same :: "delivery_scheduler_state \<Rightarrow> delivery_scheduler_state \<Rightarrow> bool" where
  "subs_same s s' \<longleftrightarrow>
     (\<forall>i. map_option dispatch_part (fmlookup (subscriptions s') i) = map_option dispatch_part (fmlookup (subscriptions s) i))"

definition fresh_only :: "delivery_scheduler_state \<Rightarrow> delivery_scheduler_state \<Rightarrow> bool" where
  "fresh_only s s' \<longleftrightarrow> (\<forall>l r. fmlookup (owned s) l = Some r \<longrightarrow> fmlookup (owned s') l = Some r) \<and>
     (\<forall>l r. fmlookup (owned s') l = Some r \<longrightarrow> fmlookup (owned s) l = Some r \<or>
        rec_phase r = ReservedReceive \<and> (\<exists>n. next_lease s = Some n \<and> n \<le> l)) \<and>
     (\<forall>n'. next_lease s' = Some n' \<longrightarrow> (\<exists>n. next_lease s = Some n \<and> n \<le> n'))"

definition grant_frame :: "delivery_scheduler_state \<Rightarrow> delivery_scheduler_state \<Rightarrow> bool" where
  "grant_frame s s' \<longleftrightarrow> config s' = config s \<and> running s' = running s \<and> ready s' = ready s \<and>
     notifications s |\<subseteq>| notifications s' \<and> subs_same s s' \<and> fresh_only s s'"

lemma subs_same_refl [simp]: "subs_same s s"
  by (simp add: subs_same_def)

lemma fresh_only_refl [simp]: "fresh_only s s"
  by (auto simp: fresh_only_def)

lemma subs_same_trans: "subs_same s s' \<Longrightarrow> subs_same s' s'' \<Longrightarrow> subs_same s s''"
  by (simp add: subs_same_def)

lemma fresh_only_trans:
  assumes "fresh_only s s'" and "fresh_only s' s''"
  shows "fresh_only s s''"
proof -
  have next_trans: "\<exists>n. next_lease s = Some n \<and> n \<le> x" if "next_lease s' = Some n'" "n' \<le> x" for n' x
    using assms(1) that order_trans unfolding fresh_only_def by blast
  have "fmlookup (owned s) l = Some r \<or> rec_phase r = ReservedReceive \<and> (\<exists>n. next_lease s = Some n \<and> n \<le> l)"
    if "fmlookup (owned s'') l = Some r" for l r
  proof (cases "fmlookup (owned s') l = Some r")
    case True
    then show ?thesis using assms(1) unfolding fresh_only_def by blast
  next
    case False
    then show ?thesis using assms(2) that next_trans unfolding fresh_only_def by blast
  qed
  moreover have "\<exists>n. next_lease s = Some n \<and> n \<le> x" if "next_lease s'' = Some x" for x
    using assms(2) that next_trans unfolding fresh_only_def by blast
  moreover have "fmlookup (owned s'') l = Some r" if "fmlookup (owned s) l = Some r" for l r
    using assms that unfolding fresh_only_def by blast
  ultimately show ?thesis unfolding fresh_only_def by blast
qed

lemma grant_frame_refl: "grant_frame s s"
  by (simp add: grant_frame_def)

lemma grant_frame_trans: "grant_frame s s' \<Longrightarrow> grant_frame s' s'' \<Longrightarrow> grant_frame s s''"
  using subs_same_trans [of s s' s''] fresh_only_trans [of s s' s''] by (auto simp: grant_frame_def)

lemma core_waiters:
  "core_inv s \<Longrightarrow> distinct ws \<Longrightarrow> set ws = set (receive_waiters s) \<Longrightarrow> core_inv (s\<lparr>receive_waiters := ws\<rparr>)"
  by (simp add: core_inv_def leases_ok_def bounds_ok_def waiters_ok_def)

definition at_cap :: "delivery_scheduler_state \<Rightarrow> id \<Rightarrow> bool" where
  "at_cap s i \<longleftrightarrow> (\<forall>sub. fmlookup (subscriptions s) i = Some sub \<longrightarrow> max_owned_per_subscription (config s) \<le> sub_owned sub)"

lemma grant_loop_ok:
  assumes "core_inv s" and "ready_inv X s" and "receive_waiters s = us @ ps" and "length us = n"
    and "\<forall>i \<in> set ps. at_cap s i"
  shows "\<exists>s'. grant_loop n s = Some s' \<and> core_inv s' \<and> ready_inv X s' \<and> credit_inv s' \<and> grant_frame s s'"
  using assms
proof (induction n arbitrary: s us ps)
  case 0
  have "credit_inv s"
    using 0 core_invD(4) [OF 0(1)] by (auto simp: credit_inv_def waiters_ok_def at_cap_def)
  then show ?case using 0 grant_frame_refl by simp
next
  case (Suc n)
  note inv = Suc.prems(1) and d = core_invD [OF Suc.prems(1)]
  obtain i us' where us: "us = i # us'" "length us' = n" using Suc.prems(4) by (cases us) auto
  have w: "receive_waiters s = i # us' @ ps" "distinct (i # us' @ ps)"
    using Suc.prems(3) us d(4) by (simp_all add: waiters_ok_def)
  have len: "of_nat (fmlen (owned s)) < max_owned_deliveries (config s) \<longleftrightarrow>
      fmlen (owned s) < unat (max_owned_deliveries (config s))"
    using d(3) unat_bound [of "max_owned_deliveries (config s)"]
    by (simp add: bounds_ok_def word_less_nat_alt unat_of_nat_small)
  obtain sub where sub: "fmlookup (subscriptions s) i = Some sub" "receive_waiting sub"
    using d(4) w(1) by (auto simp: waiters_ok_def)
  have go: "\<not> stopped sub" using sub_okD(3) [OF d(1) [OF sub(1)]] sub(2) by (simp add: receive_ok_def)
  consider "max_owned_deliveries (config s) \<le> of_nat (fmlen (owned s))"
    | "\<not> max_owned_deliveries (config s) \<le> of_nat (fmlen (owned s))" "max_owned_per_subscription (config s) \<le> sub_owned sub"
    | "\<not> max_owned_deliveries (config s) \<le> of_nat (fmlen (owned s))" "\<not> max_owned_per_subscription (config s) \<le> sub_owned sub" "next_lease s = None"
    | l where "\<not> max_owned_deliveries (config s) \<le> of_nat (fmlen (owned s))" "\<not> max_owned_per_subscription (config s) \<le> sub_owned sub" "next_lease s = Some l"
    by (cases "next_lease s") auto
  then show ?case
  proof cases
    case 1
    then have "\<not> fmlen (owned s) < unat (max_owned_deliveries (config s))" using len leD by blast
    then have "credit_inv s" by (simp add: credit_inv_def)
    then show ?thesis using 1 Suc.prems(1,2) grant_frame_refl by auto
  next
    case 2
    let ?s = "s\<lparr>receive_waiters := us' @ ps @ [i]\<rparr>"
    have "core_inv ?s" by (rule core_waiters [OF inv]) (use w in auto)
    moreover have "ready_inv X ?s" using Suc.prems(2) by (simp add: ready_inv_def can_dispatch_def)
    moreover have "\<forall>j \<in> set (ps @ [i]). at_cap ?s j" using Suc.prems(5) 2 sub by (simp add: at_cap_def)
    ultimately obtain s' where "grant_loop n ?s = Some s'" "core_inv s'" "ready_inv X s'" "credit_inv s'" "grant_frame ?s s'"
      using Suc.IH [of ?s us' "ps @ [i]"] us by auto
    moreover from this have "grant_frame s s'" by (auto simp: grant_frame_def subs_same_def fresh_only_def)
    ultimately show ?thesis using 2 w sub go by simp
  next
    case 3
    let ?s = "s\<lparr>notifications := notifications s |\<union>| fset_of_list (i # us' @ ps)\<rparr>"
    have "fmlookup (subscriptions s) j \<noteq> None" if "j |\<in>| notifications s |\<union>| fset_of_list (i # us' @ ps)" for j
      using that d(4,6) w(1) by (auto simp: fset_of_list_elem waiters_ok_def)
    then have "core_inv ?s" using notifications_core [OF inv] by blast
    moreover have "credit_inv ?s" using 3 by (simp add: credit_inv_def)
    moreover have "grant_frame s ?s" by (auto simp: grant_frame_def subs_same_def fresh_only_def)
    ultimately show ?thesis using 3 w sub go Suc.prems(2) by simp
  next
    case (4 l)
    then obtain c where c: "checked_add (sub_owned sub) 1 = Some c"
      using checked_add_1_None [of "sub_owned sub"] word_order.extremum_strict
      by (cases "checked_add (sub_owned sub) 1") auto
    define s1 where "s1 = s\<lparr>receive_waiters := us' @ ps, next_lease := checked_add l 1,
      subscriptions := fmupd i (sub\<lparr>receive_waiting := False, receive_reservation := Some l,
        receive_taken := False, sub_owned := c\<rparr>) (subscriptions s),
      owned := fmupd l \<lparr>rec_subscription_id = i, rec_phase = ReservedReceive, rec_created_at = None, rec_lane = None\<rparr> (owned s),
      notifications := finsert i (notifications s)\<rparr>"
    note g = core_grant [OF inv sub w(1) 4(3) c _ _ s1_def]
    have core: "core_inv s1" and new: "fmlookup (owned s) l = None" and disp: "can_dispatch s1 j = can_dispatch s j" for j
      using g 4(1,2) len by (simp_all add: linorder_not_le)
    have "ready_inv X s1" by (rule ready_inv_same [OF Suc.prems(2) _ disp]) (simp add: s1_def)
    moreover have "\<forall>j \<in> set ps. at_cap s1 j" using Suc.prems(5) w(2) by (auto simp: at_cap_def s1_def)
    ultimately obtain s' where "grant_loop n s1 = Some s'" "core_inv s'" "ready_inv X s'" "credit_inv s'" "grant_frame s1 s'"
      using Suc.IH [of s1 us' ps] us core by (auto simp: s1_def)
    moreover have "grant_frame s s1"
      using new 4(3) sub(1)
      by (auto simp: grant_frame_def subs_same_def fresh_only_def s1_def dispatch_part_def
          checked_add_Some_iff word_le_nat_alt)
    ultimately show ?thesis using 4 w sub go c grant_frame_trans by (auto simp: s1_def)
  qed
qed

lemma grant_receives_ok:
  assumes "core_inv s" and "ready_inv X s"
  shows "\<exists>s'. grant_receives s = Some s' \<and> core_inv s' \<and> ready_inv X s' \<and> credit_inv s' \<and> grant_frame s s'"
  using grant_loop_ok [OF assms, of "receive_waiters s" "[]"] by (simp add: grant_receives_def)

end
