(* ===== verification/Scheduler_Steps.thy ===== *)
theory Scheduler_Steps
  imports Scheduler_Ops
begin

text \<open>
  The operations that hand out and take back receive credits keep the scheduler's invariant, and the
  scheduler as a transition system: every call the dispatch workers and pumps make is one action, in any
  order.
\<close>

section \<open>Operations that move receive credits\<close>

lemma request_core:
  assumes ci: "core_inv s" "ready_inv {} s" and sub: "fmlookup (subscriptions s) i = Some sub" "\<not> stopped sub"
      "\<not> receive_waiting sub" "receive_reservation sub = None"
    and s1: "s1 = s\<lparr>subscriptions := fmupd i (sub\<lparr>receive_waiting := True\<rparr>) (subscriptions s),
      receive_waiters := receive_waiters s @ [i]\<rparr>"
  shows "core_inv s1" and "ready_inv {} s1"
proof -
  have "waiters_ok s1" using core_invD(4) [OF ci(1)] sub by (auto simp: waiters_ok_def s1)
  then show "core_inv s1"
    using core_sub [OF ci(1) sub(1) sub_ok_flags(3) [OF core_invD(1) [OF ci(1) sub(1)] sub(2,4)], of s1] by (simp add: s1)
  have "can_dispatch s1 j = can_dispatch s j" for j using sub by (auto simp: can_dispatch_def eligible_lane_def s1)
  then show "ready_inv {} s1" by (intro ready_inv_same [OF ci(2)]) (simp_all add: s1)
qed

lemma request_receive_inv:
  assumes inv: "sched_inv s"
  shows "\<exists>s'. request_receive s i = Some s' \<and> sched_inv s'"
proof -
  have ci: "core_inv s" "ready_inv {} s" using inv by (simp_all add: sched_inv_def)
  consider "request_receive s i = Some s"
    | sub where "fmlookup (subscriptions s) i = Some sub" "\<not> stopped sub" "\<not> receive_waiting sub" "receive_reservation sub = None"
    by (cases "fmlookup (subscriptions s) i") (fastforce simp: request_receive_def)+
  then show ?thesis
  proof cases
    case (2 sub)
    then show ?thesis using grant_receives_ok [OF request_core [OF ci 2 refl]] by (auto simp: request_receive_def sched_inv_def)
  qed (use inv in simp)
qed

lemma release_known:
  assumes "core_inv s" and "release s l = Some s'"
  shows "fmdom (subscriptions s') = fmdom (subscriptions s)"
proof (cases "fmlookup (owned s) l")
  case (Some r)
  then obtain sub where "fmlookup (subscriptions s) (rec_subscription_id r) = Some sub"
    using lease_registered [OF assms(1)] by blast
  then show ?thesis using assms(2) Some
    by (auto simp: release_def Let_def fmdom_notD fmdomI finsert_absorb split: option.splits if_splits)
qed (use assms in \<open>simp add: release_def\<close>)

lemma complete_inv:
  assumes inv: "sched_inv s"
  shows "\<exists>s'. complete s l = Some s' \<and> sched_inv s'"
proof -
  obtain s1 where s1: "release s l = Some s1" "core_inv s1" "ready_inv {} s1"
    using release_ok [of s "{}" l] inv by (auto simp: sched_inv_def)
  then obtain s2 where "grant_receives s1 = Some s2" "sched_inv s2"
    using grant_receives_ok by (auto simp: sched_inv_def)
  then show ?thesis using s1 sched_notify by (auto simp: complete_def)
qed

text \<open>Withdrawing a subscription's wish for a receive, with or without stopping it.\<close>

lemma withdraw_core:
  assumes core: "core_inv s" and sub: "fmlookup (subscriptions s) i = Some sub"
    and ok: "sub_ok (config s) (part (owned s) i) sub'" and nw: "\<not> receive_waiting sub'"
    and s1: "s1 = s\<lparr>subscriptions := fmupd i sub' (subscriptions s), receive_waiters := filter (\<lambda>c. c \<noteq> i) (receive_waiters s)\<rparr>"
  shows "core_inv s1"
proof -
  have "waiters_ok s1" using core_invD(4) [OF core] nw by (auto simp: waiters_ok_def s1)
  then show ?thesis using core_sub [OF core sub ok, of s1] by (simp add: s1)
qed

lemma withdraw_ok:
  assumes ci: "core_inv s" "ready_inv {} s" and sub: "fmlookup (subscriptions s) i = Some sub"
    and ok: "sub_ok (config s) (part (owned s) i) sub'" and nw: "\<not> receive_waiting sub'"
    and s1: "s1 = s\<lparr>subscriptions := fmupd i sub' (subscriptions s), receive_waiters := filter (\<lambda>c. c \<noteq> i) (receive_waiters s)\<rparr>"
  shows "\<exists>s2. release_unclaimed s1 u = Some s2 \<and> core_inv s2 \<and> ready_inv {i} s2 \<and> fmlookup (subscriptions s2) i \<noteq> None"
proof -
  have core: "core_inv s1" by (rule withdraw_core [OF ci(1) sub ok nw s1])
  have rdy: "ready_inv {i} s1" by (rule ready_inv_sub [OF ci]) (simp_all add: s1)
  have known: "fmlookup (subscriptions s1) i \<noteq> None" by (simp add: s1)
  show ?thesis
  proof (cases u)
    case None
    then show ?thesis using core rdy known by (simp add: release_unclaimed_def)
  next
    case (Some l)
    obtain s2 where s2: "release s1 l = Some s2" "core_inv s2" "ready_inv {i} s2"
      using release_ok [OF core rdy] by blast
    have "fmlookup (subscriptions s2) i \<noteq> None"
      using release_known [OF core s2(1)] known by (metis fmdom_notD fmdom_notI)
    then show ?thesis using s2 Some by (simp add: release_unclaimed_def)
  qed
qed

lemma cancel_receive_inv:
  assumes inv: "sched_inv s"
  shows "\<exists>s'. cancel_receive s i = Some s' \<and> sched_inv s'"
proof (cases "fmlookup (subscriptions s) i")
  case (Some sub)
  have ci: "core_inv s" "ready_inv {} s" using inv by (simp_all add: sched_inv_def)
  note ok = core_invD(1) [OF ci(1) Some]
  let ?s = "s\<lparr>subscriptions := fmupd i (sub\<lparr>receive_waiting := False\<rparr>) (subscriptions s),
    receive_waiters := filter (\<lambda>c. c \<noteq> i) (receive_waiters s)\<rparr>"
  have core: "core_inv ?s" by (rule withdraw_core [OF ci(1) Some sub_ok_flags(2) [OF ok]]) simp_all
  have "can_dispatch ?s j = can_dispatch s j" for j using Some by (auto simp: can_dispatch_def eligible_lane_def)
  then have rdy: "ready_inv {} ?s" by (intro ready_inv_same [OF ci(2)]) simp_all
  obtain s2 where s2: "release_unclaimed ?s (unclaimed sub) = Some s2" "core_inv s2" "ready_inv {} s2"
    using release_ok [OF core rdy] core rdy by (cases "unclaimed sub") (auto simp: release_unclaimed_def)
  then obtain s3 where "grant_receives s2 = Some s3" "sched_inv s3"
    using grant_receives_ok [of s2 "{}"] by (auto simp: sched_inv_def)
  then show ?thesis using s2 Some sched_notify by (auto simp: cancel_receive_def)
qed (use inv in \<open>simp add: cancel_receive_def\<close>)

lemma stop_subscription_inv:
  assumes inv: "sched_inv s"
  shows "\<exists>s'. stop_subscription s i = Some s' \<and> sched_inv s'"
proof (cases "fmlookup (subscriptions s) i")
  case (Some sub)
  have ci: "core_inv s" "ready_inv {} s" using inv by (simp_all add: sched_inv_def)
  let ?sub = "sub\<lparr>stopped := True, dispatch_active := False, receive_waiting := False\<rparr>"
  let ?s = "s\<lparr>subscriptions := fmupd i ?sub (subscriptions s), receive_waiters := filter (\<lambda>c. c \<noteq> i) (receive_waiters s)\<rparr>"
  obtain s2 where s2: "release_unclaimed ?s (unclaimed sub) = Some s2" "core_inv s2" "ready_inv {i} s2"
      "fmlookup (subscriptions s2) i \<noteq> None"
    using withdraw_ok [OF ci Some sub_ok_flags(5) [OF core_invD(1) [OF ci(1) Some]] _ refl, of "unclaimed sub"] by auto
  let ?s3 = "(refresh_ready s2 i)\<lparr>notifications := finsert i (notifications s2)\<rparr>"
  have "core_inv ?s3"
    by (rule notifications_core [OF refresh_core [OF s2(2)]]) (use s2(4) core_invD(6) [OF s2(2)] in auto)
  moreover have "ready_inv {} ?s3" using refresh_ready_inv [of i "{}" s2] s2(3) by simp
  ultimately obtain s4 where "grant_receives ?s3 = Some s4" "sched_inv s4"
    using grant_receives_ok [of ?s3 "{}"] by (auto simp: sched_inv_def)
  then show ?thesis using s2(1) Some sched_notify by (auto simp: stop_subscription_def Let_def)
qed (use inv in \<open>simp add: stop_subscription_def\<close>)

section \<open>The scheduler as a transition system\<close>

datatype sched_action =
    Register id
  | SetDispatchActive id bool
  | RequestReceive id
  | CancelReceive id
  | TakeReceiveReservation id
  | RecordOwnedStart lease instant
  | Enqueue lease "ordering_lane_key option"
  | EnqueueSettlement lease "ordering_lane_key option"
  | TakeReady id
  | TakeSettlementReady id
  | HandlerFinished lease
  | DeferUnstartedRetry lease
  | FinishAttemptWaiting lease
  | WakeRetry lease
  | Complete lease
  | StopSubscription id
  | Unregister id
  | TakeNotifications

fun sched_exec :: "delivery_scheduler_state \<Rightarrow> sched_action \<Rightarrow> delivery_scheduler_state option" where
  "sched_exec s (Register i) = Some (fst (register s i))"
| "sched_exec s (SetDispatchActive i active) = Some (set_dispatch_active s i active)"
| "sched_exec s (RequestReceive i) = request_receive s i"
| "sched_exec s (CancelReceive i) = cancel_receive s i"
| "sched_exec s (TakeReceiveReservation i) = Some (fst (take_receive_reservation s i))"
| "sched_exec s (RecordOwnedStart l at) = Some (record_owned_start s l at)"
| "sched_exec s (Enqueue l lane) = Some (enqueue s l lane)"
| "sched_exec s (EnqueueSettlement l lane) = Some (enqueue_settlement s l lane)"
| "sched_exec s (TakeReady i) = map_option fst (take_ready s i)"
| "sched_exec s (TakeSettlementReady i) = map_option fst (take_settlement_ready s i)"
| "sched_exec s (HandlerFinished l) = handler_finished s l"
| "sched_exec s (DeferUnstartedRetry l) = defer_unstarted_retry s l"
| "sched_exec s (FinishAttemptWaiting l) = Some (finish_attempt_waiting s l)"
| "sched_exec s (WakeRetry l) = Some (wake_retry s l)"
| "sched_exec s (Complete l) = complete s l"
| "sched_exec s (StopSubscription i) = stop_subscription s i"
| "sched_exec s (Unregister i) = Some (fst (sched_unregister s i))"
| "sched_exec s TakeNotifications = Some (fst (take_notifications s))"

definition sched_step :: "delivery_scheduler_state \<Rightarrow> sched_action \<Rightarrow> delivery_scheduler_state \<Rightarrow> bool" where
  "sched_step s a s' \<longleftrightarrow> sched_exec s a = Some s'"

definition sched_init :: "delivery_scheduler_state \<Rightarrow> bool" where
  "sched_init s \<longleftrightarrow> (\<exists>cfg. s = scheduler_new cfg)"

definition sched_reachable :: "delivery_scheduler_state \<Rightarrow> bool" where
  "sched_reachable s \<longleftrightarrow> reach sched_init sched_step s"

lemma sched_exec_inv:
  assumes "sched_inv s"
  shows "\<exists>s'. sched_exec s a = Some s' \<and> sched_inv s'"
proof (cases a)
  case (TakeReady i)
  then show ?thesis using take_grant_inv [OF assms, of Queued i] by (auto simp: take_ready_def queued_phase_def)
next
  case (TakeSettlementReady i)
  then show ?thesis
    using take_grant_inv [OF assms, of QueuedSettlement i] by (auto simp: take_settlement_ready_def queued_phase_def)
qed (use assms in \<open>simp_all add: register_inv set_dispatch_active_inv request_receive_inv cancel_receive_inv take_receive_inv
    record_owned_start_inv enqueue_def enqueue_settlement_def enqueue_phase_inv handler_finished_def defer_unstarted_retry_def
    leave_running_inv finish_attempt_waiting_inv wake_retry_inv complete_inv stop_subscription_inv unregister_inv
    take_notifications_inv queued_phase_def holding_phase_def\<close>)

interpretation sched: transition_invariant sched_init sched_step sched_inv
proof
  show "sched_inv s" if "sched_init s" for s using that new_sched_inv by (auto simp: sched_init_def)
  show "sched_inv s'" if "sched_inv s" "sched_step s a s'" for s a s'
    using sched_exec_inv [OF that(1), of a] that(2) by (simp add: sched_step_def)
qed

lemma reachable_step: "sched_reachable s \<Longrightarrow> sched_exec s a = Some s' \<Longrightarrow> sched_reachable s'"
  unfolding sched_reachable_def by (rule reach_step) (auto simp: sched_step_def)

lemma reachable_inv: "sched_reachable s \<Longrightarrow> sched_inv s"
  unfolding sched_reachable_def by (rule sched.inv_reach)

end
