(* ===== verification/Scheduler_Props.thy ===== *)
theory Scheduler_Props
  imports Scheduler_Steps
begin

text \<open>
  What the delivery scheduler promises over every interleaving of the calls its workers make: capacity is
  never exceeded and the counters are exact, no call panics, an ordered lane is held by one delivery at a
  time, work that can be granted is granted, no wakeup is lost and no receive credit lies idle, and a lease
  identity is never used twice.
\<close>

section \<open>Runs\<close>

fun sched_run :: "delivery_scheduler_state \<Rightarrow> sched_action list \<Rightarrow> delivery_scheduler_state option" where
  "sched_run s [] = Some s"
| "sched_run s (a # as) = Option.bind (sched_exec s a) (\<lambda>s'. sched_run s' as)"

lemma sched_run_reach: "sched_run s as = Some s' \<Longrightarrow> sched_reachable s \<Longrightarrow> sched_reachable s'"
  by (induction as arbitrary: s) (auto simp: bind_eq_Some_conv dest: reachable_step)

lemma new_reachable: "sched_reachable (scheduler_new cfg)"
  unfolding sched_reachable_def by (rule reach_init) (auto simp: sched_init_def)

text \<open>Two subscriptions of a small scheduler: the first has a running delivery on an ordered lane and a
  second one queued behind it, the second has an independent delivery queued and waits for another receive.\<close>

definition tiny_config :: scheduling_config where
  "tiny_config = \<lparr>max_running_handlers = 2, max_owned_deliveries = 4, max_owned_per_subscription = 2, max_subscriptions = 2\<rparr>"

definition tiny_lane :: ordering_lane_key where
  "tiny_lane = \<lparr>lane_topic = ''t'', lane_ordering_key = Some ''k'', lane_subscription_id = 1\<rparr>"

definition receive_one :: "id \<Rightarrow> lease \<Rightarrow> ordering_lane_key option \<Rightarrow> sched_action list" where
  "receive_one i l lane = [RequestReceive i, TakeReceiveReservation i, RecordOwnedStart l (unat l), Enqueue l lane]"

definition tiny_actions :: "sched_action list" where
  "tiny_actions = [Register 1, Register 2, SetDispatchActive 1 True, SetDispatchActive 2 True] @
     receive_one 1 1 (Some tiny_lane) @ receive_one 1 2 (Some tiny_lane) @ [TakeNotifications, TakeReady 1] @ receive_one 2 3 None"

definition tiny_state :: delivery_scheduler_state where
  "tiny_state = the (sched_run (scheduler_new tiny_config) tiny_actions)"

lemma tiny_reachable: "sched_reachable tiny_state"
proof -
  have "sched_run (scheduler_new tiny_config) tiny_actions \<noteq> None" by code_simp
  then show ?thesis using sched_run_reach [OF _ new_reachable] by (auto simp: tiny_state_def)
qed

section \<open>Capacity\<close>

lemma part_card: "card (dom (part own i)) = fmcount (\<lambda>_ r. rec_subscription_id r = i) own"
  by (simp add: fmcount_card dom_def)

text \<open>C15: In every reachable state the scheduler owns at most \<open>max_owned_deliveries\<close> leases and holds at
  most \<open>max_subscriptions\<close> registrations; its running counter is exactly the number of leases in the
  running phase and never exceeds \<open>max_running_handlers\<close>; and the counter of each subscription is exactly
  the number of its leases and never exceeds \<open>max_owned_per_subscription\<close>.\<close>

theorem scheduler_capacity:
  assumes "sched_reachable s"
  shows "fmlen (owned s) \<le> unat (max_owned_deliveries (config s)) \<and>
    fmlen (subscriptions s) \<le> unat (max_subscriptions (config s)) \<and>
    unat (running s) = fmcount (\<lambda>_ r. rec_phase r = Running) (owned s) \<and>
    running s \<le> max_running_handlers (config s) \<and>
    (\<forall>i sub. fmlookup (subscriptions s) i = Some sub \<longrightarrow>
       unat (sub_owned sub) = fmcount (\<lambda>_ r. rec_subscription_id r = i) (owned s) \<and>
       sub_owned sub \<le> max_owned_per_subscription (config s))"
proof -
  have core: "core_inv s" using reachable_inv [OF assms] by (simp add: sched_inv_def)
  have "unat (sub_owned sub) = fmcount (\<lambda>_ r. rec_subscription_id r = i) (owned s)"
    "sub_owned sub \<le> max_owned_per_subscription (config s)" if "fmlookup (subscriptions s) i = Some sub" for i sub
    using sub_okD(5,6) [OF core_invD(1) [OF core that]] by (simp_all add: part_card word_le_nat_alt)
  then show ?thesis
    using core_invD(3) [OF core] running_le [OF core] by (simp add: bounds_ok_def running_count_def)
qed

theorem scheduler_capacity_witness:
  "sched_reachable tiny_state \<and> unat (running tiny_state) = 1 \<and> fmlen (owned tiny_state) = 3 \<and>
   fmcount (\<lambda>_ r. rec_phase r = Running) (owned tiny_state) = 1"
proof -
  have "running tiny_state = 1" "fmlen (owned tiny_state) = 3" by code_simp+
  then show ?thesis using scheduler_capacity [OF tiny_reachable] tiny_reachable by simp
qed

section \<open>No panic\<close>

text \<open>C36: No call on a reachable scheduler panics, whatever its arguments: the counters that the code
  increments and decrements without a check never overflow or underflow.\<close>

theorem scheduler_never_panics:
  assumes "sched_reachable s"
  shows "\<exists>s'. sched_exec s a = Some s' \<and> sched_reachable s'"
  using sched_exec_inv [OF reachable_inv [OF assms], of a] reachable_step [OF assms] by blast

theorem scheduler_never_panics_witness:
  "\<exists>s'. sched_exec tiny_state (Complete 1) = Some s' \<and> sched_reachable s'"
  by (rule scheduler_never_panics [OF tiny_reachable])

section \<open>Ordered lanes\<close>

text \<open>C22: In every reachable state, at most one lease of an ordered lane of a subscription is beyond the
  queue, that is running, settling or waiting for a retry. A delivery that waits for a retry keeps the
  lane, so the deliveries behind it cannot overtake it.\<close>

theorem ordered_lane_exclusive:
  assumes "sched_reachable s"
  shows "fmcount (\<lambda>_ r. rec_subscription_id r = i \<and> rec_lane r = Some k \<and> rec_phase r \<in> {Running, Settling, WaitingRetry})
    (owned s) \<le> 1"
proof -
  have core: "core_inv s" using reachable_inv [OF assms(1)] by (simp add: sched_inv_def)
  let ?L = "{l. \<exists>r. fmlookup (owned s) l = Some r \<and> rec_subscription_id r = i \<and> rec_lane r = Some k \<and>
    rec_phase r \<in> {Running, Settling, WaitingRetry}}"
  have held: "holds (part (owned s) i) l k" if "l \<in> ?L" for l
    using that by (auto simp: holds_def holding_phase_def)
  have "l = l'" if l: "l \<in> ?L" and l': "l' \<in> ?L" for l l'
  proof -
    obtain r where "fmlookup (owned s) l = Some r" "rec_subscription_id r = i" using l by auto
    then obtain sub where "fmlookup (subscriptions s) i = Some sub" using lease_registered [OF core] by blast
    then have "holders_ok (part (owned s) i) sub" using sub_okD(2) core_invD(1) [OF core] by blast
    then show ?thesis using held [OF l] held [OF l'] by (auto simp: holders_ok_def)
  qed
  moreover have "?L \<subseteq> fset (fmdom (owned s))" by (auto simp: fmlookup_dom_iff)
  then have "finite ?L" by (rule finite_subset) simp
  ultimately have "card ?L \<le> Suc 0" by (subst card_le_Suc0_iff_eq) blast+
  then show ?thesis by (simp only: fmcount_card One_nat_def)
qed

theorem ordered_lane_exclusive_witness:
  "map_option rec_phase (fmlookup (owned tiny_state) 1) = Some Running \<and>
   fmcount (\<lambda>_ r. rec_subscription_id r = 1 \<and> rec_lane r = Some tiny_lane \<and> rec_phase r \<in> {Running, Settling, WaitingRetry})
     (owned tiny_state) \<le> 1"
proof -
  have "map_option rec_phase (fmlookup (owned tiny_state) 1) = Some Running" by code_simp
  then show ?thesis using ordered_lane_exclusive [OF tiny_reachable, of 1 tiny_lane] by simp
qed

end
