(* ===== verification/Metrics.thy ===== *)
theory Metrics
  imports Scheduler_Props
begin

text \<open>
  The statistics of the facade. \<open>src/src/facade/publish_metrics.rs\<close> counts publication outcomes;
  \<open>src/src/facade/internal/delivery_metrics.rs\<close> keeps cumulative delivery counters for each subscription
  and, through a parent reference, for the bus; the live gauges come from the scheduler
  (\<open>delivery_scheduler_state.rs\<close>, \<open>delivery_snapshot_input.rs\<close>). Every counter is a \<open>u64\<close> that saturates.

  The locale \<open>saturating_counter\<close> is the contract of one counter: each recorded event adds its amount and
  saturates. It is interpreted once for every counter of the two components.
\<close>

section \<open>Saturating counters\<close>

locale saturating_counter =
  fixes record_event :: "'e \<Rightarrow> 'c \<Rightarrow> 'c"
    and field :: "'c \<Rightarrow> u64"
    and amount :: "'e \<Rightarrow> u64"
  assumes adds: "field (record_event e c) = saturating_add (field c) (amount e)"
begin

lemma total: "unat (field (fold record_event es c)) = min (2 ^ 64 - 1) (unat (field c) + (\<Sum>e \<leftarrow> es. unat (amount e)))"
proof (induction es arbitrary: c)
  case Nil
  then show ?case using unat_bound [of "field c"] by (simp add: min_def)
next
  case (Cons e es)
  then show ?case by (simp add: adds unat_saturating_add)
qed

lemma monotone: "field c \<le> field (fold record_event es c)"
  using unat_bound [of "field c"] by (simp add: word_le_nat_alt total min_def)

end

section \<open>Publication counters\<close>

record publish_metrics =
  attempts :: u64
  errors :: u64
  cancelled :: u64
  dropped :: u64
  opaque_accepted :: u64
  zero_destinations :: u64
  accepted_destinations :: u64
  filtered_destinations :: u64
  rejected_destinations :: u64

definition publish_metrics_default :: publish_metrics where
  "publish_metrics_default = \<lparr>attempts = 0, errors = 0, cancelled = 0, dropped = 0, opaque_accepted = 0,
     zero_destinations = 0, accepted_destinations = 0, filtered_destinations = 0, rejected_destinations = 0\<rparr>"

definition record_attempt :: "publish_metrics \<Rightarrow> publish_metrics" where
  "record_attempt m = m\<lparr>attempts := saturating_add (attempts m) 1\<rparr>"

definition record_error :: "publish_metrics \<Rightarrow> publish_metrics" where
  "record_error m = m\<lparr>errors := saturating_add (errors m) 1\<rparr>"

definition record_cancelled :: "publish_metrics \<Rightarrow> publish_metrics" where
  "record_cancelled m = m\<lparr>cancelled := saturating_add (cancelled m) 1\<rparr>"

definition record_receipt :: "publish_receipt \<Rightarrow> publish_metrics \<Rightarrow> publish_metrics" where
  "record_receipt receipt m = (case acknowledgement receipt of
       DroppedByInterceptor \<Rightarrow> m\<lparr>dropped := saturating_add (dropped m) 1\<rparr>
     | AckAccepted _ _ \<Rightarrow> m\<lparr>opaque_accepted := saturating_add (opaque_accepted m) 1\<rparr>
     | DestinationAdmissions _ \<Rightarrow> (case receipt_admission_summary receipt of
           None \<Rightarrow> m
         | Some summary \<Rightarrow>
             let m1 = (if accepted summary = 0 \<and> filtered summary = 0 \<and> rejected summary = 0
                       then m\<lparr>zero_destinations := saturating_add (zero_destinations m) 1\<rparr> else m)
             in m1\<lparr>accepted_destinations := saturating_add (accepted_destinations m1) (accepted summary),
                   filtered_destinations := saturating_add (filtered_destinations m1) (filtered summary),
                   rejected_destinations := saturating_add (rejected_destinations m1) (rejected summary)\<rparr>))"

section \<open>Delivery counters\<close>

record delivery_metrics_snapshot =
  reserved_receives :: u64
  queued :: u64
  running_handlers :: u64
  settling :: u64
  lane_waiting :: u64
  settlement_attempts :: u64
  settlement_retries :: u64
  settlement_terminal_failures :: u64
  completed :: u64
  abandoned_ephemeral :: u64
  handler_duration_count :: u64
  handler_duration_total_nanos :: u64
  handler_duration_max_nanos :: u64
  settlement_duration_count :: u64
  settlement_duration_total_nanos :: u64
  settlement_duration_max_nanos :: u64
  oldest_owned_age :: "duration option"

definition delivery_metrics_snapshot_default :: delivery_metrics_snapshot where
  "delivery_metrics_snapshot_default = \<lparr>reserved_receives = 0, queued = 0, running_handlers = 0, settling = 0,
     lane_waiting = 0, settlement_attempts = 0, settlement_retries = 0, settlement_terminal_failures = 0,
     completed = 0, abandoned_ephemeral = 0, handler_duration_count = 0, handler_duration_total_nanos = 0,
     handler_duration_max_nanos = 0, settlement_duration_count = 0, settlement_duration_total_nanos = 0,
     settlement_duration_max_nanos = 0, oldest_owned_age = None\<rparr>"

text \<open>\<open>u64::try_from(elapsed.as_nanos()).unwrap_or(u64::MAX)\<close>.\<close>

definition nanos_u64 :: "duration \<Rightarrow> u64" where
  "nanos_u64 d = (if d < 2 ^ 64 then of_nat d else - 1)"

text \<open>The counter updates that the recording methods hand to \<open>update\<close>.\<close>

datatype delivery_event =
    SettlementAttempt u32
  | TerminalFailure
  | CompletedDelivery
  | AbandonedEphemeral
  | HandlerElapsed duration
  | SettlementElapsed duration

fun count_event :: "delivery_event \<Rightarrow> delivery_metrics_snapshot \<Rightarrow> delivery_metrics_snapshot" where
  "count_event (SettlementAttempt attempt) c =
     (let c1 = c\<lparr>settlement_attempts := saturating_add (settlement_attempts c) 1\<rparr>
      in if attempt > 1 then c1\<lparr>settlement_retries := saturating_add (settlement_retries c1) 1\<rparr> else c1)"
| "count_event TerminalFailure c = c\<lparr>settlement_terminal_failures := saturating_add (settlement_terminal_failures c) 1\<rparr>"
| "count_event CompletedDelivery c = c\<lparr>completed := saturating_add (completed c) 1\<rparr>"
| "count_event AbandonedEphemeral c = c\<lparr>abandoned_ephemeral := saturating_add (abandoned_ephemeral c) 1\<rparr>"
| "count_event (HandlerElapsed elapsed) c =
     c\<lparr>handler_duration_count := saturating_add (handler_duration_count c) 1,
       handler_duration_total_nanos := saturating_add (handler_duration_total_nanos c) (nanos_u64 elapsed),
       handler_duration_max_nanos := max (handler_duration_max_nanos c) (nanos_u64 elapsed)\<rparr>"
| "count_event (SettlementElapsed elapsed) c =
     c\<lparr>settlement_duration_count := saturating_add (settlement_duration_count c) 1,
       settlement_duration_total_nanos := saturating_add (settlement_duration_total_nanos c) (nanos_u64 elapsed),
       settlement_duration_max_nanos := max (settlement_duration_max_nanos c) (nanos_u64 elapsed)\<rparr>"

text \<open>The accumulators live at addresses; a subscription's accumulator refers to that of its bus. \<open>update\<close>
  takes one lock after the other, so its two halves are two steps that other threads can come between.\<close>

record delivery_metrics =
  counters :: delivery_metrics_snapshot
  parent :: "nat option"

type_synonym metrics_store = "(nat, delivery_metrics) fmap"

definition delivery_metrics_default :: delivery_metrics where
  "delivery_metrics_default = \<lparr>counters = delivery_metrics_snapshot_default, parent = None\<rparr>"

definition new_subscription :: "nat \<Rightarrow> delivery_metrics" where
  "new_subscription p = \<lparr>counters = delivery_metrics_snapshot_default, parent = Some p\<rparr>"

definition update_at :: "metrics_store \<Rightarrow> nat \<Rightarrow> delivery_event \<Rightarrow> metrics_store" where
  "update_at st a e = (case fmlookup st a of
       None \<Rightarrow> st
     | Some m \<Rightarrow> fmupd a (m\<lparr>counters := count_event e (counters m)\<rparr>) st)"

definition update_parent :: "metrics_store \<Rightarrow> nat \<Rightarrow> delivery_event \<Rightarrow> metrics_store" where
  "update_parent st a e = (case Option.bind (fmlookup st a) parent of None \<Rightarrow> st | Some p \<Rightarrow> update_at st p e)"

definition metrics_update :: "metrics_store \<Rightarrow> nat \<Rightarrow> delivery_event \<Rightarrow> metrics_store" where
  "metrics_update st a e = update_parent (update_at st a e) a e"

definition record_settlement_attempt :: "metrics_store \<Rightarrow> nat \<Rightarrow> u32 \<Rightarrow> metrics_store" where
  "record_settlement_attempt st a attempt = metrics_update st a (SettlementAttempt attempt)"

definition record_terminal_failure :: "metrics_store \<Rightarrow> nat \<Rightarrow> metrics_store" where
  "record_terminal_failure st a = metrics_update st a TerminalFailure"

definition record_completed :: "metrics_store \<Rightarrow> nat \<Rightarrow> metrics_store" where
  "record_completed st a = metrics_update st a CompletedDelivery"

definition record_abandoned_ephemeral :: "metrics_store \<Rightarrow> nat \<Rightarrow> metrics_store" where
  "record_abandoned_ephemeral st a = metrics_update st a AbandonedEphemeral"

definition record_handler_elapsed :: "metrics_store \<Rightarrow> nat \<Rightarrow> duration \<Rightarrow> metrics_store" where
  "record_handler_elapsed st a elapsed = metrics_update st a (HandlerElapsed elapsed)"

definition record_settlement_elapsed :: "metrics_store \<Rightarrow> nat \<Rightarrow> duration \<Rightarrow> metrics_store" where
  "record_settlement_elapsed st a elapsed = metrics_update st a (SettlementElapsed elapsed)"

text \<open>\<open>MonotonicInstant::duration_since\<close> of the clock library is a parameter; its error type is \<open>'t\<close>.\<close>

definition record_handler_duration ::
  "(instant \<Rightarrow> instant \<Rightarrow> 't + duration) \<Rightarrow> metrics_store \<Rightarrow> nat \<Rightarrow> instant \<Rightarrow> instant \<Rightarrow> metrics_store \<times> ('t + unit)" where
  "record_handler_duration duration_since st a started ended = (case duration_since ended started of
       Inl error \<Rightarrow> (st, Inl error)
     | Inr elapsed \<Rightarrow> (record_handler_elapsed st a elapsed, Inr ()))"

definition record_settlement_duration ::
  "(instant \<Rightarrow> instant \<Rightarrow> 't + duration) \<Rightarrow> metrics_store \<Rightarrow> nat \<Rightarrow> instant \<Rightarrow> instant \<Rightarrow> metrics_store \<times> ('t + unit)" where
  "record_settlement_duration duration_since st a started ended = (case duration_since ended started of
       Inl error \<Rightarrow> (st, Inl error)
     | Inr elapsed \<Rightarrow> (record_settlement_elapsed st a elapsed, Inr ()))"

definition metrics_snapshot :: "delivery_metrics \<Rightarrow> delivery_metrics_snapshot \<Rightarrow> delivery_metrics_snapshot" where
  "metrics_snapshot m gauges = (counters m)\<lparr>reserved_receives := reserved_receives gauges, queued := queued gauges,
     running_handlers := running_handlers gauges, settling := settling gauges, lane_waiting := lane_waiting gauges,
     oldest_owned_age := oldest_owned_age gauges\<rparr>"

section \<open>Live gauges\<close>

text \<open>\<open>scope.is_none_or(|id| id == subscription)\<close>.\<close>

definition in_scope :: "id option \<Rightarrow> id \<Rightarrow> bool" where
  "in_scope scope i \<longleftrightarrow> (case scope of None \<Rightarrow> True | Some selected \<Rightarrow> selected = i)"

fun count_phase :: "owned_delivery_phase \<Rightarrow> delivery_metrics_snapshot \<Rightarrow> delivery_metrics_snapshot" where
  "count_phase ReservedReceive g = g\<lparr>reserved_receives := saturating_add (reserved_receives g) 1\<rparr>"
| "count_phase Queued g = g\<lparr>queued := saturating_add (queued g) 1\<rparr>"
| "count_phase QueuedSettlement g = g\<lparr>queued := saturating_add (queued g) 1\<rparr>"
| "count_phase WaitingRetry g = g\<lparr>queued := saturating_add (queued g) 1\<rparr>"
| "count_phase Running g = g\<lparr>running_handlers := saturating_add (running_handlers g) 1\<rparr>"
| "count_phase Settling g = g\<lparr>settling := saturating_add (settling g) 1\<rparr>"

text \<open>The deliveries of an ordered lane that wait for others of the lane.\<close>

definition lane_waiters :: "ordering_lane_key fset \<Rightarrow> lane_queue \<Rightarrow> u64" where
  "lane_waiters locked lq = (case fst lq of
       None \<Rightarrow> 0
     | Some lane \<Rightarrow> if lane |\<in>| locked then of_nat (length (snd lq)) else saturating_sub (of_nat (length (snd lq))) 1)"

definition count_lane :: "ordering_lane_key fset \<Rightarrow> lane_queue \<Rightarrow> delivery_metrics_snapshot \<Rightarrow> delivery_metrics_snapshot" where
  "count_lane locked lq g = (case fst lq of
       None \<Rightarrow> g
     | Some _ \<Rightarrow> g\<lparr>lane_waiting := saturating_add (lane_waiting g) (lane_waiters locked lq)\<rparr>)"

definition count_owned :: "id option \<Rightarrow> owned_map \<Rightarrow> lease \<Rightarrow> delivery_metrics_snapshot \<Rightarrow> delivery_metrics_snapshot" where
  "count_owned scope own l g = (case fmlookup own l of
       None \<Rightarrow> g
     | Some r \<Rightarrow> if in_scope scope (rec_subscription_id r) then count_phase (rec_phase r) g else g)"

definition count_sub ::
  "id option \<Rightarrow> (id, subscription_schedule_state) fmap \<Rightarrow> id \<Rightarrow> delivery_metrics_snapshot \<Rightarrow> delivery_metrics_snapshot" where
  "count_sub scope subs i g = (case fmlookup subs i of
       None \<Rightarrow> g
     | Some sub \<Rightarrow> if in_scope scope i then fold (count_lane (locked_lanes sub)) (sub_lanes sub) g else g)"

type_synonym owned_order = "owned_map \<Rightarrow> lease list"
type_synonym sub_order = "(id, subscription_schedule_state) fmap \<Rightarrow> id list"

definition snapshot_gauges ::
  "owned_order \<Rightarrow> sub_order \<Rightarrow> delivery_scheduler_state \<Rightarrow> id option \<Rightarrow> delivery_metrics_snapshot" where
  "snapshot_gauges ito its s scope =
     fold (count_sub scope (subscriptions s)) (its (subscriptions s))
       (fold (count_owned scope (owned s)) (ito (owned s)) delivery_metrics_snapshot_default)"

record delivery_snapshot_input =
  gauges :: delivery_metrics_snapshot
  owned_starts :: "instant list"

definition snapshot_input ::
  "owned_order \<Rightarrow> sub_order \<Rightarrow> delivery_scheduler_state \<Rightarrow> id option \<Rightarrow> delivery_snapshot_input" where
  "snapshot_input ito its s scope =
     \<lparr>gauges = snapshot_gauges ito its s scope,
      owned_starts = List.map_filter (\<lambda>l. case fmlookup (owned s) l of
          None \<Rightarrow> None
        | Some r \<Rightarrow> if in_scope scope (rec_subscription_id r) then rec_created_at r else None) (ito (owned s))\<rparr>"

fun age_loop ::
  "(instant \<Rightarrow> instant \<Rightarrow> 't + duration) \<Rightarrow> instant \<Rightarrow> instant list \<Rightarrow> delivery_metrics_snapshot \<Rightarrow> 't + delivery_metrics_snapshot" where
  "age_loop duration_since now [] g = Inr g"
| "age_loop duration_since now (started # starts) g = (case duration_since now started of
       Inl error \<Rightarrow> Inl error
     | Inr age \<Rightarrow> age_loop duration_since now starts (g\<lparr>oldest_owned_age :=
         Some (case oldest_owned_age g of None \<Rightarrow> age | Some oldest \<Rightarrow> max oldest age)\<rparr>))"

definition input_at ::
  "(instant \<Rightarrow> instant \<Rightarrow> 't + duration) \<Rightarrow> delivery_snapshot_input \<Rightarrow> instant \<Rightarrow> 't + delivery_metrics_snapshot" where
  "input_at duration_since input now = age_loop duration_since now (owned_starts input) (gauges input)"

section \<open>The counters as interpretations\<close>

datatype publish_event = PublishAttempt | PublishFailed | PublishCancelled | PublishReceipt publish_receipt

fun count_publish :: "publish_event \<Rightarrow> publish_metrics \<Rightarrow> publish_metrics" where
  "count_publish PublishAttempt m = record_attempt m"
| "count_publish PublishFailed m = record_error m"
| "count_publish PublishCancelled m = record_cancelled m"
| "count_publish (PublishReceipt r) m = record_receipt r m"

fun receipt_with :: "(publish_acknowledgement \<Rightarrow> bool) \<Rightarrow> publish_event \<Rightarrow> bool" where
  "receipt_with P (PublishReceipt r) = P (acknowledgement r)"
| "receipt_with P _ = False"

definition reported :: "publish_event \<Rightarrow> admission_summary" where
  "reported e = (case e of
       PublishReceipt r \<Rightarrow> (case acknowledgement r of
           DestinationAdmissions ds \<Rightarrow> summarise admission_summary_default ds
         | _ \<Rightarrow> admission_summary_default)
     | _ \<Rightarrow> admission_summary_default)"

definition reports_nothing :: "publish_event \<Rightarrow> bool" where
  "reports_nothing e \<longleftrightarrow> receipt_with (\<lambda>ack. \<exists>ds. ack = DestinationAdmissions ds) e \<and> reported e = admission_summary_default"

lemma saturating_add_0 [simp]: "saturating_add a 0 = a"
  by (simp add: saturating_add_code)

lemma receipt_summary:
  "acknowledgement r = DestinationAdmissions ds \<Longrightarrow>
   receipt_admission_summary r = Some (summarise admission_summary_default ds)"
  by (auto simp: receipt_admission_summary_def Let_def)

lemmas publish_recording = record_attempt_def record_error_def record_cancelled_def record_receipt_def reported_def
  reports_nothing_def admission_summary_default_def receipt_summary Let_def

lemma count_publish_fields:
  "attempts (count_publish e m) = saturating_add (attempts m) (of_bool (e = PublishAttempt))"
  "errors (count_publish e m) = saturating_add (errors m) (of_bool (e = PublishFailed))"
  "cancelled (count_publish e m) = saturating_add (cancelled m) (of_bool (e = PublishCancelled))"
  "dropped (count_publish e m) = saturating_add (dropped m) (of_bool (receipt_with (\<lambda>ack. ack = DroppedByInterceptor) e))"
  "opaque_accepted (count_publish e m) =
     saturating_add (opaque_accepted m) (of_bool (receipt_with (\<lambda>ack. \<exists>i md. ack = AckAccepted i md) e))"
  "zero_destinations (count_publish e m) = saturating_add (zero_destinations m) (of_bool (reports_nothing e))"
  "accepted_destinations (count_publish e m) = saturating_add (accepted_destinations m) (accepted (reported e))"
  "filtered_destinations (count_publish e m) = saturating_add (filtered_destinations m) (filtered (reported e))"
  "rejected_destinations (count_publish e m) = saturating_add (rejected_destinations m) (rejected (reported e))"
  by (cases e; auto simp: publish_recording split: publish_acknowledgement.split)+

interpretation attempts: saturating_counter count_publish attempts "\<lambda>e. of_bool (e = PublishAttempt)"
  by unfold_locales (rule count_publish_fields)
interpretation errors: saturating_counter count_publish errors "\<lambda>e. of_bool (e = PublishFailed)"
  by unfold_locales (rule count_publish_fields)
interpretation cancelled: saturating_counter count_publish cancelled "\<lambda>e. of_bool (e = PublishCancelled)"
  by unfold_locales (rule count_publish_fields)
interpretation dropped: saturating_counter count_publish dropped
    "\<lambda>e. of_bool (receipt_with (\<lambda>ack. ack = DroppedByInterceptor) e)"
  by unfold_locales (rule count_publish_fields)
interpretation opaque: saturating_counter count_publish opaque_accepted
    "\<lambda>e. of_bool (receipt_with (\<lambda>ack. \<exists>i md. ack = AckAccepted i md) e)"
  by unfold_locales (rule count_publish_fields)
interpretation zero: saturating_counter count_publish zero_destinations "\<lambda>e. of_bool (reports_nothing e)"
  by unfold_locales (rule count_publish_fields)
interpretation accepted: saturating_counter count_publish accepted_destinations "\<lambda>e. accepted (reported e)"
  by unfold_locales (rule count_publish_fields)
interpretation filtered: saturating_counter count_publish filtered_destinations "\<lambda>e. filtered (reported e)"
  by unfold_locales (rule count_publish_fields)
interpretation rejected: saturating_counter count_publish rejected_destinations "\<lambda>e. rejected (reported e)"
  by unfold_locales (rule count_publish_fields)

lemma count_event_fields:
  "settlement_attempts (count_event e c) = saturating_add (settlement_attempts c) (of_bool (\<exists>n. e = SettlementAttempt n))"
  "settlement_retries (count_event e c) = saturating_add (settlement_retries c) (of_bool (\<exists>n. e = SettlementAttempt n \<and> 1 < n))"
  "settlement_terminal_failures (count_event e c) = saturating_add (settlement_terminal_failures c) (of_bool (e = TerminalFailure))"
  "completed (count_event e c) = saturating_add (completed c) (of_bool (e = CompletedDelivery))"
  "abandoned_ephemeral (count_event e c) = saturating_add (abandoned_ephemeral c) (of_bool (e = AbandonedEphemeral))"
  "handler_duration_count (count_event e c) = saturating_add (handler_duration_count c) (of_bool (\<exists>d. e = HandlerElapsed d))"
  "settlement_duration_count (count_event e c) = saturating_add (settlement_duration_count c) (of_bool (\<exists>d. e = SettlementElapsed d))"
  by (cases e; simp add: Let_def)+

interpretation settlements: saturating_counter count_event settlement_attempts "\<lambda>e. of_bool (\<exists>n. e = SettlementAttempt n)"
  by unfold_locales (rule count_event_fields)
interpretation retries: saturating_counter count_event settlement_retries "\<lambda>e. of_bool (\<exists>n. e = SettlementAttempt n \<and> 1 < n)"
  by unfold_locales (rule count_event_fields)
interpretation terminal: saturating_counter count_event settlement_terminal_failures "\<lambda>e. of_bool (e = TerminalFailure)"
  by unfold_locales (rule count_event_fields)
interpretation completions: saturating_counter count_event completed "\<lambda>e. of_bool (e = CompletedDelivery)"
  by unfold_locales (rule count_event_fields)
interpretation abandoned: saturating_counter count_event abandoned_ephemeral "\<lambda>e. of_bool (e = AbandonedEphemeral)"
  by unfold_locales (rule count_event_fields)
interpretation handled: saturating_counter count_event handler_duration_count "\<lambda>e. of_bool (\<exists>d. e = HandlerElapsed d)"
  by unfold_locales (rule count_event_fields)
interpretation settled: saturating_counter count_event settlement_duration_count "\<lambda>e. of_bool (\<exists>d. e = SettlementElapsed d)"
  by unfold_locales (rule count_event_fields)

end
