(* ===== verification/Metrics_Props.thy ===== *)
theory Metrics_Props
  imports Metrics
begin

text \<open>
  The statistics are exact up to saturation: publication counters, delivery counters under any
  interleaving of the two halves of an update, and the live gauges of a reachable scheduler.
\<close>

lemma sum_of_bool_word: "(\<Sum>e \<leftarrow> es. unat (of_bool (P e) :: u64)) = length (filter P es)"
  by (induction es) auto

section \<open>Publication counters\<close>

text \<open>After any sequence of recorded publication events each counter of the facade is exact, up to
  saturation at the largest \<open>u64\<close>: attempts, errors and cancellations count their events, receipts are
  split by their acknowledgement into dropped, accepted without detail and empty reports, and the
  destination counters add up the accepted, filtered and rejected destinations of all reports.\<close>

theorem publish_counters_exact:
  fixes es :: "publish_event list"
  defines "m \<equiv> fold count_publish es publish_metrics_default"
  shows "unat (attempts m) = min (2 ^ 64 - 1) (length (filter (\<lambda>e. e = PublishAttempt) es)) \<and>
    unat (errors m) = min (2 ^ 64 - 1) (length (filter (\<lambda>e. e = PublishFailed) es)) \<and>
    unat (cancelled m) = min (2 ^ 64 - 1) (length (filter (\<lambda>e. e = PublishCancelled) es)) \<and>
    unat (dropped m) = min (2 ^ 64 - 1) (length (filter (receipt_with (\<lambda>ack. ack = DroppedByInterceptor)) es)) \<and>
    unat (opaque_accepted m) = min (2 ^ 64 - 1) (length (filter (receipt_with (\<lambda>ack. \<exists>i md. ack = AckAccepted i md)) es)) \<and>
    unat (zero_destinations m) = min (2 ^ 64 - 1) (length (filter reports_nothing es)) \<and>
    unat (accepted_destinations m) = min (2 ^ 64 - 1) (\<Sum>e \<leftarrow> es. unat (accepted (reported e))) \<and>
    unat (filtered_destinations m) = min (2 ^ 64 - 1) (\<Sum>e \<leftarrow> es. unat (filtered (reported e))) \<and>
    unat (rejected_destinations m) = min (2 ^ 64 - 1) (\<Sum>e \<leftarrow> es. unat (rejected (reported e)))"
  unfolding m_def attempts.total errors.total cancelled.total dropped.total opaque.total zero.total accepted.total
    filtered.total rejected.total sum_of_bool_word
  by (simp add: publish_metrics_default_def)

section \<open>Delivery counters\<close>

text \<open>The two halves of an update, which the threads that record interleave freely.\<close>

datatype half_update = OwnHalf nat delivery_event | ParentHalf nat delivery_event

fun run_half :: "half_update \<Rightarrow> metrics_store \<Rightarrow> metrics_store" where
  "run_half (OwnHalf a e) st = update_at st a e"
| "run_half (ParentHalf a e) st = update_parent st a e"

fun half_event :: "half_update \<Rightarrow> delivery_event" where
  "half_event (OwnHalf a e) = e"
| "half_event (ParentHalf a e) = e"

fun half_target :: "metrics_store \<Rightarrow> half_update \<Rightarrow> nat option" where
  "half_target st (OwnHalf a e) = Some a"
| "half_target st (ParentHalf a e) = Option.bind (fmlookup st a) parent"

definition events_at :: "metrics_store \<Rightarrow> half_update list \<Rightarrow> nat \<Rightarrow> delivery_event list" where
  "events_at st hs x = map half_event (filter (\<lambda>h. half_target st h = Some x) hs)"

lemma update_halves: "metrics_update st a e = run_half (ParentHalf a e) (run_half (OwnHalf a e) st)"
  by (simp add: metrics_update_def)

lemma update_at_lookup:
  "fmlookup (update_at st a e) x =
     (if x = a then map_option (\<lambda>m. m\<lparr>counters := count_event e (counters m)\<rparr>) (fmlookup st x) else fmlookup st x)"
  by (auto simp: update_at_def split: option.split)

lemma run_half_lookup:
  "fmlookup (run_half h st) x =
     (if half_target st h = Some x then map_option (\<lambda>m. m\<lparr>counters := count_event (half_event h) (counters m)\<rparr>) (fmlookup st x)
      else fmlookup st x)"
  by (cases h) (auto simp: update_at_lookup update_parent_def split: option.splits)

lemma half_target_kept: "half_target (run_half h st) h' = half_target st h'"
  by (cases h') (auto simp: run_half_lookup map_option_case split: option.splits)

lemma run_halves:
  "fmlookup st x = Some m \<Longrightarrow>
   fmlookup (fold run_half hs st) x = Some (m\<lparr>counters := fold count_event (events_at st hs x) (counters m)\<rparr>)"
proof (induction hs arbitrary: st m)
  case (Cons h hs)
  let ?m = "if half_target st h = Some x then m\<lparr>counters := count_event (half_event h) (counters m)\<rparr> else m"
  have "fmlookup (run_half h st) x = Some ?m" using Cons.prems by (simp add: run_half_lookup)
  from Cons.IH [OF this] show ?case by (auto simp: events_at_def half_target_kept)
qed (simp add: events_at_def)

text \<open>C39: The delivery counters of a subscription and of its bus are exact under any interleaving. Whatever
  order the threads run the two halves of their updates in, an accumulator that started empty counts, up to
  saturation, exactly the events recorded on it and on the subscriptions that forward to it: settlement
  attempts, retries among them, terminal failures, completed and abandoned deliveries, and the number of
  handler and settlement samples.\<close>

theorem delivery_counters_exact:
  assumes "fmlookup st x = Some m" and "counters m = delivery_metrics_snapshot_default"
  shows "\<exists>m'. fmlookup (fold run_half hs st) x = Some m' \<and>
    (let n = \<lambda>P. min (2 ^ 64 - 1) (length (filter P (events_at st hs x))); c = counters m' in
     unat (settlement_attempts c) = n (\<lambda>e. \<exists>k. e = SettlementAttempt k) \<and>
     unat (settlement_retries c) = n (\<lambda>e. \<exists>k. e = SettlementAttempt k \<and> 1 < k) \<and>
     unat (settlement_terminal_failures c) = n (\<lambda>e. e = TerminalFailure) \<and>
     unat (completed c) = n (\<lambda>e. e = CompletedDelivery) \<and>
     unat (abandoned_ephemeral c) = n (\<lambda>e. e = AbandonedEphemeral) \<and>
     unat (handler_duration_count c) = n (\<lambda>e. \<exists>d. e = HandlerElapsed d) \<and>
     unat (settlement_duration_count c) = n (\<lambda>e. \<exists>d. e = SettlementElapsed d))"
proof -
  let ?c = "fold count_event (events_at st hs x) delivery_metrics_snapshot_default"
  have zero: "unat (settlement_attempts delivery_metrics_snapshot_default) = 0"
    "unat (settlement_retries delivery_metrics_snapshot_default) = 0"
    "unat (settlement_terminal_failures delivery_metrics_snapshot_default) = 0"
    "unat (completed delivery_metrics_snapshot_default) = 0"
    "unat (abandoned_ephemeral delivery_metrics_snapshot_default) = 0"
    "unat (handler_duration_count delivery_metrics_snapshot_default) = 0"
    "unat (settlement_duration_count delivery_metrics_snapshot_default) = 0"
    by (simp_all add: delivery_metrics_snapshot_default_def)
  note totals = settlements.total retries.total terminal.total completions.total abandoned.total handled.total settled.total
  show ?thesis
    unfolding run_halves [OF assms(1)] assms(2) Let_def totals [of _ delivery_metrics_snapshot_default] zero sum_of_bool_word
    by (simp add: totals zero sum_of_bool_word)
qed

definition two_subscriptions :: metrics_store where
  "two_subscriptions = fmap_of_list [(0, delivery_metrics_default), (1, new_subscription 0), (2, new_subscription 0)]"

theorem delivery_counters_exact_witness:
  "\<exists>m'. fmlookup (fold run_half [OwnHalf 1 CompletedDelivery, OwnHalf 2 CompletedDelivery, ParentHalf 2 CompletedDelivery,
     ParentHalf 1 CompletedDelivery] two_subscriptions) 0 = Some m' \<and> unat (completed (counters m')) = 2"
proof -
  let ?hs = "[OwnHalf 1 CompletedDelivery, OwnHalf 2 CompletedDelivery, ParentHalf 2 CompletedDelivery, ParentHalf 1 CompletedDelivery]"
  have "fmlookup two_subscriptions 0 = Some delivery_metrics_default"
    "counters delivery_metrics_default = delivery_metrics_snapshot_default"
    by (simp_all add: two_subscriptions_def delivery_metrics_default_def fmlookup_of_list)
  from delivery_counters_exact [OF this, of ?hs] obtain m' where m':
    "fmlookup (fold run_half ?hs two_subscriptions) 0 = Some m'"
    "unat (completed (counters m')) = min (2 ^ 64 - 1) (length (filter (\<lambda>e. e = CompletedDelivery) (events_at two_subscriptions ?hs 0)))"
    by (auto simp: Let_def)
  moreover have "length (filter (\<lambda>e. e = CompletedDelivery) (events_at two_subscriptions ?hs 0)) = 2" by code_simp
  ultimately show ?thesis by auto
qed

section \<open>Live gauges\<close>

definition phase_counter :: "id option \<Rightarrow> owned_map \<Rightarrow> owned_delivery_phase set \<Rightarrow> lease \<Rightarrow> u64" where
  "phase_counter scope own ps l = (case fmlookup own l of
     None \<Rightarrow> 0 | Some r \<Rightarrow> of_bool (in_scope scope (rec_subscription_id r) \<and> rec_phase r \<in> ps))"

lemma count_owned_fields:
  "reserved_receives (count_owned scope own l g) = saturating_add (reserved_receives g) (phase_counter scope own {ReservedReceive} l)"
  "queued (count_owned scope own l g) =
     saturating_add (queued g) (phase_counter scope own {Queued, QueuedSettlement, WaitingRetry} l)"
  "running_handlers (count_owned scope own l g) = saturating_add (running_handlers g) (phase_counter scope own {Running} l)"
  "settling (count_owned scope own l g) = saturating_add (settling g) (phase_counter scope own {Settling} l)"
  "lane_waiting (count_owned scope own l g) = lane_waiting g" "oldest_owned_age (count_owned scope own l g) = oldest_owned_age g"
  by (cases "fmlookup own l"; cases "rec_phase (the (fmlookup own l))"; simp add: count_owned_def phase_counter_def)+

interpretation reserving: saturating_counter "count_owned scope own" reserved_receives "phase_counter scope own {ReservedReceive}"
  for scope own by unfold_locales (rule count_owned_fields)
interpretation queueing: saturating_counter "count_owned scope own" queued "phase_counter scope own {Queued, QueuedSettlement, WaitingRetry}"
  for scope own by unfold_locales (rule count_owned_fields)
interpretation running: saturating_counter "count_owned scope own" running_handlers "phase_counter scope own {Running}"
  for scope own by unfold_locales (rule count_owned_fields)
interpretation settling: saturating_counter "count_owned scope own" settling "phase_counter scope own {Settling}"
  for scope own by unfold_locales (rule count_owned_fields)

lemma count_owned_rest:
  "lane_waiting (fold (count_owned scope own) ls g) = lane_waiting g"
  "oldest_owned_age (fold (count_owned scope own) ls g) = oldest_owned_age g"
  by (induction ls arbitrary: g) (simp_all add: count_owned_fields)

lemma phase_counter_sum:
  assumes "iteration_order ito"
  shows "(\<Sum>l \<leftarrow> ito own. unat (phase_counter scope own ps l)) =
    fmcount (\<lambda>_ r. in_scope scope (rec_subscription_id r) \<and> rec_phase r \<in> ps) own"
proof -
  have "(\<Sum>l \<leftarrow> ito own. unat (phase_counter scope own ps l)) =
      (\<Sum>l \<leftarrow> ito own. of_bool (in_scope scope (rec_subscription_id (the (fmlookup own l))) \<and> rec_phase (the (fmlookup own l)) \<in> ps))"
    by (rule arg_cong [where f = sum_list], rule map_cong)
      (use iteration_order_set [OF assms, of own] in \<open>auto simp: phase_counter_def fmlookup_dom_iff\<close>)
  also have "\<dots> = fmcount (\<lambda>_ r. in_scope scope (rec_subscription_id r) \<and> rec_phase r \<in> ps) own"
    unfolding fmcount_def by (rule iteration_order_sum [OF assms])
  finally show ?thesis .
qed

text \<open>The lane gauge.\<close>

lemma count_lane_fields:
  "lane_waiting (count_lane locked lq g) = saturating_add (lane_waiting g) (lane_waiters locked lq)"
  "reserved_receives (count_lane locked lq g) = reserved_receives g" "queued (count_lane locked lq g) = queued g"
  "running_handlers (count_lane locked lq g) = running_handlers g" "settling (count_lane locked lq g) = settling g"
  "oldest_owned_age (count_lane locked lq g) = oldest_owned_age g"
  by (simp_all add: count_lane_def lane_waiters_def split: option.split)

interpretation lanes: saturating_counter "count_lane locked" lane_waiting "lane_waiters locked"
  for locked by unfold_locales (rule count_lane_fields)

lemma unat_of_nat_le: "unat (of_nat n :: 'a::len word) \<le> n"
  by (simp add: unat_of_nat)

lemma lane_waiters_le: "unat (lane_waiters locked lq) \<le> length (snd lq)"
  using unat_of_nat_le [of "length (snd lq)", where 'a = 64]
  by (auto simp: lane_waiters_def unat_saturating_sub split: option.split intro: le_trans [OF diff_le_self])

lemma lane_gauge_le: "unat (lane_waiting (fold (count_lane locked) ls g)) \<le> unat (lane_waiting g) + length (queued_leases ls)"
proof -
  have "(\<Sum>lq \<leftarrow> ls. unat (lane_waiters locked lq)) \<le> length (queued_leases ls)"
    by (induction ls) (simp_all add: add_mono lane_waiters_le)
  then show ?thesis unfolding lanes.total by linarith
qed

lemma fold_lane_rest:
  "reserved_receives (fold (count_lane locked) ls g) = reserved_receives g" "queued (fold (count_lane locked) ls g) = queued g"
  "running_handlers (fold (count_lane locked) ls g) = running_handlers g" "settling (fold (count_lane locked) ls g) = settling g"
  "oldest_owned_age (fold (count_lane locked) ls g) = oldest_owned_age g"
  by (induction ls arbitrary: g; simp add: count_lane_fields)+

lemma count_sub_rest:
  "reserved_receives (fold (count_sub scope subs) is g) = reserved_receives g" "queued (fold (count_sub scope subs) is g) = queued g"
  "running_handlers (fold (count_sub scope subs) is g) = running_handlers g" "settling (fold (count_sub scope subs) is g) = settling g"
  "oldest_owned_age (fold (count_sub scope subs) is g) = oldest_owned_age g"
  by (induction "is" arbitrary: g; simp add: count_sub_def fold_lane_rest split: option.split)+

definition queue_length :: "id option \<Rightarrow> (id, subscription_schedule_state) fmap \<Rightarrow> id \<Rightarrow> nat" where
  "queue_length scope subs i = (case fmlookup subs i of
     None \<Rightarrow> 0 | Some sub \<Rightarrow> if in_scope scope i then length (queued_leases (sub_lanes sub)) else 0)"

lemma sub_gauge_le:
  "unat (lane_waiting (fold (count_sub scope subs) is g)) \<le> unat (lane_waiting g) + (\<Sum>i \<leftarrow> is. queue_length scope subs i)"
proof (induction "is" arbitrary: g)
  case (Cons i "is")
  have "unat (lane_waiting (count_sub scope subs i g)) \<le> unat (lane_waiting g) + queue_length scope subs i"
    by (auto simp: count_sub_def queue_length_def lane_gauge_le split: option.split)
  then show ?case using Cons.IH [of "count_sub scope subs i g"] by simp
qed simp

lemma queue_lengths_le:
  assumes core: "core_inv s" and its: "iteration_order its"
  shows "(\<Sum>i \<leftarrow> its (subscriptions s). queue_length scope (subscriptions s) i) \<le>
    fmcount (\<lambda>_ r. in_scope scope (rec_subscription_id r) \<and> rec_phase r \<in> {Queued, QueuedSettlement, WaitingRetry}) (owned s)"
proof -
  let ?Q = "\<lambda>i. {l. \<exists>r. fmlookup (owned s) l = Some r \<and> rec_subscription_id r = i \<and> in_scope scope i \<and> queued_phase (rec_phase r)}"
  let ?A = "{l. \<exists>r. fmlookup (owned s) l = Some r \<and> in_scope scope (rec_subscription_id r) \<and>
    rec_phase r \<in> {Queued, QueuedSettlement, WaitingRetry}}"
  have A: "finite ?A" by (rule finite_subset [of _ "fset (fmdom (owned s))"]) (auto simp: fmlookup_dom_iff)
  have sub: "?Q i \<subseteq> ?A" for i by (auto simp: queued_phase_def)
  have "queue_length scope (subscriptions s) i \<le> card (?Q i)" for i
  proof (cases "fmlookup (subscriptions s) i")
    case (Some sub)
    note lok = sub_okD(1) [OF core_invD(1) [OF core Some]]
    have "length (queued_leases (sub_lanes sub)) = card (set (queued_leases (sub_lanes sub)))"
      using lok by (simp add: distinct_card lanes_ok_def)
    moreover have "set (queued_leases (sub_lanes sub)) \<subseteq> ?Q i" if "in_scope scope i"
      using lanes_ok_queued(2) [OF lok] that by fastforce
    ultimately show ?thesis
      using Some card_mono [OF finite_subset [OF \<open>?Q i \<subseteq> ?A\<close> A]] by (auto simp: queue_length_def)
  qed (simp add: queue_length_def)
  then have "(\<Sum>i \<in> fset (fmdom (subscriptions s)). queue_length scope (subscriptions s) i) \<le> (\<Sum>i \<in> fset (fmdom (subscriptions s)). card (?Q i))"
    by (rule sum_mono)
  also have "\<dots> = card (\<Union>i \<in> fset (fmdom (subscriptions s)). ?Q i)"
    by (rule card_UN_disjoint [symmetric]) (auto intro: finite_subset [OF sub A])
  also have "\<dots> \<le> card ?A" by (rule card_mono [OF A]) (use sub in blast)
  finally show ?thesis
    using its by (simp add: fmcount_card sum_list_distinct_conv_sum_set iteration_order_def)
qed

lemma count_scoped_le: "fmcount (\<lambda>_ r. in_scope scope (rec_subscription_id r) \<and> rec_phase r \<in> ps) own \<le> fmlen own"
  by (rule fmcount_le_len)

text \<open>C27: The live gauges of a reachable scheduler are exact, for one subscription or for the whole bus and
  whatever order the hash maps are iterated in: reserved receives, queued messages (those that wait for a
  retry included), running handlers and settlements count the leases of their phases, so together they count
  every lease in scope; and the lane gauge never exceeds the queued gauge.\<close>

theorem gauges_exact:
  assumes "sched_reachable s" and "iteration_order ito" and "iteration_order its"
  shows "let g = snapshot_gauges ito its s scope;
      n = \<lambda>ps. fmcount (\<lambda>_ r. in_scope scope (rec_subscription_id r) \<and> rec_phase r \<in> ps) (owned s) in
    unat (reserved_receives g) = n {ReservedReceive} \<and>
    unat (queued g) = n {Queued, QueuedSettlement, WaitingRetry} \<and>
    unat (running_handlers g) = n {Running} \<and>
    unat (settling g) = n {Settling} \<and>
    unat (lane_waiting g) \<le> unat (queued g)"
proof -
  have core: "core_inv s" using reachable_inv [OF assms(1)] by (simp add: sched_inv_def)
  have "fmlen (owned s) \<le> unat (max_owned_deliveries (config s))" using core_invD(3) [OF core] by (simp add: bounds_ok_def)
  then have small: "fmlen (owned s) \<le> 2 ^ 64 - 1" using unat_bound [of "max_owned_deliveries (config s)"] by simp
  have n: "min (2 ^ 64 - 1) (fmcount (\<lambda>_ r. in_scope scope (rec_subscription_id r) \<and> rec_phase r \<in> ps) (owned s)) =
      fmcount (\<lambda>_ r. in_scope scope (rec_subscription_id r) \<and> rec_phase r \<in> ps) (owned s)" for ps
    using order_trans [OF count_scoped_le small] by (rule min_absorb2)
  have zero: "unat (reserved_receives delivery_metrics_snapshot_default) = 0" "unat (queued delivery_metrics_snapshot_default) = 0"
    "unat (running_handlers delivery_metrics_snapshot_default) = 0" "unat (settling delivery_metrics_snapshot_default) = 0"
    "unat (lane_waiting delivery_metrics_snapshot_default) = 0"
    by (simp_all add: delivery_metrics_snapshot_default_def)
  have "unat (lane_waiting (snapshot_gauges ito its s scope)) \<le>
      fmcount (\<lambda>_ r. in_scope scope (rec_subscription_id r) \<and> rec_phase r \<in> {Queued, QueuedSettlement, WaitingRetry}) (owned s)"
    using sub_gauge_le [of scope "subscriptions s" "its (subscriptions s)"
        "fold (count_owned scope (owned s)) (ito (owned s)) delivery_metrics_snapshot_default"]
      queue_lengths_le [OF core assms(3), of scope]
    unfolding snapshot_gauges_def count_owned_rest zero by linarith
  moreover have "unat (queued (snapshot_gauges ito its s scope)) =
      fmcount (\<lambda>_ r. in_scope scope (rec_subscription_id r) \<and> rec_phase r \<in> {Queued, QueuedSettlement, WaitingRetry}) (owned s)"
    by (simp only: snapshot_gauges_def count_sub_rest queueing.total phase_counter_sum [OF assms(2)] zero n add_0)
  ultimately show ?thesis
    by (simp only: Let_def snapshot_gauges_def count_sub_rest reserving.total queueing.total running.total settling.total
        phase_counter_sum [OF assms(2)] zero n add_0 simp_thms)
qed

theorem gauges_exact_witness:
  "let g = snapshot_gauges key_order key_order tiny_state None in
   reserved_receives g = 0 \<and> queued g = 2 \<and> running_handlers g = 1 \<and> settling g = 0 \<and> lane_waiting g = 1 \<and>
   unat (lane_waiting g) \<le> unat (queued g)"
proof -
  have "reserved_receives (snapshot_gauges key_order key_order tiny_state None) = 0"
    "queued (snapshot_gauges key_order key_order tiny_state None) = 2"
    "running_handlers (snapshot_gauges key_order key_order tiny_state None) = 1"
    "settling (snapshot_gauges key_order key_order tiny_state None) = 0"
    "lane_waiting (snapshot_gauges key_order key_order tiny_state None) = 1" by code_simp+
  then show ?thesis
    using gauges_exact [OF tiny_reachable key_order_ok key_order_ok, of None] by (simp add: Let_def)
qed

section \<open>The age of the oldest delivery\<close>

lemma age_loop_ok:
  assumes "\<forall>started \<in> set starts. duration_since now started = Inr (age started)"
  shows "age_loop duration_since now starts g = Inr (g\<lparr>oldest_owned_age :=
    fold (\<lambda>started oldest. Some (case oldest of None \<Rightarrow> age started | Some d \<Rightarrow> max d (age started))) starts (oldest_owned_age g)\<rparr>)"
  using assms by (induction starts arbitrary: g) auto

lemma age_loop_error:
  "age_loop duration_since now starts g = Inl e \<Longrightarrow> \<exists>started \<in> set starts. duration_since now started = Inl e"
  by (induction starts arbitrary: g) (auto split: sum.splits)

lemma set_map_filter: "x \<in> set (List.map_filter f xs) \<longleftrightarrow> (\<exists>y \<in> set xs. f y = Some x)"
  by (induction xs) (auto simp: List.map_filter_simps split: option.splits)

lemma oldest_fold:
  "fold (\<lambda>started oldest. Some (case oldest of None \<Rightarrow> age started | Some d \<Rightarrow> max d (age started))) starts (Some d) =
     Some (Max (set (d # map age starts)))"
proof -
  have "fold (\<lambda>started oldest. Some (case oldest of None \<Rightarrow> age started | Some d \<Rightarrow> max d (age started))) starts (Some d) =
      Some (fold max (map age starts) d)" by (induction starts arbitrary: d) (simp_all add: max.commute)
  then show ?thesis by (simp only: Max.set_eq_fold)
qed

text \<open>A snapshot taken at an instant keeps the captured gauges and adds the age of the oldest delivery
  in scope with a recorded start, or no age when there is none. When the clock library refuses to compare
  one of the starts with the instant, the snapshot fails with such an error and never with a wrong age.\<close>

theorem snapshot_age_exact:
  fixes duration_since :: "instant \<Rightarrow> instant \<Rightarrow> 't + duration"
    and ito :: owned_order and its :: sub_order and s :: delivery_scheduler_state and scope :: "id option"
  assumes "iteration_order ito"
  defines "input \<equiv> snapshot_input ito its s scope"
    and "starts \<equiv> {at. \<exists>l r. fmlookup (owned s) l = Some r \<and> in_scope scope (rec_subscription_id r) \<and> rec_created_at r = Some at}"
  shows "(case input_at duration_since input now of
      Inr g \<Rightarrow> (\<exists>age. (\<forall>at \<in> starts. duration_since now at = Inr (age at)) \<and>
        g = (snapshot_gauges ito its s scope)\<lparr>oldest_owned_age := (if starts = {} then None else Some (Max (age ` starts)))\<rparr>)
    | Inl e \<Rightarrow> (\<exists>at \<in> starts. duration_since now at = Inl e))"
proof -
  have dom: "l \<in> set (ito (owned s)) \<longleftrightarrow> (\<exists>r. fmlookup (owned s) l = Some r)" for l
    using iteration_order_set [OF assms(1), of "owned s"] by (auto simp: fmlookup_dom_iff)
  have pick: "(case fmlookup (owned s) l of None \<Rightarrow> None
      | Some r \<Rightarrow> if in_scope scope (rec_subscription_id r) then rec_created_at r else None) = Some at \<longleftrightarrow>
      (\<exists>r. fmlookup (owned s) l = Some r \<and> in_scope scope (rec_subscription_id r) \<and> rec_created_at r = Some at)" for l at
    by (cases "fmlookup (owned s) l") simp_all
  have "at \<in> set (owned_starts input) \<longleftrightarrow> at \<in> starts" for at
    unfolding input_def starts_def snapshot_input_def delivery_snapshot_input.simps set_map_filter pick Bex_def dom by blast
  then have set: "set (owned_starts input) = starts" by blast
  have none: "oldest_owned_age (gauges input) = None"
    by (simp add: input_def snapshot_input_def snapshot_gauges_def count_sub_rest count_owned_rest delivery_metrics_snapshot_default_def)
  show ?thesis
  proof (cases "input_at duration_since input now")
    case (Inl e)
    then show ?thesis using age_loop_error [of duration_since now "owned_starts input" "gauges input" e] set by (simp add: input_at_def)
  next
    case (Inr g)
    have ok: "\<forall>at \<in> set xs. \<exists>d. duration_since now at = Inr d" if "age_loop duration_since now xs g0 = Inr g1" for xs g0 g1
      using that by (induction xs arbitrary: g0) (auto split: sum.splits)
    obtain age where age: "\<forall>at \<in> set (owned_starts input). duration_since now at = Inr (age at)"
      using ok [of "owned_starts input" "gauges input" g] Inr unfolding input_at_def by metis
    have "(gauges input)\<lparr>oldest_owned_age := fold (\<lambda>started oldest. Some (case oldest of None \<Rightarrow> age started | Some d \<Rightarrow> max d (age started)))
        (owned_starts input) None\<rparr> = g"
      using Inr age_loop_ok [of "owned_starts input" duration_since now age "gauges input"] age none by (simp add: input_at_def)
    moreover have "fold (\<lambda>started oldest. Some (case oldest of None \<Rightarrow> age started | Some d \<Rightarrow> max d (age started)))
        (owned_starts input) None = (if starts = {} then None else Some (Max (age ` starts)))"
      using set [symmetric] oldest_fold [of age] by (cases "owned_starts input") simp_all
    ultimately show ?thesis using Inr age set by (auto simp: input_def snapshot_input_def)
  qed
qed

definition checked_since :: "instant \<Rightarrow> instant \<Rightarrow> string + duration" where
  "checked_since now started = (if started \<le> now then Inr (now - started) else Inl ''invalid instant order'')"

theorem snapshot_age_exact_witness:
  "input_at checked_since (snapshot_input key_order key_order tiny_state None) 10 =
     Inr ((snapshot_gauges key_order key_order tiny_state None)\<lparr>oldest_owned_age := Some 9\<rparr>)"
proof -
  have "map_sum id oldest_owned_age (input_at checked_since (snapshot_input key_order key_order tiny_state None) 10) = Inr (Some 9)"
    by code_simp
  then obtain g where "input_at checked_since (snapshot_input key_order key_order tiny_state None) 10 = Inr g" "oldest_owned_age g = Some 9"
    by (auto simp: map_sum_def split: sum.splits)
  then show ?thesis
    using snapshot_age_exact [OF key_order_ok, where s = tiny_state and scope = None and duration_since = checked_since and now = 10
        and its = key_order] by auto
qed

end
