(* ===== verification/Scheduler_Live.thy ===== *)
theory Scheduler_Live
  imports Scheduler_Props
begin

text \<open>
  Progress of the delivery scheduler: whatever can be granted is granted, a change of the selected
  subscription leaves a wakeup for it, and no receive credit is withheld from a subscription that may
  have it.
\<close>

section \<open>Selection\<close>

lemma lane_of_queued:
  assumes ok: "sub_ok cfg (part own i) sub" and r: "fmlookup own l = Some r" "rec_subscription_id r = i" "queued_phase (rec_phase r)"
  obtains q where "(rec_lane r, q) \<in> set (sub_lanes sub)" "l \<in> set q"
proof -
  have "l \<in> set (queued_leases (sub_lanes sub))" using lanes_ok_queued(3) [OF sub_okD(1) [OF ok], of l r] r by simp
  then obtain k where "l \<in> set (queue_of (sub_lanes sub) k)" using queued_in_queue_of by blast
  moreover from this have "rec_lane r = k" using lanes_ok_queued(1) [OF sub_okD(1) [OF ok]] r by fastforce
  ultimately show thesis using that by (auto simp: queue_of_def)
qed

lemma eligible_if_unlocked:
  assumes ok: "sub_ok cfg (part own i) sub" and on: "dispatch_active sub"
    and lane: "(k, q) \<in> set (sub_lanes sub)" and free: "\<forall>key. k = Some key \<longrightarrow> key |\<notin>| locked_lanes sub"
  shows "eligible_lane sub own True \<noteq> None"
proof -
  have "\<not> stopped sub" using sub_okD(3) [OF ok] on by (auto simp: receive_ok_def)
  moreover obtain l q' where q: "q = l # q'"
    using sub_okD(1) [OF ok] lane by (cases q) (force simp: lanes_ok_def)+
  have "l \<in> set (queued_leases (sub_lanes sub))" using lane_head_queued lane q by blast
  then obtain r where "fmlookup own l = Some r" "queued_phase (rec_phase r)" using queued_in_table [OF ok] by blast
  then have "lane_grantable own True (locked_lanes sub) (k, q)"
    using free q by (auto simp: lane_grantable_def queued_phase_def split: option.splits)
  then have "find_position (lane_grantable own True (locked_lanes sub)) (sub_lanes sub) \<noteq> None"
    using lane by (auto simp: find_position_None)
  ultimately show ?thesis using on by (simp add: eligible_lane_def)
qed

lemma selection_exists:
  assumes "sched_inv s" and "running s < max_running_handlers (config s)" and "can_dispatch s i"
  shows "selected_ready s \<noteq> None"
proof -
  have "i \<in> set (ready s)" using assms by (simp add: sched_inv_def ready_inv_def)
  then show ?thesis using assms(2,3) by (auto simp: selected_ready_def find_ready_None can_dispatch_def)
qed

lemma selection_taken:
  assumes inv: "sched_inv s" and sel: "selected_ready s = Some (j, index)"
  shows "\<exists>s' l. take_ready s j = Some (s', Some l) \<or> take_settlement_ready s j = Some (s', Some l)"
proof -
  obtain sub k l q r where
    sub: "fmlookup (subscriptions s) j = Some sub" and lane: "index < length (sub_lanes sub)" "sub_lanes sub ! index = (k, l # q)"
    and r: "fmlookup (owned s) l = Some r"
    and ph: "rec_phase r = QueuedSettlement \<or> running s < max_running_handlers (config s) \<and> rec_phase r = Queued"
    by (rule selected_head [OF sel])
  obtain sub1 where tk: "sub_take_ready sub index = (sub1, Some l)" using sub_take_ready_head [OF lane] by blast
  have "checked_add (running s) 1 \<noteq> None" if "running s < max_running_handlers (config s)"
    using checked_add_1_None [of "running s"] that word_order.extremum_strict by auto
  then show ?thesis using ph sel sub lane r tk
    by (auto simp: take_ready_def take_settlement_ready_def take_grant_def Let_def)
qed

text \<open>C23: Work conservation. Take a reachable scheduler with a free handler slot and a lease that is
  queued for an active subscription, and suppose no other lease of its ordered lane is beyond the queue
  (an independent lease has no lane). Then a grant succeeds now: there is a subscription for which
  \<open>take_ready\<close> or \<open>take_settlement_ready\<close> returns a lease, so capacity never idles while work waits.\<close>

theorem scheduler_work_conserving:
  assumes "sched_reachable s"
    and "running s < max_running_handlers (config s)"
    and "fmlookup (owned s) l = Some r" and "rec_phase r \<in> {Queued, QueuedSettlement}"
    and "fmlookup (subscriptions s) (rec_subscription_id r) = Some sub" and "dispatch_active sub"
    and "fmcount (\<lambda>_ r'. rec_subscription_id r' = rec_subscription_id r \<and> rec_lane r' = rec_lane r \<and> rec_lane r \<noteq> None \<and>
      rec_phase r' \<in> {Running, Settling, WaitingRetry}) (owned s) = 0"
  shows "\<exists>j s' l'. take_ready s j = Some (s', Some l') \<or> take_settlement_ready s j = Some (s', Some l')"
proof -
  let ?i = "rec_subscription_id r"
  have inv: "sched_inv s" by (rule reachable_inv [OF assms(1)])
  then have core: "core_inv s" by (simp add: sched_inv_def)
  note ok = core_invD(1) [OF core assms(5)]
  obtain q where lane: "(rec_lane r, q) \<in> set (sub_lanes sub)"
    using lane_of_queued [OF ok assms(3)] assms(4) by (auto simp: queued_phase_def)
  have none: "\<not> (rec_subscription_id r' = ?i \<and> rec_lane r' = rec_lane r \<and> rec_lane r \<noteq> None \<and> rec_phase r' \<in> {Running, Settling, WaitingRetry})"
    if "fmlookup (owned s) l' = Some r'" for l' r'
    using assms(7) that unfolding fmcount_def fmsum_0_iff by fastforce
  have "key |\<notin>| locked_lanes sub" if "rec_lane r = Some key" for key
  proof
    assume "key |\<in>| locked_lanes sub"
    then obtain l' where "holds (part (owned s) ?i) l' key" using sub_okD(2) [OF ok] by (auto simp: holders_ok_def)
    then obtain r' where "fmlookup (owned s) l' = Some r'" "rec_subscription_id r' = ?i" "holding_phase (rec_phase r')" "rec_lane r' = Some key"
      by (auto simp: holds_def)
    then show False using none that by (auto simp: holding_phase_def)
  qed
  then have "can_dispatch s ?i"
    using eligible_if_unlocked [OF ok assms(6) lane] assms(5) by (auto simp: can_dispatch_def)
  then show ?thesis using selection_exists [OF inv assms(2)] selection_taken [OF inv] by fastforce
qed

theorem scheduler_work_conserving_witness:
  "\<exists>j s' l'. take_ready tiny_state j = Some (s', Some l') \<or> take_settlement_ready tiny_state j = Some (s', Some l')"
proof -
  let ?r = "\<lparr>rec_subscription_id = 2, rec_phase = Queued, rec_created_at = Some 3, rec_lane = None\<rparr>"
  have "running tiny_state < max_running_handlers (config tiny_state)" by code_simp
  moreover have "fmlookup (owned tiny_state) 3 = Some ?r" by code_simp
  moreover have "map_option dispatch_active (fmlookup (subscriptions tiny_state) 2) = Some True" by code_simp
  ultimately show ?thesis
    using scheduler_work_conserving [OF tiny_reachable, of 3 ?r] by (auto simp: fmcount_def fmsum_def)
qed

section \<open>Wakeups\<close>

text \<open>The subscription that may dispatch next, and the lease it would get.\<close>

definition next_grant :: "delivery_scheduler_state \<Rightarrow> (id \<times> lease) option" where
  "next_grant s = (case selected_ready s of
       None \<Rightarrow> None
     | Some (j, index) \<Rightarrow> map_option (\<lambda>sub. (j, hd (snd (sub_lanes sub ! index)))) (fmlookup (subscriptions s) j))"

lemma find_ready_same:
  assumes "\<And>i. i \<in> set is \<Longrightarrow> Option.bind (fmlookup (subscriptions s') i) (\<lambda>sub. eligible_lane sub (owned s') h) =
    Option.bind (fmlookup (subscriptions s) i) (\<lambda>sub. eligible_lane sub (owned s) h)"
  shows "find_ready s' h is = find_ready s h is"
  using assms by (induction "is") (simp_all cong: option.case_cong)

lemma selected_notify: "selected_ready (notify_ready s) = selected_ready s"
  unfolding selected_ready_def notify_fields by (rule find_ready_same) simp

lemma notify_wakes: "next_grant (notify_ready s) = Some (j, l) \<Longrightarrow> j |\<in>| notifications (notify_ready s)"
  by (auto simp: next_grant_def selected_notify split: option.splits) (auto simp: notify_ready_def)

text \<open>A change that leaves every ready subscription's lanes and its queued leases.\<close>

lemma next_grant_same:
  assumes inv: "core_inv s" and "config s' = config s" "running s' = running s" "ready s' = ready s"
    and subs: "\<And>i. i \<in> set (ready s) \<Longrightarrow>
      map_option dispatch_part (fmlookup (subscriptions s') i) = map_option dispatch_part (fmlookup (subscriptions s) i)"
    and leases: "\<And>l r. fmlookup (owned s) l = Some r \<Longrightarrow> queued_phase (rec_phase r) \<Longrightarrow> fmlookup (owned s') l = Some r"
  shows "next_grant s' = next_grant s"
proof -
  have sub': "\<exists>sub'. fmlookup (subscriptions s') i = Some sub' \<and> sub_lanes sub' = sub_lanes sub \<and>
      (\<forall>own h. eligible_lane sub' own h = eligible_lane sub own h)"
    if "i \<in> set (ready s)" "fmlookup (subscriptions s) i = Some sub" for i sub
    using subs [OF that(1)] that(2) by (auto simp: dispatch_part_def eligible_lane_def)
  have "find_ready s' h (ready s) = find_ready s h (ready s)" for h
  proof (rule find_ready_same)
    fix i assume i: "i \<in> set (ready s)"
    show "Option.bind (fmlookup (subscriptions s') i) (\<lambda>sub. eligible_lane sub (owned s') h) =
      Option.bind (fmlookup (subscriptions s) i) (\<lambda>sub. eligible_lane sub (owned s) h)"
    proof (cases "fmlookup (subscriptions s) i")
      case None
      then show ?thesis using subs [OF i] by simp
    next
      case (Some sub)
      have "eligible_lane sub (owned s') h = eligible_lane sub (owned s) h"
        by (rule eligible_cong) (metis queued_in_table core_invD(1) [OF inv Some] leases)
      then show ?thesis using Some sub' [OF i Some] by auto
    qed
  qed
  then have sel: "selected_ready s' = selected_ready s" using assms(2-4) by (simp add: selected_ready_def)
  show ?thesis
  proof (cases "selected_ready s")
    case (Some x)
    obtain j n where x: "x = (j, n)" by fastforce
    then have "j \<in> set (ready s)" "fmlookup (subscriptions s) j \<noteq> None"
      using Some find_ready_Some by (fastforce simp: selected_ready_def)+
    then show ?thesis using sub' [of j] Some sel x by (auto simp: next_grant_def)
  qed (simp add: next_grant_def sel)
qed

definition wakes :: "delivery_scheduler_state \<Rightarrow> delivery_scheduler_state \<Rightarrow> bool" where
  "wakes s s' \<longleftrightarrow> next_grant s' = next_grant s \<or> (\<exists>x. s' = notify_ready x)"

lemma grant_frame_wakes:
  assumes "core_inv s" and "grant_frame s s'"
  shows "next_grant s' = next_grant s"
  using assms(2) by (intro next_grant_same [OF assms(1)]) (auto simp: grant_frame_def subs_same_def fresh_only_def)

lemma request_receive_wakes:
  assumes inv: "sched_inv s" and s': "request_receive s i = Some s'"
  shows "next_grant s' = next_grant s"
proof (cases "s' = s")
  case False
  then obtain sub where sub: "fmlookup (subscriptions s) i = Some sub" "\<not> stopped sub" "\<not> receive_waiting sub" "receive_reservation sub = None"
    using s' by (auto simp: request_receive_def split: option.splits if_splits)
  have ci: "core_inv s" "ready_inv {} s" using inv by (simp_all add: sched_inv_def)
  let ?s = "s\<lparr>subscriptions := fmupd i (sub\<lparr>receive_waiting := True\<rparr>) (subscriptions s),
    receive_waiters := receive_waiters s @ [i]\<rparr>"
  have "core_inv ?s" "ready_inv {} ?s" using request_core [OF ci sub refl] by simp_all
  then have "next_grant s' = next_grant ?s"
    using grant_receives_ok [of ?s "{}"] grant_frame_wakes [of ?s s'] s' sub by (auto simp: request_receive_def)
  also have "\<dots> = next_grant s" by (rule next_grant_same [OF ci(1)]) (use sub in \<open>auto simp: dispatch_part_def\<close>)
  finally show ?thesis .
qed simp

lemma register_wakes:
  assumes inv: "sched_inv s"
  shows "next_grant (fst (register s i)) = next_grant s"
proof (cases "fst (register s i) = s")
  case False
  then have new: "fmlookup (subscriptions s) i = None"
    and s': "fst (register s i) = s\<lparr>subscriptions := fmupd i subscription_schedule_state_default (subscriptions s)\<rparr>"
    by (auto simp: register_def split: if_splits)
  have "i \<notin> set (ready s)" using inv new by (auto simp: sched_inv_def ready_inv_def can_dispatch_def)
  then show ?thesis using inv by (intro next_grant_same) (auto simp: s' sched_inv_def)
qed simp

lemma take_receive_wakes:
  "core_inv s \<Longrightarrow> next_grant (fst (take_receive_reservation s i)) = next_grant s"
  by (rule next_grant_same) (auto simp: take_receive_reservation_def dispatch_part_def split: option.splits if_splits)

lemma record_start_wakes: "core_inv s \<Longrightarrow> next_grant (record_owned_start s l at) = next_grant s"
  by (rule next_grant_same) (auto simp: record_owned_start_def split: option.splits if_splits)

lemma finish_attempt_wakes: "core_inv s \<Longrightarrow> next_grant (finish_attempt_waiting s l) = next_grant s"
  by (rule next_grant_same) (auto simp: finish_attempt_waiting_def split: option.splits if_splits)

lemma take_grant_wakes: "queued_phase e \<Longrightarrow> take_grant s i e = Some (s', x) \<Longrightarrow> sched_inv s \<Longrightarrow> wakes s s'"
proof (cases "selected_ready s")
  case (Some sel)
  assume inv: "sched_inv s" and s': "take_grant s i e = Some (s', x)"
  obtain j index where sel: "selected_ready s = Some (j, index)" using Some by (cases sel) auto
  obtain sub k l q r where "fmlookup (subscriptions s) j = Some sub" and lane: "index < length (sub_lanes sub)" "sub_lanes sub ! index = (k, l # q)"
    and "fmlookup (owned s) l = Some r"
    by (rule selected_head [OF sel])
  moreover obtain sub1 where "sub_take_ready sub index = (sub1, Some l)" using sub_take_ready_head [OF lane] by blast
  ultimately have "\<exists>y. s' = notify_ready y" using s' sel
    by (auto simp: take_grant_def Let_def split: if_splits)
  then show ?thesis by (simp add: wakes_def)
qed (simp add: take_grant_def wakes_def)

lemma exec_wakes:
  assumes inv: "sched_inv s" and s': "sched_exec s a = Some s'"
  shows "wakes s s'"
proof -
  have core: "core_inv s" using inv by (simp add: sched_inv_def)
  show ?thesis
  proof (cases a)
    case (TakeReady i)
    then show ?thesis using take_grant_wakes [of Queued s i s'] s' inv by (auto simp: take_ready_def)
  next
    case (TakeSettlementReady i)
    then show ?thesis using take_grant_wakes [of QueuedSettlement s i s'] s' inv by (auto simp: take_settlement_ready_def)
  next
    case TakeNotifications
    then have "s' = s\<lparr>notifications := {||}\<rparr>" using s' by (simp add: take_notifications_def)
    then show ?thesis using next_grant_same [OF core, of s'] by (simp add: wakes_def)
  qed (use s' inv core in \<open>auto simp: wakes_def register_wakes request_receive_wakes take_receive_wakes record_start_wakes
      finish_attempt_wakes set_dispatch_active_def cancel_receive_def enqueue_def enqueue_settlement_def enqueue_phase_def
      handler_finished_def defer_unstarted_retry_def leave_running_def wake_retry_def complete_def stop_subscription_def
      sched_unregister_def Let_def split: option.splits if_splits\<close>)
qed

text \<open>No wakeup is lost. When a call on a reachable scheduler makes a delivery the next grant
  (a subscription and the lease it would get), the subscription is among the pending wake targets after
  the call, unless the same delivery was already the next grant before it.\<close>

theorem scheduler_no_lost_wakeup:
  assumes "sched_reachable s" and "sched_exec s a = Some s'"
    and "next_grant s' = Some (j, l)" and "next_grant s \<noteq> Some (j, l)"
  shows "j |\<in>| notifications s'"
  using exec_wakes [OF reachable_inv [OF assms(1)] assms(2)] assms(3,4) notify_wakes by (auto simp: wakes_def)

theorem scheduler_no_lost_wakeup_witness:
  "next_grant tiny_state = Some (2, 3) \<and>
   (\<exists>s'. sched_exec tiny_state (TakeReady 2) = Some s' \<and> next_grant s' = None \<and>
     (\<exists>s''. sched_exec s' (Complete 1) = Some s'' \<and> next_grant s'' = Some (1, 2) \<and> 1 |\<in>| notifications s''))"
proof -
  define s1 where "s1 = the (sched_exec tiny_state (TakeReady 2))"
  define s2 where "s2 = the (sched_exec s1 (Complete 1))"
  have g: "next_grant tiny_state = Some (2, 3)" "next_grant s1 = None" "next_grant s2 = Some (1, 2)"
    unfolding s1_def s2_def by code_simp+
  obtain s1' where s1: "sched_exec tiny_state (TakeReady 2) = Some s1'" "sched_reachable s1'"
    using sched_exec_inv [OF reachable_inv [OF tiny_reachable], of "TakeReady 2"] reachable_step [OF tiny_reachable] by blast
  then have "s1' = s1" by (simp only: s1_def option.sel)
  with s1 have r1: "sched_reachable s1" "sched_exec tiny_state (TakeReady 2) = Some s1" by simp_all
  then have s2: "sched_exec s1 (Complete 1) = Some s2"
    using sched_exec_inv [OF reachable_inv [OF r1(1)], of "Complete 1"] by (metis s2_def option.sel)
  have "1 |\<in>| notifications s2" by (rule scheduler_no_lost_wakeup [OF r1(1) s2 g(3)]) (simp add: g(2))
  then show ?thesis using g r1(2) s2 by blast
qed

section \<open>Receive credits\<close>

text \<open>C37: No receive credit lies idle. When a subscription of a reachable scheduler waits for a receive
  although it is below its own limit, every owned credit of the bus is in use, or the lease identities are
  exhausted.\<close>

theorem no_idle_receive_credit:
  assumes "sched_reachable s" and "fmlookup (subscriptions s) i = Some sub" and "receive_waiting sub"
    and "sub_owned sub < max_owned_per_subscription (config s)"
  shows "fmlen (owned s) = unat (max_owned_deliveries (config s)) \<or> lease_ids_exhausted s"
proof -
  have inv: "core_inv s" "credit_inv s" using reachable_inv [OF assms(1)] by (simp_all add: sched_inv_def)
  then have "\<not> (fmlen (owned s) < unat (max_owned_deliveries (config s)) \<and> next_lease s \<noteq> None)"
    using assms(2-4) leD unfolding credit_inv_def by blast
  then show ?thesis using core_invD(3) [OF inv(1)] by (auto simp: bounds_ok_def lease_ids_exhausted_def)
qed

definition full_config :: scheduling_config where
  "full_config = tiny_config\<lparr>max_owned_deliveries := 2\<rparr>"

definition full_actions :: "sched_action list" where
  "full_actions = [Register 1, Register 2] @ receive_one 1 1 None @ receive_one 1 2 None @ [RequestReceive 2]"

definition full_state :: delivery_scheduler_state where
  "full_state = the (sched_run (scheduler_new full_config) full_actions)"

theorem no_idle_receive_credit_witness:
  "map_option receive_waiting (fmlookup (subscriptions full_state) 2) = Some True \<and>
   (fmlen (owned full_state) = unat (max_owned_deliveries (config full_state)) \<or> lease_ids_exhausted full_state)"
proof -
  have "sched_run (scheduler_new full_config) full_actions \<noteq> None" by code_simp
  then have r: "sched_reachable full_state" using sched_run_reach [OF _ new_reachable] by (auto simp: full_state_def)
  have f: "map_option receive_waiting (fmlookup (subscriptions full_state) 2) = Some True"
    "map_option (\<lambda>sub. sub_owned sub < max_owned_per_subscription (config full_state)) (fmlookup (subscriptions full_state) 2) = Some True"
    by code_simp+
  then show ?thesis using no_idle_receive_credit [OF r] by auto
qed

end
