(* ===== verification/Scheduler_Order.thy ===== *)
theory Scheduler_Order
  imports Scheduler_Live
begin

text \<open>
  Ordered delivery as a refinement. Abstractly, every ordered lane of a subscription is one line of
  leases: a lease joins at the end, only the first one may be granted, and a lease leaves when it is
  completed. The scheduler spreads the line over the phase of the lease that holds the lane and the queue
  of the lane; \<open>lane_line\<close> puts it together again. A retry moves the delivery from the first place of
  the line back to the queue, at its front, so the line does not change. The last section shows that a
  lease identity is never used twice.
\<close>

section \<open>The line of a lane\<close>

definition lane_line :: "delivery_scheduler_state \<Rightarrow> id \<Rightarrow> ordering_lane_key \<Rightarrow> lease list" where
  "lane_line s i k =
     filter (\<lambda>l. case fmlookup (owned s) l of
         None \<Rightarrow> False
       | Some r \<Rightarrow> rec_subscription_id r = i \<and> rec_lane r = Some k \<and> holding_phase (rec_phase r))
       (sorted_list_of_fset (fmdom (owned s))) @
     (case fmlookup (subscriptions s) i of None \<Rightarrow> [] | Some sub \<Rightarrow> queue_of (sub_lanes sub) (Some k))"

definition holders :: "delivery_scheduler_state \<Rightarrow> id \<Rightarrow> ordering_lane_key \<Rightarrow> lease list" where
  "holders s i k = sorted_list_of_set {l. holds (part (owned s) i) l k}"

definition lane_queued :: "delivery_scheduler_state \<Rightarrow> id \<Rightarrow> ordering_lane_key \<Rightarrow> lease list" where
  "lane_queued s i k = (case fmlookup (subscriptions s) i of None \<Rightarrow> [] | Some sub \<Rightarrow> queue_of (sub_lanes sub) (Some k))"

lemma lane_line_eq: "lane_line s i k = holders s i k @ lane_queued s i k"
proof -
  let ?P = "\<lambda>l. case fmlookup (owned s) l of
         None \<Rightarrow> False
       | Some r \<Rightarrow> rec_subscription_id r = i \<and> rec_lane r = Some k \<and> holding_phase (rec_phase r)"
  have "{l. holds (part (owned s) i) l k} = set (filter ?P (sorted_list_of_fset (fmdom (owned s))))"
    by (auto simp: holds_def sorted_list_of_fset.rep_eq fmlookup_dom_iff split: option.splits)
  then have "holders s i k = sorted_list_of_set (set (filter ?P (sorted_list_of_fset (fmdom (owned s)))))"
    by (simp only: holders_def)
  also have "\<dots> = filter ?P (sorted_list_of_fset (fmdom (owned s)))"
    by (rule sorted_list_of_set.idem_if_sorted_distinct)
      (simp_all add: sorted_list_of_fset.rep_eq sorted_wrt_filter)
  finally show ?thesis by (simp add: lane_line_def lane_queued_def)
qed

lemma holders_one:
  assumes "core_inv s" and "holds (part (owned s) i) l k"
  shows "holders s i k = [l]"
proof -
  obtain r where "fmlookup (owned s) l = Some r" "rec_subscription_id r = i" using assms(2) by (auto simp: holds_def)
  then obtain sub where "fmlookup (subscriptions s) i = Some sub" using lease_registered [OF assms(1)] by blast
  then have "holders_ok (part (owned s) i) sub" using sub_okD(2) core_invD(1) [OF assms(1)] by blast
  then have "{l. holds (part (owned s) i) l k} = {l}" using assms(2) by (auto simp: holders_ok_def)
  then show ?thesis by (simp add: holders_def)
qed

lemma finite_holders: "finite {l. holds (part own i) l k}"
proof (rule finite_subset)
  show "{l. holds (part own i) l k} \<subseteq> fset (fmdom own)" by (auto simp: holds_def fmlookup_dom_iff)
qed simp

lemma holders_none: "(\<And>l. \<not> holds (part (owned s) i) l k) \<Longrightarrow> holders s i k = []"
  by (simp add: holders_def)

lemma in_holders:
  assumes "core_inv s" and "l \<in> set (holders s i k)"
  shows "holds (part (owned s) i) l k"
  using assms holders_one [OF assms(1)] holders_none [of s i k] by (cases "\<exists>l'. holds (part (owned s) i) l' k") auto

lemma in_lane_queued:
  assumes "core_inv s" and "l \<in> set (lane_queued s i k)"
  shows "\<exists>r. fmlookup (owned s) l = Some r \<and> rec_subscription_id r = i \<and> queued_phase (rec_phase r) \<and> rec_lane r = Some k"
proof (cases "fmlookup (subscriptions s) i")
  case (Some sub)
  then show ?thesis
    using assms lanes_ok_queued(1) [OF sub_okD(1) [OF core_invD(1) [OF assms(1) Some]]]
    by (fastforce simp: lane_queued_def)
qed (use assms(2) in \<open>simp add: lane_queued_def\<close>)

lemma filter_absent: "l \<notin> set xs \<Longrightarrow> filter (\<lambda>c. c \<noteq> l) xs = xs"
  by (induction xs) auto

lemma line_frame:
  assumes "\<And>l. holds (part (owned s') i) l k = holds (part (owned s) i) l k"
    and "lane_queued s' i k = lane_queued s i k"
  shows "lane_line s' i k = lane_line s i k"
  using assms by (simp add: lane_line_eq holders_def)

lemma lane_fields [simp]:
  "lane_line (refresh_ready s j) i k = lane_line s i k" "lane_line (notify_ready s) i k = lane_line s i k"
  "lane_line (s\<lparr>notifications := N\<rparr>) i k = lane_line s i k" "lane_line (s\<lparr>receive_waiters := W\<rparr>) i k = lane_line s i k"
  by (simp_all add: lane_line_def)

section \<open>The line under each change\<close>

text \<open>Changes of one subscription's flags, and of a lease that keeps its lane and whether it holds it.\<close>

lemma line_sub:
  assumes "owned s' = owned s" and "subscriptions s' = fmupd j sub' (subscriptions s)"
    and "fmlookup (subscriptions s) j = Some sub" and "sub_lanes sub' = sub_lanes sub"
  shows "lane_line s' i k = lane_line s i k"
  by (rule line_frame) (use assms in \<open>auto simp: lane_queued_def\<close>)

lemma line_lease:
  assumes "subscriptions s' = subscriptions s" and "owned s' = fmupd l r' (owned s)" and "fmlookup (owned s) l = Some r"
    and "rec_subscription_id r' = rec_subscription_id r" "rec_lane r' = rec_lane r"
      "holding_phase (rec_phase r') = holding_phase (rec_phase r)"
  shows "lane_line s' i k = lane_line s i k"
  by (rule line_frame) (use assms in \<open>auto simp: lane_queued_def holds_def\<close>)

lemma line_grants:
  assumes "grant_frame s s'"
  shows "lane_line s' i k = lane_line s i k"
proof (rule line_frame)
  have f: "fresh_only s s'" "subs_same s s'" using assms by (simp_all add: grant_frame_def)
  show "holds (part (owned s') i) l k = holds (part (owned s) i) l k" for l
    using f(1) unfolding fresh_only_def holds_def part_Some by (metis phases_disjoint(12))
  have "map_option dispatch_part (fmlookup (subscriptions s') i) = map_option dispatch_part (fmlookup (subscriptions s) i)"
    using f(2) by (simp add: subs_same_def)
  then show "lane_queued s' i k = lane_queued s i k"
    by (cases "fmlookup (subscriptions s) i"; cases "fmlookup (subscriptions s') i")
      (auto simp: lane_queued_def dispatch_part_def)
qed

text \<open>Releasing a lease takes it out of its line, wherever it stands.\<close>

lemma line_release:
  assumes core: "core_inv s" and rel: "release s l = Some s'"
  shows "lane_line s' i k = filter (\<lambda>c. c \<noteq> l) (lane_line s i k)"
proof (cases "fmlookup (owned s) l")
  case None
  have "l \<notin> set (lane_queued s i k)" using None in_lane_queued [OF core, of l i k] by auto
  moreover have "l \<notin> set (holders s i k)" using None in_holders [OF core, of l i k] by (auto simp: holds_def)
  ultimately have "filter (\<lambda>c. c \<noteq> l) (lane_line s i k) = lane_line s i k" by (simp add: lane_line_eq filter_absent)
  then show ?thesis using None rel by (simp add: release_def)
next
  case (Some r)
  obtain sub where sub: "fmlookup (subscriptions s) (rec_subscription_id r) = Some sub"
    using lease_registered [OF core Some] by blast
  obtain c where s': "owned s' = fmdrop l (owned s)" "subscriptions s' = fmupd (rec_subscription_id r) (released sub l r c) (subscriptions s)"
    using rel Some sub by (auto simp: release_def released_def Let_def split: option.splits if_splits)
  have "holds (part (owned s') i) l' k \<longleftrightarrow> holds (part (owned s) i) l' k \<and> l' \<noteq> l" for l'
    by (auto simp: holds_def s')
  then have "{l'. holds (part (owned s') i) l' k} = {l'. holds (part (owned s) i) l' k} - {l}" by auto
  then have "holders s' i k = filter (\<lambda>c. c \<noteq> l) (holders s i k)"
    using finite_holders [of "owned s" i k]
    by (simp add: holders_def sorted_list_of_set.sorted_key_list_of_set_remove distinct_remove1_removeAll removeAll_filter_not_eq neq_commute)
  moreover have "lane_queued s' i k = filter (\<lambda>c. c \<noteq> l) (lane_queued s i k)"
  proof (cases "queued_phase (rec_phase r) \<and> rec_subscription_id r = i")
    case True
    then show ?thesis using sub by (simp add: lane_queued_def s')
  next
    case False
    have "l \<notin> set (lane_queued s i k)"
      using False Some in_lane_queued [OF core, of l i k] by auto
    then have "filter (\<lambda>c. c \<noteq> l) (lane_queued s i k) = lane_queued s i k" by (rule filter_absent)
    then show ?thesis using False sub by (auto simp: lane_queued_def s')
  qed
  ultimately show ?thesis by (simp add: lane_line_eq)
qed

text \<open>Queueing puts a lease at the end of the line, granting and requeueing leave the line.\<close>

lemma lane_queued_upd:
  assumes "subscriptions s' = fmupd j sub' (subscriptions s)"
  shows "lane_queued s' i k = (if i = j then queue_of (sub_lanes sub') (Some k) else lane_queued s i k)"
  using assms by (simp add: lane_queued_def)

lemma line_enqueue:
  assumes core: "core_inv s" and l: "fmlookup (owned s) l = Some r" "rec_phase r = ReservedReceive"
    and sub: "fmlookup (subscriptions s) (rec_subscription_id r) = Some sub" and p: "queued_phase p"
    and s': "subscriptions s' = fmupd (rec_subscription_id r) sub' (subscriptions s)"
      "owned s' = fmupd l (r\<lparr>rec_phase := p, rec_lane := lane\<rparr>) (owned s)"
      "sub_lanes sub' = join_lane (\<lambda>q. q @ [l]) l lane (sub_lanes sub)"
  shows "lane_line s' i k = (if i = rec_subscription_id r \<and> lane = Some k then lane_line s i k @ [l] else lane_line s i k)"
proof -
  have "keys_distinct (sub_lanes sub)" using sub_okD(1) [OF core_invD(1) [OF core sub]] by (simp add: lanes_ok_def)
  then have "lane_queued s' i k = (if i = rec_subscription_id r \<and> lane = Some k then lane_queued s i k @ [l] else lane_queued s i k)"
    using sub join_lane_queue(1) [of "sub_lanes sub" lane l "Some k"] join_lane_independent [of "\<lambda>q. q @ [l]" l "sub_lanes sub" k]
    by (cases lane) (auto simp: lane_queued_upd [OF s'(1)] s'(3), auto simp: lane_queued_def)
  moreover have "holds (part (owned s') i) l' k = holds (part (owned s) i) l' k" for l'
    using l p queued_not_holding by (auto simp: holds_def s')
  ultimately show ?thesis by (simp add: lane_line_eq holders_def)
qed

lemma line_take:
  assumes core: "core_inv s" and sub: "fmlookup (subscriptions s) j = Some sub"
    and lane: "index < length (sub_lanes sub)" "sub_lanes sub ! index = (k0, l # q)"
      "\<forall>key. k0 = Some key \<longrightarrow> key |\<notin>| locked_lanes sub"
    and r: "fmlookup (owned s) l = Some r" and tk: "sub_take_ready sub index = (sub1, Some l)"
    and p: "holding_phase p"
  shows "lane_line (granted s j sub1 l r p n) i k = lane_line s i k"
proof -
  let ?s = "granted s j sub1 l r p n"
  note ok = core_invD(1) [OF core sub]
  have "l \<in> set (queued_leases (sub_lanes sub))"
    using lane(1,2) lane_head_queued [of k0 l q "sub_lanes sub"] nth_mem by metis
  then have v: "rec_subscription_id r = j" "part (owned s) j l = Some r"
    using queued_in_table [OF ok] r by (metis option.inject part_Some)+
  note tr = sub_ok_take [OF ok lane v(2) p tk]
  have q: "lane_queued s i k = (if i = j \<and> k0 = Some k then l # lane_queued ?s i k else lane_queued ?s i k)"
    using tr(5) [of "Some k"] sub by (auto simp: lane_queued_def granted_def)
  have "holds (part (owned ?s) i) l' k \<longleftrightarrow> holds (part (owned s) i) l' k \<or> l' = l \<and> i = j \<and> k0 = Some k" for l'
    using r v(1) tr(3,4) p queued_not_holding by (auto simp: holds_def granted_def)
  moreover have "\<not> holds (part (owned s) i) l' k" if "i = j" "k0 = Some k" for l'
    using sub_okD(2) [OF ok] lane(3) that by (auto simp: holders_ok_def)
  ultimately have "holders ?s i k = (if i = j \<and> k0 = Some k then [l] else holders s i k)"
    and "i = j \<and> k0 = Some k \<Longrightarrow> holders s i k = []"
    by (auto simp: holders_def)
  then show ?thesis using q by (auto simp: lane_line_eq)
qed

lemma line_requeue:
  assumes core: "core_inv s" and l: "fmlookup (owned s) l = Some r" "holding_phase (rec_phase r)"
    and sub: "fmlookup (subscriptions s) (rec_subscription_id r) = Some sub"
    and s': "subscriptions s' = fmupd (rec_subscription_id r) sub' (subscriptions s)"
      "owned s' = fmupd l (r\<lparr>rec_phase := Queued\<rparr>) (owned s)"
      "sub_lanes sub' = join_lane (\<lambda>q. l # q) l (rec_lane r) (sub_lanes sub)"
  shows "lane_line s' i k = lane_line s i k"
proof -
  let ?own = "i = rec_subscription_id r \<and> rec_lane r = Some k"
  have "keys_distinct (sub_lanes sub)" using sub_okD(1) [OF core_invD(1) [OF core sub]] by (simp add: lanes_ok_def)
  then have q: "lane_queued s' i k = (if ?own then l # lane_queued s i k else lane_queued s i k)"
    using sub join_lane_queue(2) [of "sub_lanes sub" "rec_lane r" l "Some k"]
      join_lane_independent [of "\<lambda>q. l # q" l "sub_lanes sub" k]
    by (cases "rec_lane r") (auto simp: lane_queued_upd [OF s'(1)] s'(3), auto simp: lane_queued_def)
  have h: "holds (part (owned s') i) l' k \<longleftrightarrow> holds (part (owned s) i) l' k \<and> \<not> (l' = l \<and> ?own)" for l'
    using l by (auto simp: holds_def s')
  show ?thesis
  proof (cases ?own)
    case True
    then have held: "holds (part (owned s) i) l k" using l by (auto simp: holds_def)
    then have "holders s i k = [l]" by (rule holders_one [OF core])
    moreover from this have "{l'. holds (part (owned s) i) l' k} = {l}"
      using finite_holders [of "owned s" i k] by (metis holders_def list.simps(15) empty_set set_sorted_list_of_set)
    then have "holders s' i k = []" using h True by (intro holders_none) auto
    ultimately show ?thesis using q True by (simp add: lane_line_eq)
  next
    case False
    then show ?thesis using q h by (simp add: lane_line_eq holders_def)
  qed
qed

section \<open>The line under each operation\<close>

text \<open>The subscription whose claimed receive a lease is, and so whose lane it can join.\<close>

definition claimed_by :: "delivery_scheduler_state \<Rightarrow> lease \<Rightarrow> id option" where
  "claimed_by s l = Option.bind (fmlookup (owned s) l) (\<lambda>r.
     Option.bind (fmlookup (subscriptions s) (rec_subscription_id r)) (\<lambda>sub.
       if rec_phase r = ReservedReceive \<and> \<not> stopped sub \<and> receive_taken sub then Some (rec_subscription_id r) else None))"

text \<open>The specification: what an action does to the line of lane \<open>k\<close> of subscription \<open>i\<close>.\<close>

fun line_after :: "delivery_scheduler_state \<Rightarrow> id \<Rightarrow> ordering_lane_key \<Rightarrow> sched_action \<Rightarrow> lease list \<Rightarrow> lease list" where
  "line_after s i k (Enqueue l lane) xs = (if claimed_by s l = Some i \<and> lane = Some k then xs @ [l] else xs)"
| "line_after s i k (EnqueueSettlement l lane) xs = (if claimed_by s l = Some i \<and> lane = Some k then xs @ [l] else xs)"
| "line_after s i k (Complete l) xs = filter (\<lambda>c. c \<noteq> l) xs"
| "line_after s i k _ xs = xs"

lemma enqueue_phase_line:
  assumes core: "core_inv s" and p: "queued_phase p"
  shows "lane_line (enqueue_phase s l lane p) i k =
    (if claimed_by s l = Some i \<and> lane = Some k then lane_line s i k @ [l] else lane_line s i k)"
proof (cases "claimed_by s l")
  case None
  then have "enqueue_phase s l lane p = s"
    by (cases "fmlookup (owned s) l"; cases "fmlookup (subscriptions s) (rec_subscription_id (the (fmlookup (owned s) l)))")
      (auto simp: claimed_by_def enqueue_phase_def Let_def split: if_splits)
  then show ?thesis using None by simp
next
  case (Some j)
  then obtain r sub where r: "fmlookup (owned s) l = Some r" "rec_phase r = ReservedReceive" "rec_subscription_id r = j"
    and sub: "fmlookup (subscriptions s) (rec_subscription_id r) = Some sub" "\<not> stopped sub" "receive_taken sub"
    by (auto simp: claimed_by_def bind_eq_Some_conv split: if_splits)
  let ?s = "s\<lparr>subscriptions := fmupd (rec_subscription_id r)
      (sub_enqueue (sub\<lparr>receive_reservation := None, receive_taken := False\<rparr>) l lane) (subscriptions s),
    owned := fmupd l (r\<lparr>rec_phase := p, rec_lane := lane\<rparr>) (owned s)\<rparr>"
  have "enqueue_phase s l lane p = notify_ready (refresh_ready ?s (rec_subscription_id r))"
    using r sub by (simp add: enqueue_phase_def Let_def)
  then have "lane_line (enqueue_phase s l lane p) i k = lane_line ?s i k" by simp
  also have "\<dots> = (if i = rec_subscription_id r \<and> lane = Some k then lane_line s i k @ [l] else lane_line s i k)"
    by (rule line_enqueue [OF core r(1,2) sub(1) p, where sub' = "sub_enqueue (sub\<lparr>receive_reservation := None, receive_taken := False\<rparr>) l lane"])
      (simp_all add: sub_enqueue_def)
  finally show ?thesis using Some r(3) by auto
qed

lemma take_grant_line:
  assumes core: "core_inv s" and tg: "take_grant s j e = Some (s', x)"
  shows "lane_line s' i k = lane_line s i k"
proof (cases "selected_ready s")
  case (Some sel)
  obtain j' index where sel: "selected_ready s = Some (j', index)" using Some by (cases sel) auto
  obtain sub k0 l q r where sub: "fmlookup (subscriptions s) j' = Some sub"
    and lane: "index < length (sub_lanes sub)" "sub_lanes sub ! index = (k0, l # q)" "\<forall>key. k0 = Some key \<longrightarrow> key |\<notin>| locked_lanes sub"
    and r: "fmlookup (owned s) l = Some r"
    by (rule selected_head [OF sel])
  obtain sub1 where tk: "sub_take_ready sub index = (sub1, Some l)" using sub_take_ready_head [OF lane(1,2)] by blast
  have "s' = notify_ready s \<or> (\<exists>n. s' = notify_ready (refresh_ready (granted s j' sub1 l r Running n) j')) \<or>
      s' = notify_ready (refresh_ready (granted s j' sub1 l r Settling (running s)) j')"
    using tg sel sub lane(1,2) r tk by (auto simp: take_grant_def granted_def Let_def split: if_splits)
  then show ?thesis using line_take [OF core sub lane r tk] by auto
qed (use tg in \<open>simp add: take_grant_def\<close>)

lemma wake_retry_line:
  assumes core: "core_inv s"
  shows "lane_line (wake_retry s l) i k = lane_line s i k"
proof (cases "wake_retry s l = s")
  case False
  then obtain r sub where r: "fmlookup (owned s) l = Some r" "rec_phase r = WaitingRetry"
    and sub: "fmlookup (subscriptions s) (rec_subscription_id r) = Some sub"
    and s': "wake_retry s l = notify_ready (refresh_ready (s\<lparr>subscriptions :=
        fmupd (rec_subscription_id r) (requeued sub l (rec_lane r)) (subscriptions s),
        owned := fmupd l (r\<lparr>rec_phase := Queued\<rparr>) (owned s)\<rparr>) (rec_subscription_id r))"
    by (auto simp: wake_retry_def requeued_def Let_def split: option.splits if_splits)
  then show ?thesis
    using line_requeue [OF core r(1) _ sub, of _ "requeued sub l (rec_lane r)" i k] by (simp add: s')
qed simp

lemma complete_line:
  assumes inv: "sched_inv s" and s': "complete s l = Some s'"
  shows "lane_line s' i k = filter (\<lambda>c. c \<noteq> l) (lane_line s i k)"
proof -
  have ci: "core_inv s" "ready_inv {} s" using inv by (simp_all add: sched_inv_def)
  obtain s1 where s1: "release s l = Some s1" "core_inv s1" "ready_inv {} s1" using release_ok [OF ci] by blast
  then obtain s2 where "grant_receives s1 = Some s2" "grant_frame s1 s2" using grant_receives_ok by blast
  then show ?thesis using s' s1 line_grants line_release [OF ci(1) s1(1)] by (auto simp: complete_def)
qed

lemma withdraw_line:
  assumes core: "core_inv s" and sub: "fmlookup (subscriptions s) j = Some sub"
    and ok: "sub_ok (config s) (part (owned s) j) sub'" "\<not> receive_waiting sub'" "sub_lanes sub' = sub_lanes sub"
    and s1: "s1 = s\<lparr>subscriptions := fmupd j sub' (subscriptions s), receive_waiters := filter (\<lambda>c. c \<noteq> j) (receive_waiters s)\<rparr>"
    and s2: "release_unclaimed s1 (unclaimed sub) = Some s2"
  shows "lane_line s2 i k = lane_line s i k"
proof -
  have core1: "core_inv s1" by (rule withdraw_core [OF core sub ok(1,2) s1])
  have same: "lane_line s1 i k = lane_line s i k" by (rule line_sub [OF _ _ sub ok(3)]) (simp_all add: s1)
  show ?thesis
  proof (cases "unclaimed sub")
    case None
    then show ?thesis using s2 same by (simp add: release_unclaimed_def)
  next
    case (Some l)
    then have "reserved (part (owned s) j) l"
      using sub_okD(3) [OF core_invD(1) [OF core sub]] by (auto simp: unclaimed_def receive_ok_def split: if_splits)
    then obtain r where r: "fmlookup (owned s1) l = Some r" "rec_phase r = ReservedReceive" by (auto simp: reserved_def s1)
    then have "l \<notin> set (lane_line s1 i k)"
      using in_holders [OF core1, of l i k] in_lane_queued [OF core1, of l i k] by (auto simp: lane_line_eq holds_def)
    then have "filter (\<lambda>c. c \<noteq> l) (lane_line s1 i k) = lane_line s1 i k" by (rule filter_absent)
    then show ?thesis using line_release [OF core1, of l s2 i k] s2 Some same by (simp add: release_unclaimed_def)
  qed
qed

lemma grants_line:
  assumes "core_inv s" and "ready_inv X s" and "grant_receives s = Some s'"
  shows "lane_line s' i k = lane_line s i k"
  using grant_receives_ok [OF assms(1,2)] assms(3) line_grants by fastforce

lemma cancel_receive_line:
  assumes inv: "sched_inv s" and s': "cancel_receive s j = Some s'"
  shows "lane_line s' i k = lane_line s i k"
proof (cases "fmlookup (subscriptions s) j")
  case (Some sub)
  have ci: "core_inv s" "ready_inv {} s" using inv by (simp_all add: sched_inv_def)
  let ?s = "s\<lparr>subscriptions := fmupd j (sub\<lparr>receive_waiting := False\<rparr>) (subscriptions s),
    receive_waiters := filter (\<lambda>c. c \<noteq> j) (receive_waiters s)\<rparr>"
  note ok = sub_ok_flags(2) [OF core_invD(1) [OF ci(1) Some]]
  obtain s2 where s2: "release_unclaimed ?s (unclaimed sub) = Some s2" "core_inv s2" "ready_inv {j} s2"
    using withdraw_ok [OF ci Some ok _ refl, of "unclaimed sub"] by auto
  obtain s3 where "grant_receives s2 = Some s3" "s' = notify_ready s3"
    using s' Some s2(1) by (auto simp: cancel_receive_def bind_eq_Some_conv)
  moreover have "lane_line s2 i k = lane_line s i k" by (rule withdraw_line [OF ci(1) Some ok _ _ refl s2(1)]) simp_all
  ultimately show ?thesis using grants_line [OF s2(2,3)] by simp
qed (use s' in \<open>simp add: cancel_receive_def\<close>)

lemma stop_subscription_line:
  assumes inv: "sched_inv s" and s': "stop_subscription s j = Some s'"
  shows "lane_line s' i k = lane_line s i k"
proof (cases "fmlookup (subscriptions s) j")
  case (Some sub)
  have ci: "core_inv s" "ready_inv {} s" using inv by (simp_all add: sched_inv_def)
  let ?sub = "sub\<lparr>stopped := True, dispatch_active := False, receive_waiting := False\<rparr>"
  let ?s = "s\<lparr>subscriptions := fmupd j ?sub (subscriptions s), receive_waiters := filter (\<lambda>c. c \<noteq> j) (receive_waiters s)\<rparr>"
  note ok = sub_ok_flags(5) [OF core_invD(1) [OF ci(1) Some]]
  obtain s2 where s2: "release_unclaimed ?s (unclaimed sub) = Some s2" "core_inv s2" "ready_inv {j} s2" "fmlookup (subscriptions s2) j \<noteq> None"
    using withdraw_ok [OF ci Some ok _ refl, of "unclaimed sub"] by auto
  let ?s3 = "(refresh_ready s2 j)\<lparr>notifications := finsert j (notifications s2)\<rparr>"
  have c3: "core_inv ?s3"
    by (rule notifications_core [OF refresh_core [OF s2(2)]]) (use s2(4) core_invD(6) [OF s2(2)] in auto)
  have r3: "ready_inv {} ?s3" using refresh_ready_inv [of j "{}" s2] s2(3) by simp
  obtain s4 where "grant_receives ?s3 = Some s4" "s' = notify_ready s4"
    using s' Some s2(1) by (auto simp: stop_subscription_def bind_eq_Some_conv Let_def)
  moreover have "lane_line s2 i k = lane_line s i k" by (rule withdraw_line [OF ci(1) Some ok _ _ refl s2(1)]) simp_all
  ultimately show ?thesis using grants_line [OF c3 r3] by simp
qed (use s' in \<open>simp add: stop_subscription_def\<close>)

lemma request_receive_line:
  assumes inv: "sched_inv s" and s': "request_receive s j = Some s'"
  shows "lane_line s' i k = lane_line s i k"
proof (cases "s' = s")
  case False
  have ci: "core_inv s" "ready_inv {} s" using inv by (simp_all add: sched_inv_def)
  obtain sub where sub: "fmlookup (subscriptions s) j = Some sub" "\<not> stopped sub" "\<not> receive_waiting sub" "receive_reservation sub = None"
    using s' False by (auto simp: request_receive_def split: option.splits if_splits)
  let ?s = "s\<lparr>subscriptions := fmupd j (sub\<lparr>receive_waiting := True\<rparr>) (subscriptions s),
    receive_waiters := receive_waiters s @ [j]\<rparr>"
  have "lane_line s' i k = lane_line ?s i k"
    using grants_line [OF request_core [OF ci sub refl]] s' sub by (simp add: request_receive_def)
  also have "\<dots> = lane_line s i k"
    by (rule line_sub [where sub' = "sub\<lparr>receive_waiting := True\<rparr>", OF _ _ sub(1)]) simp_all
  finally show ?thesis .
qed simp

lemma unregister_line:
  assumes core: "core_inv s"
  shows "lane_line (fst (sched_unregister s j)) i k = lane_line s i k"
proof (cases "fst (sched_unregister s j) = s")
  case False
  then obtain sub where sub: "fmlookup (subscriptions s) j = Some sub" "sub_owned sub = 0"
    and s': "fst (sched_unregister s j) = notify_ready (s\<lparr>subscriptions := fmdrop j (subscriptions s),
                 ready := filter (\<lambda>c. c \<noteq> j) (ready s), receive_waiters := filter (\<lambda>c. c \<noteq> j) (receive_waiters s),
                 notifications := notifications s |-| {|j|}\<rparr>)"
    by (auto simp: sched_unregister_def split: option.splits if_splits)
  have "dom (part (owned s) j) = {}" using sub_okD(4,5) [OF core_invD(1) [OF core sub(1)]] sub(2) by simp
  then have "lane_queued s j k = []"
    using in_lane_queued [OF core, of _ j k] by (metis domIff empty_iff list.set_intros(1) neq_Nil_conv option.distinct(1) part_Some)
  then show ?thesis
    unfolding s' lane_fields by (intro line_frame) (auto simp: lane_queued_def)
qed simp

lemma flags_line:
  "core_inv s \<Longrightarrow> lane_line (set_dispatch_active s j active) i k = lane_line s i k"
  "core_inv s \<Longrightarrow> lane_line (fst (take_receive_reservation s j)) i k = lane_line s i k"
  by (auto simp: set_dispatch_active_def take_receive_reservation_def split: option.splits
      intro: line_sub [where sub' = "the (fmlookup (subscriptions s) j)\<lparr>dispatch_active := active \<and> \<not> stopped (the (fmlookup (subscriptions s) j))\<rparr>"]
        line_sub [where sub' = "the (fmlookup (subscriptions s) j)\<lparr>receive_taken := True\<rparr>"])

lemma register_line: "core_inv s \<Longrightarrow> lane_line (fst (register s j)) i k = lane_line s i k"
  by (rule line_frame) (auto simp: register_def lane_queued_def subscription_schedule_state_default_def)

lemma role_line:
  "lane_line (record_owned_start s l at) i k = lane_line s i k"
  "lane_line (finish_attempt_waiting s l) i k = lane_line s i k"
  by (auto simp: record_owned_start_def finish_attempt_waiting_def split: option.splits intro!: line_lease)

lemma leave_running_line:
  "leave_running s l p = Some s' \<Longrightarrow> holding_phase p \<Longrightarrow> lane_line s' i k = lane_line s i k"
  by (auto simp: leave_running_def split: option.splits if_splits intro!: line_lease)

lemma exec_line:
  assumes inv: "sched_inv s" and s': "sched_exec s a = Some s'"
  shows "lane_line s' i k = line_after s i k a (lane_line s i k)"
proof -
  have core: "core_inv s" using inv by (simp add: sched_inv_def)
  show ?thesis
    using s' take_grant_line [OF core] core inv
    by (cases a)
      (auto simp: register_line flags_line role_line enqueue_def enqueue_settlement_def enqueue_phase_line wake_retry_line
        unregister_line take_notifications_def take_ready_def take_settlement_ready_def handler_finished_def defer_unstarted_retry_def
        dest: request_receive_line [OF inv] cancel_receive_line [OF inv] stop_subscription_line [OF inv] complete_line [OF inv]
          leave_running_line)
qed

text \<open>C3: Ordered lanes are first in, first out, retries included. On a reachable scheduler every call
  acts on the line of an ordered lane as the specification \<open>line_after\<close> says: queueing a claimed receive
  for the lane appends its lease, completing a lease removes it, and every other call leaves the line as
  it is, a grant and the return of a delivery for a retry among them. And a delivery of the lane that
  runs, settles or waits for a retry is the first of its line.\<close>

theorem ordered_lane_fifo:
  assumes "sched_reachable s" and "sched_exec s a = Some s'"
  shows "lane_line s' i k = line_after s i k a (lane_line s i k) \<and>
    (\<forall>l r. fmlookup (owned s) l = Some r \<and> rec_subscription_id r = i \<and> rec_lane r = Some k \<and>
       rec_phase r \<in> {Running, Settling, WaitingRetry} \<longrightarrow> (\<exists>rest. lane_line s i k = l # rest))"
proof -
  have inv: "sched_inv s" by (rule reachable_inv [OF assms(1)])
  then have core: "core_inv s" by (simp add: sched_inv_def)
  have "lane_line s i k = l # lane_queued s i k" if "fmlookup (owned s) l = Some r" "rec_subscription_id r = i"
      "rec_lane r = Some k" "rec_phase r \<in> {Running, Settling, WaitingRetry}" for l r
    using holders_one [OF core, of i l k] that by (auto simp: lane_line_eq holds_def holding_phase_def)
  then show ?thesis using exec_line [OF inv assms(2)] by blast
qed

theorem ordered_lane_fifo_witness:
  "lane_line tiny_state 1 tiny_lane = [1, 2] \<and>
   lane_line (the (sched_exec tiny_state (DeferUnstartedRetry 1))) 1 tiny_lane = [1, 2]"
proof -
  have "lane_line tiny_state 1 tiny_lane = [1, 2]" by code_simp
  moreover obtain s' where "sched_exec tiny_state (DeferUnstartedRetry 1) = Some s'"
    using sched_exec_inv [OF reachable_inv [OF tiny_reachable]] by blast
  ultimately show ?thesis using ordered_lane_fifo [OF tiny_reachable, of "DeferUnstartedRetry 1" s' 1 tiny_lane] by simp
qed

section \<open>Lease identities\<close>

text \<open>The leases after a call were there before it or are not below the next identity before it, and the
  next identity does not go back.\<close>

definition ids_kept :: "delivery_scheduler_state \<Rightarrow> delivery_scheduler_state \<Rightarrow> bool" where
  "ids_kept s s' \<longleftrightarrow>
     (\<forall>l. fmlookup (owned s') l \<noteq> None \<longrightarrow> fmlookup (owned s) l \<noteq> None \<or> (\<exists>n. next_lease s = Some n \<and> n \<le> l)) \<and>
     (\<forall>n'. next_lease s' = Some n' \<longrightarrow> (\<exists>n. next_lease s = Some n \<and> n \<le> n'))"

lemma ids_kept_trans:
  assumes "ids_kept s s'" and "ids_kept s' s''"
  shows "ids_kept s s''"
proof -
  have later: "\<exists>n. next_lease s = Some n \<and> n \<le> x" if "next_lease s' = Some n'" "n' \<le> x" for n' x
    using assms(1) that order_trans unfolding ids_kept_def by blast
  have "fmlookup (owned s) l \<noteq> None \<or> (\<exists>n. next_lease s = Some n \<and> n \<le> l)" if "fmlookup (owned s'') l \<noteq> None" for l
    using assms that later unfolding ids_kept_def by blast
  moreover have "\<exists>n. next_lease s = Some n \<and> n \<le> x" if "next_lease s'' = Some x" for x
    using assms(2) that later unfolding ids_kept_def by blast
  ultimately show ?thesis unfolding ids_kept_def by blast
qed

lemma ids_keptI:
  assumes "next_lease s' = next_lease s" and "\<And>l. fmlookup (owned s') l \<noteq> None \<Longrightarrow> fmlookup (owned s) l \<noteq> None"
  shows "ids_kept s s'"
  using assms by (simp add: ids_kept_def)

lemma ids_notify [simp]:
  "ids_kept s (notify_ready x) = ids_kept s x" "ids_kept s (refresh_ready x i) = ids_kept s x" "ids_kept s s"
  by (simp_all add: ids_kept_def)

lemma ids_release: "release s l = Some s' \<Longrightarrow> ids_kept s s'"
  by (rule ids_keptI) (auto simp: release_def Let_def split: option.splits if_splits)

lemma ids_grant_loop: "grant_loop n s = Some s' \<Longrightarrow> ids_kept s s'"
proof (induction n arbitrary: s)
  case (Suc n)
  have same: "ids_kept s s'" if "grant_loop n x = Some s'" "next_lease x = next_lease s" "owned x = owned s" for x
    using ids_kept_trans [OF ids_keptI [of x s] Suc.IH [OF that(1)]] that(2,3) by simp
  have new: "ids_kept s s'" if "grant_loop n x = Some s'" "next_lease s = Some l" "next_lease x = checked_add l 1"
      "owned x = fmupd l r (owned s)" for x l r
  proof (rule ids_kept_trans [OF _ Suc.IH [OF that(1)]])
    show "ids_kept s x" using that(2-4) by (auto simp: ids_kept_def checked_add_Some_iff word_le_nat_alt)
  qed
  from Suc.prems show ?case
    by (auto simp: Let_def split: if_splits list.splits option.splits intro: same new ids_keptI)
qed simp

lemma ids_withdraw:
  assumes "release_unclaimed (s\<lparr>subscriptions := S, receive_waiters := W\<rparr>) u = Some s'"
  shows "ids_kept s s'"
proof (cases u)
  case (Some l)
  then have "ids_kept (s\<lparr>subscriptions := S, receive_waiters := W\<rparr>) s'" using assms ids_release by (simp add: release_unclaimed_def)
  then show ?thesis by (simp add: ids_kept_def)
qed (use assms in \<open>auto simp: release_unclaimed_def intro!: ids_keptI\<close>)

lemma ids_credit_ops:
  "request_receive s i = Some s' \<Longrightarrow> ids_kept s s'"
  "cancel_receive s i = Some s' \<Longrightarrow> ids_kept s s'"
  "stop_subscription s i = Some s' \<Longrightarrow> ids_kept s s'"
  "complete s l = Some s' \<Longrightarrow> ids_kept s s'"
proof -
  have grants: "ids_kept s s3" if "grant_receives s2 = Some s3" "ids_kept s s2" for s2 s3
    using ids_kept_trans [OF that(2) ids_grant_loop] that(1) by (simp add: grant_receives_def)
  have plain: "ids_kept s (s\<lparr>subscriptions := S, receive_waiters := W\<rparr>)" for S W by (simp add: ids_kept_def)
  show "ids_kept s s'" if "request_receive s i = Some s'"
    using that by (auto simp: request_receive_def split: option.splits if_splits intro: grants plain)
  show "ids_kept s s'" if run: "cancel_receive s i = Some s'"
  proof (cases "fmlookup (subscriptions s) i")
    case (Some sub)
    then obtain s2 s3 where "grant_receives s2 = Some s3" "s' = notify_ready s3" and
      s2: "release_unclaimed (s\<lparr>subscriptions := fmupd i (sub\<lparr>receive_waiting := False\<rparr>) (subscriptions s),
        receive_waiters := filter (\<lambda>c. c \<noteq> i) (receive_waiters s)\<rparr>) (unclaimed sub) = Some s2"
      using run by (auto simp: cancel_receive_def bind_eq_Some_conv)
    then show ?thesis using grants [OF _ ids_withdraw [OF s2]] by simp
  qed (use run in \<open>simp add: cancel_receive_def\<close>)
  have mark: "ids_kept s (x\<lparr>notifications := N\<rparr>) = ids_kept s x" for x N by (simp add: ids_kept_def)
  show "ids_kept s s'" if run: "stop_subscription s i = Some s'"
  proof (cases "fmlookup (subscriptions s) i")
    case (Some sub)
    then obtain s2 s4 where
      "grant_receives ((refresh_ready s2 i)\<lparr>notifications := finsert i (notifications s2)\<rparr>) = Some s4" "s' = notify_ready s4" and
      s2: "release_unclaimed (s\<lparr>subscriptions := fmupd i (sub\<lparr>stopped := True, dispatch_active := False, receive_waiting := False\<rparr>) (subscriptions s),
        receive_waiters := filter (\<lambda>c. c \<noteq> i) (receive_waiters s)\<rparr>) (unclaimed sub) = Some s2"
      using run by (auto simp: stop_subscription_def bind_eq_Some_conv Let_def)
    then show ?thesis using grants [of _ s4] ids_withdraw [OF s2] by (simp add: mark)
  qed (use run in \<open>simp add: stop_subscription_def\<close>)
  show "ids_kept s s'" if "complete s l = Some s'"
    using that grants [OF _ ids_release] by (auto simp: complete_def bind_eq_Some_conv)
qed

lemma take_ready_lease: "sub_take_ready sub n = (sub1, Some l) \<Longrightarrow> \<exists>q. snd (sub_lanes sub ! n) = l # q"
  by (auto simp: sub_take_ready_def Let_def split: if_splits prod.splits list.splits)

lemma ids_take_grant: "take_grant s i e = Some (s', x) \<Longrightarrow> ids_kept s s'"
  by (auto simp: take_grant_def Let_def split: option.splits if_splits prod.splits list.splits
      dest!: take_ready_lease intro!: ids_keptI)

lemma ids_plain_ops:
  "ids_kept s (fst (register s i))" "ids_kept s (set_dispatch_active s i active)" "ids_kept s (fst (take_receive_reservation s i))"
  "ids_kept s (record_owned_start s l at)" "ids_kept s (enqueue_phase s l lane p)" "ids_kept s (finish_attempt_waiting s l)"
  "ids_kept s (wake_retry s l)" "ids_kept s (fst (sched_unregister s i))" "ids_kept s (fst (take_notifications s))"
  "leave_running s l p = Some s' \<Longrightarrow> ids_kept s s'"
  by (auto simp: register_def set_dispatch_active_def take_receive_reservation_def record_owned_start_def enqueue_phase_def
      finish_attempt_waiting_def wake_retry_def sched_unregister_def take_notifications_def leave_running_def Let_def
      split: option.splits if_splits intro!: ids_keptI)

lemma ids_exec: "sched_exec s a = Some s' \<Longrightarrow> ids_kept s s'"
  by (cases a)
    (auto simp: ids_plain_ops enqueue_def enqueue_settlement_def take_ready_def take_settlement_ready_def handler_finished_def
      defer_unstarted_retry_def dest: ids_credit_ops ids_take_grant ids_plain_ops(10))

lemma ids_run: "sched_run s as = Some s' \<Longrightarrow> ids_kept s s'"
  by (induction as arbitrary: s) (auto simp: bind_eq_Some_conv dest: ids_exec intro: ids_kept_trans)

text \<open>C38: A lease identity is never used twice. A lease that the scheduler does not own, although
  it has been handed out (it is below the next identity, or the identities are exhausted), is never owned
  again, whatever calls follow.\<close>

theorem lease_ids_never_reused:
  assumes "sched_run s as = Some s'" and "fmlookup (owned s) l = None" and "next_lease s = None \<or> l < the (next_lease s)"
  shows "fmlookup (owned s') l = None"
  using ids_run [OF assms(1)] assms(2,3) unfolding ids_kept_def by (metis leD option.distinct(1) option.sel)

theorem lease_ids_never_reused_witness:
  "\<exists>s s'. sched_run tiny_state [Complete 1] = Some s \<and> sched_run s (receive_one 1 4 None) = Some s' \<and>
     fmlookup (owned s') 1 = None \<and> fmlookup (owned s') 4 \<noteq> None"
proof -
  define s1 where "s1 = the (sched_run tiny_state [Complete 1])"
  define s2 where "s2 = the (sched_run s1 (receive_one 1 4 None))"
  have s1: "sched_run tiny_state [Complete 1] = Some s1"
  proof -
    have "sched_run tiny_state [Complete 1] \<noteq> None" by code_simp
    then show ?thesis by (metis s1_def option.collapse)
  qed
  have s2: "sched_run s1 (receive_one 1 4 None) = Some s2"
  proof -
    have "sched_run s1 (receive_one 1 4 None) \<noteq> None" unfolding s1_def by code_simp
    then show ?thesis by (metis s2_def option.collapse)
  qed
  have "fmlookup (owned s1) 1 = None" "next_lease s1 = Some 4" unfolding s1_def by code_simp+
  then have "fmlookup (owned s2) 1 = None"
    using lease_ids_never_reused [OF s2] by simp
  moreover have "fmlookup (owned s2) 4 \<noteq> None" unfolding s2_def s1_def by code_simp
  ultimately show ?thesis using s1 s2 by blast
qed

end
