(* ===== verification/Sync_Scheduler.thy ===== *)
theory Sync_Scheduler
  imports Scheduler_Order Metrics
begin

text \<open>
  The synchronous delivery scheduler: \<open>src/src/facade/sync_delivery_scheduler.rs\<close> and its \<open>SchedulerState\<close>.
  It shares the scheduling core between the threads that own a receiver, routes the wake targets of the core
  to those threads, carries the granted jobs to the handler pool, and holds the shutdown policy.

  A job is a closure that the model does not look into; jobs are values of a type \<open>'j\<close>. A thread is a number,
  and \<open>park_tokens\<close> holds the threads whose park token is set: \<open>Thread::unpark\<close> sets it, and a park
  returns at once and clears it when it is set. An overflow panic of the core is the value \<^const>\<open>None\<close>.
\<close>

type_synonym thread = nat

record 'j sync_scheduler =
  core :: delivery_scheduler_state
  jobs :: "'j list"
  draining :: bool
  immediate :: bool
  cancelled_ids :: "id fset"
  pool_stopped :: bool
  owners :: "(id, thread) fmap"
  registered_ids :: "id fset"
  workers :: "thread list"
  park_tokens :: "thread fset"

definition sync_new :: "scheduling_config \<Rightarrow> 'j sync_scheduler" where
  "sync_new cfg = \<lparr>core = scheduler_new cfg, jobs = [], draining = False, immediate = False, cancelled_ids = {||},
     pool_stopped = False, owners = fmempty, registered_ids = {||}, workers = [], park_tokens = {||}\<rparr>"

section \<open>Routing wakeups\<close>

text \<open>The loop that unparks the owners of the given identities; it sets park tokens, so its order does not matter.\<close>

definition wake_owners :: "id fset \<Rightarrow> 'j sync_scheduler \<Rightarrow> 'j sync_scheduler" where
  "wake_owners ids s = s\<lparr>park_tokens := park_tokens s |\<union>| fmran (fmrestrict_fset ids (owners s))\<rparr>"

definition route_notifications :: "'j sync_scheduler \<Rightarrow> 'j sync_scheduler" where
  "route_notifications s = (case take_notifications (core s) of (c, ids) \<Rightarrow> wake_owners ids (s\<lparr>core := c\<rparr>))"

definition sync_notify :: "'j sync_scheduler \<Rightarrow> id \<Rightarrow> 'j sync_scheduler" where
  "sync_notify s i = (case fmlookup (owners s) i of
     None \<Rightarrow> s | Some owner \<Rightarrow> s\<lparr>park_tokens := finsert owner (park_tokens s)\<rparr>)"

section \<open>Operations of the core, followed by routing\<close>

definition after_core :: "'j sync_scheduler \<Rightarrow> delivery_scheduler_state \<Rightarrow> 'j sync_scheduler" where
  "after_core s c = route_notifications (s\<lparr>core := c\<rparr>)"

definition sync_register :: "'j sync_scheduler \<Rightarrow> id \<Rightarrow> 'j sync_scheduler \<times> bool" where
  "sync_register s i = (case register (core s) i of (c, registered) \<Rightarrow>
     (after_core (if registered then s\<lparr>registered_ids := finsert i (registered_ids s)\<rparr> else s) c, registered))"

definition attach_owner :: "'j sync_scheduler \<Rightarrow> id \<Rightarrow> thread \<Rightarrow> 'j sync_scheduler" where
  "attach_owner s i current = after_core (s\<lparr>owners := fmupd i current (owners s)\<rparr>) (set_dispatch_active (core s) i True)"

definition sync_set_dispatch_active :: "'j sync_scheduler \<Rightarrow> id \<Rightarrow> bool \<Rightarrow> 'j sync_scheduler" where
  "sync_set_dispatch_active s i active = after_core s (set_dispatch_active (core s) i active)"

definition sync_request_receive :: "'j sync_scheduler \<Rightarrow> id \<Rightarrow> 'j sync_scheduler option" where
  "sync_request_receive s i = map_option (after_core s) (request_receive (core s) i)"

definition sync_take_receive_reservation :: "'j sync_scheduler \<Rightarrow> id \<Rightarrow> 'j sync_scheduler \<times> lease option" where
  "sync_take_receive_reservation s i = (case take_receive_reservation (core s) i of (c, result) \<Rightarrow> (after_core s c, result))"

definition sync_enqueue :: "'j sync_scheduler \<Rightarrow> lease \<Rightarrow> ordering_lane_key option \<Rightarrow> 'j sync_scheduler" where
  "sync_enqueue s l lane = after_core s (enqueue (core s) l lane)"

definition sync_take_ready :: "'j sync_scheduler \<Rightarrow> id \<Rightarrow> ('j sync_scheduler \<times> lease option) option" where
  "sync_take_ready s i = map_option (\<lambda>(c, result). (after_core s c, result)) (take_ready (core s) i)"

definition sync_handler_finished :: "'j sync_scheduler \<Rightarrow> lease \<Rightarrow> 'j sync_scheduler option" where
  "sync_handler_finished s l = map_option (after_core s) (handler_finished (core s) l)"

definition sync_defer_unstarted_retry :: "'j sync_scheduler \<Rightarrow> lease \<Rightarrow> 'j sync_scheduler option" where
  "sync_defer_unstarted_retry s l = map_option (after_core s) (defer_unstarted_retry (core s) l)"

definition sync_finish_attempt_waiting :: "'j sync_scheduler \<Rightarrow> lease \<Rightarrow> 'j sync_scheduler" where
  "sync_finish_attempt_waiting s l = after_core s (finish_attempt_waiting (core s) l)"

definition sync_wake_retry :: "'j sync_scheduler \<Rightarrow> lease \<Rightarrow> 'j sync_scheduler" where
  "sync_wake_retry s l = after_core s (wake_retry (core s) l)"

definition sync_complete :: "'j sync_scheduler \<Rightarrow> lease \<Rightarrow> 'j sync_scheduler option" where
  "sync_complete s l = map_option (after_core s) (complete (core s) l)"

definition sync_lease_ids_exhausted :: "'j sync_scheduler \<Rightarrow> bool" where
  "sync_lease_ids_exhausted s = lease_ids_exhausted (core s)"

definition sync_record_owned_start :: "'j sync_scheduler \<Rightarrow> lease \<Rightarrow> instant \<Rightarrow> 'j sync_scheduler" where
  "sync_record_owned_start s l now = after_core s (record_owned_start (core s) l now)"

definition sync_snapshot ::
  "(instant \<Rightarrow> instant \<Rightarrow> 't + duration) \<Rightarrow> owned_order \<Rightarrow> sub_order \<Rightarrow> 'j sync_scheduler \<Rightarrow> id option \<Rightarrow> instant \<Rightarrow>
   't + delivery_metrics_snapshot" where
  "sync_snapshot duration_since ito its s scope now = input_at duration_since (snapshot_input ito its (core s) scope) now"

definition sync_snapshot_gauges :: "owned_order \<Rightarrow> sub_order \<Rightarrow> 'j sync_scheduler \<Rightarrow> id option \<Rightarrow> delivery_metrics_snapshot" where
  "sync_snapshot_gauges ito its s scope = snapshot_gauges ito its (core s) scope"

definition sync_enqueue_settlement :: "'j sync_scheduler \<Rightarrow> lease \<Rightarrow> ordering_lane_key option \<Rightarrow> 'j sync_scheduler" where
  "sync_enqueue_settlement s l lane = after_core s (enqueue_settlement (core s) l lane)"

definition sync_take_settlement_ready :: "'j sync_scheduler \<Rightarrow> id \<Rightarrow> ('j sync_scheduler \<times> lease option) option" where
  "sync_take_settlement_ready s i = map_option (\<lambda>(c, result). (after_core s c, result)) (take_settlement_ready (core s) i)"

section \<open>The handler pool\<close>

definition submit :: "'j sync_scheduler \<Rightarrow> 'j \<Rightarrow> 'j sync_scheduler" where
  "submit s job = s\<lparr>jobs := jobs s @ [job]\<rparr>"

text \<open>One pass of a pool thread under the state lock: run a job, exit, or wait for a change.\<close>

datatype 'j pool_step = RunJob 'j | ExitWorker | WaitChanged

definition worker_turn :: "'j sync_scheduler \<Rightarrow> 'j sync_scheduler \<times> 'j pool_step" where
  "worker_turn s = (case jobs s of
       job # rest \<Rightarrow> (s\<lparr>jobs := rest\<rparr>, RunJob job)
     | [] \<Rightarrow> (s, if pool_stopped s then ExitWorker else WaitChanged))"

text \<open>\<open>spawn\<close> is the operating system's answer to starting the worker of an index. A failure stops and joins the
  workers started so far and reopens the pool.\<close>

fun spawn_workers :: "(nat \<Rightarrow> 'e + thread) \<Rightarrow> nat list \<Rightarrow> thread list \<Rightarrow> 'e + thread list" where
  "spawn_workers spawn [] handles = Inr handles"
| "spawn_workers spawn (index # rest) handles = (case spawn index of
       Inl e \<Rightarrow> Inl e
     | Inr handle \<Rightarrow> spawn_workers spawn rest (handles @ [handle]))"

definition start_pool :: "(nat \<Rightarrow> 'e + thread) \<Rightarrow> 'j sync_scheduler \<Rightarrow> 'j sync_scheduler \<times> ('e + unit)" where
  "start_pool spawn s =
     (if workers s \<noteq> [] then (s, Inr ())
      else case spawn_workers spawn [0..<unat (max_running_handlers (config (core s)))] [] of
          Inl e \<Rightarrow> (s\<lparr>pool_stopped := False\<rparr>, Inl e)
        | Inr handles \<Rightarrow> (s\<lparr>workers := handles\<rparr>, Inr ()))"

definition join_pool :: "'j sync_scheduler \<Rightarrow> 'j sync_scheduler" where
  "join_pool s = s\<lparr>pool_stopped := True, workers := []\<rparr>"

section \<open>Shutdown and cancellation policy\<close>

definition cancel_subscription :: "'j sync_scheduler \<Rightarrow> id \<Rightarrow> 'j sync_scheduler option" where
  "cancel_subscription s i =
     (if i |\<notin>| registered_ids s then Some s
      else map_option (\<lambda>c. sync_notify (after_core (s\<lparr>cancelled_ids := finsert i (cancelled_ids s)\<rparr>) c) i)
        (stop_subscription (core s) i))"

fun cancel_all :: "'j sync_scheduler \<Rightarrow> id list \<Rightarrow> 'j sync_scheduler option" where
  "cancel_all s [] = Some s"
| "cancel_all s (i # is) = Option.bind (cancel_subscription s i) (\<lambda>s'. cancel_all s' is)"

text \<open>\<open>it\<close> is the iteration order of the set of registered identities.\<close>

definition stop_admission :: "(id fset \<Rightarrow> id list) \<Rightarrow> 'j sync_scheduler \<Rightarrow> bool \<Rightarrow> 'j sync_scheduler option" where
  "stop_admission it s now =
     (let s1 = s\<lparr>draining := True, immediate := immediate s \<or> now\<rparr>; ids = it (registered_ids s1)
      in if now then cancel_all s1 ids else Some (fold (\<lambda>i s'. sync_notify s' i) ids s1))"

definition request_stop :: "(id fset \<Rightarrow> id list) \<Rightarrow> 'j sync_scheduler \<Rightarrow> bool \<Rightarrow> 'j sync_scheduler option" where
  "request_stop it s now = stop_admission it s now"

definition handler_may_start :: "'j sync_scheduler \<Rightarrow> id \<Rightarrow> bool \<Rightarrow> bool" where
  "handler_may_start s i is_cancelled \<longleftrightarrow>
     \<not> immediate s \<and> i |\<notin>| cancelled_ids s \<and> (\<not> is_cancelled \<or> draining s)"

definition should_drain :: "'j sync_scheduler \<Rightarrow> id \<Rightarrow> bool" where
  "should_drain s i \<longleftrightarrow> draining s \<and> \<not> immediate s \<and> i |\<notin>| cancelled_ids s"

text \<open>The second component is the flag that debug builds assert.\<close>

definition finish_subscription :: "'j sync_scheduler \<Rightarrow> id \<Rightarrow> ('j sync_scheduler \<times> bool) option" where
  "finish_subscription s i = map_option (\<lambda>c. case sched_unregister c i of (c', removed) \<Rightarrow>
       (after_core (s\<lparr>registered_ids := registered_ids s |-| {|i|}, cancelled_ids := cancelled_ids s |-| {|i|},
          owners := fmdrop i (owners s)\<rparr>) c', removed))
     (stop_subscription (core s) i)"

end
