(* ===== verification/Sync_Scheduler_Props.thy ===== *)
theory Sync_Scheduler_Props
  imports Sync_Scheduler
begin

text \<open>
  What the synchronous scheduler adds to the core: every method is a run of core calls, so everything proved of
  the core holds of it and no method panics; the shutdown policy only ever becomes stricter; and a wakeup that
  the core asks for reaches the owner's thread, over all interleavings of the threads that route wakeups.
\<close>

section \<open>Methods as runs of the core\<close>

datatype 'j sync_call =
    SRegister id
  | SAttach id thread
  | SSetActive id bool
  | SRequest id
  | STakeReservation id
  | SRecordStart lease instant
  | SEnqueue lease "ordering_lane_key option"
  | SEnqueueSettlement lease "ordering_lane_key option"
  | STakeReady id
  | STakeSettlement id
  | SHandlerFinished lease
  | SDefer lease
  | SFinishWaiting lease
  | SWakeRetry lease
  | SComplete lease
  | SNotify id
  | SRoute
  | SSubmit 'j
  | SWorkerTurn
  | SStop bool
  | SCancel id
  | SFinish id
  | SJoin

fun sync_exec :: "(id fset \<Rightarrow> id list) \<Rightarrow> 'j sync_scheduler \<Rightarrow> 'j sync_call \<Rightarrow> 'j sync_scheduler option" where
  "sync_exec it s (SRegister i) = Some (fst (sync_register s i))"
| "sync_exec it s (SAttach i t) = Some (attach_owner s i t)"
| "sync_exec it s (SSetActive i b) = Some (sync_set_dispatch_active s i b)"
| "sync_exec it s (SRequest i) = sync_request_receive s i"
| "sync_exec it s (STakeReservation i) = Some (fst (sync_take_receive_reservation s i))"
| "sync_exec it s (SRecordStart l at) = Some (sync_record_owned_start s l at)"
| "sync_exec it s (SEnqueue l lane) = Some (sync_enqueue s l lane)"
| "sync_exec it s (SEnqueueSettlement l lane) = Some (sync_enqueue_settlement s l lane)"
| "sync_exec it s (STakeReady i) = map_option fst (sync_take_ready s i)"
| "sync_exec it s (STakeSettlement i) = map_option fst (sync_take_settlement_ready s i)"
| "sync_exec it s (SHandlerFinished l) = sync_handler_finished s l"
| "sync_exec it s (SDefer l) = sync_defer_unstarted_retry s l"
| "sync_exec it s (SFinishWaiting l) = Some (sync_finish_attempt_waiting s l)"
| "sync_exec it s (SWakeRetry l) = Some (sync_wake_retry s l)"
| "sync_exec it s (SComplete l) = sync_complete s l"
| "sync_exec it s (SNotify i) = Some (sync_notify s i)"
| "sync_exec it s SRoute = Some (route_notifications s)"
| "sync_exec it s (SSubmit job) = Some (submit s job)"
| "sync_exec it s SWorkerTurn = Some (fst (worker_turn s))"
| "sync_exec it s (SStop now) = request_stop it s now"
| "sync_exec it s (SCancel i) = cancel_subscription s i"
| "sync_exec it s (SFinish i) = map_option fst (finish_subscription s i)"
| "sync_exec it s SJoin = Some (join_pool s)"

lemma wake_owners_fields [simp]:
  "core (wake_owners ids s) = core s" "draining (wake_owners ids s) = draining s" "immediate (wake_owners ids s) = immediate s"
  "cancelled_ids (wake_owners ids s) = cancelled_ids s" "registered_ids (wake_owners ids s) = registered_ids s"
  "owners (wake_owners ids s) = owners s"
  by (simp_all add: wake_owners_def)

lemma after_core_fields [simp]:
  "core (after_core s c) = fst (take_notifications c)" "draining (after_core s c) = draining s"
  "immediate (after_core s c) = immediate s" "cancelled_ids (after_core s c) = cancelled_ids s"
  "registered_ids (after_core s c) = registered_ids s" "owners (after_core s c) = owners s"
  by (simp_all add: after_core_def route_notifications_def take_notifications_def)

lemma sync_notify_fields [simp]:
  "core (sync_notify s i) = core s" "draining (sync_notify s i) = draining s" "immediate (sync_notify s i) = immediate s"
  "cancelled_ids (sync_notify s i) = cancelled_ids s" "registered_ids (sync_notify s i) = registered_ids s"
  "owners (sync_notify s i) = owners s"
  by (simp_all add: sync_notify_def split: option.split)

lemma notify_all_fields [simp]:
  "core (fold (\<lambda>i s'. sync_notify s' i) ids s) = core s"
  "draining (fold (\<lambda>i s'. sync_notify s' i) ids s) = draining s"
  "immediate (fold (\<lambda>i s'. sync_notify s' i) ids s) = immediate s"
  "cancelled_ids (fold (\<lambda>i s'. sync_notify s' i) ids s) = cancelled_ids s"
  by (induction ids arbitrary: s) simp_all

text \<open>A method that makes the core call \<open>a\<close> and then routes.\<close>

lemma core_run: "sched_exec c a = Some c' \<Longrightarrow> sched_run c [a, TakeNotifications] = Some (fst (take_notifications c'))"
  by simp

lemma sched_run_append: "sched_run c (as @ bs) = Option.bind (sched_run c as) (\<lambda>c'. sched_run c' bs)"
proof (induction as arbitrary: c)
  case (Cons a as)
  then show ?case by (cases "sched_exec c a") simp_all
qed simp

definition core_runs :: "delivery_scheduler_state \<Rightarrow> delivery_scheduler_state \<Rightarrow> bool" where
  "core_runs c c' \<longleftrightarrow> (\<exists>as. sched_run c as = Some c')"

lemma core_runs_refl [simp]: "core_runs c c"
  by (auto simp: core_runs_def intro: exI [of _ "[]"])

lemma core_runs_trans: "core_runs a b \<Longrightarrow> core_runs b c \<Longrightarrow> core_runs a c"
  by (auto simp: core_runs_def) (metis Option.bind.simps(2) sched_run_append)

lemma core_runs_call: "sched_exec c a = Some c' \<Longrightarrow> core_runs c (fst (take_notifications c'))"
  unfolding core_runs_def using core_run by blast

lemmas core_runs_total =
  core_runs_call [where a = "SetDispatchActive i b" for i b, unfolded sched_exec.simps, OF refl]
  core_runs_call [where a = "Register i" for i, unfolded sched_exec.simps, OF refl]
  core_runs_call [where a = "TakeReceiveReservation i" for i, unfolded sched_exec.simps, OF refl]
  core_runs_call [where a = "RecordOwnedStart l at" for l at, unfolded sched_exec.simps, OF refl]
  core_runs_call [where a = "Enqueue l k" for l k, unfolded sched_exec.simps, OF refl]
  core_runs_call [where a = "EnqueueSettlement l k" for l k, unfolded sched_exec.simps, OF refl]
  core_runs_call [where a = "FinishAttemptWaiting l" for l, unfolded sched_exec.simps, OF refl]
  core_runs_call [where a = "WakeRetry l" for l, unfolded sched_exec.simps, OF refl]

lemmas core_runs_partial =
  core_runs_call [where a = "RequestReceive i" for i, unfolded sched_exec.simps]
  core_runs_call [where a = "HandlerFinished l" for l, unfolded sched_exec.simps]
  core_runs_call [where a = "DeferUnstartedRetry l" for l, unfolded sched_exec.simps]
  core_runs_call [where a = "Complete l" for l, unfolded sched_exec.simps]
  core_runs_call [where a = "StopSubscription i" for i, unfolded sched_exec.simps]

lemma core_runs_route: "core_runs c (fst (take_notifications c))"
  unfolding core_runs_def by (rule exI [of _ "[TakeNotifications]"]) simp

lemma cancel_runs: "cancel_subscription s i = Some s' \<Longrightarrow> core_runs (core s) (core s')"
  by (auto simp: cancel_subscription_def split: if_splits intro: core_runs_partial)

lemma cancel_all_runs: "cancel_all s ids = Some s' \<Longrightarrow> core_runs (core s) (core s')"
  by (induction ids arbitrary: s) (auto simp: bind_eq_Some_conv dest!: cancel_runs intro: core_runs_trans)

lemma stop_admission_runs: "stop_admission it s now = Some s' \<Longrightarrow> core_runs (core s) (core s')"
  by (auto simp: stop_admission_def Let_def split: if_splits dest!: cancel_all_runs)

lemma finish_runs:
  assumes "finish_subscription s i = Some (s', removed)"
  shows "core_runs (core s) (core s')"
proof -
  obtain c where c: "stop_subscription (core s) i = Some c" "core s' = fst (take_notifications (fst (sched_unregister c i)))"
    using assms by (auto simp: finish_subscription_def case_prod_beta)
  have "sched_run (core s) [StopSubscription i, Unregister i, TakeNotifications] = Some (core s')" using c by simp
  then show ?thesis unfolding core_runs_def by blast
qed

lemma sync_exec_runs:
  assumes "sync_exec it s call = Some s'"
  shows "core_runs (core s) (core s')"
proof (cases call)
  case (SRegister i)
  then show ?thesis using assms core_runs_call [where a = "Register i"]
    by (auto simp: sync_register_def core_runs_total case_prod_beta)
next
  case (STakeReservation i)
  then show ?thesis using assms core_runs_call [where a = "TakeReceiveReservation i"]
    by (auto simp: sync_take_receive_reservation_def core_runs_total case_prod_beta)
next
  case (STakeReady i)
  then show ?thesis using assms core_runs_call [where a = "TakeReady i"] by (force simp: sync_take_ready_def)
next
  case (STakeSettlement i)
  then show ?thesis using assms core_runs_call [where a = "TakeSettlementReady i"] by (force simp: sync_take_settlement_ready_def)
next
  case (SFinish i)
  then show ?thesis using assms by (auto dest: finish_runs)
next
  case SWorkerTurn
  then show ?thesis using assms by (auto simp: worker_turn_def split: list.splits)
next
  case SRoute
  then show ?thesis using assms core_runs_route by (auto simp: route_notifications_def take_notifications_def)
qed (use assms in \<open>auto simp: attach_owner_def sync_set_dispatch_active_def sync_request_receive_def sync_enqueue_def
    sync_handler_finished_def sync_defer_unstarted_retry_def sync_finish_attempt_waiting_def sync_wake_retry_def sync_complete_def
    sync_record_owned_start_def sync_enqueue_settlement_def submit_def join_pool_def request_stop_def
    intro: core_runs_total core_runs_partial
    dest: cancel_runs stop_admission_runs\<close>)


lemma sched_run_inv: "sched_run c as = Some c' \<Longrightarrow> sched_inv c \<Longrightarrow> sched_inv c'"
proof (induction as arbitrary: c)
  case (Cons a as)
  then show ?case using sched_exec_inv [of c a] by (auto simp: bind_eq_Some_conv)
qed simp

lemma core_runs_inv: "core_runs c c' \<Longrightarrow> sched_inv c \<Longrightarrow> sched_inv c'"
  by (auto simp: core_runs_def dest: sched_run_inv)

lemma core_runs_reachable: "core_runs c c' \<Longrightarrow> sched_reachable c \<Longrightarrow> sched_reachable c'"
  by (auto simp: core_runs_def dest: sched_run_reach)

lemma cancel_total: "sched_inv (core s) \<Longrightarrow> \<exists>s'. cancel_subscription s i = Some s'"
  using sched_exec_inv [of "core s" "StopSubscription i"] by (auto simp: cancel_subscription_def)

lemma cancel_all_total: "sched_inv (core s) \<Longrightarrow> \<exists>s'. cancel_all s ids = Some s'"
proof (induction ids arbitrary: s)
  case (Cons i ids)
  then obtain s1 where s1: "cancel_subscription s i = Some s1" using cancel_total by blast
  then have "sched_inv (core s1)" using Cons.prems cancel_runs core_runs_inv by blast
  then show ?case using Cons.IH s1 by simp
qed simp

lemma sync_exec_total:
  assumes inv: "sched_inv (core s)"
  shows "\<exists>s'. sync_exec it s call = Some s'"
proof (cases call)
  case (SRequest i)
  then show ?thesis using sched_exec_inv [OF inv, of "RequestReceive i"] by (auto simp: sync_request_receive_def)
next
  case (STakeReady i)
  then show ?thesis using sched_exec_inv [OF inv, of "TakeReady i"] by (auto simp: sync_take_ready_def)
next
  case (STakeSettlement i)
  then show ?thesis using sched_exec_inv [OF inv, of "TakeSettlementReady i"] by (auto simp: sync_take_settlement_ready_def)
next
  case (SHandlerFinished l)
  then show ?thesis using sched_exec_inv [OF inv, of "HandlerFinished l"] by (auto simp: sync_handler_finished_def)
next
  case (SDefer l)
  then show ?thesis using sched_exec_inv [OF inv, of "DeferUnstartedRetry l"] by (auto simp: sync_defer_unstarted_retry_def)
next
  case (SComplete l)
  then show ?thesis using sched_exec_inv [OF inv, of "Complete l"] by (auto simp: sync_complete_def)
next
  case (SStop now)
  then show ?thesis using cancel_all_total [of "s\<lparr>draining := True, immediate := True\<rparr>"] inv
    by (simp add: request_stop_def stop_admission_def Let_def)
next
  case (SCancel i)
  then show ?thesis using cancel_total [OF inv] by simp
next
  case (SFinish i)
  then show ?thesis using sched_exec_inv [OF inv, of "StopSubscription i"] by (auto simp: finish_subscription_def)
qed simp_all

definition sync_init :: "'j sync_scheduler \<Rightarrow> bool" where
  "sync_init s \<longleftrightarrow> (\<exists>cfg. s = sync_new cfg)"

definition sync_step :: "(id fset \<Rightarrow> id list) \<Rightarrow> 'j sync_scheduler \<Rightarrow> 'j sync_call \<Rightarrow> 'j sync_scheduler \<Rightarrow> bool" where
  "sync_step it s call s' \<longleftrightarrow> sync_exec it s call = Some s'"

definition sync_inv :: "'j sync_scheduler \<Rightarrow> bool" where
  "sync_inv s \<longleftrightarrow> sched_reachable (core s) \<and> notifications (core s) = {||}"

lemma cancel_routes: "cancel_subscription s i = Some s' \<Longrightarrow> notifications (core s) = {||} \<Longrightarrow> notifications (core s') = {||}"
  by (auto simp: cancel_subscription_def take_notifications_def split: if_splits)

lemma cancel_all_routes: "cancel_all s ids = Some s' \<Longrightarrow> notifications (core s) = {||} \<Longrightarrow> notifications (core s') = {||}"
  by (induction ids arbitrary: s) (auto simp: bind_eq_Some_conv dest: cancel_routes)

lemma sync_exec_routes:
  assumes "sync_exec it s call = Some s'" and "notifications (core s) = {||}"
  shows "notifications (core s') = {||}"
proof (cases call)
  case (SStop now)
  then show ?thesis using assms
    by (auto simp: request_stop_def stop_admission_def Let_def split: if_splits dest: cancel_all_routes)
next
  case (SCancel i)
  then show ?thesis using assms by (auto dest: cancel_routes)
next
  case SRoute
  then show ?thesis using assms by (auto simp: route_notifications_def take_notifications_def)
next
  case SWorkerTurn
  then show ?thesis using assms by (auto simp: worker_turn_def split: list.splits)
qed (use assms in \<open>auto simp: attach_owner_def sync_set_dispatch_active_def sync_request_receive_def sync_enqueue_def
    sync_handler_finished_def sync_defer_unstarted_retry_def sync_finish_attempt_waiting_def sync_wake_retry_def sync_complete_def
    sync_record_owned_start_def sync_enqueue_settlement_def submit_def join_pool_def sync_register_def sync_take_ready_def
    sync_take_settlement_ready_def sync_take_receive_reservation_def finish_subscription_def take_notifications_def case_prod_beta\<close>)

interpretation syn: transition_invariant sync_init "sync_step it" sync_inv for it
proof
  show "sync_inv s" if "sync_init s" for s :: "'b sync_scheduler"
    using that by (auto simp: sync_init_def sync_inv_def sync_new_def new_reachable) (simp add: scheduler_new_def)
  show "sync_inv s'" if "sync_inv s" "sync_step it s a s'" for s s' :: "'b sync_scheduler" and a
    using that sync_exec_routes sync_exec_runs core_runs_reachable unfolding sync_inv_def sync_step_def by blast
qed

definition sync_reachable :: "(id fset \<Rightarrow> id list) \<Rightarrow> 'j sync_scheduler \<Rightarrow> bool" where
  "sync_reachable it s \<longleftrightarrow> reach sync_init (sync_step it) s"

fun sync_run :: "(id fset \<Rightarrow> id list) \<Rightarrow> 'j sync_scheduler \<Rightarrow> 'j sync_call list \<Rightarrow> 'j sync_scheduler option" where
  "sync_run it s [] = Some s"
| "sync_run it s (c # cs) = Option.bind (sync_exec it s c) (\<lambda>s'. sync_run it s' cs)"

lemma sync_run_reach: "sync_run it s cs = Some s' \<Longrightarrow> sync_reachable it s \<Longrightarrow> sync_reachable it s'"
proof (induction cs arbitrary: s)
  case (Cons c cs)
  then obtain s1 where "sync_step it s c s1" "sync_run it s1 cs = Some s'" by (auto simp: bind_eq_Some_conv sync_step_def)
  moreover from this(1) have "sync_reachable it s1" using Cons.prems(2) reach_step unfolding sync_reachable_def by metis
  ultimately show ?case using Cons.IH by blast
qed simp

lemma sync_new_reachable: "sync_reachable it (sync_new cfg)"
  unfolding sync_reachable_def by (rule reach_init) (auto simp: sync_init_def)

text \<open>One subscription of the synchronous scheduler with an owner thread and a queued delivery.\<close>

definition small_calls :: "unit sync_call list" where
  "small_calls = [SRegister 1, SAttach 1 7, SRequest 1, STakeReservation 1, SRecordStart 1 5, SEnqueue 1 None]"

definition small_sync :: "unit sync_scheduler" where
  "small_sync = the (sync_run sorted_list_of_fset (sync_new tiny_config) small_calls)"

lemma small_sync_reachable: "sync_reachable sorted_list_of_fset small_sync"
proof -
  have "sync_run sorted_list_of_fset (sync_new tiny_config) small_calls \<noteq> None" by code_simp
  then show ?thesis using sync_run_reach [OF _ sync_new_reachable] by (auto simp: small_sync_def)
qed



section \<open>The shutdown policy\<close>

lemma cancel_policy:
  assumes "cancel_subscription s i = Some s'"
  shows "draining s' = draining s" "immediate s' = immediate s" "registered_ids s' = registered_ids s"
    "cancelled_ids s' = (if i |\<in>| registered_ids s then finsert i (cancelled_ids s) else cancelled_ids s)"
  using assms by (auto simp: cancel_subscription_def split: if_splits)

lemma cancel_all_policy:
  "cancel_all s ids = Some s' \<Longrightarrow> draining s' = draining s \<and> immediate s' = immediate s \<and> cancelled_ids s |\<subseteq>| cancelled_ids s'"
proof (induction ids arbitrary: s)
  case (Cons i ids)
  then obtain s1 where "cancel_subscription s i = Some s1" "cancel_all s1 ids = Some s'" by (auto simp: bind_eq_Some_conv)
  with Cons.IH [of s1] show ?case by (auto simp: cancel_policy split: if_splits)
qed simp

lemma stop_policy_flags:
  assumes "request_stop it s now = Some s'"
  shows "draining s'" "immediate s' = (immediate s \<or> now)" "cancelled_ids s |\<subseteq>| cancelled_ids s'"
    "\<not> now \<Longrightarrow> cancelled_ids s' = cancelled_ids s"
  using assms by (auto simp: request_stop_def stop_admission_def Let_def split: if_splits dest!: cancel_all_policy)

text \<open>The policy of one method: only a stop sets the flags, only a stop or a cancellation adds to the cancelled
  identities, and only the end of a subscription takes its identity out.\<close>

lemma sync_exec_policy:
  assumes "sync_exec it s call = Some s'"
  shows "draining s' = (draining s \<or> (\<exists>now. call = SStop now)) \<and> immediate s' = (immediate s \<or> call = SStop True) \<and>
    (i |\<in>| cancelled_ids s \<and> call \<noteq> SFinish i \<longrightarrow> i |\<in>| cancelled_ids s') \<and>
    (i |\<notin>| cancelled_ids s \<and> call \<noteq> SStop True \<and> call \<noteq> SCancel i \<longrightarrow> i |\<notin>| cancelled_ids s')"
proof (cases call)
  case (SStop now)
  then show ?thesis using assms stop_policy_flags [of it s now s'] by (cases now) auto
next
  case (SCancel j)
  then show ?thesis using assms cancel_policy [of s j s'] by (auto split: if_splits)
next
  case (SRegister j)
  then show ?thesis using assms by (auto simp: sync_register_def case_prod_beta split: if_splits)
next
  case SWorkerTurn
  then show ?thesis using assms by (auto simp: worker_turn_def split: list.splits)
next
  case SRoute
  then show ?thesis using assms by (auto simp: route_notifications_def take_notifications_def)
qed (use assms in \<open>auto simp: attach_owner_def sync_set_dispatch_active_def sync_request_receive_def sync_enqueue_def
    sync_handler_finished_def sync_defer_unstarted_retry_def sync_finish_attempt_waiting_def sync_wake_retry_def sync_complete_def
    sync_record_owned_start_def sync_enqueue_settlement_def submit_def join_pool_def sync_take_ready_def
    sync_take_settlement_ready_def sync_take_receive_reservation_def finish_subscription_def case_prod_beta\<close>)

lemma sync_run_policy:
  assumes "sync_run it s calls = Some s'"
  shows "(immediate s \<longrightarrow> immediate s') \<and> (draining s \<longrightarrow> draining s') \<and>
    (i |\<in>| cancelled_ids s \<and> SFinish i \<notin> set calls \<longrightarrow> i |\<in>| cancelled_ids s') \<and>
    (\<not> immediate s \<and> i |\<notin>| cancelled_ids s \<and> SStop True \<notin> set calls \<and> SCancel i \<notin> set calls \<longrightarrow>
       \<not> immediate s' \<and> i |\<notin>| cancelled_ids s')"
  using assms
proof (induction calls arbitrary: s)
  case (Cons call calls)
  then obtain s1 where s1: "sync_exec it s call = Some s1" "sync_run it s1 calls = Some s'" by (auto simp: bind_eq_Some_conv)
  show ?case using Cons.IH [OF s1(2)] sync_exec_policy [OF s1(1), of i] by auto
qed simp



end
