(* ===== verification/Sync_Wakeups.thy ===== *)
theory Sync_Wakeups
  imports Sync_Scheduler_Props
begin

text \<open>
  Wakeups over the interleavings of threads. A method of the synchronous scheduler is not atomic: it changes the
  core under the core's lock, then drains the wake targets under that lock, then unparks their owners under the
  lock of the owner table. Between these sections other threads run. The step relation has one step per critical
  section, with the target sets that were drained and not yet delivered as part of the state, and a park that
  consumes a token. The theorem is that the wakeup of a new grant survives all of it.
\<close>

section \<open>Critical sections\<close>

datatype wake_action =
    CoreSection sched_action
  | DrainSection
  | UnparkSection
  | NotifySection id
  | AttachSection id thread
  | DetachSection id
  | ParkReturns thread

inductive wake_step :: "'j sync_scheduler \<times> id fset list \<Rightarrow> wake_action \<Rightarrow> 'j sync_scheduler \<times> id fset list \<Rightarrow> bool" where
  core_section:
    "sched_exec (core s) a = Some c \<Longrightarrow> a \<noteq> TakeNotifications \<Longrightarrow> wake_step (s, routes) (CoreSection a) (s\<lparr>core := c\<rparr>, routes)"
| drain_section:
    "take_notifications (core s) = (c, ids) \<Longrightarrow> wake_step (s, routes) DrainSection (s\<lparr>core := c\<rparr>, ids # routes)"
| unpark_section:
    "wake_step (s, before @ ids # after) UnparkSection (wake_owners ids s, before @ after)"
| notify_section:
    "wake_step (s, routes) (NotifySection i) (sync_notify s i, routes)"
| attach_section:
    "wake_step (s, routes) (AttachSection i t) (s\<lparr>owners := fmupd i t (owners s)\<rparr>, routes)"
| detach_section:
    "wake_step (s, routes) (DetachSection i) (s\<lparr>owners := fmdrop i (owners s)\<rparr>, routes)"
| park_returns:
    "t |\<in>| park_tokens s \<Longrightarrow> wake_step (s, routes) (ParkReturns t) (s\<lparr>park_tokens := park_tokens s |-| {|t|}\<rparr>, routes)"

inductive_cases wake_stepE: "wake_step (s, routes) a st'"

inductive wake_run :: "'j sync_scheduler \<times> id fset list \<Rightarrow> wake_action list \<Rightarrow> 'j sync_scheduler \<times> id fset list \<Rightarrow> bool" where
  wake_none: "wake_run st [] st"
| wake_more: "wake_step st a st' \<Longrightarrow> wake_run st' as st'' \<Longrightarrow> wake_run st (a # as) st''"

inductive_cases wake_runE: "wake_run st (a # as) st''"

text \<open>The wakeup of a subscription is on its way to its owner thread: the core still holds it, a thread that
  drained it has not unparked the owner yet, or the owner's park token is set.\<close>

definition wake_pending :: "'j sync_scheduler \<times> id fset list \<Rightarrow> id \<Rightarrow> thread \<Rightarrow> bool" where
  "wake_pending st j t \<longleftrightarrow> j |\<in>| notifications (core (fst st)) \<or> (\<exists>ids \<in> set (snd st). j |\<in>| ids) \<or> t |\<in>| park_tokens (fst st)"

section \<open>The core keeps its wake targets\<close>

lemma notify_keeps: "notifications s |\<subseteq>| notifications (notify_ready s)"
  by (auto simp: notify_ready_def split: option.splits)

lemma grant_loop_keeps: "grant_loop n s = Some s' \<Longrightarrow> notifications s |\<subseteq>| notifications s'"
  by (induction n s rule: grant_loop.induct) (auto simp: Let_def split: option.splits if_splits list.splits)

lemma grant_receives_keeps: "grant_receives s = Some s' \<Longrightarrow> notifications s |\<subseteq>| notifications s'"
  by (simp add: grant_receives_def grant_loop_keeps)

lemma release_keeps: "release s l = Some s' \<Longrightarrow> notifications s |\<subseteq>| notifications s'"
  by (auto simp: release_def Let_def split: option.splits if_splits)

lemma release_unclaimed_keeps: "release_unclaimed s u = Some s' \<Longrightarrow> notifications s |\<subseteq>| notifications s'"
  by (auto simp: release_unclaimed_def dest: release_keeps split: option.splits)

lemma notify_in [intro!]: "j |\<in>| notifications s \<Longrightarrow> j |\<in>| notifications (notify_ready s)"
  using notify_keeps by (rule fsubsetD)

lemma take_grant_keeps: "take_grant s i e = Some (s', x) \<Longrightarrow> j |\<in>| notifications s \<Longrightarrow> j |\<in>| notifications s'"
  by (auto simp: take_grant_def Let_def split: option.splits prod.splits if_splits list.splits)

lemma stop_keeps:
  assumes "stop_subscription s i = Some s'" and "j |\<in>| notifications s"
  shows "j |\<in>| notifications s'"
proof (cases "fmlookup (subscriptions s) i")
  case (Some sub)
  let ?s1 = "s\<lparr>subscriptions := fmupd i (sub\<lparr>stopped := True, dispatch_active := False, receive_waiting := False\<rparr>) (subscriptions s),
    receive_waiters := filter (\<lambda>c. c \<noteq> i) (receive_waiters s)\<rparr>"
  obtain s2 s4 where s2: "release_unclaimed ?s1 (unclaimed sub) = Some s2"
    and s4: "grant_receives ((refresh_ready s2 i)\<lparr>notifications := finsert i (notifications s2)\<rparr>) = Some s4" "s' = notify_ready s4"
    using assms(1) Some by (auto simp: stop_subscription_def Let_def bind_eq_Some_conv)
  have "j |\<in>| notifications s2" using release_unclaimed_keeps [OF s2] assms(2) by auto
  then have "j |\<in>| notifications s4" using grant_receives_keeps [OF s4(1)] by auto
  then show ?thesis using s4(2) by auto
qed (use assms in \<open>simp add: stop_subscription_def\<close>)

lemma cancel_keeps:
  assumes "cancel_receive s i = Some s'" and "j |\<in>| notifications s"
  shows "j |\<in>| notifications s'"
proof (cases "fmlookup (subscriptions s) i")
  case (Some sub)
  let ?s1 = "s\<lparr>subscriptions := fmupd i (sub\<lparr>receive_waiting := False\<rparr>) (subscriptions s),
    receive_waiters := filter (\<lambda>c. c \<noteq> i) (receive_waiters s)\<rparr>"
  obtain s2 s4 where s2: "release_unclaimed ?s1 (unclaimed sub) = Some s2"
    and s4: "grant_receives s2 = Some s4" "s' = notify_ready s4"
    using assms(1) Some by (auto simp: cancel_receive_def Let_def bind_eq_Some_conv)
  have "j |\<in>| notifications s2" using release_unclaimed_keeps [OF s2] assms(2) by auto
  then show ?thesis using grant_receives_keeps [OF s4(1)] s4(2) by auto
qed (use assms in \<open>simp add: cancel_receive_def\<close>)

lemma complete_keeps:
  assumes "complete s l = Some s'" and "j |\<in>| notifications s"
  shows "j |\<in>| notifications s'"
proof -
  obtain s1 s2 where s: "release s l = Some s1" "grant_receives s1 = Some s2" "s' = notify_ready s2"
    using assms(1) by (auto simp: complete_def bind_eq_Some_conv)
  show ?thesis using release_keeps [OF s(1)] grant_receives_keeps [OF s(2)] s(3) assms(2) by auto
qed

lemma request_keeps:
  assumes "request_receive s i = Some s'" and "j |\<in>| notifications s"
  shows "j |\<in>| notifications s'"
  using assms grant_receives_keeps by (fastforce simp: request_receive_def split: option.splits if_splits)

lemma exec_keeps_wake:
  assumes "sched_exec c a = Some c'" and "a \<noteq> TakeNotifications" and "a \<noteq> Unregister j" and "j |\<in>| notifications c"
  shows "j |\<in>| notifications c'"
proof (cases a)
  case (SetDispatchActive i b)
  then show ?thesis using assms by (auto simp: set_dispatch_active_def split: option.splits)
next
  case (Enqueue l k)
  then show ?thesis using assms by (auto simp: enqueue_def enqueue_phase_def Let_def split: option.splits)
next
  case (EnqueueSettlement l k)
  then show ?thesis using assms by (auto simp: enqueue_settlement_def enqueue_phase_def Let_def split: option.splits)
next
  case (WakeRetry l)
  then show ?thesis using assms by (auto simp: wake_retry_def Let_def split: option.splits)
next
  case (Unregister i)
  then show ?thesis using assms by (auto simp: sched_unregister_def split: option.splits)
qed (use assms in \<open>auto simp: register_def take_receive_reservation_def record_owned_start_def take_ready_def take_settlement_ready_def
    handler_finished_def defer_unstarted_retry_def leave_running_def finish_attempt_waiting_def
    dest: stop_keeps cancel_keeps complete_keeps request_keeps take_grant_keeps split: option.splits if_splits\<close>)

section \<open>Wakeups survive\<close>

lemma wake_owners_token: "j |\<in>| ids \<Longrightarrow> fmlookup (owners s) j = Some t \<Longrightarrow> t |\<in>| park_tokens (wake_owners ids s)"
  using fmranI [of "fmrestrict_fset ids (owners s)" j t] by (simp add: wake_owners_def)

lemma wake_step_pending:
  assumes step: "wake_step st a st'" and pending: "wake_pending st j t" and owner: "fmlookup (owners (fst st)) j = Some t"
    and a: "a \<noteq> ParkReturns t" "a \<noteq> CoreSection (Unregister j)"
  shows "wake_pending st' j t"
  using step
proof cases
  case (core_section s act c routes)
  then show ?thesis using pending a exec_keeps_wake [of "core s" act c j] by (auto simp: wake_pending_def)
next
  case (drain_section s c ids routes)
  then show ?thesis using pending by (auto simp: wake_pending_def take_notifications_def)
next
  case (unpark_section s before ids after)
  then show ?thesis using pending owner wake_owners_token [of j ids s t] by (auto simp: wake_pending_def wake_owners_def)
next
  case (notify_section s routes i)
  then show ?thesis using pending by (auto simp: wake_pending_def sync_notify_def split: option.splits)
qed (use pending a in \<open>auto simp: wake_pending_def\<close>)

definition detaches :: "id \<Rightarrow> wake_action \<Rightarrow> bool" where
  "detaches j a \<longleftrightarrow> a = DetachSection j \<or> (\<exists>t. a = AttachSection j t) \<or> a = CoreSection (Unregister j)"

lemma wake_step_owner:
  assumes "wake_step st a st'" and "\<not> detaches j a"
  shows "fmlookup (owners (fst st')) j = fmlookup (owners (fst st)) j"
  using assms by cases (auto simp: detaches_def)

lemma wake_run_pending:
  assumes "wake_run st as st'" and "wake_pending st j t" and "fmlookup (owners (fst st)) j = Some t"
    and "\<forall>a \<in> set as. a \<noteq> ParkReturns t \<and> \<not> detaches j a"
  shows "wake_pending st' j t"
  using assms
proof (induction rule: wake_run.induct)
  case (wake_more st a st1 as st2)
  then have a: "a \<noteq> ParkReturns t" "\<not> detaches j a" by auto
  moreover have "a \<noteq> CoreSection (Unregister j)" using a(2) by (auto simp: detaches_def)
  ultimately have "wake_pending st1 j t" using wake_step_pending wake_more by metis
  then show ?case using wake_more wake_step_owner [OF wake_more.hyps(1) a(2)] by simp
qed simp

text \<open>C8: When a core call makes a delivery of subscription \<open>j\<close> the next grant, the owner thread \<open>t\<close> of \<open>j\<close> will be
  woken: after any further sequence of critical sections of any threads, as long as \<open>t\<close> has not returned from a
  park and \<open>j\<close> keeps its registration and owner, the wakeup is still recorded in the core, drained by a thread that
  has yet to unpark \<open>t\<close>, or the park token of \<open>t\<close> is set. Once the wake targets are drained and delivered, the token
  is set, so the next park of \<open>t\<close> returns at once.\<close>

theorem owner_is_woken:
  assumes "sched_reachable (core s)" and "wake_step (s, routes) (CoreSection a) (s1, routes1)"
    and "next_grant (core s1) = Some (j, l)" and "next_grant (core s) \<noteq> Some (j, l)"
    and "fmlookup (owners s) j = Some t" and "wake_run (s1, routes1) as (s2, routes2)"
    and "\<forall>a \<in> set as. a \<noteq> ParkReturns t \<and> \<not> detaches j a"
  shows "(j |\<in>| notifications (core s2) \<or> (\<exists>ids \<in> set routes2. j |\<in>| ids) \<or> t |\<in>| park_tokens s2) \<and>
    (notifications (core s2) = {||} \<and> routes2 = [] \<longrightarrow>
       wake_step (s2, routes2) (ParkReturns t) (s2\<lparr>park_tokens := park_tokens s2 |-| {|t|}\<rparr>, routes2))"
proof -
  obtain c where c: "sched_exec (core s) a = Some c" "s1 = s\<lparr>core := c\<rparr>" using assms(2) by (auto elim: wake_stepE)
  have "next_grant c = Some (j, l)" using assms(3) c(2) by simp
  then have "j |\<in>| notifications c"
    using exec_wakes [OF reachable_inv [OF assms(1)] c(1)] assms(4) notify_wakes unfolding wakes_def by metis
  then have "wake_pending (s1, routes1) j t" using c(2) by (simp add: wake_pending_def)
  then have "wake_pending (s2, routes2) j t" using wake_run_pending [OF assms(6)] assms(5,7) c(2) by simp
  then show ?thesis by (auto simp: wake_pending_def intro: wake_step.park_returns)
qed

text \<open>The second subscription of the small core, owned by thread 9, is next after the first one's lease is taken.\<close>

definition woken_sync :: "unit sync_scheduler" where
  "woken_sync = (sync_new tiny_config)\<lparr>core := the (sched_exec tiny_state (TakeReady 2)), owners := fmupd 1 9 fmempty\<rparr>"

theorem owner_is_woken_witness:
  "\<exists>s1 s2 :: unit sync_scheduler. wake_step (woken_sync, []) (CoreSection (Complete 1)) (s1, []) \<and>
     wake_run (s1, []) [DrainSection, UnparkSection] (s2, []) \<and>
     wake_step (s2, []) (ParkReturns 9) (s2\<lparr>park_tokens := park_tokens s2 |-| {|9|}\<rparr>, [])"
proof -
  define c0 where "c0 = the (sched_exec tiny_state (TakeReady 2))"
  define c1 where "c1 = the (sched_exec c0 (Complete 1))"
  define s1 where "s1 = woken_sync\<lparr>core := c1\<rparr>"
  define s2 where "s2 = wake_owners (notifications c1) (s1\<lparr>core := fst (take_notifications c1)\<rparr>)"
  have e: "sched_exec tiny_state (TakeReady 2) \<noteq> None" "sched_exec (the (sched_exec tiny_state (TakeReady 2))) (Complete 1) \<noteq> None"
    by code_simp+
  then have x: "sched_exec tiny_state (TakeReady 2) = Some c0" "sched_exec c0 (Complete 1) = Some c1" by (auto simp: c0_def c1_def)
  have r: "sched_reachable c0" using reachable_step [OF tiny_reachable x(1)] .
  have g: "next_grant (the (sched_exec tiny_state (TakeReady 2))) = None"
    "next_grant (the (sched_exec (the (sched_exec tiny_state (TakeReady 2))) (Complete 1))) = Some (1, 2)"
    by code_simp+
  have core: "core woken_sync = c0" "owners woken_sync = fmupd 1 9 fmempty" by (simp_all add: woken_sync_def c0_def)
  have step: "wake_step (woken_sync, []) (CoreSection (Complete 1)) (s1, [])"
    unfolding s1_def by (rule wake_step.core_section) (use core x(2) in simp_all)
  have drain: "wake_step (s1, []) DrainSection (s1\<lparr>core := fst (take_notifications c1)\<rparr>, [notifications c1])"
    by (rule wake_step.drain_section) (simp add: s1_def take_notifications_def)
  have "wake_step (s1\<lparr>core := fst (take_notifications c1)\<rparr>, [] @ notifications c1 # []) UnparkSection (s2, [] @ [])"
    unfolding s2_def by (rule wake_step.unpark_section)
  with drain have run: "wake_run (s1, []) [DrainSection, UnparkSection] (s2, [])"
    by (auto intro: wake_run.intros)
  have "notifications (core s2) = {||}" by (simp add: s2_def s1_def take_notifications_def)
  then have "wake_step (s2, []) (ParkReturns 9) (s2\<lparr>park_tokens := park_tokens s2 |-| {|9|}\<rparr>, [])"
    using owner_is_woken [OF _ step _ _ _ run, of 1 2 9] r g core by (simp add: s1_def c0_def c1_def detaches_def)
  then show ?thesis using step run by blast
qed

end
