(* ===== verification/Settlement_Retry.thy ===== *)
theory Settlement_Retry
  imports Scheduler Spi_Model
begin

text \<open>
  The finite settlement budget of one delivery: \<open>SettlementRetryConfig\<close> of
  \<open>src/src/facade/settlement_retry_config.rs\<close> and \<open>SettlementRetryState\<close> of
  \<open>src/src/facade/internal/settlement_retry_state.rs\<close>, with their lemmas. A duration is a number of nanoseconds;
  \<open>duration_max\<close> is \<open>Duration::MAX\<close>, where the saturating operations stop.
\<close>

section \<open>Durations\<close>

definition duration_max :: duration where
  "duration_max = (2 ^ 64 - 1) * 1000000000 + 999999999"

definition duration_saturating_add :: "duration \<Rightarrow> duration \<Rightarrow> duration" where
  "duration_saturating_add a b = min (a + b) duration_max"

definition duration_saturating_sub :: "duration \<Rightarrow> duration \<Rightarrow> duration" where
  "duration_saturating_sub a b = a - b"

definition duration_saturating_mul :: "duration \<Rightarrow> u32 \<Rightarrow> duration" where
  "duration_saturating_mul a n = min (a * unat n) duration_max"

lemma duration_saturating_add_code [code]:
  "duration_saturating_add a b = (if int a + int b \<le> 18446744073709551615999999999 then a + b else duration_max)"
  by (auto simp: duration_saturating_add_def duration_max_def)

lemma duration_saturating_mul_code [code]:
  "duration_saturating_mul a n = (if int a * uint n \<le> 18446744073709551615999999999 then a * unat n else duration_max)"
proof -
  have "int a * uint n = int (a * unat n)" by simp
  then show ?thesis unfolding duration_saturating_mul_def duration_max_def by (auto simp del: of_nat_mult)
qed

section \<open>Configuration\<close>

record settlement_retry_config =
  max_attempts :: u32
  max_elapsed :: duration
  initial_backoff :: duration
  max_backoff :: duration

text \<open>\<open>max_attempts\<close> is a \<open>NonZeroU32\<close>.\<close>

definition settlement_retry_config_new ::
  "u32 \<Rightarrow> duration \<Rightarrow> duration \<Rightarrow> duration \<Rightarrow> configuration_error + settlement_retry_config" where
  "settlement_retry_config_new attempts elapsed initial backoff =
     (if elapsed = 0 then Inl (InvalidField ''max_elapsed'' ''must be positive'')
      else if initial = 0 then Inl (InvalidField ''initial_backoff'' ''must be positive'')
      else if backoff < initial then Inl (InvalidField ''max_backoff'' ''must not be less than initial_backoff'')
      else Inr \<lparr>max_attempts = attempts, max_elapsed = elapsed, initial_backoff = initial, max_backoff = backoff\<rparr>)"

definition settlement_retry_config_default :: settlement_retry_config where
  "settlement_retry_config_default =
     \<lparr>max_attempts = 5, max_elapsed = 5 * 1000000000, initial_backoff = 10 * 1000000, max_backoff = 1000000000\<rparr>"

section \<open>Terminations and decisions\<close>

datatype settlement_termination =
    PermanentError
  | RetryabilityUnknown
  | AttemptsExhausted
  | DeadlineExceeded
  | ProviderPanicked
  | InvalidToken
  | InfrastructureFailure

datatype settlement_retry_decision = RetryAfter duration | StopRetry settlement_termination

fun spi_retryable :: "spi_error \<Rightarrow> bool option" where
  "spi_retryable (PublishError _ _ _ retryable _ _) = retryable"
| "spi_retryable (OperationError _ _ _ _ retryable _) = retryable"
| "spi_retryable (InvalidSettlementToken _ _ _ _ retryable _) = retryable"

fun is_invalid_token :: "spi_error \<Rightarrow> bool" where
  "is_invalid_token (InvalidSettlementToken _ _ _ _ _ _) = True"
| "is_invalid_token _ = False"

section \<open>The budget of one token\<close>

record settlement_retry_state =
  retry_config :: settlement_retry_config
  retry_attempts :: u32

definition settlement_retry_state_new :: "settlement_retry_config \<Rightarrow> settlement_retry_state" where
  "settlement_retry_state_new cfg = \<lparr>retry_config = cfg, retry_attempts = 0\<rparr>"

text \<open>The outer \<^const>\<open>None\<close> is an overflow of \<open>attempts\<close>.\<close>

definition admit_attempt ::
  "settlement_retry_state \<Rightarrow> duration \<Rightarrow> (settlement_retry_state \<times> (settlement_termination + u32)) option" where
  "admit_attempt s elapsed =
     (if max_elapsed (retry_config s) \<le> elapsed then Some (s, Inl DeadlineExceeded)
      else if max_attempts (retry_config s) \<le> retry_attempts s then Some (s, Inl AttemptsExhausted)
      else map_option (\<lambda>n. (s\<lparr>retry_attempts := n\<rparr>, Inr n)) (checked_add (retry_attempts s) 1))"

definition backoff_delay :: "settlement_retry_state \<Rightarrow> duration" where
  "backoff_delay s =
     (let exponent = min (saturating_sub (retry_attempts s) 1) 31
      in min (duration_saturating_mul (initial_backoff (retry_config s)) (push_bit (unat exponent) 1))
           (max_backoff (retry_config s)))"

definition after_error :: "settlement_retry_state \<Rightarrow> spi_error \<Rightarrow> duration \<Rightarrow> settlement_retry_decision" where
  "after_error s error elapsed =
     (if is_invalid_token error then StopRetry InvalidToken
      else if spi_kind error = ''provider_panicked'' then StopRetry ProviderPanicked
      else case spi_retryable error of
          Some False \<Rightarrow> StopRetry PermanentError
        | None \<Rightarrow> StopRetry RetryabilityUnknown
        | Some True \<Rightarrow>
            if max_attempts (retry_config s) \<le> retry_attempts s then StopRetry AttemptsExhausted
            else if max_elapsed (retry_config s) \<le> elapsed then StopRetry DeadlineExceeded
            else RetryAfter (min (backoff_delay s) (duration_saturating_sub (max_elapsed (retry_config s)) elapsed)))"

section \<open>What the budget guarantees\<close>

lemma admit_total:
  "\<exists>s' r. admit_attempt s elapsed = Some (s', r) \<and> retry_config s' = retry_config s"
proof -
  have "checked_add n 1 \<noteq> None" if "n < max_attempts (retry_config s)" for n :: u32
  proof -
    have "unat n < unat (max_attempts (retry_config s))" using that by (simp add: word_less_nat_alt)
    then show ?thesis using unat_bound [of "max_attempts (retry_config s)"] by (simp add: checked_add_def)
  qed
  then have "\<exists>m. checked_add (retry_attempts s) 1 = Some m" if "retry_attempts s < max_attempts (retry_config s)" using that by blast
  then show ?thesis unfolding admit_attempt_def by (force simp: not_le)
qed

lemma admit_Inr:
  assumes "admit_attempt s elapsed = Some (s', Inr n)"
  shows "unat n = Suc (unat (retry_attempts s))" "s' = s\<lparr>retry_attempts := n\<rparr>" "n \<le> max_attempts (retry_config s)"
    "elapsed < max_elapsed (retry_config s)"
proof -
  have lt: "retry_attempts s < max_attempts (retry_config s)" and n: "checked_add (retry_attempts s) 1 = Some n"
    and s': "s' = s\<lparr>retry_attempts := n\<rparr>" and el: "elapsed < max_elapsed (retry_config s)"
    using assms by (auto simp: admit_attempt_def split: if_splits)
  have u: "unat n = Suc (unat (retry_attempts s))" using n by (auto simp: checked_add_def unat_word_ariths split: if_splits)
  then show "unat n = Suc (unat (retry_attempts s))" .
  show "s' = s\<lparr>retry_attempts := n\<rparr>" "elapsed < max_elapsed (retry_config s)" using s' el .
  show "n \<le> max_attempts (retry_config s)" using lt u by (simp add: word_le_nat_alt word_less_nat_alt)
qed

lemma admit_Inl:
  assumes "admit_attempt s elapsed = Some (s', Inl t)"
  shows "s' = s" "t = DeadlineExceeded \<or> t = AttemptsExhausted"
    "max_elapsed (retry_config s) \<le> elapsed \<or> max_attempts (retry_config s) \<le> retry_attempts s"
  using assms by (auto simp: admit_attempt_def split: if_splits)

lemma after_error_retry:
  assumes "after_error s error elapsed = RetryAfter delay"
  shows "spi_retryable error = Some True" "\<not> is_invalid_token error" "spi_kind error \<noteq> ''provider_panicked''"
    "retry_attempts s < max_attempts (retry_config s)" "elapsed < max_elapsed (retry_config s)"
    "delay = min (backoff_delay s) (max_elapsed (retry_config s) - elapsed)" "delay \<le> max_backoff (retry_config s)"
  using assms by (auto simp: after_error_def duration_saturating_sub_def backoff_delay_def Let_def split: if_splits option.splits bool.splits)

end
