(* ===== verification/Subscription_Owner.thy ===== *)
theory Subscription_Owner
  imports Sync_Scheduler Settlement_Retry
begin

text \<open>
  The receiver owner of a subscription: the part of \<open>src/src/facade/event_bus/worker.rs\<close> and its modules that keeps
  the received deliveries and settles them with the provider, with the shared \<open>SubscriptionControl\<close>, the panic
  boundary of provider calls and the settlement diagnostics. Provider, clock and configuration are parameters,
  collected in \<open>owner_env\<close>; what the owner changes is the record \<open>owner_world\<close>. Observers are callbacks whose
  panics the code contains; the model keeps the diagnostics in the order they are emitted. The calls to the
  provider's \<open>settle\<close> are recorded in \<open>ow_settle_calls\<close>, which nothing reads. The value \<^const>\<open>None\<close> of a
  step is an overflow panic of the scheduling core.

  A codec error, a delivery error and a time error are their messages. The handler's retry session, the error
  directive cell and the shutdown tracker of \<open>OwnedSyncDelivery\<close> are not used by these operations and left out;
  of the prepared delivery only the event identity is used.
\<close>

section \<open>Provider calls\<close>

datatype panic_payload = TextPayload string | OtherPayload

datatype 'a call_result = Returned 'a | Unwound panic_payload

definition provider_panic :: "string \<Rightarrow> string \<Rightarrow> string option \<Rightarrow> panic_payload \<Rightarrow> spi_error" where
  "provider_panic provider_id operation resource payload =
     OperationError provider_id operation resource ''provider_panicked'' (Some False)
       (case payload of TextPayload message \<Rightarrow> message | OtherPayload \<Rightarrow> ''provider panicked'')"

definition catch_spi_call :: "string \<Rightarrow> string \<Rightarrow> string option \<Rightarrow> 'a call_result \<Rightarrow> spi_error + 'a" where
  "catch_spi_call provider_id operation resource result = (case result of
       Returned a \<Rightarrow> Inr a
     | Unwound payload \<Rightarrow> Inl (provider_panic provider_id operation resource payload))"

text \<open>\<open>Display\<close> of a provider error.\<close>

fun spi_display :: "spi_error \<Rightarrow> string" where
  "spi_display (PublishError provider _ kind _ effect source) =
     ''provider '' @ provider @ '' failed publish ('' @ kind @ '', '' @
       (case effect of NotAccepted \<Rightarrow> ''NotAccepted'' | MayHaveBeenAccepted \<Rightarrow> ''MayHaveBeenAccepted'') @ ''): '' @ source"
| "spi_display (OperationError provider operation _ kind _ source) =
     ''provider '' @ provider @ '' failed '' @ operation @ '' ('' @ kind @ ''): '' @ source"
| "spi_display (InvalidSettlementToken provider operation _ reason _ source) =
     ''provider '' @ provider @ '' failed '' @ operation @ '' (invalid_settlement_token/'' @ reason @ ''): '' @ source"

section \<open>Diagnostics and stop reasons\<close>

datatype diagnostic =
    AdmissionRejected event_id string id subscriber_id string
  | ReceiveGap id subscriber_id string delivery_gap
  | DeliveryFailed event_id string id subscriber_id u32 string
  | SettlementFailed event_id string id subscriber_id delivery_disposition u32 spi_error
  | SettlementStopped event_id string id subscriber_id delivery_disposition u32 settlement_termination spi_error
  | SettlementUnavailable event_id string id subscriber_id delivery_disposition
  | InternalFailure string string

datatype subscription_stop_reason =
    StoppedByGap delivery_gap
  | StoppedByCodec event_id string
  | StoppedByProvider spi_error
  | StoppedBySettlement event_id delivery_disposition u32 settlement_termination spi_error

section \<open>The subscription's control block\<close>

text \<open>The join handle of the worker thread is left out; \<open>control_metrics\<close> is the address of the counters.\<close>

record subscription_control =
  control_metrics :: nat
  control_id :: id
  control_subscriber_id :: subscriber_id
  control_cancelled :: bool
  terminal_failure :: "subscription_stop_reason option"
  close_error :: "(subscriber_id \<times> spi_error) option"
  control_finished :: bool

definition control_with_metrics :: "id \<Rightarrow> subscriber_id \<Rightarrow> nat \<Rightarrow> subscription_control" where
  "control_with_metrics i subscriber metrics = \<lparr>control_metrics = metrics, control_id = i, control_subscriber_id = subscriber,
     control_cancelled = False, terminal_failure = None, close_error = None, control_finished = False\<rparr>"

definition try_start :: "subscription_control \<Rightarrow> bool" where
  "try_start c \<longleftrightarrow> terminal_failure c = None"

definition fail_receive :: "subscription_control \<Rightarrow> subscription_stop_reason \<Rightarrow> subscription_control \<times> bool" where
  "fail_receive c reason =
     (let first = terminal_failure c = None
      in (c\<lparr>terminal_failure := (if first then Some reason else terminal_failure c), control_cancelled := True\<rparr>, first))"

definition try_start_handler :: "subscription_control \<Rightarrow> (bool \<Rightarrow> bool) \<Rightarrow> bool" where
  "try_start_handler c allowed \<longleftrightarrow> terminal_failure c = None \<and> allowed (control_cancelled c)"

definition request_cancel :: "subscription_control \<Rightarrow> subscription_control" where
  "request_cancel c = c\<lparr>control_cancelled := True\<rparr>"

definition record_close_error :: "subscription_control \<Rightarrow> subscriber_id \<times> spi_error \<Rightarrow> subscription_control" where
  "record_close_error c error = (case close_error c of None \<Rightarrow> c\<lparr>close_error := Some error\<rparr> | Some _ \<Rightarrow> c)"

definition mark_finished :: "subscription_control \<Rightarrow> subscription_control" where
  "mark_finished c = c\<lparr>control_finished := True\<rparr>"

section \<open>Owned deliveries\<close>

datatype failure_directive = RetryDelivery | Requeue | DeadLetter | Discard

datatype delivery_outcome = Success | Failure string

datatype coordinator_message =
    AttemptFinished lease delivery_outcome failure_directive
  | Settlement lease "settlement_token option" delivery_disposition event_id string id subscriber_id
  | Abandoned lease
  | HandlerFinishedMessage lease

record 'd owned_delivery =
  od_inbound :: "(inbound_message \<times> 'd) option"
  od_delivery :: "event_id option"
  od_token :: "settlement_token option"
  od_due :: "instant option"
  od_attempts :: u32
  od_result :: "(delivery_outcome \<times> failure_directive) option"
  od_running :: bool
  od_settlement :: "coordinator_message option"
  od_handler_finished :: bool
  od_retry_pending :: bool
  od_settlement_granted :: bool
  od_abandoned :: bool
  od_lifecycle_failed :: bool
  od_retry :: settlement_retry_state
  od_first_attempt :: "instant option"
  od_next_attempt :: duration
  od_last_error :: "spi_error option"

datatype settlement_capabilities = NoSettlement | AcceptOnly | AcceptRetryReject

datatype durability_capability = EphemeralMessages | DurableMessages

record 'p owner_env =
  env_provider_id :: string
  env_settlement :: settlement_capabilities
  env_durability :: durability_capability
  env_settle :: "'p \<Rightarrow> settlement_token \<Rightarrow> delivery_disposition \<Rightarrow> 'p \<times> (spi_error + unit) call_result"
  env_clock :: "nat \<Rightarrow> instant"
  env_duration_since :: "instant \<Rightarrow> instant \<Rightarrow> string + duration"

text \<open>\<open>ow_clock_reads\<close> counts the readings of the clock; reading number \<open>n\<close> is \<open>env_clock n\<close>.\<close>

record ('j, 'p) owner_world =
  ow_scheduler :: "'j sync_scheduler"
  ow_metrics :: metrics_store
  ow_control :: subscription_control
  ow_subscriptions :: "(id, nat) fmap"
  ow_abandoned :: u64
  ow_messages :: "coordinator_message list"
  ow_provider :: 'p
  ow_clock_reads :: nat
  ow_diagnostics :: "diagnostic list"
  ow_settle_calls :: "(settlement_token \<times> delivery_disposition) list"

definition emit :: "('j, 'p) owner_world \<Rightarrow> diagnostic \<Rightarrow> ('j, 'p) owner_world" where
  "emit w d = w\<lparr>ow_diagnostics := ow_diagnostics w @ [d]\<rparr>"

definition emit_internal :: "('j, 'p) owner_world \<Rightarrow> string \<Rightarrow> string \<Rightarrow> ('j, 'p) owner_world" where
  "emit_internal w origin message = emit w (InternalFailure origin message)"

definition clock_now :: "'p owner_env \<Rightarrow> ('j, 'p) owner_world \<Rightarrow> ('j, 'p) owner_world \<times> instant" where
  "clock_now env w = (w\<lparr>ow_clock_reads := Suc (ow_clock_reads w)\<rparr>, env_clock env (ow_clock_reads w))"

definition set_active :: "('j, 'p) owner_world \<Rightarrow> bool \<Rightarrow> ('j, 'p) owner_world" where
  "set_active w active = w\<lparr>ow_scheduler := sync_set_dispatch_active (ow_scheduler w) (control_id (ow_control w)) active\<rparr>"

definition fence :: "('j, 'p) owner_world \<Rightarrow> ('j, 'p) owner_world option" where
  "fence w = map_option (\<lambda>s. w\<lparr>ow_scheduler := s\<rparr>) (cancel_subscription (ow_scheduler w) (control_id (ow_control w)))"

section \<open>Stopping a subscription\<close>

definition fail_internal :: "'p owner_env \<Rightarrow> ('j, 'p) owner_world \<Rightarrow> string \<Rightarrow> ('j, 'p) owner_world option" where
  "fail_internal env w kind =
     (let error = OperationError (env_provider_id env) ''delivery_owner'' (Some (control_subscriber_id (ow_control w)))
            kind (Some False) kind
      in case fail_receive (ow_control w) (StoppedByProvider error) of (c, first) \<Rightarrow>
           map_option (\<lambda>w'. if first then emit_internal w' ''delivery_owner'' kind else w') (fence (w\<lparr>ow_control := c\<rparr>)))"

definition fail_clock :: "'p owner_env \<Rightarrow> ('j, 'p) owner_world \<Rightarrow> string \<Rightarrow> string \<Rightarrow> ('j, 'p) owner_world option" where
  "fail_clock env w operation error =
     (let error = OperationError (env_provider_id env) operation (Some (control_subscriber_id (ow_control w)))
            ''invalid_monotonic_clock'' (Some False) error
      in case fail_receive (ow_control w) (StoppedByProvider error) of (c, first) \<Rightarrow>
           map_option (\<lambda>w'. if first then emit_internal w' operation (spi_display error) else w') (fence (w\<lparr>ow_control := c\<rparr>)))"

definition stop_settlement_with_failure ::
  "('j, 'p) owner_world \<Rightarrow> event_id \<Rightarrow> string \<Rightarrow> delivery_disposition \<Rightarrow> u32 \<Rightarrow> settlement_termination \<Rightarrow> spi_error \<Rightarrow>
   diagnostic option \<Rightarrow> ('j, 'p) owner_world option" where
  "stop_settlement_with_failure w event topic disposition made termination error failed =
     (let w1 = w\<lparr>ow_metrics := record_terminal_failure (ow_metrics w) (control_metrics (ow_control w))\<rparr>
      in case fail_receive (ow_control w1) (StoppedBySettlement event disposition made termination error) of (c, first) \<Rightarrow>
        map_option (\<lambda>w2.
            let w3 = (case failed of None \<Rightarrow> w2 | Some d \<Rightarrow> emit w2 d)
            in if first then emit w3 (SettlementStopped event topic (control_id c) (control_subscriber_id c) disposition made
                 termination error) else w3)
          (fence (w1\<lparr>ow_control := c\<rparr>)))"

definition stop_settlement ::
  "('j, 'p) owner_world \<Rightarrow> event_id \<Rightarrow> string \<Rightarrow> delivery_disposition \<Rightarrow> u32 \<Rightarrow> settlement_termination \<Rightarrow> spi_error \<Rightarrow>
   ('j, 'p) owner_world option" where
  "stop_settlement w event topic disposition made termination error =
     stop_settlement_with_failure w event topic disposition made termination error None"

definition clock_error :: "'p owner_env \<Rightarrow> subscriber_id \<Rightarrow> string \<Rightarrow> spi_error" where
  "clock_error env subscriber error = OperationError (env_provider_id env) ''settlement_clock'' (Some subscriber)
     ''invalid_monotonic_clock'' (Some False) error"

section \<open>One settlement attempt\<close>

text \<open>The provider accepted the disposition.\<close>

definition settlement_succeeded ::
  "'p owner_env \<Rightarrow> ('j, 'p) owner_world \<Rightarrow> 'd owned_delivery \<Rightarrow> event_id \<Rightarrow> string \<Rightarrow> delivery_disposition \<Rightarrow> subscriber_id \<Rightarrow>
   u32 \<Rightarrow> instant \<Rightarrow> (('j, 'p) owner_world \<times> 'd owned_delivery \<times> duration option) option" where
  "settlement_succeeded env w d event topic disposition subscriber attempt started =
     (case clock_now env w of (w1, ended) \<Rightarrow>
      case record_settlement_duration (env_duration_since env) (ow_metrics w1) (control_metrics (ow_control w1)) started ended of
        (m, Inr _) \<Rightarrow> Some (w1\<lparr>ow_metrics := m\<rparr>, d\<lparr>od_settlement := None\<rparr>, None)
      | (m, Inl error) \<Rightarrow>
          map_option (\<lambda>w2. (w2, d\<lparr>od_lifecycle_failed := True, od_settlement := None\<rparr>, None))
            (stop_settlement (w1\<lparr>ow_metrics := m\<rparr>) event topic disposition attempt InfrastructureFailure
              (clock_error env subscriber error)))"

text \<open>The provider refused, or its code panicked.\<close>

definition settlement_failed ::
  "'p owner_env \<Rightarrow> ('j, 'p) owner_world \<Rightarrow> 'd owned_delivery \<Rightarrow> event_id \<Rightarrow> string \<Rightarrow> delivery_disposition \<Rightarrow> id \<Rightarrow> subscriber_id \<Rightarrow>
   u32 \<Rightarrow> instant \<Rightarrow> spi_error \<Rightarrow> bool \<Rightarrow> (('j, 'p) owner_world \<times> 'd owned_delivery \<times> duration option) option" where
  "settlement_failed env w d event topic disposition subscription subscriber attempt started error stopping =
     (let failed = SettlementFailed event topic subscription subscriber disposition attempt error
      in case clock_now env w of (w1, now) \<Rightarrow>
        (case env_duration_since env now started of
           Inl source \<Rightarrow>
             map_option (\<lambda>w2. (w2, d, None))
               (stop_settlement_with_failure w1 event topic disposition attempt InfrastructureFailure
                 (clock_error env subscriber source) (Some failed))
         | Inr elapsed \<Rightarrow>
             let d1 = d\<lparr>od_last_error := Some error\<rparr>
             in (case after_error (od_retry d1) error elapsed of
                 RetryAfter delay \<Rightarrow>
                   Some (emit w1 failed, d1\<lparr>od_next_attempt := duration_saturating_add elapsed delay\<rparr>,
                     if stopping then None else Some delay)
               | StopRetry termination \<Rightarrow>
                   map_option (\<lambda>w2. (w2, d1, None))
                     (stop_settlement_with_failure
                       (w1\<lparr>ow_metrics := record_settlement_elapsed (ow_metrics w1) (control_metrics (ow_control w1)) elapsed\<rparr>)
                       event topic disposition attempt termination error (Some failed)))))"

text \<open>The admitted call to the provider, outside the dispatch rotation.\<close>

definition settlement_call ::
  "'p owner_env \<Rightarrow> ('j, 'p) owner_world \<Rightarrow> subscriber_id \<Rightarrow> settlement_token \<Rightarrow> delivery_disposition \<Rightarrow> u32 \<Rightarrow>
   ('j, 'p) owner_world \<times> (spi_error + unit)" where
  "settlement_call env w subscriber token disposition attempt =
     (let w1 = set_active w False;
          w2 = w1\<lparr>ow_metrics := record_settlement_attempt (ow_metrics w1) (control_metrics (ow_control w1)) attempt\<rparr>
      in case env_settle env (ow_provider w2) token disposition of (p, reply) \<Rightarrow>
           (set_active (w2\<lparr>ow_provider := p, ow_settle_calls := ow_settle_calls w2 @ [(token, disposition)]\<rparr>) True,
            case catch_spi_call (env_provider_id env) ''settle'' (Some subscriber) reply of
              Inl error \<Rightarrow> Inl error | Inr result \<Rightarrow> result))"

definition settlement_due ::
  "'p owner_env \<Rightarrow> ('j, 'p) owner_world \<Rightarrow> 'd owned_delivery \<Rightarrow> settlement_token \<Rightarrow> delivery_disposition \<Rightarrow> event_id \<Rightarrow> string \<Rightarrow> id \<Rightarrow>
   subscriber_id \<Rightarrow> instant \<Rightarrow> duration \<Rightarrow> bool \<Rightarrow> (('j, 'p) owner_world \<times> 'd owned_delivery \<times> duration option) option" where
  "settlement_due env w d token disposition event topic subscription subscriber started elapsed stopping =
     Option.bind (admit_attempt (od_retry d) elapsed) (\<lambda>(retry, admission).
       let d1 = d\<lparr>od_retry := retry\<rparr>
       in case admission of
           Inl termination \<Rightarrow> (case od_last_error d1 of
               Some error \<Rightarrow>
                 map_option (\<lambda>w1. (w1, d1, None))
                   (stop_settlement
                     (w\<lparr>ow_metrics := record_settlement_elapsed (ow_metrics w) (control_metrics (ow_control w)) elapsed\<rparr>)
                     event topic disposition (retry_attempts retry) termination error)
             | None \<Rightarrow>
                 map_option (\<lambda>w1. (w1, d1, None)) (fail_internal env w ''settlement_budget_before_first_attempt''))
         | Inr attempt \<Rightarrow> (case settlement_call env w subscriber token disposition attempt of
               (w1, Inr _) \<Rightarrow> settlement_succeeded env w1 d1 event topic disposition subscriber attempt started
             | (w1, Inl error) \<Rightarrow>
                 settlement_failed env w1 d1 event topic disposition subscription subscriber attempt started error stopping))"

definition attempt_settlement ::
  "'p owner_env \<Rightarrow> ('j, 'p) owner_world \<Rightarrow> 'd owned_delivery \<Rightarrow> bool \<Rightarrow>
   (('j, 'p) owner_world \<times> 'd owned_delivery \<times> duration option) option" where
  "attempt_settlement env w d stopping = (case od_settlement d of
       Some (Settlement _ (Some token) disposition event topic subscription subscriber) \<Rightarrow>
         if \<not> belongs_to token subscription
         then map_option (\<lambda>w1. (w1, d, None))
           (stop_settlement w event topic disposition (retry_attempts (od_retry d)) InvalidToken
             (InvalidSettlementToken (env_provider_id env) ''settle'' (Some subscriber) ''foreign_owner'' (Some False)
               ''provider token belongs to another subscription''))
         else (case clock_now env w of (w1, now) \<Rightarrow>
           let started = (case od_first_attempt d of None \<Rightarrow> now | Some t \<Rightarrow> t); d1 = d\<lparr>od_first_attempt := Some started\<rparr>
           in (case env_duration_since env now started of
               Inl error \<Rightarrow>
                 map_option (\<lambda>w2. (w2, d1, None))
                   (stop_settlement w1 event topic disposition (retry_attempts (od_retry d1)) InfrastructureFailure
                     (clock_error env subscriber error))
             | Inr elapsed \<Rightarrow>
                 if elapsed < od_next_attempt d1 then Some (w1, d1, Some (od_next_attempt d1 - elapsed))
                 else settlement_due env w1 d1 token disposition event topic subscription subscriber started elapsed stopping))
     | Some (Settlement _ None _ _ _ _ _) \<Rightarrow> Some (w, d\<lparr>od_settlement := None\<rparr>, None)
     | _ \<Rightarrow> Some (w, d, None))"

end
