(* ===== verification/Owner_Phases.thy ===== *)
theory Owner_Phases
  imports Subscription_Owner
begin

text \<open>
  The phases of the receiver owner's loop that work on all its deliveries, from \<open>src/src/facade/event_bus/worker.rs\<close>,
  \<open>worker/internal/coordinator_messages.rs\<close> and \<open>worker/internal/stop_cleanup.rs\<close>: draining the owner channel,
  turning unstarted work into retry intents when stopping, granting settlement slots, settling, removing what is
  complete, and releasing what is left after the provider closed. The iteration order of the map of deliveries is a
  parameter. Dropping a delivery returns its lease, which is a \<open>complete\<close> of the scheduler.
\<close>

type_synonym 'd owned_deliveries = "(lease, 'd owned_delivery) fmap"
type_synonym 'd delivery_order = "'d owned_deliveries \<Rightarrow> lease list"

section \<open>Abandoned deliveries\<close>

definition count_abandoned :: "'p owner_env \<Rightarrow> ('j, 'p) owner_world \<Rightarrow> id \<Rightarrow> ('j, 'p) owner_world" where
  "count_abandoned env w i =
     (if env_durability env = EphemeralMessages
      then let w1 = w\<lparr>ow_abandoned := ow_abandoned w + 1\<rparr>
           in (case fmlookup (ow_subscriptions w1) i of
               None \<Rightarrow> w1
             | Some metrics \<Rightarrow> w1\<lparr>ow_metrics := record_abandoned_ephemeral (ow_metrics w1) metrics\<rparr>)
      else w)"

definition canceled_intent ::
  "'p owner_env \<Rightarrow> ('j, 'p) owner_world \<Rightarrow> lease \<Rightarrow> id \<Rightarrow> subscriber_id \<Rightarrow> inbound_message \<Rightarrow>
   ('j, 'p) owner_world \<times> coordinator_message option" where
  "canceled_intent env w l i subscriber message =
     (if in_settlement message \<noteq> None \<and> env_settlement env = AcceptRetryReject
      then (w, Some (Settlement l (in_settlement message) Retry (in_id message) (in_topic message) i subscriber))
      else (emit (count_abandoned env w i) (SettlementUnavailable (in_id message) (in_topic message) i subscriber Retry), None))"

section \<open>The owner channel\<close>

fun settlement_disposition :: "coordinator_message \<Rightarrow> delivery_disposition option" where
  "settlement_disposition (Settlement _ _ disposition _ _ _ _) = Some disposition"
| "settlement_disposition _ = None"

fun apply_message ::
  "'p owner_env \<Rightarrow> coordinator_message \<Rightarrow> ('j, 'p) owner_world \<Rightarrow> 'd owned_deliveries \<Rightarrow>
   (('j, 'p) owner_world \<times> 'd owned_deliveries) option" where
  "apply_message env (AttemptFinished l outcome directive) w own = (case fmlookup own l of
       None \<Rightarrow> Some (w, own)
     | Some d \<Rightarrow> Some (w, fmupd l (d\<lparr>od_result := Some (outcome, directive)\<rparr>) own))"
| "apply_message env (Abandoned l) w own = (case fmlookup own l of
       None \<Rightarrow> Some (w, own)
     | Some d \<Rightarrow> Some (w, fmupd l (d\<lparr>od_abandoned := True\<rparr>) own))"
| "apply_message env (HandlerFinishedMessage l) w own = (case fmlookup own l of
       None \<Rightarrow> Some (w, own)
     | Some d \<Rightarrow> Some (w, fmupd l (d\<lparr>od_handler_finished := True, od_running := False\<rparr>) own))"
| "apply_message env (Settlement l token disposition event topic i subscriber) w own = (case fmlookup own l of
       None \<Rightarrow> Some (emit_internal w ''settlement_owner_disconnected'' ''settlement lease is no longer owned'', own)
     | Some d \<Rightarrow>
         let message = Settlement l token disposition event topic i subscriber
         in (case od_settlement d of
             None \<Rightarrow> Some (w, fmupd l (d\<lparr>od_settlement := Some message\<rparr>) own)
           | Some previous \<Rightarrow>
               if settlement_disposition previous \<noteq> settlement_disposition message
               then map_option (\<lambda>w'. (w', own)) (fail_internal env w ''conflicting_settlement_intent'')
               else Some (w, own)))"

fun apply_messages ::
  "'p owner_env \<Rightarrow> coordinator_message list \<Rightarrow> ('j, 'p) owner_world \<Rightarrow> 'd owned_deliveries \<Rightarrow>
   (('j, 'p) owner_world \<times> 'd owned_deliveries) option" where
  "apply_messages env [] w own = Some (w, own)"
| "apply_messages env (m # ms) w own = Option.bind (apply_message env m w own) (\<lambda>(w', own'). apply_messages env ms w' own')"

definition drain ::
  "'p owner_env \<Rightarrow> ('j, 'p) owner_world \<Rightarrow> 'd owned_deliveries \<Rightarrow> (('j, 'p) owner_world \<times> 'd owned_deliveries) option" where
  "drain env w own = apply_messages env (ow_messages w) (w\<lparr>ow_messages := []\<rparr>) own"

section \<open>Stopping\<close>

definition prepare_stopping ::
  "'p owner_env \<Rightarrow> subscriber_id \<Rightarrow> string \<Rightarrow> lease \<Rightarrow> ('j, 'p) owner_world \<Rightarrow> 'd owned_delivery \<Rightarrow>
   ('j, 'p) owner_world \<times> 'd owned_delivery" where
  "prepare_stopping env subscriber topic l w d =
     (let i = control_id (ow_control w)
      in case od_inbound d of
        Some (message, _) \<Rightarrow>
          let d1 = d\<lparr>od_inbound := None, od_handler_finished := True\<rparr>
          in if terminal_failure (ow_control w) = None
             then (case canceled_intent env w l i subscriber message of (w1, intent) \<Rightarrow>
               (w1, d1\<lparr>od_settlement := intent, od_abandoned := intent = None\<rparr>))
             else (count_abandoned env w i, d1)
      | None \<Rightarrow>
          (case od_delivery d of
             Some event \<Rightarrow>
               if \<not> od_running d \<and> \<not> od_abandoned d \<and> od_result d = None \<and> od_settlement d = None
               then let d1 = d\<lparr>od_due := None, od_handler_finished := True, od_retry_pending := False, od_result := None\<rparr>
                    in if od_token d1 \<noteq> None \<and> env_settlement env = AcceptRetryReject
                       then (w, d1\<lparr>od_token := None, od_settlement := Some (Settlement l (od_token d1) Retry event topic i subscriber)\<rparr>)
                       else (count_abandoned env w i, d1\<lparr>od_abandoned := True, od_settlement := None\<rparr>)
               else (w, d)
           | None \<Rightarrow> (w, d)))"

fun prepare_each ::
  "'p owner_env \<Rightarrow> subscriber_id \<Rightarrow> string \<Rightarrow> lease list \<Rightarrow> ('j, 'p) owner_world \<Rightarrow> 'd owned_deliveries \<Rightarrow>
   ('j, 'p) owner_world \<times> 'd owned_deliveries" where
  "prepare_each env subscriber topic [] w own = (w, own)"
| "prepare_each env subscriber topic (l # ls) w own = (case fmlookup own l of
       None \<Rightarrow> prepare_each env subscriber topic ls w own
     | Some d \<Rightarrow> (case prepare_stopping env subscriber topic l w d of (w', d') \<Rightarrow>
         prepare_each env subscriber topic ls w' (fmupd l d' own)))"

definition prepare_stopping_deliveries ::
  "'p owner_env \<Rightarrow> 'd delivery_order \<Rightarrow> subscriber_id \<Rightarrow> string \<Rightarrow> ('j, 'p) owner_world \<Rightarrow> 'd owned_deliveries \<Rightarrow>
   ('j, 'p) owner_world \<times> 'd owned_deliveries" where
  "prepare_stopping_deliveries env it subscriber topic w own = prepare_each env subscriber topic (it own) w own"

section \<open>Settling\<close>

text \<open>The loop of \<open>grant_ready_settlements\<close> with a bound on its turns; every turn moves one lease out of the settlement
  queue, so one turn more than the scheduler owns leases is enough.\<close>

fun grant_settlements ::
  "nat \<Rightarrow> ('j, 'p) owner_world \<Rightarrow> 'd owned_deliveries \<Rightarrow> (('j, 'p) owner_world \<times> 'd owned_deliveries) option" where
  "grant_settlements 0 w own = Some (w, own)"
| "grant_settlements (Suc n) w own =
     Option.bind (sync_take_settlement_ready (ow_scheduler w) (control_id (ow_control w))) (\<lambda>(s, taken).
       let w1 = w\<lparr>ow_scheduler := s\<rparr>
       in case taken of
           None \<Rightarrow> Some (w1, own)
         | Some l \<Rightarrow> grant_settlements n w1 (case fmlookup own l of
             None \<Rightarrow> own | Some d \<Rightarrow> fmupd l (d\<lparr>od_settlement_granted := True\<rparr>) own))"

definition grant_ready_settlements ::
  "('j, 'p) owner_world \<Rightarrow> 'd owned_deliveries \<Rightarrow> (('j, 'p) owner_world \<times> 'd owned_deliveries) option" where
  "grant_ready_settlements w own = grant_settlements (Suc (fmlen (owned (core (ow_scheduler w))))) w own"

definition settlement_waits :: "bool \<Rightarrow> 'd owned_delivery \<Rightarrow> bool" where
  "settlement_waits stopping d \<longleftrightarrow>
     \<not> od_handler_finished d \<or> od_retry_pending d \<or> od_due d \<noteq> None \<or> (\<not> od_settlement_granted d \<and> \<not> stopping)"

fun settle_loop ::
  "'p owner_env \<Rightarrow> bool \<Rightarrow> lease list \<Rightarrow> ('j, 'p) owner_world \<Rightarrow> 'd owned_deliveries \<Rightarrow> lease list \<Rightarrow> duration \<Rightarrow>
   (('j, 'p) owner_world \<times> 'd owned_deliveries \<times> lease list \<times> duration) option" where
  "settle_loop env stopping [] w own finished wait = Some (w, own, finished, wait)"
| "settle_loop env stopping (l # ls) w own finished wait = (case fmlookup own l of
       None \<Rightarrow> settle_loop env stopping ls w own finished wait
     | Some d \<Rightarrow>
         if settlement_waits stopping d then settle_loop env stopping ls w own finished wait
         else if od_settlement d = None then settle_loop env stopping ls w own (finished @ [l]) wait
         else if stopping \<and> 0 < retry_attempts (od_retry d) then settle_loop env stopping ls w own finished wait
         else Option.bind (attempt_settlement env w d stopping) (\<lambda>(w', d', again).
           let own' = fmupd l d' own;
               finished' = (if again = None \<and> od_settlement d' = None then finished @ [l] else finished);
               wait' = (case again of None \<Rightarrow> wait | Some delay \<Rightarrow> min wait delay)
           in if terminal_failure (ow_control w') \<noteq> None then Some (w', own', finished', wait')
              else settle_loop env stopping ls w' own' finished' wait'))"

definition settle_owned ::
  "'p owner_env \<Rightarrow> 'd delivery_order \<Rightarrow> bool \<Rightarrow> ('j, 'p) owner_world \<Rightarrow> 'd owned_deliveries \<Rightarrow> duration \<Rightarrow>
   (('j, 'p) owner_world \<times> 'd owned_deliveries \<times> lease list \<times> duration) option" where
  "settle_owned env it stopping w own wait =
     Option.bind (if stopping then Some (w, own) else grant_ready_settlements w own)
       (\<lambda>(w', own'). settle_loop env stopping (it own') w' own' [] wait)"

section \<open>Releasing deliveries\<close>

definition drop_lease :: "('j, 'p) owner_world \<Rightarrow> lease \<Rightarrow> ('j, 'p) owner_world option" where
  "drop_lease w l = map_option (\<lambda>s. w\<lparr>ow_scheduler := s\<rparr>) (sync_complete (ow_scheduler w) l)"

fun remove_completed_deliveries ::
  "lease list \<Rightarrow> ('j, 'p) owner_world \<Rightarrow> 'd owned_deliveries \<Rightarrow> (('j, 'p) owner_world \<times> 'd owned_deliveries) option" where
  "remove_completed_deliveries [] w own = Some (w, own)"
| "remove_completed_deliveries (l # ls) w own = (case fmlookup own l of
       None \<Rightarrow> remove_completed_deliveries ls w own
     | Some d \<Rightarrow>
         let w1 = (if \<not> od_abandoned d \<and> \<not> od_lifecycle_failed d
                   then w\<lparr>ow_metrics := record_completed (ow_metrics w) (control_metrics (ow_control w))\<rparr> else w)
         in Option.bind (drop_lease w1 l) (\<lambda>w2. remove_completed_deliveries ls w2 (fmdrop l own)))"

text \<open>After the provider closed the receiver: what is unresolved is counted, and every lease returns.\<close>

definition unresolved :: "'d owned_delivery \<Rightarrow> bool" where
  "unresolved d \<longleftrightarrow> \<not> od_abandoned d \<and> (od_settlement d \<noteq> None \<or> od_inbound d \<noteq> None \<or> od_token d \<noteq> None \<or> od_due d \<noteq> None)"

fun release_owned ::
  "'p owner_env \<Rightarrow> lease list \<Rightarrow> ('j, 'p) owner_world \<Rightarrow> 'd owned_deliveries \<Rightarrow> (('j, 'p) owner_world \<times> 'd owned_deliveries) option" where
  "release_owned env [] w own = Some (w, own)"
| "release_owned env (l # ls) w own = (case fmlookup own l of
       None \<Rightarrow> release_owned env ls w own
     | Some d \<Rightarrow> Option.bind (drop_lease (if unresolved d then count_abandoned env w (control_id (ow_control w)) else w) l)
         (\<lambda>w'. release_owned env ls w' (fmdrop l own)))"

end
