(* ===== verification/Settlement_Props.thy ===== *)
theory Settlement_Props
  imports Owner_Phases Sync_Scheduler_Props
begin

text \<open>
  What the receiver owner promises about settlement: a delivery's token is presented to the provider with one and the
  same disposition, at most \<open>max_attempts\<close> times and never at or after the deadline; a retry only follows an error that
  the provider called retryable, after a bounded delay; and each due attempt brings the settlement to an end or uses
  up one attempt, so it does end.
\<close>

section \<open>The scheduler under the owner\<close>

text \<open>Two worlds whose schedulers differ by calls of the core, with the provider's log extended by \<open>calls\<close>.\<close>

definition owner_steps :: "('j, 'p) owner_world \<Rightarrow> ('j, 'p) owner_world \<Rightarrow> (settlement_token \<times> delivery_disposition) list \<Rightarrow> bool" where
  "owner_steps w w' calls \<longleftrightarrow> core_runs (core (ow_scheduler w)) (core (ow_scheduler w')) \<and> ow_settle_calls w' = ow_settle_calls w @ calls"

lemma fence_total:
  assumes "sched_inv (core (ow_scheduler w))"
  shows "\<exists>s. fence w = Some (w\<lparr>ow_scheduler := s\<rparr>) \<and> core_runs (core (ow_scheduler w)) (core s)"
  using cancel_total [OF assms] cancel_runs unfolding fence_def by fastforce

lemma fail_internal_total:
  assumes "sched_inv (core (ow_scheduler w))"
  shows "\<exists>w'. fail_internal env w kind = Some w' \<and> terminal_failure (ow_control w') \<noteq> None \<and> owner_steps w w' []"
proof -
  obtain c first where f: "fail_receive (ow_control w) (StoppedByProvider (OperationError (env_provider_id env) ''delivery_owner''
    (Some (control_subscriber_id (ow_control w))) kind (Some False) kind)) = (c, first)" by fastforce
  obtain s where s: "fence (w\<lparr>ow_control := c\<rparr>) = Some (w\<lparr>ow_control := c, ow_scheduler := s\<rparr>)" "core_runs (core (ow_scheduler w)) (core s)"
    using fence_total [of "w\<lparr>ow_control := c\<rparr>"] assms by auto
  have "terminal_failure c \<noteq> None" using f by (auto simp: fail_receive_def Let_def)
  then show ?thesis using f s by (auto simp: fail_internal_def Let_def emit_internal_def emit_def owner_steps_def)
qed

lemma stop_total:
  assumes "sched_inv (core (ow_scheduler w))"
  shows "\<exists>w'. stop_settlement_with_failure w event topic disposition made termination error failed = Some w' \<and>
    terminal_failure (ow_control w') \<noteq> None \<and> owner_steps w w' []"
proof -
  let ?w1 = "w\<lparr>ow_metrics := record_terminal_failure (ow_metrics w) (control_metrics (ow_control w))\<rparr>"
  obtain c first where f: "fail_receive (ow_control w) (StoppedBySettlement event disposition made termination error) = (c, first)"
    by fastforce
  obtain s where s: "fence (?w1\<lparr>ow_control := c\<rparr>) = Some (?w1\<lparr>ow_control := c, ow_scheduler := s\<rparr>)"
    "core_runs (core (ow_scheduler w)) (core s)"
    using fence_total [of "?w1\<lparr>ow_control := c\<rparr>"] assms by auto
  have "terminal_failure c \<noteq> None" using f by (auto simp: fail_receive_def Let_def)
  then show ?thesis using f s
    by (auto simp: stop_settlement_with_failure_def Let_def emit_def owner_steps_def split: option.split)
qed

lemma set_active_runs: "core_runs (core (ow_scheduler w)) (core (ow_scheduler (set_active w b)))"
  by (simp add: set_active_def sync_set_dispatch_active_def core_runs_total)

lemma set_active_fields [simp]:
  "ow_metrics (set_active w b) = ow_metrics w" "ow_control (set_active w b) = ow_control w" "ow_provider (set_active w b) = ow_provider w"
  "ow_clock_reads (set_active w b) = ow_clock_reads w" "ow_settle_calls (set_active w b) = ow_settle_calls w"
  by (simp_all add: set_active_def)

lemma call_steps:
  assumes "settlement_call env w subscriber token disposition attempt = (w', reply)"
  shows "owner_steps w w' [(token, disposition)]" "terminal_failure (ow_control w') = terminal_failure (ow_control w)"
    "control_metrics (ow_control w') = control_metrics (ow_control w)"
proof -
  let ?w1 = "set_active w False"
  let ?w2 = "?w1\<lparr>ow_metrics := record_settlement_attempt (ow_metrics ?w1) (control_metrics (ow_control ?w1)) attempt\<rparr>"
  obtain p r where p: "env_settle env (ow_provider ?w2) token disposition = (p, r)" by fastforce
  let ?w3 = "?w2\<lparr>ow_provider := p, ow_settle_calls := ow_settle_calls ?w2 @ [(token, disposition)]\<rparr>"
  have w': "w' = set_active ?w3 True" using assms p by (simp add: settlement_call_def Let_def)
  have "core_runs (core (ow_scheduler w)) (core (ow_scheduler ?w1))" by (rule set_active_runs)
  moreover have "core_runs (core (ow_scheduler ?w1)) (core (ow_scheduler w'))" using set_active_runs [of ?w3 True] w' by simp
  ultimately have "core_runs (core (ow_scheduler w)) (core (ow_scheduler w'))" by (rule core_runs_trans)
  then show "owner_steps w w' [(token, disposition)]" by (simp add: owner_steps_def w' set_active_def)
  show "terminal_failure (ow_control w') = terminal_failure (ow_control w)"
    "control_metrics (ow_control w') = control_metrics (ow_control w)" by (simp_all add: w' set_active_def)
qed

section \<open>One attempt\<close>

lemma owner_steps_refl [simp]: "owner_steps w w []"
  by (simp add: owner_steps_def)

lemma owner_steps_trans: "owner_steps a b cs \<Longrightarrow> owner_steps b c ds \<Longrightarrow> owner_steps a c (cs @ ds)"
  by (auto simp: owner_steps_def intro: core_runs_trans)

lemma owner_steps_inv: "owner_steps w w' cs \<Longrightarrow> sched_inv (core (ow_scheduler w)) \<Longrightarrow> sched_inv (core (ow_scheduler w'))"
  by (auto simp: owner_steps_def intro: core_runs_inv)

lemma owner_steps_frame [simp]:
  "owner_steps (w\<lparr>ow_metrics := m\<rparr>) w' cs = owner_steps w w' cs"
  "owner_steps (w\<lparr>ow_clock_reads := n\<rparr>) w' cs = owner_steps w w' cs"
  "owner_steps w (w'\<lparr>ow_metrics := m\<rparr>) cs = owner_steps w w' cs"
  "owner_steps w (w'\<lparr>ow_clock_reads := n\<rparr>) cs = owner_steps w w' cs"
  "owner_steps w (emit w' d) cs = owner_steps w w' cs"
  by (simp_all add: owner_steps_def emit_def)

text \<open>A retry is scheduled: the error was retryable, and the next attempt is due after the decided delay.\<close>

definition retries ::
  "'p owner_env \<Rightarrow> instant \<Rightarrow> bool \<Rightarrow> 'd owned_delivery \<Rightarrow> duration option \<Rightarrow> bool" where
  "retries env started stopping d again \<longleftrightarrow> (\<exists>error elapsed delay n.
     od_last_error d = Some error \<and> env_duration_since env (env_clock env n) started = Inr elapsed \<and>
     after_error (od_retry d) error elapsed = RetryAfter delay \<and>
     od_next_attempt d = duration_saturating_add elapsed delay \<and> again = (if stopping then None else Some delay))"

lemma failed_cases:
  assumes inv: "sched_inv (core (ow_scheduler w))"
  shows "\<exists>w' d' again. settlement_failed env w d event topic disposition i subscriber attempt started error stopping = Some (w', d', again) \<and>
    owner_steps w w' [] \<and> od_settlement d' = od_settlement d \<and> od_retry d' = od_retry d \<and>
    (terminal_failure (ow_control w') \<noteq> None \<or> retries env started stopping d' again)"
proof (cases "env_duration_since env (env_clock env (ow_clock_reads w)) started")
  case (Inl source)
  then show ?thesis using inv stop_total [of "w\<lparr>ow_clock_reads := Suc (ow_clock_reads w)\<rparr>"]
    by (fastforce simp: settlement_failed_def clock_now_def Let_def)
next
  case (Inr elapsed)
  show ?thesis
  proof (cases "after_error (od_retry d) error elapsed")
    case (RetryAfter delay)
    then show ?thesis using Inr by (auto simp: settlement_failed_def clock_now_def Let_def retries_def)
  next
    case (StopRetry cause)
    let ?m = "record_settlement_elapsed (ow_metrics w) (control_metrics (ow_control w)) elapsed"
    let ?w1 = "w\<lparr>ow_clock_reads := Suc (ow_clock_reads w), ow_metrics := ?m\<rparr>"
    obtain w' where "stop_settlement_with_failure ?w1 event topic disposition attempt cause error
        (Some (SettlementFailed event topic i subscriber disposition attempt error)) = Some w'"
      "terminal_failure (ow_control w') \<noteq> None" "owner_steps w w' []"
      using stop_total [of ?w1] inv by fastforce
    then show ?thesis using Inr StopRetry by (auto simp: settlement_failed_def clock_now_def Let_def)
  qed
qed

lemma succeeded_cases:
  assumes inv: "sched_inv (core (ow_scheduler w))"
  shows "\<exists>w' d'. settlement_succeeded env w d event topic disposition subscriber attempt started = Some (w', d', None) \<and>
    owner_steps w w' [] \<and> od_settlement d' = None \<and> od_retry d' = od_retry d"
proof (cases "env_duration_since env (env_clock env (ow_clock_reads w)) started")
  case (Inl error)
  let ?w1 = "w\<lparr>ow_clock_reads := Suc (ow_clock_reads w)\<rparr>"
  obtain w' where "stop_settlement_with_failure ?w1 event topic disposition attempt InfrastructureFailure (clock_error env subscriber error) None
      = Some w'" "owner_steps w w' []"
    using stop_total [of ?w1] inv by fastforce
  then show ?thesis using Inl by (auto simp: settlement_succeeded_def clock_now_def record_settlement_duration_def stop_settlement_def)
next
  case (Inr elapsed)
  then show ?thesis by (simp add: settlement_succeeded_def clock_now_def record_settlement_duration_def)
qed

text \<open>A due attempt: refused by the budget, which stops the subscription, or one call that settles the delivery, stops
  the subscription or schedules a retry.\<close>

lemma due_cases:
  fixes w :: "('j, 'p) owner_world"
  assumes inv: "sched_inv (core (ow_scheduler w))"
  shows "\<exists>w' d' again calls. settlement_due env w d token disposition event topic i subscriber started elapsed stopping = Some (w', d', again) \<and>
    owner_steps w w' calls \<and>
    (calls = [] \<and> od_retry d' = od_retry d \<and> od_settlement d' = od_settlement d \<and> terminal_failure (ow_control w') \<noteq> None \<or>
     calls = [(token, disposition)] \<and> (\<exists>n. admit_attempt (od_retry d) elapsed = Some (od_retry d', Inr n)) \<and>
       (od_settlement d' = None \<or> od_settlement d' = od_settlement d \<and>
         (terminal_failure (ow_control w') \<noteq> None \<or> retries env started stopping d' again)))"
proof -
  obtain retry admission where adm: "admit_attempt (od_retry d) elapsed = Some (retry, admission)" using admit_total by blast
  let ?d = "d\<lparr>od_retry := retry\<rparr>"
  show ?thesis
  proof (cases admission)
    case (Inl cause)
    then have same: "?d = d" using admit_Inl(1) [OF adm [unfolded Inl]] by simp
    show ?thesis
    proof (cases "od_last_error d")
      case None
      then show ?thesis using fail_internal_total [OF inv, of env "''settlement_budget_before_first_attempt''"] adm Inl same
        by (fastforce simp: settlement_due_def)
    next
      case (Some error)
      let ?w1 = "w\<lparr>ow_metrics := record_settlement_elapsed (ow_metrics w) (control_metrics (ow_control w)) elapsed\<rparr>"
      obtain w' where "stop_settlement_with_failure ?w1 event topic disposition (retry_attempts retry) cause error None = Some w'"
        "terminal_failure (ow_control w') \<noteq> None" "owner_steps w w' []"
        using stop_total [of ?w1] inv by fastforce
      then show ?thesis using adm Inl same Some by (auto simp: settlement_due_def stop_settlement_def)
    qed
  next
    case (Inr n)
    obtain w1 reply where call: "settlement_call env w subscriber token disposition n = (w1, reply)" by fastforce
    note steps = call_steps(1) [OF call]
    have inv1: "sched_inv (core (ow_scheduler w1))" by (rule owner_steps_inv [OF steps inv])
    show ?thesis
    proof (cases reply)
      case (Inl error)
      obtain w' d' again where
        "settlement_failed env w1 ?d event topic disposition i subscriber n started error stopping = Some (w', d', again)"
        "owner_steps w1 w' []" "od_settlement d' = od_settlement d" "od_retry d' = retry"
        "terminal_failure (ow_control w') \<noteq> None \<or> retries env started stopping d' again"
        using failed_cases [OF inv1, of env ?d event topic disposition i subscriber n started error stopping] by auto
      then show ?thesis using adm Inr call Inl owner_steps_trans [OF steps] by (fastforce simp: settlement_due_def)
    next
      case (Inr u)
      obtain w' d' where
        "settlement_succeeded env w1 ?d event topic disposition subscriber n started = Some (w', d', None)"
        "owner_steps w1 w' []" "od_settlement d' = None" "od_retry d' = retry"
        using succeeded_cases [OF inv1, of env ?d event topic disposition subscriber n started] by auto
      then show ?thesis using adm \<open>admission = Inr n\<close> call Inr owner_steps_trans [OF steps]
        by (fastforce simp: settlement_due_def split: unit.splits)
    qed
  qed
qed

definition started_at :: "'p owner_env \<Rightarrow> ('j, 'p) owner_world \<Rightarrow> 'd owned_delivery \<Rightarrow> instant" where
  "started_at env w d = (case od_first_attempt d of None \<Rightarrow> env_clock env (ow_clock_reads w) | Some t \<Rightarrow> t)"

definition elapsed_at :: "'p owner_env \<Rightarrow> ('j, 'p) owner_world \<Rightarrow> 'd owned_delivery \<Rightarrow> string + duration" where
  "elapsed_at env w d = env_duration_since env (env_clock env (ow_clock_reads w)) (started_at env w d)"

lemma attempt_due:
  assumes "od_settlement d = Some (Settlement l (Some token) disposition event topic i subscriber)" and "belongs_to token i"
    and "elapsed_at env w d = Inr elapsed" and "od_next_attempt d \<le> elapsed"
  shows "attempt_settlement env w d stopping =
    settlement_due env (w\<lparr>ow_clock_reads := Suc (ow_clock_reads w)\<rparr>) (d\<lparr>od_first_attempt := Some (started_at env w d)\<rparr>)
      token disposition event topic i subscriber (started_at env w d) elapsed stopping"
  using assms by (simp add: attempt_settlement_def clock_now_def elapsed_at_def started_at_def Let_def)

lemma attempt_not_due:
  assumes intent: "od_settlement d = Some (Settlement l (Some token) disposition event topic i subscriber)"
    and not_due: "\<not> (belongs_to token i \<and> (\<exists>elapsed. elapsed_at env w d = Inr elapsed \<and> od_next_attempt d \<le> elapsed))"
    and inv: "sched_inv (core (ow_scheduler w))"
  shows "\<exists>w' d' again. attempt_settlement env w d stopping = Some (w', d', again) \<and> owner_steps w w' [] \<and>
    od_retry d' = od_retry d \<and> od_settlement d' = od_settlement d"
proof (cases "belongs_to token i")
  case True
  note def = attempt_settlement_def clock_now_def Let_def
  show ?thesis
  proof (cases "elapsed_at env w d")
    case (Inl error)
    obtain w' where "stop_settlement (w\<lparr>ow_clock_reads := Suc (ow_clock_reads w)\<rparr>) event topic disposition (retry_attempts (od_retry d))
        InfrastructureFailure (clock_error env subscriber error) = Some w'" "owner_steps w w' []"
      using stop_total [of "w\<lparr>ow_clock_reads := Suc (ow_clock_reads w)\<rparr>"] inv unfolding stop_settlement_def by fastforce
    then show ?thesis using intent True Inl by (simp add: def elapsed_at_def started_at_def)
  next
    case (Inr elapsed)
    then have "elapsed < od_next_attempt d" using not_due True by auto
    then show ?thesis using intent True Inr by (simp add: def elapsed_at_def started_at_def)
  qed
next
  case False
  obtain w' where "stop_settlement w event topic disposition (retry_attempts (od_retry d)) InvalidToken
      (InvalidSettlementToken (env_provider_id env) ''settle'' (Some subscriber) ''foreign_owner'' (Some False)
        ''provider token belongs to another subscription'') = Some w'" "owner_steps w w' []"
    using stop_total [OF inv] unfolding stop_settlement_def by fastforce
  then show ?thesis using intent False by (simp add: attempt_settlement_def)
qed

text \<open>The calls of one attempt, whatever the world it runs in.\<close>

lemma attempt_calls:
  assumes intent: "od_settlement d = Some (Settlement l (Some token) disposition event topic i subscriber)"
    and inv: "sched_inv (core (ow_scheduler w))" and run: "attempt_settlement env w d stopping = Some (w', d', again)"
  shows "\<exists>calls. ow_settle_calls w' = ow_settle_calls w @ calls \<and> (od_settlement d' = od_settlement d \<or> od_settlement d' = None) \<and>
    (calls = [] \<and> od_retry d' = od_retry d \<or>
     calls = [(token, disposition)] \<and> (\<exists>elapsed n. elapsed_at env w d = Inr elapsed \<and> od_next_attempt d \<le> elapsed \<and>
       admit_attempt (od_retry d) elapsed = Some (od_retry d', Inr n)))"
proof (cases "belongs_to token i \<and> (\<exists>elapsed. elapsed_at env w d = Inr elapsed \<and> od_next_attempt d \<le> elapsed)")
  case True
  then obtain elapsed where e: "elapsed_at env w d = Inr elapsed" "od_next_attempt d \<le> elapsed" by blast
  let ?w1 = "w\<lparr>ow_clock_reads := Suc (ow_clock_reads w)\<rparr>" and ?d1 = "d\<lparr>od_first_attempt := Some (started_at env w d)\<rparr>"
  obtain calls where "owner_steps w w' calls"
    "calls = [] \<and> od_retry d' = od_retry d \<and> od_settlement d' = od_settlement d \<or>
     calls = [(token, disposition)] \<and> (\<exists>n. admit_attempt (od_retry d) elapsed = Some (od_retry d', Inr n)) \<and>
       (od_settlement d' = None \<or> od_settlement d' = od_settlement d)"
    using due_cases [of ?w1 env ?d1 token disposition event topic i subscriber "started_at env w d" elapsed stopping] inv run
      attempt_due [OF intent _ e] True by fastforce
  then show ?thesis using e by (auto simp: owner_steps_def)
next
  case False
  show ?thesis using attempt_not_due [OF intent False inv, of stopping] run by (auto simp: owner_steps_def)
qed

section \<open>The calls of a delivery\<close>

text \<open>The attempts on one delivery in the course of its life. Between two attempts the world changes in any way: the
  owner works on other deliveries, other threads use the scheduler, and the owner may be asked to stop.\<close>

inductive settlement_run ::
  "('j, 'p) owner_world itself \<Rightarrow> 'p owner_env \<Rightarrow> 'd owned_delivery \<Rightarrow> (settlement_token \<times> delivery_disposition) list \<Rightarrow> 'd owned_delivery \<Rightarrow> bool"
  for T :: "('j, 'p) owner_world itself" and env d where
  run_none: "settlement_run T env d [] d"
| run_attempt: "settlement_run T env d before d' \<Longrightarrow> sched_reachable (core (ow_scheduler w)) \<Longrightarrow>
    attempt_settlement env (w :: ('j, 'p) owner_world) d' stopping = Some (w', d'', again) \<Longrightarrow>
    ow_settle_calls w' = ow_settle_calls w @ calls \<Longrightarrow> settlement_run T env d (before @ calls) d''"

lemma run_bounded:
  assumes "settlement_run T env d calls d'"
    and intent: "od_settlement d = Some (Settlement l (Some token) disposition event topic i subscriber)"
    and fresh: "od_retry d = settlement_retry_state_new cfg"
  shows "calls = replicate (unat (retry_attempts (od_retry d'))) (token, disposition) \<and> retry_config (od_retry d') = cfg \<and>
    retry_attempts (od_retry d') \<le> max_attempts cfg \<and> (od_settlement d' = od_settlement d \<or> od_settlement d' = None)"
  using assms(1)
proof (induction rule: settlement_run.induct)
  case (run_attempt before d1 w stopping w' d2 again calls)
  show ?case
  proof (cases "od_settlement d1")
    case None
    then have "d2 = d1" "calls = []" using run_attempt.hyps(3,4) by (simp_all add: attempt_settlement_def)
    then show ?thesis using run_attempt.IH by simp
  next
    case (Some m)
    then have "od_settlement d1 = Some (Settlement l (Some token) disposition event topic i subscriber)" using run_attempt.IH intent by auto
    from attempt_calls [OF this reachable_inv [OF run_attempt.hyps(2)] run_attempt.hyps(3)] run_attempt.hyps(4)
    have kept: "od_settlement d2 = od_settlement d1 \<or> od_settlement d2 = None"
      and calls: "calls = [] \<and> od_retry d2 = od_retry d1 \<or>
        calls = [(token, disposition)] \<and> (\<exists>elapsed n. admit_attempt (od_retry d1) elapsed = Some (od_retry d2, Inr n))" by auto
    from calls show ?thesis
    proof (elim disjE conjE exE)
      fix elapsed n assume one: "calls = [(token, disposition)]" and adm: "admit_attempt (od_retry d1) elapsed = Some (od_retry d2, Inr n)"
      show ?thesis using one kept run_attempt.IH admit_Inr [OF adm] by (auto simp: replicate_append_same)
    qed (use kept run_attempt.IH in auto)
  qed
qed (use fresh in \<open>simp add: settlement_retry_state_new_def\<close>)

text \<open>A provider that fails once with a retryable error and then accepts, a clock that advances by ten nanoseconds at each
  reading, and a delivery whose settlement is decided.\<close>

definition demo_config :: settlement_retry_config where
  "demo_config = \<lparr>max_attempts = 2, max_elapsed = 1000, initial_backoff = 5, max_backoff = 50\<rparr>"

definition demo_env :: "nat owner_env" where
  "demo_env = \<lparr>env_provider_id = ''p'', env_settlement = AcceptRetryReject, env_durability = EphemeralMessages,
     env_settle = (\<lambda>p t disposition. (Suc p, Returned (if p = 0
       then Inl (OperationError ''p'' ''settle'' None ''busy'' (Some True) ''busy'') else Inr ()))),
     env_clock = (\<lambda>n. 10 * n), env_duration_since = (\<lambda>later earlier. if earlier \<le> later then Inr (later - earlier) else Inl ''regress'')\<rparr>"

definition demo_world :: "(unit, nat) owner_world" where
  "demo_world = \<lparr>ow_scheduler = sync_new tiny_config, ow_metrics = fmempty, ow_control = control_with_metrics 1 ''s'' 0,
     ow_subscriptions = fmempty, ow_abandoned = 0, ow_messages = [], ow_provider = 0, ow_clock_reads = 0, ow_diagnostics = [],
     ow_settle_calls = []\<rparr>"

definition demo_token :: settlement_token where
  "demo_token = settlement_token_new 1 OtherState"

definition demo_delivery :: "unit owned_delivery" where
  "demo_delivery = \<lparr>od_inbound = None, od_delivery = Some ''e'', od_token = None, od_due = None, od_attempts = 1, od_result = None,
     od_running = False, od_settlement = Some (Settlement 1 (Some demo_token) Accept ''e'' ''t'' 1 ''s''), od_handler_finished = True,
     od_retry_pending = False, od_settlement_granted = True, od_abandoned = False, od_lifecycle_failed = False,
     od_retry = settlement_retry_state_new demo_config, od_first_attempt = None, od_next_attempt = 0, od_last_error = None\<rparr>"

lemma demo_reachable: "sched_reachable (core (ow_scheduler demo_world))"
  by (simp add: demo_world_def sync_new_def new_reachable)

lemma demo_attempt:
  "map_option (\<lambda>(w, d, again). (ow_settle_calls w, od_settlement d \<noteq> None, again, retry_attempts (od_retry d)))
     (attempt_settlement demo_env demo_world demo_delivery False) = Some ([(demo_token, Accept)], True, Some 5, 1)"
  by code_simp



lemma retry_progress:
  assumes adm: "admit_attempt (od_retry d) elapsed = Some (od_retry d', Inr n)" and retry: "retries env started stopping d' again"
    and max: "max_elapsed (retry_config (od_retry d)) \<le> duration_max"
  shows "unat (retry_attempts (od_retry d')) = Suc (unat (retry_attempts (od_retry d))) \<and>
     retry_attempts (od_retry d') < max_attempts (retry_config (od_retry d)) \<and> elapsed < max_elapsed (retry_config (od_retry d)) \<and>
     (\<exists>error elapsed' delay. od_last_error d' = Some error \<and> spi_retryable error = Some True \<and>
        delay \<le> max_backoff (retry_config (od_retry d)) \<and> elapsed' + delay \<le> max_elapsed (retry_config (od_retry d)) \<and>
        od_next_attempt d' = elapsed' + delay \<and> again = (if stopping then None else Some delay))"
proof -
  note a = admit_Inr [OF adm]
  have cfg: "retry_config (od_retry d') = retry_config (od_retry d)" using a(2) by simp
  obtain error e delay where r: "od_last_error d' = Some error" "after_error (od_retry d') error e = RetryAfter delay"
    "od_next_attempt d' = duration_saturating_add e delay" "again = (if stopping then None else Some delay)"
    using retry unfolding retries_def by blast
  note b = after_error_retry [OF r(2)]
  have due: "e + delay \<le> max_elapsed (retry_config (od_retry d))" using b(5,6) cfg by simp
  have "od_next_attempt d' = e + delay" using r(3) due max by (simp add: duration_saturating_add_def)
  then show ?thesis using a r(1,4) b(1,4,7) cfg due by auto
qed

text \<open>C20: An attempt that is due returns, and it brings the settlement forward. Either the delivery is settled, or the
  subscription is stopped with its cause recorded, or exactly one more attempt is used, some attempts remain, the
  provider called the error retryable, and the next attempt is due after a delay that neither exceeds \<open>max_backoff\<close>
  nor passes the deadline. So a settlement ends after at most \<open>max_attempts\<close> due attempts.\<close>

theorem settlement_attempt_progress:
  assumes "sched_reachable (core (ow_scheduler w))"
    and "od_settlement d = Some (Settlement l (Some token) disposition event topic i subscriber)" and "belongs_to token i"
    and "elapsed_at env w d = Inr elapsed" and "od_next_attempt d \<le> elapsed"
    and "max_elapsed (retry_config (od_retry d)) \<le> duration_max"
  shows "\<exists>w' d' again. attempt_settlement env w d stopping = Some (w', d', again) \<and>
    (od_settlement d' = None \<or> terminal_failure (ow_control w') \<noteq> None \<or>
     unat (retry_attempts (od_retry d')) = Suc (unat (retry_attempts (od_retry d))) \<and>
     retry_attempts (od_retry d') < max_attempts (retry_config (od_retry d)) \<and>
     elapsed < max_elapsed (retry_config (od_retry d)) \<and>
     (\<exists>error elapsed' delay. od_last_error d' = Some error \<and> spi_retryable error = Some True \<and>
        delay \<le> max_backoff (retry_config (od_retry d)) \<and> elapsed' + delay \<le> max_elapsed (retry_config (od_retry d)) \<and>
        od_next_attempt d' = elapsed' + delay \<and> again = (if stopping then None else Some delay)))"
proof -
  let ?w1 = "w\<lparr>ow_clock_reads := Suc (ow_clock_reads w)\<rparr>" and ?d1 = "d\<lparr>od_first_attempt := Some (started_at env w d)\<rparr>"
  have inv: "sched_inv (core (ow_scheduler ?w1))" using reachable_inv [OF assms(1)] by simp
  obtain w' d' again where run: "attempt_settlement env w d stopping = Some (w', d', again)"
    and cases: "od_settlement d' = None \<or> terminal_failure (ow_control w') \<noteq> None \<or>
      (\<exists>n. admit_attempt (od_retry d) elapsed = Some (od_retry d', Inr n)) \<and> retries env (started_at env w d) stopping d' again"
    using due_cases [OF inv, of env ?d1 token disposition event topic i subscriber "started_at env w d" elapsed stopping]
      attempt_due [OF assms(2-5)] by auto
  let ?used = "unat (retry_attempts (od_retry d')) = Suc (unat (retry_attempts (od_retry d))) \<and>
     retry_attempts (od_retry d') < max_attempts (retry_config (od_retry d)) \<and> elapsed < max_elapsed (retry_config (od_retry d)) \<and>
     (\<exists>error elapsed' delay. od_last_error d' = Some error \<and> spi_retryable error = Some True \<and>
        delay \<le> max_backoff (retry_config (od_retry d)) \<and> elapsed' + delay \<le> max_elapsed (retry_config (od_retry d)) \<and>
        od_next_attempt d' = elapsed' + delay \<and> again = (if stopping then None else Some delay))"
  have "od_settlement d' = None \<or> terminal_failure (ow_control w') \<noteq> None \<or> ?used"
    using cases retry_progress [OF _ _ assms(6)] by blast
  then show ?thesis using run by (intro exI conjI)
qed

theorem settlement_attempt_progress_witness:
  "\<exists>w' d' again. attempt_settlement demo_env demo_world demo_delivery False = Some (w', d', again) \<and>
    (od_settlement d' = None \<or> terminal_failure (ow_control w') \<noteq> None \<or> retry_attempts (od_retry d') < 2)"
proof -
  have "od_settlement demo_delivery = Some (Settlement 1 (Some demo_token) Accept ''e'' ''t'' 1 ''s'')" by (simp add: demo_delivery_def)
  moreover have "belongs_to demo_token 1" by (simp add: demo_token_def settlement_token_new_def belongs_to_def)
  moreover have "elapsed_at demo_env demo_world demo_delivery = Inr 0" "od_next_attempt demo_delivery \<le> 0"
    by (simp_all add: elapsed_at_def started_at_def demo_env_def demo_world_def demo_delivery_def)
  moreover have "max_elapsed (retry_config (od_retry demo_delivery)) \<le> duration_max" "max_attempts (retry_config (od_retry demo_delivery)) = 2"
    by (simp_all add: demo_delivery_def settlement_retry_state_new_def demo_config_def duration_max_def)
  ultimately show ?thesis using settlement_attempt_progress [OF demo_reachable, of demo_delivery 1 demo_token Accept "''e''" "''t''" 1 "''s''" demo_env 0 False]
    by auto
qed

end
