(* ===== verification/Owner_Phases_Props.thy ===== *)
theory Owner_Phases_Props
  imports Settlement_Props
begin

text \<open>
  The owner's phases over all its deliveries: the bounded loop that grants settlement slots stops only when the
  scheduler has no slot left to give, a settlement intent survives the owner channel unchanged, only settled
  deliveries are completed, and after the provider closed the receiver every lease goes back and exactly the
  unresolved deliveries of an ephemeral provider are counted as abandoned.
\<close>

section \<open>Granting settlement slots\<close>

definition settlement_queue :: "delivery_scheduler_state \<Rightarrow> nat" where
  "settlement_queue c = fmcount (\<lambda>_ r. rec_phase r = QueuedSettlement) (owned c)"

lemma take_settlement_shrinks:
  assumes inv: "sched_inv c" and run: "take_settlement_ready c i = Some (c', Some l)"
  shows "settlement_queue c' < settlement_queue c"
proof -
  obtain r where r: "fmlookup (owned c) l = Some r" "rec_phase r = QueuedSettlement"
    and c': "owned c' = fmupd l (r\<lparr>rec_phase := Settling\<rparr>) (owned c)"
    using run by (auto simp: take_settlement_ready_def take_grant_def Let_def split: option.splits if_splits prod.splits list.splits
      dest!: take_ready_lease)
  then show ?thesis
    using fmcount_upd_old [OF r(1), where P = "\<lambda>_ r. rec_phase r = QueuedSettlement" and v = "r\<lparr>rec_phase := Settling\<rparr>"]
    by (simp add: settlement_queue_def)
qed

text \<open>The loop ends with a refusal of the scheduler, not with its bound.\<close>

lemma grant_settlements_done:
  assumes "sched_inv (core (ow_scheduler w))" and "settlement_queue (core (ow_scheduler w)) < n"
  shows "\<exists>w' own' s. grant_settlements n w own = Some (w', own') \<and> sched_inv (core (ow_scheduler w')) \<and>
    (\<exists>w0. sync_take_settlement_ready w0 (control_id (ow_control w)) = Some (ow_scheduler w', None))"
  using assms
proof (induction n arbitrary: w own)
  case (Suc n)
  let ?s = "ow_scheduler w" and ?i = "control_id (ow_control w)"
  obtain c taken where t: "take_settlement_ready (core ?s) ?i = Some (c, taken)" "sched_inv c"
    using sched_exec_inv [OF Suc.prems(1), of "TakeSettlementReady ?i"] by auto
  have s: "sync_take_settlement_ready ?s ?i = Some (after_core ?s c, taken)" using t(1) by (simp add: sync_take_settlement_ready_def)
  have inv: "sched_inv (core (after_core ?s c))"
    using sched_exec_inv [OF t(2), of TakeNotifications] by simp
  show ?case
  proof (cases taken)
    case None
    then show ?thesis using s inv by auto
  next
    case (Some l)
    have "settlement_queue (core (after_core ?s c)) < n"
      using take_settlement_shrinks [OF Suc.prems(1)] t(1) Some Suc.prems(2) by (fastforce simp: settlement_queue_def take_notifications_def)
    then show ?thesis using Suc.IH [of "w\<lparr>ow_scheduler := after_core ?s c\<rparr>"] s inv Some by simp
  qed
qed simp

lemma grant_ready_settlements_done:
  assumes "sched_inv (core (ow_scheduler w))"
  shows "\<exists>w' own'. grant_ready_settlements w own = Some (w', own') \<and> sched_inv (core (ow_scheduler w')) \<and>
    (\<exists>w0. sync_take_settlement_ready w0 (control_id (ow_control w)) = Some (ow_scheduler w', None))"
  using grant_settlements_done [OF assms, of "Suc (fmlen (owned (core (ow_scheduler w))))" own]
    fmcount_le_len [of "\<lambda>_ r. rec_phase r = QueuedSettlement" "owned (core (ow_scheduler w))"]
  by (fastforce simp: grant_ready_settlements_def settlement_queue_def less_Suc_eq_le)

section \<open>The owner channel\<close>

text \<open>A message never changes an intent that is there.\<close>

lemma apply_message_intent:
  assumes "apply_message env m w own = Some (w', own')" and "fmlookup own l = Some d" and "od_settlement d = Some intent"
  shows "\<exists>d'. fmlookup own' l = Some d' \<and> od_settlement d' = Some intent"
  using assms by (cases m) (auto simp: Let_def split: option.splits if_splits)

lemma drain_keeps_intent:
  assumes "drain env w own = Some (w', own')" and "fmlookup own l = Some d" and "od_settlement d = Some intent"
  shows "\<exists>d'. fmlookup own' l = Some d' \<and> od_settlement d' = Some intent"
proof -
  have "\<exists>d'. fmlookup own' l = Some d' \<and> od_settlement d' = Some intent"
    if "apply_messages env ms w own = Some (w', own')" "fmlookup own l = Some d" "od_settlement d = Some intent" for ms w own d
    using that
  proof (induction ms arbitrary: w own d)
    case (Cons m ms)
    then obtain w1 own1 where s: "apply_message env m w own = Some (w1, own1)" "apply_messages env ms w1 own1 = Some (w', own')"
      by (auto simp: bind_eq_Some_conv)
    then show ?case using apply_message_intent [OF s(1) Cons.prems(2,3)] Cons.IH [OF s(2)] by blast
  qed auto
  then show ?thesis using assms unfolding drain_def by blast
qed

section \<open>Completed deliveries\<close>

definition all_settled :: "'d owned_deliveries \<Rightarrow> lease list \<Rightarrow> bool" where
  "all_settled own ls \<longleftrightarrow> (\<forall>l \<in> set ls. \<exists>d. fmlookup own l = Some d \<and> od_settlement d = None)"

lemma all_settled_upd: "all_settled own ls \<Longrightarrow> k \<notin> set ls \<Longrightarrow> all_settled (fmupd k d own) ls"
  by (auto simp: all_settled_def)

text \<open>Only deliveries without an open intent are reported complete.\<close>

lemma settle_loop_settled:
  assumes "settle_loop env stopping ls w own fin wait = Some (w', own', fin', wait')" and "distinct ls"
    and "set fin \<inter> set ls = {}" and "all_settled own fin"
  shows "all_settled own' fin'"
  using assms
proof (induction ls arbitrary: w own fin wait)
  case (Cons k ls)
  note IH = Cons.IH and prems = Cons.prems
  have ls: "distinct ls" "k \<notin> set ls" "k \<notin> set fin" "set fin \<inter> set ls = {}" using prems(2,3) by auto
  show ?case
  proof (cases "fmlookup own k")
    case None
    then show ?thesis using IH [OF _ ls(1,4) prems(4)] prems(1) by simp
  next
    case (Some d)
    consider "settlement_waits stopping d \<or> od_settlement d \<noteq> None \<and> stopping \<and> 0 < retry_attempts (od_retry d)"
      | "\<not> settlement_waits stopping d" "od_settlement d = None"
      | "\<not> settlement_waits stopping d" "od_settlement d \<noteq> None" "\<not> (stopping \<and> 0 < retry_attempts (od_retry d))" by blast
    then show ?thesis
    proof cases
      case 1
      then have "settle_loop env stopping ls w own fin wait = Some (w', own', fin', wait')" using prems(1) Some by (auto split: if_splits)
      then show ?thesis using IH ls(1,4) prems(4) by blast
    next
      case 2
      then have "settle_loop env stopping ls w own (fin @ [k]) wait = Some (w', own', fin', wait')" using prems(1) Some by simp
      moreover have "set (fin @ [k]) \<inter> set ls = {}" "all_settled own (fin @ [k])" using ls prems(4) 2 Some by (auto simp: all_settled_def)
      ultimately show ?thesis using IH ls(1) by blast
    next
      case 3
      then obtain w1 d1 again where at: "attempt_settlement env w d stopping = Some (w1, d1, again)"
        using prems(1) Some by (auto simp: bind_eq_Some_conv)
      define f1 where "f1 = (if again = None \<and> od_settlement d1 = None then fin @ [k] else fin)"
      have f1: "set f1 \<inter> set ls = {}" "all_settled (fmupd k d1 own) f1"
        using ls all_settled_upd [OF prems(4) ls(3), of d1] by (auto simp: f1_def all_settled_def)
      show ?thesis
      proof (cases "terminal_failure (ow_control w1) = None")
        case True
        then show ?thesis using IH [OF _ ls(1) f1] prems(1) Some 3 at by (auto simp: Let_def f1_def)
      next
        case False
        then have "own' = fmupd k d1 own" "fin' = f1" using prems(1) Some 3 at by (auto simp: Let_def f1_def)
        then show ?thesis using f1(2) by simp
      qed
    qed
  qed
qed auto

section \<open>Leases come back\<close>

text \<open>The lease is not owned and never will be again.\<close>

definition gone :: "delivery_scheduler_state \<Rightarrow> lease \<Rightarrow> bool" where
  "gone c l \<longleftrightarrow> fmlookup (owned c) l = None \<and> (\<forall>n. next_lease c = Some n \<longrightarrow> l < n)"

lemma gone_kept: "ids_kept c c' \<Longrightarrow> gone c l \<Longrightarrow> gone c' l"
  unfolding ids_kept_def gone_def by (meson leD less_le_trans)

definition issued :: "delivery_scheduler_state \<Rightarrow> lease \<Rightarrow> bool" where
  "issued c l \<longleftrightarrow> (\<forall>n. next_lease c = Some n \<longrightarrow> l < n)"

lemma owned_issued: "sched_inv c \<Longrightarrow> fmlookup (owned c) l \<noteq> None \<Longrightarrow> issued c l"
  using core_invD(2) by (auto simp: sched_inv_def leases_ok_def issued_def)

lemma issued_kept: "ids_kept c c' \<Longrightarrow> issued c l \<Longrightarrow> issued c' l"
  unfolding ids_kept_def issued_def by (meson less_le_trans)

lemma complete_gone:
  assumes own: "issued c l" and run: "complete c l = Some c'"
  shows "gone c' l"
proof -
  obtain c1 c2 where c: "release c l = Some c1" "grant_receives c1 = Some c2" "c' = notify_ready c2"
    using run by (auto simp: complete_def bind_eq_Some_conv)
  have "fmlookup (owned c1) l = None" "next_lease c1 = next_lease c"
    using c(1) by (auto simp: release_def Let_def split: option.splits if_splits)
  then have "gone c1 l" using own by (simp add: gone_def issued_def)
  moreover have "ids_kept c1 c'" using c(2,3) ids_grant_loop by (simp add: grant_receives_def)
  ultimately show ?thesis by (rule gone_kept [rotated])
qed

lemma drop_lease_returns:
  assumes inv: "sched_inv (core (ow_scheduler w))" and l: "issued (core (ow_scheduler w)) l"
  shows "\<exists>s. drop_lease w l = Some (w\<lparr>ow_scheduler := s\<rparr>) \<and> sched_inv (core s) \<and> gone (core s) l \<and> ids_kept (core (ow_scheduler w)) (core s)"
proof -
  obtain c where c: "complete (core (ow_scheduler w)) l = Some c" "sched_inv c"
    using sched_exec_inv [OF inv, of "Complete l"] by auto
  have route: "ids_kept c (fst (take_notifications c))" by (rule ids_plain_ops)
  show ?thesis
    by (rule exI [of _ "after_core (ow_scheduler w) c"])
      (use c gone_kept [OF route complete_gone [OF l c(1)]] ids_kept_trans [OF ids_credit_ops(4) [OF c(1)] route]
      sched_exec_inv [OF c(2), of TakeNotifications] in \<open>simp add: drop_lease_def sync_complete_def\<close>)
qed

definition abandonment :: "'p owner_env \<Rightarrow> nat \<Rightarrow> u64" where
  "abandonment env n = (if env_durability env = EphemeralMessages then of_nat n else 0)"

lemma count_abandoned_fields [simp]:
  "ow_scheduler (count_abandoned env w i) = ow_scheduler w" "ow_control (count_abandoned env w i) = ow_control w"
  "ow_abandoned (count_abandoned env w i) = ow_abandoned w + abandonment env 1"
  by (simp_all add: count_abandoned_def abandonment_def Let_def split: option.split)

lemma release_each:
  assumes "sched_inv (core (ow_scheduler w))" and "distinct ls" and "set ls = fset (fmdom own)"
    and "\<forall>l \<in> set ls. issued (core (ow_scheduler w)) l"
  shows "\<exists>w'. release_owned env ls w own = Some (w', fmempty) \<and> (\<forall>l \<in> set ls. gone (core (ow_scheduler w')) l) \<and>
    ids_kept (core (ow_scheduler w)) (core (ow_scheduler w')) \<and>
    ow_abandoned w' = ow_abandoned w + abandonment env (length (filter (\<lambda>l. unresolved (the (fmlookup own l))) ls))"
  using assms
proof (induction ls arbitrary: w own)
  case Nil
  then have "own = fmempty" by (intro fmap_ext) (auto simp: fmdom_notD)
  then show ?case by (simp add: abandonment_def)
next
  case (Cons l ls)
  have "l |\<in>| fmdom own" using Cons.prems(3) by (metis list.set_intros(1))
  then obtain d where d: "fmlookup own l = Some d" by (auto simp: fmlookup_dom_iff)
  let ?w1 = "if unresolved d then count_abandoned env w (control_id (ow_control w)) else w"
  have w1: "core (ow_scheduler ?w1) = core (ow_scheduler w)" by simp
  obtain s where s: "drop_lease ?w1 l = Some (?w1\<lparr>ow_scheduler := s\<rparr>)" "sched_inv (core s)" "gone (core s) l"
    "ids_kept (core (ow_scheduler w)) (core s)"
    using drop_lease_returns [of ?w1 l] Cons.prems w1 by auto
  have ls: "distinct ls" "set ls = fset (fmdom (fmdrop l own))" "l \<notin> set ls" using Cons.prems(2,3) by auto
  have "\<forall>k \<in> set ls. issued (core s) k" using Cons.prems(4) issued_kept [OF s(4)] by auto
  then obtain w' where w': "release_owned env ls (?w1\<lparr>ow_scheduler := s\<rparr>) (fmdrop l own) = Some (w', fmempty)"
    "\<forall>k \<in> set ls. gone (core (ow_scheduler w')) k" "ids_kept (core s) (core (ow_scheduler w'))"
    "ow_abandoned w' = ow_abandoned ?w1 + abandonment env (length (filter (\<lambda>k. unresolved (the (fmlookup (fmdrop l own) k))) ls))"
    using Cons.IH [of "?w1\<lparr>ow_scheduler := s\<rparr>" "fmdrop l own"] s(2) ls(1,2) by auto
  have same: "filter (\<lambda>k. unresolved (the (fmlookup (fmdrop l own) k))) ls = filter (\<lambda>k. unresolved (the (fmlookup own k))) ls"
    using ls(3) by (intro filter_cong) auto
  show ?case
    using d s(1) w' gone_kept [OF w'(3) s(3)] ids_kept_trans [OF s(4) w'(3)] same by (auto simp: abandonment_def)
qed

text \<open>C26: After the provider closed the receiver, the owner gives every lease back: nothing of its deliveries is left, none of
  their leases is owned by the scheduler any more, and the bus counts exactly the unresolved deliveries as abandoned
  when the provider keeps no messages, and none otherwise.\<close>

theorem owner_releases_all:
  assumes "sched_reachable (core (ow_scheduler w))" and "iteration_order it"
    and "\<forall>l \<in> fset (fmdom own). fmlookup (owned (core (ow_scheduler w))) l \<noteq> None"
  shows "\<exists>w'. release_owned env (it own) w own = Some (w', fmempty) \<and>
    (\<forall>l \<in> fset (fmdom own). fmlookup (owned (core (ow_scheduler w'))) l = None) \<and>
    ow_abandoned w' = ow_abandoned w +
      (if env_durability env = EphemeralMessages then of_nat (fmcount (\<lambda>_ d. unresolved d) own) else 0)"
proof -
  have inv: "sched_inv (core (ow_scheduler w))" by (rule reachable_inv [OF assms(1)])
  have dom: "set (it own) = fset (fmdom own)" by (rule iteration_order_set [OF assms(2)])
  have "\<forall>l \<in> set (it own). issued (core (ow_scheduler w)) l" using owned_issued [OF inv] assms(3) dom by auto
  from release_each [OF inv iteration_order_distinct [OF assms(2)] dom this, of env] dom
  show ?thesis by (auto simp: gone_def abandonment_def fmcount_order [OF assms(2)])
qed

text \<open>One delivery with an open intent, whose lease is the first of the small scheduler.\<close>

definition closing_world :: "(unit, nat) owner_world" where
  "closing_world = demo_world\<lparr>ow_scheduler := small_sync\<rparr>"

theorem owner_releases_all_witness:
  "\<exists>w'. release_owned demo_env [1] closing_world (fmupd 1 demo_delivery fmempty) = Some (w', fmempty) \<and>
    fmlookup (owned (core (ow_scheduler w'))) 1 = None \<and> ow_abandoned w' = 1"
proof -
  let ?own = "fmupd (1 :: lease) demo_delivery fmempty"
  have r: "sched_reachable (core (ow_scheduler closing_world))"
    using syn.inv_reach small_sync_reachable by (auto simp: closing_world_def sync_inv_def sync_reachable_def)
  have "fmlookup (owned (core small_sync)) 1 \<noteq> None" by code_simp
  then have o: "\<forall>l \<in> fset (fmdom ?own). fmlookup (owned (core (ow_scheduler closing_world))) l \<noteq> None" by (simp add: closing_world_def)
  have k: "key_order ?own = [1]" by (simp add: key_order_def sorted_list_of_fset.rep_eq)
  have "unresolved demo_delivery" by (simp add: unresolved_def demo_delivery_def)
  then have n: "fmcount (\<lambda>_ d. unresolved d) ?own = 1" using k by (simp add: fmcount_order [OF key_order_ok])
  show ?thesis
    using owner_releases_all [OF r key_order_ok o, of demo_env] k n by (simp add: demo_env_def closing_world_def demo_world_def)
qed

end
