(* ===== verification/Notification.thy ===== *)
theory Notification
  imports Reservations Spi_Model
begin

text \<open>
  The notification publisher: \<open>src/src/notification\<close>. Submitters put payloads into a bounded channel under a
  mutex, optionally charging a weight budget; one worker takes them out in order, publishes them on the bus, tells
  the observer and gives the weight back; closing stops admission and waits for the worker.

  The bus and the observer are outside: a result of publishing and whether the observer panicked are inputs of the
  worker's steps. Counters, channel and budget have locks of their own, so the steps of a submission are separate:
  charging the budget, sending, counting. The weight of a refused entry is returned after the mutex is released; such
  weights are in \<open>np_returning\<close>. \<open>np_accepted\<close> and \<open>np_finished\<close> record the payloads in the order in which
  the channel took them and the worker published them; nothing reads them. A panic of a release is \<^const>\<open>None\<close>.
\<close>

section \<open>The weight budget\<close>

record weight_budget =
  wb_limit :: usize
  wb_used :: usize

definition weight_budget_new :: "usize \<Rightarrow> weight_budget" where
  "weight_budget_new limit = \<lparr>wb_limit = limit, wb_used = 0\<rparr>"

definition weight_reserve :: "weight_budget \<Rightarrow> usize \<Rightarrow> weight_budget \<times> bool" where
  "weight_reserve b weight = (case checked_add (wb_used b) weight of
       None \<Rightarrow> (b, False)
     | Some n \<Rightarrow> if n \<le> wb_limit b then (b\<lparr>wb_used := n\<rparr>, True) else (b, False))"

definition weight_release :: "weight_budget \<Rightarrow> usize \<Rightarrow> weight_budget option" where
  "weight_release b weight = map_option (\<lambda>n. b\<lparr>wb_used := n\<rparr>) (checked_sub (wb_used b) weight)"

interpretation wb: reservation_budget wb_limit "\<lambda>b (_ :: unit). unat (wb_used b)" "\<lambda>b. wb_used b \<le> wb_limit b"
  "\<lambda>_ weight _. unat weight" weight_reserve weight_release
  by unfold_locales
    (auto simp: weight_reserve_def weight_release_def checked_add_Some_iff checked_sub_def unat_sub word_le_nat_alt
      split: option.splits if_splits)

section \<open>Counters\<close>

record notification_stats =
  ns_enqueued :: u64
  ns_queue_full :: u64
  ns_queue_closed :: u64
  ns_published :: u64
  ns_publish_errors :: u64
  ns_request_errors :: u64
  ns_observer_panicked :: u64
  ns_worker_panicked :: u64
  ns_admission_accepted :: u64
  ns_admission_partially_accepted :: u64
  ns_admission_none_accepted :: u64
  ns_admission_no_destinations :: u64
  ns_admission_opaque_accepted :: u64
  ns_admission_dropped :: u64

definition notification_stats_default :: notification_stats where
  "notification_stats_default = \<lparr>ns_enqueued = 0, ns_queue_full = 0, ns_queue_closed = 0, ns_published = 0, ns_publish_errors = 0,
     ns_request_errors = 0, ns_observer_panicked = 0, ns_worker_panicked = 0, ns_admission_accepted = 0,
     ns_admission_partially_accepted = 0, ns_admission_none_accepted = 0, ns_admission_no_destinations = 0,
     ns_admission_opaque_accepted = 0, ns_admission_dropped = 0\<rparr>"

definition increment :: "u64 \<Rightarrow> u64" where
  "increment n = saturating_add n 1"

fun record_admission :: "admission_outcome \<Rightarrow> notification_stats \<Rightarrow> notification_stats" where
  "record_admission (OutcomeAccepted _) s = s\<lparr>ns_admission_accepted := increment (ns_admission_accepted s)\<rparr>"
| "record_admission (PartiallyAccepted _) s = s\<lparr>ns_admission_partially_accepted := increment (ns_admission_partially_accepted s)\<rparr>"
| "record_admission (NoneAccepted _) s = s\<lparr>ns_admission_none_accepted := increment (ns_admission_none_accepted s)\<rparr>"
| "record_admission NoDestinations s = s\<lparr>ns_admission_no_destinations := increment (ns_admission_no_destinations s)\<rparr>"
| "record_admission OpaqueAccepted s = s\<lparr>ns_admission_opaque_accepted := increment (ns_admission_opaque_accepted s)\<rparr>"
| "record_admission Dropped s = s\<lparr>ns_admission_dropped := increment (ns_admission_dropped s)\<rparr>"

section \<open>State\<close>

datatype worker_exit = Drained | Panicked

datatype notification_outcome = Published publish_receipt | PublishFailed string | RequestFailed string

datatype 'a try_publish_error = FullError 'a | ClosedError 'a

type_synonym 'a queued_notification = "'a \<times> usize option"

text \<open>Where the submitter that holds the sender's mutex is.\<close>

datatype 'a submission = NoSubmission | Holding "'a queued_notification" | Sent

record 'a notification_publisher =
  np_open :: bool
  np_capacity :: usize
  np_queue :: "'a queued_notification list"
  np_receiver :: bool
  np_current :: "'a queued_notification option"
  np_counted :: bool
  np_budget :: "weight_budget option"
  np_stats :: notification_stats
  np_exit :: "worker_exit option"
  np_stage :: "'a submission"
  np_returning :: "usize list"
  np_accepted :: "'a list"
  np_finished :: "'a list"

definition with_optional_weight_budget :: "usize \<Rightarrow> weight_budget option \<Rightarrow> 'a notification_publisher" where
  "with_optional_weight_budget capacity budget = \<lparr>np_open = True, np_capacity = capacity, np_queue = [], np_receiver = True,
     np_current = None, np_counted = False, np_budget = budget, np_stats = notification_stats_default, np_exit = None,
     np_stage = NoSubmission, np_returning = [], np_accepted = [], np_finished = []\<rparr>"

definition publisher_new :: "usize \<Rightarrow> 'a notification_publisher" where
  "publisher_new capacity = with_optional_weight_budget capacity None"

definition weighted_publisher_new :: "usize \<Rightarrow> usize \<Rightarrow> 'a notification_publisher" where
  "weighted_publisher_new capacity max_outstanding_weight =
     with_optional_weight_budget capacity (Some (weight_budget_new max_outstanding_weight))"

text \<open>Dropping the reservation of an entry; only a publisher with a budget has made one.\<close>

definition drop_reservation :: "usize option \<Rightarrow> 'a notification_publisher \<Rightarrow> 'a notification_publisher option" where
  "drop_reservation reservation p = (case (reservation, np_budget p) of
       (Some weight, Some b) \<Rightarrow> map_option (\<lambda>b'. p\<lparr>np_budget := Some b'\<rparr>) (weight_release b weight)
     | _ \<Rightarrow> Some p)"

section \<open>Submitting\<close>

definition count_full :: "'a notification_publisher \<Rightarrow> 'a notification_publisher" where
  "count_full p = p\<lparr>np_stats := (np_stats p)\<lparr>ns_queue_full := increment (ns_queue_full (np_stats p))\<rparr>\<rparr>"

definition count_closed :: "'a notification_publisher \<Rightarrow> 'a notification_publisher" where
  "count_closed p = p\<lparr>np_stats := (np_stats p)\<lparr>ns_queue_closed := increment (ns_queue_closed (np_stats p))\<rparr>\<rparr>"

text \<open>The first section of \<open>try_publish_entry\<close>: up to the reservation. A result ends the call.\<close>

definition submit_begin ::
  "'a \<Rightarrow> usize option \<Rightarrow> 'a notification_publisher \<Rightarrow> 'a notification_publisher \<times> ('a try_publish_error + unit) option" where
  "submit_begin payload weight p =
     (if \<not> np_open p then (count_closed p, Some (Inl (ClosedError payload)))
      else case weight of
          None \<Rightarrow> (p\<lparr>np_stage := Holding (payload, None)\<rparr>, None)
        | Some w \<Rightarrow> (case np_budget p of
            None \<Rightarrow> (count_full p, Some (Inl (FullError payload)))
          | Some b \<Rightarrow> (case weight_reserve b w of
              (b', True) \<Rightarrow> (p\<lparr>np_budget := Some b', np_stage := Holding (payload, Some w)\<rparr>, None)
            | (_, False) \<Rightarrow> (count_full p, Some (Inl (FullError payload))))))"

definition weight_list :: "usize option \<Rightarrow> usize list" where
  "weight_list w = (case w of None \<Rightarrow> [] | Some n \<Rightarrow> [n])"

text \<open>\<open>try_send\<close> on the bounded channel.\<close>

definition submit_send ::
  "'a notification_publisher \<Rightarrow> 'a notification_publisher \<times> ('a try_publish_error + unit) option" where
  "submit_send p = (case np_stage p of
       Holding (payload, w) \<Rightarrow>
         if \<not> np_receiver p
         then ((count_closed p)\<lparr>np_stage := NoSubmission, np_returning := weight_list w @ np_returning p\<rparr>,
               Some (Inl (ClosedError payload)))
         else if unat (np_capacity p) \<le> length (np_queue p)
         then ((count_full p)\<lparr>np_stage := NoSubmission, np_returning := weight_list w @ np_returning p\<rparr>,
               Some (Inl (FullError payload)))
         else (p\<lparr>np_queue := np_queue p @ [(payload, w)], np_stage := Sent, np_accepted := np_accepted p @ [payload]\<rparr>, None)
     | _ \<Rightarrow> (p, None))"

definition submit_count ::
  "'a notification_publisher \<Rightarrow> 'a notification_publisher \<times> ('a try_publish_error + unit) option" where
  "submit_count p = (case np_stage p of
       Sent \<Rightarrow> (p\<lparr>np_stage := NoSubmission, np_stats := (np_stats p)\<lparr>ns_enqueued := increment (ns_enqueued (np_stats p))\<rparr>\<rparr>,
                Some (Inr ()))
     | _ \<Rightarrow> (p, None))"

text \<open>The rejected entry is dropped after the mutex.\<close>

definition return_weight :: "usize \<Rightarrow> 'a notification_publisher \<Rightarrow> 'a notification_publisher option" where
  "return_weight w p =
     (if w \<in> set (np_returning p) then drop_reservation (Some w) (p\<lparr>np_returning := remove1 w (np_returning p)\<rparr>) else Some p)"

text \<open>The whole call when no other thread comes between its sections.\<close>

definition try_publish_entry ::
  "'a \<Rightarrow> usize option \<Rightarrow> 'a notification_publisher \<Rightarrow> ('a notification_publisher \<times> ('a try_publish_error + unit)) option" where
  "try_publish_entry payload weight p = (case submit_begin payload weight p of
       (p1, Some result) \<Rightarrow> Some (p1, result)
     | (p1, None) \<Rightarrow> (case submit_send p1 of
         (p2, Some result) \<Rightarrow>
           map_option (\<lambda>p3. (p3, result)) (case weight of None \<Rightarrow> Some p2 | Some w \<Rightarrow> return_weight w p2)
       | (p2, None) \<Rightarrow> Some (fst (submit_count p2), Inr ())))"

definition try_publish :: "'a \<Rightarrow> 'a notification_publisher \<Rightarrow> ('a notification_publisher \<times> ('a try_publish_error + unit)) option" where
  "try_publish payload p = try_publish_entry payload None p"

definition try_publish_weighted ::
  "'a \<Rightarrow> usize \<Rightarrow> 'a notification_publisher \<Rightarrow> ('a notification_publisher \<times> ('a try_publish_error + unit)) option" where
  "try_publish_weighted payload weight p = try_publish_entry payload (Some weight) p"

section \<open>The worker\<close>

definition worker_recv :: "'a notification_publisher \<Rightarrow> 'a notification_publisher" where
  "worker_recv p = (case np_queue p of
       entry # rest \<Rightarrow> if np_receiver p \<and> np_current p = None then p\<lparr>np_queue := rest, np_current := Some entry\<rparr> else p
     | [] \<Rightarrow> p)"

fun count_outcome :: "notification_outcome \<Rightarrow> notification_stats \<Rightarrow> notification_stats" where
  "count_outcome (Published receipt) s =
     record_admission (ack_admission_outcome (acknowledgement receipt)) (s\<lparr>ns_published := increment (ns_published s)\<rparr>)"
| "count_outcome (PublishFailed _) s = s\<lparr>ns_publish_errors := increment (ns_publish_errors s)\<rparr>"
| "count_outcome (RequestFailed _) s = s\<lparr>ns_request_errors := increment (ns_request_errors s)\<rparr>"

definition worker_result :: "notification_outcome \<Rightarrow> 'a notification_publisher \<Rightarrow> 'a notification_publisher" where
  "worker_result outcome p = (case np_current p of
       Some (payload, _) \<Rightarrow>
         if np_counted p then p
         else p\<lparr>np_counted := True, np_stats := count_outcome outcome (np_stats p), np_finished := np_finished p @ [payload]\<rparr>
     | None \<Rightarrow> p)"

definition worker_observed :: "bool \<Rightarrow> 'a notification_publisher \<Rightarrow> 'a notification_publisher option" where
  "worker_observed panicked p = (case np_current p of
       Some (_, reservation) \<Rightarrow>
         if \<not> np_counted p then Some p
         else let s = np_stats p;
                  s' = (if panicked then s\<lparr>ns_observer_panicked := increment (ns_observer_panicked s)\<rparr> else s)
              in drop_reservation reservation (p\<lparr>np_current := None, np_counted := False, np_stats := s'\<rparr>)
     | None \<Rightarrow> Some p)"

text \<open>\<open>WorkerCompletionGuard::drop\<close>.\<close>

definition publish_exit :: "worker_exit \<Rightarrow> 'a notification_publisher \<Rightarrow> 'a notification_publisher" where
  "publish_exit exit p = (case np_exit p of
       Some _ \<Rightarrow> p
     | None \<Rightarrow> p\<lparr>np_exit := Some exit, np_stats := (if exit = Panicked
         then (np_stats p)\<lparr>ns_worker_panicked := increment (ns_worker_panicked (np_stats p))\<rparr> else np_stats p)\<rparr>)"

text \<open>The channel is empty and its sender is gone: the loop ends and the worker's resources are dropped.\<close>

definition worker_drained :: "'a notification_publisher \<Rightarrow> 'a notification_publisher" where
  "worker_drained p =
     (if np_receiver p \<and> np_current p = None \<and> np_queue p = [] \<and> \<not> np_open p \<and> np_stage p = NoSubmission
      then publish_exit Drained (p\<lparr>np_receiver := False\<rparr>) else p)"

fun drop_entries :: "'a queued_notification list \<Rightarrow> 'a notification_publisher \<Rightarrow> 'a notification_publisher option" where
  "drop_entries [] p = Some p"
| "drop_entries ((_, reservation) # rest) p = Option.bind (drop_reservation reservation p) (drop_entries rest)"

text \<open>A panic outside the observer: unwinding drops the entry in hand, the receiver and all it holds.\<close>

definition worker_unwinds :: "'a notification_publisher \<Rightarrow> 'a notification_publisher option" where
  "worker_unwinds p =
     (if \<not> np_receiver p then Some p
      else map_option (publish_exit Panicked)
        (drop_entries (case np_current p of None \<Rightarrow> np_queue p | Some entry \<Rightarrow> entry # np_queue p)
          (p\<lparr>np_receiver := False, np_current := None, np_counted := False, np_queue := []\<rparr>)))"

section \<open>Closing\<close>

text \<open>Taking the sender waits for the mutex that a submitter holds.\<close>

definition close_admission :: "'a notification_publisher \<Rightarrow> 'a notification_publisher" where
  "close_admission p = (if np_stage p = NoSubmission then p\<lparr>np_open := False\<rparr> else p)"

datatype close_error = FromWorkerThread | CloseTimedOut | WorkerPanicked

datatype close_turn = CloseWaits "duration option" | CloseReturns "close_error + unit"

definition remaining_timeout :: "duration \<Rightarrow> duration \<Rightarrow> close_error + duration" where
  "remaining_timeout limit elapsed = (if elapsed \<le> limit then Inr (limit - elapsed) else Inl CloseTimedOut)"

text \<open>One turn of the wait of \<open>close_inner\<close>, with the time since its start.\<close>

definition close_wait_turn :: "duration option \<Rightarrow> duration \<Rightarrow> 'a notification_publisher \<Rightarrow> close_turn option" where
  "close_wait_turn timeout elapsed p = (case np_exit p of
       Some _ \<Rightarrow> None
     | None \<Rightarrow> Some (case timeout of
         None \<Rightarrow> CloseWaits None
       | Some limit \<Rightarrow> (case remaining_timeout limit elapsed of
           Inl e \<Rightarrow> CloseReturns (Inl e)
         | Inr remaining \<Rightarrow> CloseWaits (Some remaining))))"

text \<open>One turn of \<open>finish_join\<close>; \<open>finished\<close> is the operating system's answer for the worker thread, or true once another
  closer took its handle.\<close>

definition join_turn :: "duration option \<Rightarrow> duration \<Rightarrow> bool \<Rightarrow> close_turn option" where
  "join_turn timeout elapsed finished =
     (if finished then None
      else Some (case timeout of
          None \<Rightarrow> CloseWaits (Some 1000000)
        | Some limit \<Rightarrow> (case remaining_timeout limit elapsed of
            Inl e \<Rightarrow> CloseReturns (Inl e)
          | Inr remaining \<Rightarrow> CloseWaits (Some (min remaining 1000000)))))"

text \<open>One turn of \<open>close_inner\<close> after admission is closed, for a caller that may be the worker itself.\<close>

definition close_inner_turn ::
  "bool \<Rightarrow> duration option \<Rightarrow> duration \<Rightarrow> bool \<Rightarrow> 'a notification_publisher \<Rightarrow> close_turn" where
  "close_inner_turn on_worker timeout elapsed finished p =
     (if on_worker then CloseReturns (Inl FromWorkerThread)
      else case close_wait_turn timeout elapsed p of
          Some turn \<Rightarrow> turn
        | None \<Rightarrow> (case join_turn timeout elapsed finished of
            Some turn \<Rightarrow> turn
          | None \<Rightarrow> CloseReturns (if np_exit p = Some Drained then Inr () else Inl WorkerPanicked)))"

end
