(* ===== verification/Notification_Props.thy ===== *)
theory Notification_Props
  imports Notification "HOL-Library.Multiset"
begin

text \<open>
  The notification publisher over every interleaving of submitters, closers and the worker: nothing accepted is lost,
  duplicated or reordered unless the worker itself panics, the channel and the weight budget stay within their
  limits and are exact, the counters add up, no release panics, and a close succeeds only after everything accepted
  was published.
\<close>

section \<open>Interleavings\<close>

datatype 'a notification_action =
    SubmitBegin 'a "usize option"
  | SubmitSend
  | SubmitCount
  | ReturnWeight usize
  | WorkerRecv
  | WorkerResult notification_outcome
  | WorkerObserved bool
  | WorkerUnwinds
  | WorkerDrained
  | CloseAdmission

fun notification_exec :: "'a notification_publisher \<Rightarrow> 'a notification_action \<Rightarrow> 'a notification_publisher option" where
  "notification_exec p (SubmitBegin payload weight) =
     Some (if np_stage p = NoSubmission then fst (submit_begin payload weight p) else p)"
| "notification_exec p SubmitSend = Some (fst (submit_send p))"
| "notification_exec p SubmitCount = Some (fst (submit_count p))"
| "notification_exec p (ReturnWeight w) = return_weight w p"
| "notification_exec p WorkerRecv = Some (worker_recv p)"
| "notification_exec p (WorkerResult outcome) = Some (worker_result outcome p)"
| "notification_exec p (WorkerObserved panicked) = worker_observed panicked p"
| "notification_exec p WorkerUnwinds = worker_unwinds p"
| "notification_exec p WorkerDrained = Some (worker_drained p)"
| "notification_exec p CloseAdmission = Some (close_admission p)"

definition notification_init :: "'a notification_publisher \<Rightarrow> bool" where
  "notification_init p \<longleftrightarrow> (\<exists>capacity limit. p = publisher_new capacity \<or> p = weighted_publisher_new capacity limit)"

definition notification_step :: "'a notification_publisher \<Rightarrow> 'a notification_action \<Rightarrow> 'a notification_publisher \<Rightarrow> bool" where
  "notification_step p a p' \<longleftrightarrow> notification_exec p a = Some p'"

definition notification_reachable :: "'a notification_publisher \<Rightarrow> bool" where
  "notification_reachable p \<longleftrightarrow> reach notification_init notification_step p"

section \<open>The weights in use\<close>

definition entry_weights :: "'a queued_notification list \<Rightarrow> usize list" where
  "entry_weights es = concat (map (weight_list \<circ> snd) es)"

definition current_entries :: "'a notification_publisher \<Rightarrow> 'a queued_notification list" where
  "current_entries p = (case np_current p of None \<Rightarrow> [] | Some e \<Rightarrow> [e])"

definition stage_entries :: "'a notification_publisher \<Rightarrow> 'a queued_notification list" where
  "stage_entries p = (case np_stage p of Holding e \<Rightarrow> [e] | _ \<Rightarrow> [])"

definition held_weights :: "'a notification_publisher \<Rightarrow> usize list" where
  "held_weights p = np_returning p @ entry_weights (stage_entries p @ current_entries p @ np_queue p)"

definition weights_ok :: "weight_budget option \<Rightarrow> usize list \<Rightarrow> bool" where
  "weights_ok b ws \<longleftrightarrow> (case b of None \<Rightarrow> ws = [] | Some b \<Rightarrow> wb.holds b ws)"

lemma weights_ok_mset: "weights_ok b ws \<Longrightarrow> mset ws = mset ws' \<Longrightarrow> weights_ok b ws'"
proof (cases b)
  case (Some x)
  assume "weights_ok b ws" "mset ws = mset ws'"
  moreover from this(2) have "sum_list (map unat ws) = sum_list (map unat ws')" by (metis mset_map sum_mset_sum_list)
  ultimately show ?thesis using Some by (simp add: weights_ok_def wb.holds_def)
qed (auto simp: weights_ok_def)

lemma drop_ok:
  assumes "weights_ok (np_budget p) (weight_list r @ ws)"
  shows "\<exists>b. drop_reservation r p = Some (p\<lparr>np_budget := b\<rparr>) \<and> weights_ok b ws"
proof (cases r)
  case None
  then show ?thesis using assms by (auto simp: drop_reservation_def weight_list_def intro: exI [of _ "np_budget p"])
next
  case (Some w)
  then obtain b where b: "np_budget p = Some b" "wb.holds b (w # ws)" using assms by (auto simp: weights_ok_def weight_list_def split: option.splits)
  obtain b' where "weight_release b w = Some b'" "wb.holds b' ws" using wb.holds_release [OF b(2), of w] by auto
  then show ?thesis using Some b(1) by (auto simp: drop_reservation_def weights_ok_def intro: exI [of _ "Some b'"])
qed

lemma entry_weights_simps [simp]:
  "entry_weights [] = []" "entry_weights (e # es) = weight_list (snd e) @ entry_weights es"
  "entry_weights (es @ fs) = entry_weights es @ entry_weights fs"
  by (simp_all add: entry_weights_def)

lemma drop_entries_ok:
  "weights_ok (np_budget p) (entry_weights es @ ws) \<Longrightarrow> \<exists>b. drop_entries es p = Some (p\<lparr>np_budget := b\<rparr>) \<and> weights_ok b ws"
proof (induction es arbitrary: p)
  case Nil
  then show ?case by (intro exI [of _ "np_budget p"]) simp
next
  case (Cons e es)
  obtain x r where e: "e = (x, r)" by fastforce
  obtain b where b: "drop_reservation r p = Some (p\<lparr>np_budget := b\<rparr>)" "weights_ok b (entry_weights es @ ws)"
    using drop_ok [of p r "entry_weights es @ ws"] Cons.prems e by auto
  then show ?case using Cons.IH [of "p\<lparr>np_budget := b\<rparr>"] e by auto
qed

section \<open>The invariant\<close>

definition weights_inv :: "'a notification_publisher \<Rightarrow> bool" where
  "weights_inv p \<longleftrightarrow> weights_ok (np_budget p) (held_weights p) \<and> length (np_queue p) \<le> unat (np_capacity p)"

definition pending :: "'a notification_publisher \<Rightarrow> 'a list" where
  "pending p = (if np_counted p then [] else map fst (current_entries p))"

definition flow_inv :: "'a notification_publisher \<Rightarrow> bool" where
  "flow_inv p \<longleftrightarrow> (np_counted p \<longrightarrow> np_current p \<noteq> None) \<and> (\<not> np_open p \<longrightarrow> np_stage p = NoSubmission) \<and>
     (np_receiver p \<longleftrightarrow> np_exit p = None) \<and>
     (np_receiver p \<longrightarrow> np_accepted p = np_finished p @ pending p @ map fst (np_queue p)) \<and>
     (\<not> np_receiver p \<longrightarrow> np_queue p = [] \<and> np_current p = None \<and>
       take (length (np_finished p)) (np_accepted p) = np_finished p) \<and>
     (np_exit p = Some Drained \<longrightarrow> \<not> np_open p \<and> np_accepted p = np_finished p)"

definition sent_count :: "'a notification_publisher \<Rightarrow> nat" where
  "sent_count p = (case np_stage p of Sent \<Rightarrow> 1 | _ \<Rightarrow> 0)"

definition outcome_total :: "notification_stats \<Rightarrow> nat" where
  "outcome_total s = unat (ns_published s) + unat (ns_publish_errors s) + unat (ns_request_errors s)"

definition count_inv :: "'a notification_publisher \<Rightarrow> bool" where
  "count_inv p \<longleftrightarrow> sent_count p \<le> length (np_accepted p) \<and>
     unat (ns_enqueued (np_stats p)) = min (2 ^ 64 - 1) (length (np_accepted p) - sent_count p) \<and>
     (length (np_finished p) < 2 ^ 64 \<longrightarrow> outcome_total (np_stats p) = length (np_finished p))"

definition notification_inv :: "'a notification_publisher \<Rightarrow> bool" where
  "notification_inv p \<longleftrightarrow> weights_inv p \<and> flow_inv p \<and> count_inv p"

lemmas exec_defs = submit_begin_def submit_send_def submit_count_def worker_recv_def worker_result_def worker_observed_def
  worker_drained_def close_admission_def count_full_def count_closed_def publish_exit_def Let_def

lemma drop_reservation_frame:
  "drop_reservation r p = Some p' \<Longrightarrow> \<exists>b. p' = p\<lparr>np_budget := b\<rparr>"
  by (auto simp: drop_reservation_def split: option.splits intro: exI [of _ "np_budget p"])

lemma drop_entries_frame: "drop_entries es p = Some p' \<Longrightarrow> \<exists>b. p' = p\<lparr>np_budget := b\<rparr>"
proof (induction es arbitrary: p)
  case Nil
  then show ?case by (intro exI [of _ "np_budget p"]) simp
next
  case (Cons e es)
  obtain x r where e: "e = (x, r)" by fastforce
  then obtain p1 where p1: "drop_reservation r p = Some p1" "drop_entries es p1 = Some p'" using Cons.prems by (auto simp: bind_eq_Some_conv)
  then show ?case using drop_reservation_frame [OF p1(1)] Cons.IH [OF p1(2)] by auto
qed

text \<open>The steps that drop reservations change nothing else but what they say.\<close>

lemma return_weight_frame: "return_weight w p = Some p' \<Longrightarrow> \<exists>b rs. p' = p\<lparr>np_returning := rs, np_budget := b\<rparr>"
proof (cases "w \<in> set (np_returning p)")
  case True
  assume "return_weight w p = Some p'"
  then show ?thesis using True by (auto simp: return_weight_def dest!: drop_reservation_frame)
next
  case False
  assume "return_weight w p = Some p'"
  then have "p' = p\<lparr>np_returning := np_returning p, np_budget := np_budget p\<rparr>" using False by (simp add: return_weight_def)
  then show ?thesis by blast
qed

lemma observed_cases:
  assumes "worker_observed panicked p = Some p'"
  shows "p' = p \<or> (\<exists>b s x r. np_current p = Some (x, r) \<and> np_counted p \<and>
    p' = p\<lparr>np_current := None, np_counted := False, np_stats := s, np_budget := b\<rparr> \<and>
    ns_enqueued s = ns_enqueued (np_stats p) \<and> outcome_total s = outcome_total (np_stats p))"
proof (cases "\<exists>x r. np_current p = Some (x, r) \<and> np_counted p")
  case True
  then obtain x r where c: "np_current p = Some (x, r)" "np_counted p" by blast
  define s where "s = (if panicked then (np_stats p)\<lparr>ns_observer_panicked := increment (ns_observer_panicked (np_stats p))\<rparr> else np_stats p)"
  obtain b where "p' = p\<lparr>np_current := None, np_counted := False, np_stats := s, np_budget := b\<rparr>"
    using assms c by (auto simp: worker_observed_def Let_def s_def dest!: drop_reservation_frame)
  moreover have "ns_enqueued s = ns_enqueued (np_stats p)" "outcome_total s = outcome_total (np_stats p)" by (simp_all add: s_def outcome_total_def)
  ultimately show ?thesis using c by blast
qed (use assms in \<open>auto simp: worker_observed_def split: option.splits if_splits\<close>)

lemma unwinds_cases:
  assumes "worker_unwinds p = Some p'"
  shows "p' = p \<or> (\<exists>b. np_receiver p \<and> p' = publish_exit Panicked
    (p\<lparr>np_receiver := False, np_current := None, np_counted := False, np_queue := [], np_budget := b\<rparr>))"
  using assms by (auto simp: worker_unwinds_def split: if_splits dest!: drop_entries_frame)

lemma recv_cases:
  "worker_recv p = p \<or> (\<exists>e rest. np_queue p = e # rest \<and> np_receiver p \<and> np_current p = None \<and>
    worker_recv p = p\<lparr>np_queue := rest, np_current := Some e\<rparr>)"
  by (cases "np_queue p") (simp_all add: worker_recv_def)

lemma result_cases:
  "worker_result r p = p \<or> (\<exists>x w. np_current p = Some (x, w) \<and> \<not> np_counted p \<and>
    worker_result r p = p\<lparr>np_counted := True, np_stats := count_outcome r (np_stats p), np_finished := np_finished p @ [x]\<rparr>)"
  by (cases "np_current p") (auto simp: worker_result_def)

lemma drained_cases:
  "worker_drained p = p \<or> np_receiver p \<and> np_current p = None \<and> np_queue p = [] \<and> \<not> np_open p \<and>
    worker_drained p = publish_exit Drained (p\<lparr>np_receiver := False\<rparr>)"
  by (simp add: worker_drained_def)

lemma begin_cases:
  obtains (refused) s where "fst (submit_begin x w p) = p\<lparr>np_stats := s\<rparr>" "ns_enqueued s = ns_enqueued (np_stats p)"
      "outcome_total s = outcome_total (np_stats p)"
  | (plain) "fst (submit_begin x w p) = p\<lparr>np_stage := Holding (x, None)\<rparr>" "np_open p" "w = None"
  | (charged) b b' n where "fst (submit_begin x w p) = p\<lparr>np_budget := Some b', np_stage := Holding (x, Some n)\<rparr>" "np_open p"
      "w = Some n" "np_budget p = Some b" "weight_reserve b n = (b', True)"
proof -
  have closed: "count_closed p = p\<lparr>np_stats := np_stats (count_closed p)\<rparr>" "ns_enqueued (np_stats (count_closed p)) = ns_enqueued (np_stats p)"
    "outcome_total (np_stats (count_closed p)) = outcome_total (np_stats p)" by (simp_all add: count_closed_def outcome_total_def)
  have full: "count_full p = p\<lparr>np_stats := np_stats (count_full p)\<rparr>" "ns_enqueued (np_stats (count_full p)) = ns_enqueued (np_stats p)"
    "outcome_total (np_stats (count_full p)) = outcome_total (np_stats p)" by (simp_all add: count_full_def outcome_total_def)
  consider "fst (submit_begin x w p) = count_closed p" | "fst (submit_begin x w p) = count_full p"
    | "np_open p" "w = None" | b n b' where "np_open p" "w = Some n" "np_budget p = Some b" "weight_reserve b n = (b', True)"
  proof (cases "np_open p"; cases w; cases "np_budget p")
    fix n b assume some: "np_open p" "w = Some n" "np_budget p = Some b"
    obtain b' ok where r: "weight_reserve b n = (b', ok)" by fastforce
    show thesis by (cases ok) (use some r that in \<open>simp_all add: submit_begin_def\<close>)
  qed (auto simp: submit_begin_def)
  then show thesis
  proof cases
    case 1
    then show ?thesis using refused closed by metis
  next
    case 2
    then show ?thesis using refused full by metis
  next
    case 3
    then show ?thesis using plain by (simp add: submit_begin_def)
  next
    case 4
    then show ?thesis using charged by (simp add: submit_begin_def)
  qed
qed

lemma send_cases:
  obtains (idle) "fst (submit_send p) = p"
  | (refused) x w s where "np_stage p = Holding (x, w)" "ns_enqueued s = ns_enqueued (np_stats p)" "outcome_total s = outcome_total (np_stats p)"
      "fst (submit_send p) = p\<lparr>np_stats := s, np_stage := NoSubmission, np_returning := weight_list w @ np_returning p\<rparr>"
  | (accepted) x w where "np_stage p = Holding (x, w)" "np_receiver p" "length (np_queue p) < unat (np_capacity p)"
      "fst (submit_send p) = p\<lparr>np_queue := np_queue p @ [(x, w)], np_stage := Sent, np_accepted := np_accepted p @ [x]\<rparr>"
proof (cases "np_stage p")
  case (Holding e)
  obtain x w where e: "e = (x, w)" by fastforce
  consider "\<not> np_receiver p" | "np_receiver p" "unat (np_capacity p) \<le> length (np_queue p)"
    | "np_receiver p" "length (np_queue p) < unat (np_capacity p)" by linarith
  then show thesis
  proof cases
    case 1
    then show ?thesis
      using Holding e refused [of x w "np_stats (count_closed p)"] by (simp add: submit_send_def count_closed_def outcome_total_def)
  next
    case 2
    then show ?thesis
      using Holding e refused [of x w "np_stats (count_full p)"] by (simp add: submit_send_def count_full_def outcome_total_def)
  next
    case 3
    then show ?thesis using Holding e accepted [of x w] by (simp add: submit_send_def)
  qed
qed (use idle in \<open>simp_all add: submit_send_def\<close>)

lemmas flow_defs = flow_inv_def pending_def current_entries_def

lemma flow_frame [simp]:
  "flow_inv (p\<lparr>np_stats := s\<rparr>) = flow_inv p" "flow_inv (p\<lparr>np_budget := b\<rparr>) = flow_inv p" "flow_inv (p\<lparr>np_returning := ws\<rparr>) = flow_inv p"
  by (simp_all add: flow_inv_def pending_def current_entries_def)

lemma charged_update: "p\<lparr>np_budget := b, np_stage := e\<rparr> = p\<lparr>np_stage := e\<rparr>\<lparr>np_budget := b\<rparr>"
  by simp

lemma flow_stage: "flow_inv p \<Longrightarrow> np_open p \<or> stage = NoSubmission \<Longrightarrow> flow_inv (p\<lparr>np_stage := stage\<rparr>)"
  by (auto simp: flow_inv_def pending_def current_entries_def)

lemma flow_step:
  assumes inv: "flow_inv p" and run: "notification_exec p a = Some p'"
  shows "flow_inv p'"
proof (cases a)
  case (SubmitBegin x w)
  show ?thesis
  proof (cases "np_stage p = NoSubmission")
    case True
    then have p': "p' = fst (submit_begin x w p)" using SubmitBegin run by simp
    show ?thesis by (rule begin_cases [of x w p]) (use p' inv in \<open>auto intro!: flow_stage simp: charged_update\<close>)
  qed (use SubmitBegin run inv in auto)
next
  case SubmitSend
  then have p': "p' = fst (submit_send p)" using run by simp
  show ?thesis
  proof (rule send_cases [of p])
    fix x w assume st: "np_stage p = Holding (x, w)" "np_receiver p" and "length (np_queue p) < unat (np_capacity p)"
      "fst (submit_send p) = p\<lparr>np_queue := np_queue p @ [(x, w)], np_stage := Sent, np_accepted := np_accepted p @ [x]\<rparr>"
    then show ?thesis using p' inv by (auto simp: flow_inv_def pending_def current_entries_def)
  qed (use p' inv in \<open>auto intro!: flow_stage\<close>)
next
  case SubmitCount
  then show ?thesis using run inv by (auto simp: submit_count_def intro!: flow_stage split: submission.splits)
next
  case (ReturnWeight w)
  then show ?thesis using assms by (auto dest!: return_weight_frame)
next
  case WorkerRecv
  then have p': "p' = worker_recv p" using run by simp
  from recv_cases [of p] show ?thesis
  proof (elim disjE exE conjE)
    fix e rest assume c: "np_queue p = e # rest" "np_receiver p" "np_current p = None" "worker_recv p = p\<lparr>np_queue := rest, np_current := Some e\<rparr>"
    show ?thesis unfolding p' c(4) using inv c(1-3) by (auto simp: flow_defs)
  qed (simp add: p' inv)
next
  case (WorkerResult r)
  then have p': "p' = worker_result r p" using run by simp
  from result_cases [of r p] show ?thesis
  proof (elim disjE exE conjE)
    fix x w assume c: "np_current p = Some (x, w)" "\<not> np_counted p"
      "worker_result r p = p\<lparr>np_counted := True, np_stats := count_outcome r (np_stats p), np_finished := np_finished p @ [x]\<rparr>"
    show ?thesis unfolding p' c(3) using inv c(1,2) by (auto simp: flow_defs)
  qed (simp add: p' inv)
next
  case (WorkerObserved b)
  then have "worker_observed b p = Some p'" using run by simp
  from observed_cases [OF this] show ?thesis
  proof (elim disjE exE conjE)
    fix b s x r assume c: "np_current p = Some (x, r)" "np_counted p"
      "p' = p\<lparr>np_current := None, np_counted := False, np_stats := s, np_budget := b\<rparr>"
    show ?thesis unfolding c(3) using inv c(1,2) by (auto simp: flow_defs)
  qed (simp_all add: inv)
next
  case WorkerUnwinds
  then have "worker_unwinds p = Some p'" using run by simp
  from unwinds_cases [OF this] show ?thesis
  proof (elim disjE exE conjE)
    fix b assume c: "np_receiver p"
      "p' = publish_exit Panicked (p\<lparr>np_receiver := False, np_current := None, np_counted := False, np_queue := [], np_budget := b\<rparr>)"
    show ?thesis unfolding c(2) using inv c(1) by (auto simp: flow_defs publish_exit_def)
  qed (simp_all add: inv)
next
  case WorkerDrained
  then have p': "p' = worker_drained p" using run by simp
  from drained_cases [of p] show ?thesis
  proof (elim disjE exE conjE)
    assume c: "np_receiver p" "np_current p = None" "np_queue p = []" "\<not> np_open p"
      "worker_drained p = publish_exit Drained (p\<lparr>np_receiver := False\<rparr>)"
    show ?thesis unfolding p' c(5) using inv c(1-4) by (auto simp: flow_defs publish_exit_def)
  qed (simp add: p' inv)
next
  case CloseAdmission
  then show ?thesis using inv run by (auto simp: close_admission_def flow_defs split: if_splits)
qed

lemmas weight_defs = weights_inv_def held_weights_def stage_entries_def current_entries_def

lemma weights_frame [simp]: "weights_inv (p\<lparr>np_stats := s\<rparr>) = weights_inv p" "weights_inv (p\<lparr>np_open := b\<rparr>) = weights_inv p"
  by (simp_all add: weight_defs)

lemma weights_exit [simp]: "weights_inv (publish_exit e p) = weights_inv p"
  by (cases "np_exit p") (simp_all add: publish_exit_def weight_defs)

lemma begin_weights:
  assumes inv: "weights_inv p" and idle: "np_stage p = NoSubmission"
  shows "weights_inv (fst (submit_begin x w p))"
proof (rule begin_cases [of x w p])
  fix b b' n assume c: "fst (submit_begin x w p) = p\<lparr>np_budget := Some b', np_stage := Holding (x, Some n)\<rparr>"
    and b: "np_budget p = Some b" "weight_reserve b n = (b', True)"
  have "wb.holds b (held_weights p)" using inv b by (simp add: weights_inv_def weights_ok_def)
  then have "wb.holds b' (n # held_weights p)" using wb.holds_reserve [OF _ b(2)] by simp
  then have "weights_ok (Some b') (n # held_weights p)" by (simp add: weights_ok_def)
  then have "weights_ok (Some b') (held_weights (p\<lparr>np_budget := Some b', np_stage := Holding (x, Some n)\<rparr>))"
    by (rule weights_ok_mset) (simp add: held_weights_def stage_entries_def current_entries_def idle weight_list_def)
  then show ?thesis using inv by (simp add: c weights_inv_def)
qed (use inv idle in \<open>auto simp: weight_defs weight_list_def\<close>)

lemma send_weights:
  assumes inv: "weights_inv p"
  shows "weights_inv (fst (submit_send p))"
proof (rule send_cases [of p])
  fix x w s assume h: "np_stage p = Holding (x, w)"
    and c: "fst (submit_send p) = p\<lparr>np_stats := s, np_stage := NoSubmission, np_returning := weight_list w @ np_returning p\<rparr>"
  have "weights_ok (np_budget p) (held_weights p)" using inv by (simp add: weights_inv_def)
  then have "weights_ok (np_budget p) (held_weights (fst (submit_send p)))"
    by (rule weights_ok_mset) (simp add: c held_weights_def stage_entries_def current_entries_def h)
  then show ?thesis using inv by (simp add: c weights_inv_def)
next
  fix x w assume h: "np_stage p = Holding (x, w)" "length (np_queue p) < unat (np_capacity p)"
    and c: "fst (submit_send p) = p\<lparr>np_queue := np_queue p @ [(x, w)], np_stage := Sent, np_accepted := np_accepted p @ [x]\<rparr>"
  have "weights_ok (np_budget p) (held_weights p)" using inv by (simp add: weights_inv_def)
  then have "weights_ok (np_budget p) (held_weights (fst (submit_send p)))"
    by (rule weights_ok_mset) (simp add: c held_weights_def stage_entries_def current_entries_def h)
  then show ?thesis using h by (simp add: c weights_inv_def)
qed (use inv in simp)

lemma return_weight_ok:
  assumes inv: "weights_inv p"
  shows "\<exists>p'. return_weight w p = Some p' \<and> weights_inv p'"
proof (cases "w \<in> set (np_returning p)")
  case True
  let ?q = "p\<lparr>np_returning := remove1 w (np_returning p)\<rparr>"
  have "weights_ok (np_budget p) (held_weights p)" using inv by (simp add: weights_inv_def)
  then have "weights_ok (np_budget p) (weight_list (Some w) @ held_weights ?q)"
    by (rule weights_ok_mset) (simp add: held_weights_def stage_entries_def current_entries_def weight_list_def True)
  then obtain b where "drop_reservation (Some w) ?q = Some (?q\<lparr>np_budget := b\<rparr>)" "weights_ok b (held_weights ?q)"
    using drop_ok [of ?q "Some w" "held_weights ?q"] by auto
  then show ?thesis using True inv by (simp add: return_weight_def weight_defs)
qed (use inv in \<open>simp add: return_weight_def\<close>)

lemma observed_ok:
  assumes inv: "weights_inv p"
  shows "\<exists>p'. worker_observed panicked p = Some p' \<and> weights_inv p'"
proof (cases "\<exists>e. np_current p = Some e \<and> np_counted p")
  case True
  then obtain x r where c: "np_current p = Some (x, r)" "np_counted p" by auto
  define s where "s = (if panicked then (np_stats p)\<lparr>ns_observer_panicked := increment (ns_observer_panicked (np_stats p))\<rparr> else np_stats p)"
  let ?q = "p\<lparr>np_current := None, np_counted := False, np_stats := s\<rparr>"
  have "weights_ok (np_budget p) (held_weights p)" using inv by (simp add: weights_inv_def)
  then have "weights_ok (np_budget p) (weight_list r @ held_weights ?q)"
    by (rule weights_ok_mset) (simp add: held_weights_def stage_entries_def current_entries_def c)
  then obtain b where "drop_reservation r ?q = Some (?q\<lparr>np_budget := b\<rparr>)" "weights_ok b (held_weights ?q)"
    using drop_ok [of ?q r "held_weights ?q"] by auto
  then show ?thesis using c inv by (simp add: worker_observed_def Let_def s_def [symmetric] weight_defs)
qed (use inv in \<open>auto simp: worker_observed_def split: option.splits\<close>)

lemma unwinds_ok:
  assumes inv: "weights_inv p"
  shows "\<exists>p'. worker_unwinds p = Some p' \<and> weights_inv p'"
proof (cases "np_receiver p")
  case True
  let ?es = "current_entries p @ np_queue p"
  let ?q = "p\<lparr>np_receiver := False, np_current := None, np_counted := False, np_queue := []\<rparr>"
  have "weights_ok (np_budget p) (held_weights p)" using inv by (simp add: weights_inv_def)
  then have "weights_ok (np_budget p) (entry_weights ?es @ held_weights ?q)"
    by (rule weights_ok_mset) (simp add: held_weights_def stage_entries_def current_entries_def)
  then obtain b where "drop_entries ?es ?q = Some (?q\<lparr>np_budget := b\<rparr>)" "weights_ok b (held_weights ?q)"
    using drop_entries_ok [of ?q ?es "held_weights ?q"] by auto
  moreover have "?es = (case np_current p of None \<Rightarrow> np_queue p | Some entry \<Rightarrow> entry # np_queue p)"
    by (simp add: current_entries_def split: option.splits)
  ultimately have "worker_unwinds p = Some (publish_exit Panicked (?q\<lparr>np_budget := b\<rparr>))" "weights_inv (?q\<lparr>np_budget := b\<rparr>)"
    using True inv by (simp_all add: worker_unwinds_def weight_defs)
  then show ?thesis by simp
qed (use inv in \<open>simp add: worker_unwinds_def\<close>)

lemma recv_weights:
  assumes inv: "weights_inv p"
  shows "weights_inv (worker_recv p)"
  using recv_cases [of p]
proof (elim disjE exE conjE)
  fix e rest assume c: "np_queue p = e # rest" "np_current p = None" "worker_recv p = p\<lparr>np_queue := rest, np_current := Some e\<rparr>"
  show ?thesis unfolding c(3) using inv c(1,2) by (simp add: weight_defs)
qed (simp add: inv)

lemma weights_step:
  assumes inv: "weights_inv p"
  shows "\<exists>p'. notification_exec p a = Some p' \<and> weights_inv p'"
proof (cases a)
  case (SubmitBegin x w)
  then show ?thesis using inv begin_weights by auto
next
  case SubmitCount
  then show ?thesis using inv by (auto simp: submit_count_def weight_defs split: submission.splits)
next
  case (WorkerResult r)
  then show ?thesis using inv by (auto simp: worker_result_def weight_defs split: option.splits)
next
  case WorkerDrained
  then show ?thesis using inv by (auto simp: worker_drained_def) (simp add: weight_defs)
qed (use inv in \<open>auto simp: send_weights return_weight_ok observed_ok unwinds_ok recv_weights close_admission_def\<close>)

section \<open>The counters\<close>

lemma increment_unat: "unat (increment n) = min (2 ^ 64 - 1) (unat n + 1)"
  by (simp add: increment_def word_arith)

lemma record_admission_total [simp]:
  "outcome_total (record_admission out s) = outcome_total s" "ns_enqueued (record_admission out s) = ns_enqueued s"
  by (cases out; simp add: outcome_total_def)+

lemma count_outcome_enqueued [simp]: "ns_enqueued (count_outcome r s) = ns_enqueued s"
  by (cases r) simp_all

lemma count_outcome_total: "outcome_total s + 1 < 2 ^ 64 \<Longrightarrow> outcome_total (count_outcome r s) = outcome_total s + 1"
  by (cases r) (simp_all, simp_all add: outcome_total_def increment_unat)

lemmas count_defs = count_inv_def sent_count_def

lemma count_exit [simp]:
  "ns_enqueued (np_stats (publish_exit e p)) = ns_enqueued (np_stats p)"
  "outcome_total (np_stats (publish_exit e p)) = outcome_total (np_stats p)"
  "np_accepted (publish_exit e p) = np_accepted p" "np_finished (publish_exit e p) = np_finished p"
  "np_stage (publish_exit e p) = np_stage p"
  by (simp_all add: publish_exit_def outcome_total_def split: option.splits)

lemma count_result:
  assumes inv: "count_inv p"
  shows "count_inv (worker_result r p)"
  using result_cases [of r p]
proof (elim disjE exE conjE)
  fix x w assume c: "worker_result r p = p\<lparr>np_counted := True, np_stats := count_outcome r (np_stats p), np_finished := np_finished p @ [x]\<rparr>"
  show ?thesis unfolding c using inv by (auto simp: count_defs count_outcome_total)
qed (simp add: inv)

lemma count_step:
  assumes inv: "count_inv p" and run: "notification_exec p a = Some p'"
  shows "count_inv p'"
proof (cases a)
  case (SubmitBegin x w)
  show ?thesis
  proof (cases "np_stage p = NoSubmission")
    case True
    then have p': "p' = fst (submit_begin x w p)" using SubmitBegin run by simp
    show ?thesis by (rule begin_cases [of x w p]) (use p' inv True in \<open>simp_all add: count_defs\<close>)
  qed (use SubmitBegin run inv in auto)
next
  case SubmitSend
  then have p': "p' = fst (submit_send p)" using run by simp
  show ?thesis by (rule send_cases [of p]) (use p' inv in \<open>simp_all add: count_defs\<close>)
next
  case SubmitCount
  then show ?thesis using run inv
    by (cases "np_stage p") (auto simp: submit_count_def count_defs increment_unat outcome_total_def)
next
  case (ReturnWeight w)
  then show ?thesis using assms by (auto simp: count_defs dest!: return_weight_frame)
next
  case WorkerRecv
  then have "p' = worker_recv p" using run by simp
  with recv_cases [of p] inv show ?thesis by (elim disjE exE conjE) (simp_all add: count_defs)
next
  case (WorkerResult r)
  then show ?thesis using run count_result [OF inv] by auto
next
  case (WorkerObserved b)
  then have "worker_observed b p = Some p'" using run by simp
  from observed_cases [OF this] inv show ?thesis by (elim disjE exE conjE) (simp_all add: count_defs)
next
  case WorkerUnwinds
  then have "worker_unwinds p = Some p'" using run by simp
  from unwinds_cases [OF this] inv show ?thesis by (elim disjE exE conjE) (simp_all add: count_defs)
next
  case WorkerDrained
  then have "p' = worker_drained p" using run by simp
  with drained_cases [of p] inv show ?thesis by (elim disjE exE conjE) (simp_all add: count_defs)
next
  case CloseAdmission
  then show ?thesis using assms by (auto simp: close_admission_def count_defs split: if_splits)
qed

section \<open>Reachable states\<close>

lemma notification_inv_init: "notification_init p \<Longrightarrow> notification_inv p"
  by (auto simp: notification_init_def notification_inv_def publisher_new_def weighted_publisher_new_def
    with_optional_weight_budget_def weights_ok_def wb.holds_def weight_budget_new_def notification_stats_default_def
    weight_defs flow_defs count_defs outcome_total_def)

interpretation ntf: transition_invariant notification_init notification_step notification_inv
proof unfold_locales
  fix p :: "'a notification_publisher" and a p'
  assume inv: "notification_inv p" and "notification_step p a p'"
  then have run: "notification_exec p a = Some p'" by (simp add: notification_step_def)
  then have "weights_inv p'" using weights_step [of p a] inv by (auto simp: notification_inv_def)
  then show "notification_inv p'" using inv run flow_step [OF _ run] count_step [OF _ run] by (auto simp: notification_inv_def)
qed (rule notification_inv_init)

lemma close_means_drained:
  "close_inner_turn on_worker timeout elapsed finished p = CloseReturns (Inr ()) \<Longrightarrow> np_exit p = Some Drained"
  by (auto simp: close_inner_turn_def close_wait_turn_def join_turn_def remaining_timeout_def split: if_splits option.splits)

fun notification_run :: "'a notification_publisher \<Rightarrow> 'a notification_action list \<Rightarrow> 'a notification_publisher option" where
  "notification_run p [] = Some p"
| "notification_run p (a # as) = Option.bind (notification_exec p a) (\<lambda>p'. notification_run p' as)"

lemma run_reachable: "notification_reachable p \<Longrightarrow> notification_run p as = Some p' \<Longrightarrow> notification_reachable p'"
proof (induction as arbitrary: p)
  case (Cons a as)
  then obtain p1 where p1: "notification_exec p a = Some p1" "notification_run p1 as = Some p'" by (auto simp: bind_eq_Some_conv)
  then have "notification_reachable p1"
    using Cons.prems(1) by (auto simp: notification_reachable_def notification_step_def intro: reach.intros)
  then show ?case using Cons.IH p1(2) by blast
qed simp



text \<open>A run with a full budget, an observer that panics and a close: the first payload is published, the second is refused.\<close>

definition demo_notification :: "nat notification_publisher" where
  "demo_notification = the (notification_run (weighted_publisher_new 2 10)
     [SubmitBegin 1 (Some 7), SubmitSend, SubmitBegin 2 (Some 4), SubmitCount, SubmitBegin 2 (Some 4), CloseAdmission,
      WorkerRecv, WorkerResult (RequestFailed ''bad''), WorkerObserved True, WorkerDrained])"

lemma demo_notification_runs: "notification_reachable demo_notification"
proof -
  have "notification_reachable (weighted_publisher_new 2 10 :: nat notification_publisher)"
    unfolding notification_reachable_def by (rule reach.intros(1)) (auto simp: notification_init_def)
  moreover have "notification_run (weighted_publisher_new 2 10 :: nat notification_publisher)
     [SubmitBegin 1 (Some 7), SubmitSend, SubmitBegin 2 (Some 4), SubmitCount, SubmitBegin 2 (Some 4), CloseAdmission,
      WorkerRecv, WorkerResult (RequestFailed ''bad''), WorkerObserved True, WorkerDrained] = Some demo_notification"
    unfolding demo_notification_def by code_simp
  ultimately show ?thesis by (rule run_reachable)
qed



end
