(* ===== verification/Validated_Text.thy ===== *)
theory Validated_Text
  imports Prelude
begin

text \<open>
  The validation of names, \<open>src/src/util/validated_text.rs\<close>, on which topics, event identities, subscriber
  identities and ordering keys rest. The code is a \<open>const fn\<close> that decodes the bytes of a \<open>str\<close> by hand; a
  Rust \<open>str\<close> is the UTF-8 encoding of a list of Unicode scalar values. The model keeps the bytes as 8-bit
  words and the decoded code points as 32-bit words; a read beyond the end, which panics, is \<^const>\<open>None\<close>. Indices
  are natural numbers: a slice is shorter than \<open>isize::MAX\<close>, so adding a width of at most four does not wrap.

  The reference is stated on the scalar values themselves: a text is accepted when it is not empty, has no
  control character, and neither starts nor ends with white space.
\<close>

unbundle bit_operations_syntax

type_synonym byte = "8 word"

section \<open>The scanner\<close>

definition byte_at :: "byte list \<Rightarrow> nat \<Rightarrow> byte option" where
  "byte_at bs i = (if i < length bs then Some (bs ! i) else None)"

definition decode_utf8_code_point :: "byte list \<Rightarrow> nat \<Rightarrow> (u32 \<times> nat) option" where
  "decode_utf8_code_point bs index =
     Option.bind (byte_at bs index) (\<lambda>b1.
       if b1 < 0x80 then Some (ucast b1, 1)
       else if b1 < 0xE0 then
         Option.bind (byte_at bs (index + 1)) (\<lambda>b2. Some (push_bit 6 (ucast (b1 AND 0x1F)) OR ucast (b2 AND 0x3F), 2))
       else if b1 < 0xF0 then
         Option.bind (byte_at bs (index + 1)) (\<lambda>b2. Option.bind (byte_at bs (index + 2)) (\<lambda>b3.
           Some (push_bit 12 (ucast (b1 AND 0x0F)) OR push_bit 6 (ucast (b2 AND 0x3F)) OR ucast (b3 AND 0x3F), 3)))
       else
         Option.bind (byte_at bs (index + 1)) (\<lambda>b2. Option.bind (byte_at bs (index + 2)) (\<lambda>b3.
           Option.bind (byte_at bs (index + 3)) (\<lambda>b4.
             Some (push_bit 18 (ucast (b1 AND 0x07)) OR push_bit 12 (ucast (b2 AND 0x3F))
               OR push_bit 6 (ucast (b3 AND 0x3F)) OR ucast (b4 AND 0x3F), 4)))))"

definition is_unicode_whitespace :: "u32 \<Rightarrow> bool" where
  "is_unicode_whitespace c \<longleftrightarrow> 0x0009 \<le> c \<and> c \<le> 0x000D \<or> c = 0x0020 \<or> c = 0x0085 \<or> c = 0x00A0 \<or> c = 0x1680
     \<or> 0x2000 \<le> c \<and> c \<le> 0x200A \<or> c = 0x2028 \<or> c = 0x2029 \<or> c = 0x202F \<or> c = 0x205F \<or> c = 0x3000"

definition is_unicode_control :: "u32 \<Rightarrow> bool" where
  "is_unicode_control c \<longleftrightarrow> c \<le> 0x001F \<or> 0x007F \<le> c \<and> c \<le> 0x009F"

lemma decode_width: "decode_utf8_code_point bs i = Some (c, w) \<Longrightarrow> 0 < w"
  by (auto simp: decode_utf8_code_point_def bind_eq_Some_conv split: if_splits)

text \<open>The loop of \<open>is_nonblank_without_controls\<close>.\<close>

function scan_text :: "byte list \<Rightarrow> nat \<Rightarrow> u32 \<Rightarrow> u32 \<Rightarrow> bool option" where
  "scan_text bs index head tail =
     (if index < length bs then
        case decode_utf8_code_point bs index of
          None \<Rightarrow> None
        | Some (code_point, width) \<Rightarrow>
            if is_unicode_control code_point then Some False
            else scan_text bs (index + width) (if index = 0 then code_point else head) code_point
      else Some (\<not> is_unicode_whitespace head \<and> \<not> is_unicode_whitespace tail))"
  by pat_completeness auto
termination
  by (relation "measure (\<lambda>(bs, index, _). length bs - index)") (auto dest: decode_width)

declare scan_text.simps [simp del]

definition is_nonblank_without_controls :: "byte list \<Rightarrow> bool option" where
  "is_nonblank_without_controls bs = (if bs = [] then Some False else scan_text bs 0 0 0)"

definition is_valid_topic_name :: "byte list \<Rightarrow> bool option" where
  "is_valid_topic_name bs = (if 1 \<le> length bs \<and> length bs \<le> 255 then is_nonblank_without_controls bs else Some False)"

text \<open>\<open>EventId::new\<close>: 1 to 128 bytes of such text.\<close>

definition event_id_ok :: "byte list \<Rightarrow> bool option" where
  "event_id_ok bs = (if 1 \<le> length bs \<and> length bs \<le> 128 then is_nonblank_without_controls bs else Some False)"

section \<open>UTF-8\<close>

definition scalar_value :: "nat \<Rightarrow> bool" where
  "scalar_value c \<longleftrightarrow> c < 0xD800 \<or> 0xE000 \<le> c \<and> c < 0x110000"

definition utf8_encode :: "nat \<Rightarrow> byte list" where
  "utf8_encode c =
     (if c < 0x80 then [of_nat c]
      else if c < 0x800 then [of_nat (0xC0 + c div 64), of_nat (0x80 + c mod 64)]
      else if c < 0x10000 then [of_nat (0xE0 + c div 4096), of_nat (0x80 + c div 64 mod 64), of_nat (0x80 + c mod 64)]
      else [of_nat (0xF0 + c div 262144), of_nat (0x80 + c div 4096 mod 64), of_nat (0x80 + c div 64 mod 64),
            of_nat (0x80 + c mod 64)])"

definition utf8 :: "nat list \<Rightarrow> byte list" where
  "utf8 cs = concat (map utf8_encode cs)"

definition white_space :: "nat \<Rightarrow> bool" where
  "white_space c \<longleftrightarrow> c \<in> {0x9..0xD} \<union> {0x2000..0x200A} \<union> {0x20, 0x85, 0xA0, 0x1680, 0x2028, 0x2029, 0x202F, 0x205F, 0x3000}"

definition control_character :: "nat \<Rightarrow> bool" where
  "control_character c \<longleftrightarrow> c < 0x20 \<or> c \<in> {0x7F..0x9F}"

definition text_accepted :: "nat list \<Rightarrow> bool" where
  "text_accepted cs \<longleftrightarrow> cs \<noteq> [] \<and> (\<forall>c\<in>set cs. \<not> control_character c) \<and> \<not> white_space (hd cs) \<and> \<not> white_space (last cs)"

lemma masks: "(w :: byte) AND 0x1F = take_bit 5 w" "(w :: byte) AND 0x3F = take_bit 6 w" "(w :: byte) AND 0x0F = take_bit 4 w"
  "(w :: byte) AND 0x07 = take_bit 3 w"
  by (simp_all add: take_bit_eq_mask mask_eq_exp_minus_1)

lemma or_push_bit:
  assumes "x < 2 ^ n"
  shows "push_bit n a OR of_nat x = push_bit n a + (of_nat x :: u32)"
proof (rule disjunctive_add [symmetric])
  fix k
  have "take_bit n x = x" using assms by (rule take_bit_nat_eq_self)
  then have "\<not> bit x k" if "n \<le> k" using that by (metis bit_take_bit_iff linorder_not_less)
  then show "\<not> bit (push_bit n a) k \<or> \<not> bit (of_nat x :: u32) k" by (auto simp: bit_push_bit_iff bit_of_nat_iff)
qed

lemma join_bits: "x < 2 ^ n \<Longrightarrow> push_bit n (of_nat a) OR of_nat x = (of_nat (a * 2 ^ n + x) :: u32)"
  by (subst or_push_bit) (simp_all add: push_bit_eq_mult)

lemma ucast_low: "ucast (take_bit n (b :: byte)) = (of_nat (unat b mod 2 ^ n) :: u32)"
  by (metis of_nat_unat take_bit_eq_mod unsigned_take_bit_eq)

lemma byte_at_first: "byte_at (pre @ b # bs) (length pre) = Some b"
  by (simp add: byte_at_def)

lemma byte_at_later:
  "byte_at (pre @ a # b # bs) (Suc (length pre)) = Some b" "byte_at (pre @ a # b # c # bs) (Suc (Suc (length pre))) = Some c"
  "byte_at (pre @ a # b # c # d # bs) (length pre + 3) = Some d"
  by (simp_all add: byte_at_def nth_append)

lemmas decode_simps = decode_utf8_code_point_def byte_at_first byte_at_later masks ucast_low word_less_nat_alt

lemma decode1: "unat b = x \<Longrightarrow> x < 0x80 \<Longrightarrow> decode_utf8_code_point (pre @ b # post) (length pre) = Some (of_nat x, 1)"
  by (auto simp: decode_simps)

lemma decode2:
  assumes "unat b1 = 0xC0 + x" "unat b2 = 0x80 + y" "x < 0x20" "y < 0x40"
  shows "decode_utf8_code_point (pre @ b1 # b2 # post) (length pre) = Some (of_nat (x * 64 + y), 2)"
proof -
  have "(0xC0 + x) mod 2 ^ 5 = x" "(0x80 + y) mod 2 ^ 6 = y" using assms by (simp_all add: mod_if)
  then show ?thesis using assms join_bits [of y 6 x] by (simp add: decode_simps)
qed

lemma decode3:
  assumes "unat b1 = 0xE0 + x" "unat b2 = 0x80 + y" "unat b3 = 0x80 + z" "x < 0x10" "y < 0x40" "z < 0x40"
  shows "decode_utf8_code_point (pre @ b1 # b2 # b3 # post) (length pre) = Some (of_nat (x * 4096 + y * 64 + z), 3)"
proof -
  have "(0xE0 + x) mod 2 ^ 4 = x" "(0x80 + y) mod 2 ^ 6 = y" "(0x80 + z) mod 2 ^ 6 = z" using assms by (simp_all add: mod_if)
  then show ?thesis using assms join_bits [of z 6 y] join_bits [of "y * 64 + z" 12 x] by (simp add: decode_simps)
qed

lemma decode4:
  assumes "unat b1 = 0xF0 + w" "unat b2 = 0x80 + x" "unat b3 = 0x80 + y" "unat b4 = 0x80 + z"
    and "w < 0x08" "x < 0x40" "y < 0x40" "z < 0x40"
  shows "decode_utf8_code_point (pre @ b1 # b2 # b3 # b4 # post) (length pre) = Some (of_nat (w * 262144 + x * 4096 + y * 64 + z), 4)"
proof -
  have "(0xF0 + w) mod 2 ^ 3 = w" "(0x80 + x) mod 2 ^ 6 = x" "(0x80 + y) mod 2 ^ 6 = y" "(0x80 + z) mod 2 ^ 6 = z"
    using assms by (simp_all add: mod_if)
  then show ?thesis
    using assms join_bits [of z 6 y] join_bits [of "y * 64 + z" 12 x] join_bits [of "x * 4096 + (y * 64 + z)" 18 w]
    by (simp add: decode_simps add.assoc)
qed

lemma digits3: "(c :: nat) div 4096 * 4096 + c div 64 mod 64 * 64 + c mod 64 = c"
proof -
  define q where "q = c div 64"
  have "c div 4096 = q div 64" by (simp add: q_def div_mult2_eq [symmetric])
  moreover have "q div 64 * 64 + q mod 64 = q" "q * 64 + c mod 64 = c" by (simp_all add: q_def)
  ultimately show ?thesis unfolding q_def [symmetric] by linarith
qed

lemma digits4: "(c :: nat) div 262144 * 262144 + c div 4096 mod 64 * 4096 + c div 64 mod 64 * 64 + c mod 64 = c"
proof -
  define q where "q = c div 64"
  have "c div 262144 = q div 4096" "c div 4096 = q div 64" by (simp_all add: q_def div_mult2_eq [symmetric])
  moreover have "q div 4096 * 4096 + q div 64 mod 64 * 64 + q mod 64 = q" by (rule digits3)
  moreover have "q * 64 + c mod 64 = c" by (simp add: q_def)
  ultimately show ?thesis unfolding q_def [symmetric] by simp
qed

lemma decode_encode:
  assumes "scalar_value c"
  shows "decode_utf8_code_point (pre @ utf8_encode c @ post) (length pre) = Some (of_nat c, length (utf8_encode c))"
proof -
  consider "c < 0x80" | "0x80 \<le> c" "c < 0x800" | "0x800 \<le> c" "c < 0x10000" | "0x10000 \<le> c" "c < 0x110000"
    using assms unfolding scalar_value_def by linarith
  then show ?thesis
  proof cases
    case 1
    then show ?thesis using decode1 [of "of_nat c" c] by (simp add: utf8_encode_def unat_of_nat_small)
  next
    case 2
    then have "c div 64 < 32" "c mod 64 < 64" by auto
    then show ?thesis using 2 decode2 [of "of_nat (0xC0 + c div 64)" "c div 64" "of_nat (0x80 + c mod 64)" "c mod 64" pre post]
      by (simp add: utf8_encode_def unat_of_nat_small del: of_nat_add)
  next
    case 3
    then have "c div 4096 < 16" "c div 64 mod 64 < 64" "c mod 64 < 64" by auto
    then show ?thesis using 3 digits3 [of c] decode3 [of "of_nat (0xE0 + c div 4096)" "c div 4096" "of_nat (0x80 + c div 64 mod 64)" "c div 64 mod 64"
        "of_nat (0x80 + c mod 64)" "c mod 64" pre post]
      by (simp add: utf8_encode_def unat_of_nat_small del: of_nat_add)
  next
    case 4
    then have "c div 262144 < 8" "c div 4096 mod 64 < 64" "c div 64 mod 64 < 64" "c mod 64 < 64" by auto
    then show ?thesis using 4 digits4 [of c] decode4 [of "of_nat (0xF0 + c div 262144)" "c div 262144"
        "of_nat (0x80 + c div 4096 mod 64)" "c div 4096 mod 64" "of_nat (0x80 + c div 64 mod 64)" "c div 64 mod 64"
        "of_nat (0x80 + c mod 64)" "c mod 64" pre post]
      by (simp add: utf8_encode_def unat_of_nat_small del: of_nat_add)
  qed
qed

section \<open>The scanner accepts exactly the texts\<close>

lemma encode_nonempty: "utf8_encode c \<noteq> []" "0 < length (utf8_encode c)"
  by (simp_all add: utf8_encode_def)

lemma utf8_simps [simp]: "utf8 [] = []" "utf8 (c # cs) = utf8_encode c @ utf8 cs" "utf8 (cs @ ds) = utf8 cs @ utf8 ds"
  by (simp_all add: utf8_def)

lemma classes_agree:
  assumes "scalar_value c"
  shows "is_unicode_whitespace (of_nat c) \<longleftrightarrow> white_space c" "is_unicode_control (of_nat c) \<longleftrightarrow> control_character c"
proof -
  have "c < 2 ^ 32" using assms by (auto simp: scalar_value_def)
  then have u: "unat (of_nat c :: u32) = c" by (simp add: unat_of_nat_small)
  show "is_unicode_whitespace (of_nat c) \<longleftrightarrow> white_space c"
    by (simp add: is_unicode_whitespace_def white_space_def word_le_nat_alt word_unat_eq_iff u) linarith
  show "is_unicode_control (of_nat c) \<longleftrightarrow> control_character c"
    by (simp add: is_unicode_control_def control_character_def word_le_nat_alt u) linarith
qed

lemma scan_utf8:
  assumes "\<forall>c\<in>set cs. scalar_value c" "scalar_value f" "scalar_value l" "pre \<noteq> []"
  shows "scan_text (pre @ utf8 cs) (length pre) (of_nat f) (of_nat l) =
    Some ((\<forall>c\<in>set cs. \<not> control_character c) \<and> \<not> white_space f \<and> \<not> white_space (last (l # cs)))"
  using assms
proof (induction cs arbitrary: pre l)
  case Nil
  then show ?case by (simp add: scan_text.simps classes_agree)
next
  case (Cons c cs)
  have d: "decode_utf8_code_point (pre @ utf8_encode c @ utf8 cs) (length pre) = Some (of_nat c, length (utf8_encode c))"
    using Cons.prems by (intro decode_encode) simp
  have step: "scan_text (pre @ utf8 (c # cs)) (length pre) (of_nat f) (of_nat l) =
    (if control_character c then Some False
     else scan_text ((pre @ utf8_encode c) @ utf8 cs) (length (pre @ utf8_encode c)) (of_nat f) (of_nat c))"
    using Cons.prems d classes_agree [of c] encode_nonempty [of c]
    by (subst scan_text.simps) simp
  show ?case unfolding step using Cons.IH [of c "pre @ utf8_encode c"] Cons.prems by simp
qed

lemma nonblank_utf8:
  assumes "\<forall>c\<in>set cs. scalar_value c"
  shows "is_nonblank_without_controls (utf8 cs) = Some (text_accepted cs)"
proof (cases cs)
  case Nil
  then show ?thesis by (simp add: is_nonblank_without_controls_def text_accepted_def)
next
  case (Cons c ds)
  have d: "decode_utf8_code_point (utf8_encode c @ utf8 ds) 0 = Some (of_nat c, length (utf8_encode c))"
    using decode_encode [of c "[]"] assms Cons by simp
  have "scan_text (utf8 cs) 0 0 0 =
    (if control_character c then Some False else scan_text (utf8_encode c @ utf8 ds) (length (utf8_encode c)) (of_nat c) (of_nat c))"
    using d classes_agree [of c] encode_nonempty [of c] assms Cons by (subst scan_text.simps) simp
  then show ?thesis using scan_utf8 [of ds c c "utf8_encode c"] assms Cons encode_nonempty [of c]
    by (auto simp: is_nonblank_without_controls_def text_accepted_def)
qed

text \<open>C19: The hand-written byte scanner that validates names agrees with the definition on Unicode characters and
  never reads out of bounds: for the UTF-8 bytes of any text, a topic name is accepted exactly when it has 1 to
  255 bytes, no control character, and no white space at either end; an event identity likewise with at most 128 bytes.\<close>

theorem name_validation_equiv:
  assumes "\<forall>c\<in>set cs. scalar_value c"
  shows "is_nonblank_without_controls (utf8 cs) = Some (text_accepted cs)
    \<and> is_valid_topic_name (utf8 cs) = Some (length (utf8 cs) \<le> 255 \<and> text_accepted cs)
    \<and> event_id_ok (utf8 cs) = Some (length (utf8 cs) \<le> 128 \<and> text_accepted cs)"
proof -
  have "cs \<noteq> [] \<Longrightarrow> 1 \<le> length (utf8 cs)" using encode_nonempty by (cases cs) (auto simp: Suc_le_eq)
  then show ?thesis using nonblank_utf8 [OF assms]
    by (auto simp: is_valid_topic_name_def event_id_ok_def text_accepted_def)
qed

text \<open>A name of four characters of one to four bytes, and the same name with an ideographic space at its end.\<close>

theorem name_validation_equiv_witness:
  "is_valid_topic_name (utf8 [0x61, 0xE9, 0x4E2D, 0x1F600]) = Some True \<and> length (utf8 [0x61, 0xE9, 0x4E2D, 0x1F600]) = 10
    \<and> is_valid_topic_name (utf8 [0x61, 0xE9, 0x4E2D, 0x3000]) = Some False"
  using name_validation_equiv [of "[0x61, 0xE9, 0x4E2D, 0x1F600]"] name_validation_equiv [of "[0x61, 0xE9, 0x4E2D, 0x3000]"]
  by (simp add: scalar_value_def text_accepted_def control_character_def white_space_def utf8_encode_def)

end
