(* ===== verification/Event_Model.thy ===== *)
theory Event_Model
  imports Subscription_Owner Validated_Text
begin

text \<open>
  The typed side of an event: topics, codecs and their registry, envelopes and their headers, capabilities of a
  provider, and the errors of publishing (\<open>src/src/model\<close>, \<open>src/src/codec\<close>, \<open>src/src/spi\<close>, \<open>src/src/error\<close>).

  A payload \<open>Arc<T>\<close> is its runtime type and identity, as in the provider interface; a codec, an interceptor, a
  rule or a handler is a function whose result may be a panic. A string is its UTF-8 bytes. The parameter
  \<open>'p\<close> stands for the policies, \<open>'c\<close> for the contexts and \<open>'k\<close> for the cancellation tokens of the retry library.
\<close>

section \<open>Errors\<close>

datatype capability_error = CodecRequired | Unsupported string

datatype payload_direction = PublishDirection | ReceiveDirection

datatype codec_error =
    PayloadTooLarge payload_direction nat nat
  | MetadataMismatch string string "string option" "string option"
  | NativeTypeMismatch
  | EncodeError string
  | DecodeError string
  | CodecPanicked string string

record publish_attempt_error =
  pae_kind :: string
  pae_retryable :: "bool option"
  pae_effect :: publish_effect
  pae_source :: spi_error

text \<open>A failed retry flow: whether a retry rule panicked, and the last error of an attempt, if it kept one.\<close>

datatype retry_error_reason = RuleCallbackFailed | OtherRetryReason string

record 'e retry_error =
  re_reason :: retry_error_reason
  re_last_error :: "'e option"

datatype publish_error =
    PublishConfiguration configuration_error
  | PublishCapability capability_error
  | PublishCodec codec_error
  | PublishSpi spi_error
  | PublishRetry "publish_attempt_error retry_error"
  | InterceptorPanicked string string
  | ErrorHandlerPanicked string "publish_failure option"
  | PublishClosed
and publish_failure = PublishFailure (pf_event_id: event_id) (pf_effect: publish_effect) (pf_cause: publish_error)

fun publish_error_effect :: "publish_error \<Rightarrow> publish_effect" where
  "publish_error_effect (PublishSpi e) = spi_publish_effect e"
| "publish_error_effect (PublishRetry e) = (case re_last_error e of None \<Rightarrow> NotAccepted | Some a \<Rightarrow> pae_effect a)"
| "publish_error_effect (ErrorHandlerPanicked _ source) = (case source of None \<Rightarrow> MayHaveBeenAccepted | Some f \<Rightarrow> pf_effect f)"
| "publish_error_effect _ = NotAccepted"

datatype event_bus_error =
    BusConfiguration configuration_error
  | BusCapability capability_error
  | BusCodec codec_error
  | BusPublish publish_error
  | BusOther string

definition panic_text :: "panic_payload \<Rightarrow> string" where
  "panic_text payload = (case payload of TextPayload message \<Rightarrow> message | OtherPayload \<Rightarrow> ''non-string panic payload'')"

section \<open>Capabilities\<close>

datatype payload_modes = NativeMode | EncodedMode | NativeAndEncoded
datatype ordering_capability = NoOrdering | PerSubscription | PerKeyOrdering | PerPartition
datatype delayed_delivery_capability = NoDelay | NativeDelay
datatype replay_capability = NoReplay | PositionReplay | TimestampReplay
datatype publish_guarantee = FireAndForget | GuaranteeAccepted | Confirmed | DurablyStored
datatype publish_visibility = Opaque | VisibleAdmissions

type_synonym subscription_modes = "8 word"

definition modes_support :: "subscription_modes \<Rightarrow> subscription_durability \<Rightarrow> bool" where
  "modes_support modes durability \<longleftrightarrow>
     modes AND (case durability of Ephemeral \<Rightarrow> 0b01 | Durable \<Rightarrow> 0b10) \<noteq> 0"

record event_bus_capabilities =
  cap_payload_modes :: payload_modes
  cap_settlement :: settlement_capabilities
  cap_ordering :: ordering_capability
  cap_delayed_delivery :: delayed_delivery_capability
  cap_durability :: durability_capability
  cap_subscription_modes :: subscription_modes
  cap_consumer_groups :: bool
  cap_replay :: replay_capability
  cap_publish_guarantee :: publish_guarantee
  cap_publish_visibility :: publish_visibility

section \<open>Codecs and topics\<close>

record event_codec =
  codec_content_type :: "string call_result"
  codec_schema_id :: "string option call_result"
  codec_encode :: "native_value \<Rightarrow> (codec_error + byte list) call_result"
  codec_validate_metadata :: "encoded_payload \<Rightarrow> (codec_error + unit) call_result"
  codec_decode :: "encoded_payload \<Rightarrow> (codec_error + native_value) call_result"

definition call_codec :: "string \<Rightarrow> (codec_error + 'a) call_result \<Rightarrow> codec_error + 'a" where
  "call_codec operation result = (case result of
       Returned r \<Rightarrow> r
     | Unwound payload \<Rightarrow> Inl (CodecPanicked operation (panic_text payload)))"

fun returned_ok :: "'a call_result \<Rightarrow> ('e + 'a) call_result" where
  "returned_ok (Returned a) = Returned (Inr a)"
| "returned_ok (Unwound payload) = Unwound payload"

text \<open>The default \<open>EventCodec::validate_metadata\<close> of a codec with this content type and schema.\<close>

definition default_validate_metadata :: "string \<Rightarrow> string option \<Rightarrow> encoded_payload \<Rightarrow> codec_error + unit" where
  "default_validate_metadata content schema payload =
     (if content = content_type payload \<and> schema = schema_id payload then Inr ()
      else Inl (MetadataMismatch content (content_type payload) schema (schema_id payload)))"

record topic =
  topic_name :: string
  topic_type :: type_id
  topic_codec :: "event_codec option"

type_synonym codec_registry = "(type_id, event_codec) fmap"

definition registry_get :: "codec_registry \<Rightarrow> type_id \<Rightarrow> event_codec option" where
  "registry_get codecs t = fmlookup codecs t"

definition registry_register :: "codec_registry \<Rightarrow> type_id \<Rightarrow> event_codec \<Rightarrow> type_id + codec_registry" where
  "registry_register codecs t codec = (case fmlookup codecs t of Some _ \<Rightarrow> Inl t | None \<Rightarrow> Inr (fmupd t codec codecs))"

definition registry_replace :: "codec_registry \<Rightarrow> type_id \<Rightarrow> event_codec \<Rightarrow> codec_registry \<times> event_codec option" where
  "registry_replace codecs t codec = (fmupd t codec codecs, fmlookup codecs t)"

definition resolve_codec :: "topic \<Rightarrow> codec_registry \<Rightarrow> event_codec option" where
  "resolve_codec t codecs = (case topic_codec t of Some codec \<Rightarrow> Some codec | None \<Rightarrow> registry_get codecs (topic_type t))"

definition check_publish_codec :: "payload_modes \<Rightarrow> topic \<Rightarrow> codec_registry \<Rightarrow> capability_error + unit" where
  "check_publish_codec modes t codecs =
     (if modes = EncodedMode \<and> resolve_codec t codecs = None then Inl CodecRequired else Inr ())"

definition decode_payload :: "type_id \<Rightarrow> event_codec option \<Rightarrow> transport_payload \<Rightarrow> usize \<Rightarrow> codec_error + native_value" where
  "decode_payload t codec payload max_receive_bytes = (case payload of
       Native v \<Rightarrow> if native_type v = t then Inr v else Inl NativeTypeMismatch
     | Encoded encoded \<Rightarrow>
         if unat max_receive_bytes < length (bytes encoded)
         then Inl (PayloadTooLarge ReceiveDirection (length (bytes encoded)) (unat max_receive_bytes))
         else case codec of
             None \<Rightarrow> Inl (DecodeError ''encoded payload has no resolved codec'')
           | Some codec \<Rightarrow> (case call_codec ''validate_metadata'' (codec_validate_metadata codec encoded) of
               Inl e \<Rightarrow> Inl e
             | Inr _ \<Rightarrow> call_codec ''decode'' (codec_decode codec encoded)))"

datatype receive_failure_action = RejectMessage | StopUnsettled

definition receive_failure_action_of :: "codec_error \<Rightarrow> receive_failure_action" where
  "receive_failure_action_of e = (case e of DecodeError _ \<Rightarrow> RejectMessage | _ \<Rightarrow> StopUnsettled)"

text \<open>A string is UTF-8, for which the scanner always answers.\<close>

definition utf8_bytes :: "string \<Rightarrow> byte list" where
  "utf8_bytes s = map of_char s"

definition valid_topic_name :: "string \<Rightarrow> bool" where
  "valid_topic_name s \<longleftrightarrow> is_valid_topic_name (utf8_bytes s) = Some True"

definition topic_address_new :: "string \<Rightarrow> configuration_error + topic_address" where
  "topic_address_new value =
     (if valid_topic_name value then Inr value
      else Inl (InvalidField ''topic'' ''must be 1..=255 bytes without surrounding whitespace or controls''))"

definition topic_new :: "type_id \<Rightarrow> string \<Rightarrow> configuration_error + topic" where
  "topic_new t name =
     (if valid_topic_name name then Inr \<lparr>topic_name = name, topic_type = t, topic_codec = None\<rparr>
      else Inl (InvalidField ''topic'' ''must be 1..=255 bytes without surrounding whitespace or controls''))"

definition ordering_key_new :: "string \<Rightarrow> ordering_key option" where
  "ordering_key_new value = (if is_nonblank_without_controls (utf8_bytes value) = Some True then Some value else None)"

section \<open>Envelopes\<close>

definition dead_letter_header :: string where
  "dead_letter_header = ''x-qubit-event-bus-dead-letter''"

definition dead_letter_header_value :: string where
  "dead_letter_header_value = ''v1''"

record event_envelope =
  env_id :: event_id
  env_topic :: topic
  env_payload :: native_value
  env_headers :: headers
  env_ordering_key :: "string option"
  env_timestamp :: system_time
  env_delay :: "duration option"

definition with_id_and_shared_payload :: "system_time \<Rightarrow> topic \<Rightarrow> native_value \<Rightarrow> event_id \<Rightarrow> event_envelope" where
  "with_id_and_shared_payload time t payload i = \<lparr>env_id = i, env_topic = t, env_payload = payload, env_headers = fmempty,
     env_ordering_key = None, env_timestamp = time, env_delay = None\<rparr>"

definition ascii_lower :: "char \<Rightarrow> char" where
  "ascii_lower c = (let n = of_char c :: nat in if 65 \<le> n \<and> n \<le> 90 then char_of (n + 32) else c)"

definition eq_ignore_ascii_case :: "string \<Rightarrow> string \<Rightarrow> bool" where
  "eq_ignore_ascii_case a b \<longleftrightarrow> map ascii_lower a = map ascii_lower b"

definition header_key_byte :: "char \<Rightarrow> bool" where
  "header_key_byte c \<longleftrightarrow> (let n = of_char c :: nat in
     48 \<le> n \<and> n \<le> 57 \<or> 65 \<le> n \<and> n \<le> 90 \<or> 97 \<le> n \<and> n \<le> 122 \<or> n = 45 \<or> n = 95 \<or> n = 46)"

definition set_system_header :: "string \<Rightarrow> string \<Rightarrow> event_envelope \<Rightarrow> event_envelope" where
  "set_system_header key val e = e\<lparr>env_headers := fmupd key val (env_headers e)\<rparr>"

definition is_dead_letter :: "event_envelope \<Rightarrow> bool" where
  "is_dead_letter e \<longleftrightarrow> fmlookup (env_headers e) dead_letter_header = Some dead_letter_header_value"

text \<open>\<open>value.chars().any(char::is_control)\<close>; the control characters are those of Unicode category Cc.\<close>

function controls_from :: "byte list \<Rightarrow> nat \<Rightarrow> bool" where
  "controls_from bs index =
     (if index < length bs then
        case decode_utf8_code_point bs index of
          None \<Rightarrow> False
        | Some (code_point, width) \<Rightarrow> is_unicode_control code_point \<or> controls_from bs (index + width)
      else False)"
  by pat_completeness auto
termination
  by (relation "measure (\<lambda>(bs, index). length bs - index)") (auto dest: decode_width)

declare controls_from.simps [simp del]

definition has_controls :: "string \<Rightarrow> bool" where
  "has_controls val \<longleftrightarrow> controls_from (utf8_bytes val) 0"

definition set_header ::
  "string \<Rightarrow> string \<Rightarrow> event_envelope \<Rightarrow> configuration_error + (event_envelope \<times> string option)" where
  "set_header key val e =
     (if eq_ignore_ascii_case key dead_letter_header
      then Inl (InvalidField ''event_header'' ''the dead-letter header is reserved for facade use'')
      else if key = [] \<or> \<not> list_all header_key_byte key \<or> has_controls val
      then Inl (InvalidField ''event_header'' ''invalid key or control character in value'')
      else Inr (e\<lparr>env_headers := fmupd key val (env_headers e)\<rparr>, fmlookup (env_headers e) key))"

definition remove_header :: "string \<Rightarrow> event_envelope \<Rightarrow> configuration_error + (event_envelope \<times> string option)" where
  "remove_header key e =
     (if eq_ignore_ascii_case key dead_letter_header
      then Inl (InvalidField ''event_header'' ''the dead-letter header is reserved for facade use'')
      else Inr (e\<lparr>env_headers := fmdrop key (env_headers e)\<rparr>, fmlookup (env_headers e) key))"

text \<open>\<open>PublishMetadata\<close>, the headers a bus-wide interceptor may edit.\<close>

definition metadata_set_header :: "string \<Rightarrow> string \<Rightarrow> headers \<Rightarrow> configuration_error + headers" where
  "metadata_set_header key val h =
     (if eq_ignore_ascii_case key dead_letter_header \<or> key = [] \<or> \<not> list_all header_key_byte key \<or> has_controls val
      then Inl (InvalidField ''header'' ''header key or value is invalid or reserved'')
      else Inr (fmupd key val h))"

definition metadata_remove_header :: "string \<Rightarrow> headers \<Rightarrow> headers \<times> string option" where
  "metadata_remove_header key h =
     (if eq_ignore_ascii_case key dead_letter_header then (h, None) else (fmdrop key h, fmlookup h key))"

lemma reserved_header_kept:
  "set_header key val e = Inr (e', old) \<Longrightarrow> is_dead_letter e' = is_dead_letter e"
  "remove_header key e = Inr (e', old) \<Longrightarrow> is_dead_letter e' = is_dead_letter e"
  "metadata_set_header key val h = Inr h' \<Longrightarrow> fmlookup h' dead_letter_header = fmlookup h dead_letter_header"
  "metadata_remove_header key h = (h', old) \<Longrightarrow> fmlookup h' dead_letter_header = fmlookup h dead_letter_header"
  by (auto simp: set_header_def remove_header_def metadata_set_header_def metadata_remove_header_def is_dead_letter_def
      eq_ignore_ascii_case_def split: if_splits)

end
