(* ===== verification/Publish_Pipeline.thy ===== *)
theory Publish_Pipeline
  imports Event_Model
begin

text \<open>
  Publishing one event through the synchronous pipeline: \<open>src/src/pipeline/retry.rs\<close> and
  \<open>src/src/pipeline/publisher_pipeline.rs\<close>. Interceptors, the weight callback, the codec and the error handlers
  are functions that may panic; the provider is a function on a state of its own.

  The retry library is a parameter, the record \<open>retry_library\<close>: checking a policy and running an operation under
  a configuration. What the code relies on is \<open>retry_contract\<close>, as the library documents it: the operation runs
  some number of times in sequence; it runs again only after a failure for which the first rule that has an
  opinion says so, the fallback being to abort; a successful flow returns the value of its last run; a failed
  flow keeps the error of the last run or none. A flow may fail after a successful run.

  \<open>pw_calls\<close> records the messages passed to the provider with its answers; nothing reads it.
\<close>

section \<open>The retry library\<close>

datatype retry_decision = RetryAttempt | AbortFlow | UseDefault

datatype 'e attempt_failure = AttemptError 'e | OtherAttemptFailure

type_synonym ('c, 'e) retry_rule = "'e attempt_failure \<Rightarrow> 'c \<Rightarrow> retry_decision"

record ('p, 'c, 'e) retry_config =
  rc_policy :: 'p
  rc_rules :: "('c, 'e) retry_rule list"

record ('p, 'c, 'k, 'e, 'a, 's) retry_library =
  rl_build :: "'p \<Rightarrow> string option"
  rl_run :: "('p, 'c, 'e) retry_config \<Rightarrow> 'k option \<Rightarrow> ('s \<Rightarrow> 's \<times> ('e + 'a)) \<Rightarrow> 's \<Rightarrow> 's \<times> ('e retry_error + 'a)"

fun rules_decision :: "('c, 'e) retry_rule list \<Rightarrow> 'e attempt_failure \<Rightarrow> 'c \<Rightarrow> retry_decision" where
  "rules_decision [] failure context = AbortFlow"
| "rules_decision (rule # rules) failure context =
     (case rule failure context of UseDefault \<Rightarrow> rules_decision rules failure context | decision \<Rightarrow> decision)"

inductive retry_flow ::
  "('c, 'e) retry_rule list \<Rightarrow> ('s \<Rightarrow> 's \<times> ('e + 'a)) \<Rightarrow> 's \<Rightarrow> ('e + 'a) list \<Rightarrow> 's \<Rightarrow> bool"
  for rules operation where
  flow_none: "retry_flow rules operation s [] s"
| flow_last: "operation s = (s', r) \<Longrightarrow> retry_flow rules operation s [r] s'"
| flow_again: "operation s = (s1, Inl e) \<Longrightarrow> rules_decision rules (AttemptError e) context = RetryAttempt \<Longrightarrow>
    retry_flow rules operation s1 rs s' \<Longrightarrow> retry_flow rules operation s (Inl e # rs) s'"

fun retry_result :: "('e + 'a) list \<Rightarrow> 'e retry_error + 'a \<Rightarrow> bool" where
  "retry_result rs (Inr a) \<longleftrightarrow> rs \<noteq> [] \<and> last rs = Inr a"
| "retry_result rs (Inl error) \<longleftrightarrow> (case re_last_error error of None \<Rightarrow> True | Some e \<Rightarrow> rs \<noteq> [] \<and> last rs = Inl e)"

definition retry_contract :: "('p, 'c, 'k, 'e, 'a, 's) retry_library \<Rightarrow> bool" where
  "retry_contract lib \<longleftrightarrow> (\<forall>cfg token operation s s' r. rl_run lib cfg token operation s = (s', r) \<longrightarrow>
     (\<exists>rs. retry_flow (rc_rules cfg) operation s rs s' \<and> retry_result rs r))"

section \<open>Attempts\<close>

datatype duplicate_risk_policy = Forbid | AllowDuplicates

definition uncertainty_allows_retry :: "publish_effect \<Rightarrow> duplicate_risk_policy \<Rightarrow> bool" where
  "uncertainty_allows_retry effect policy \<longleftrightarrow> (case (effect, policy) of
       (NotAccepted, _) \<Rightarrow> True
     | (MayHaveBeenAccepted, AllowDuplicates) \<Rightarrow> True
     | _ \<Rightarrow> False)"

definition acknowledges_admission :: "publish_acknowledgement \<Rightarrow> bool" where
  "acknowledges_admission ack \<longleftrightarrow> (case ack_admission_outcome ack of
       OpaqueAccepted \<Rightarrow> True | OutcomeAccepted _ \<Rightarrow> True | PartiallyAccepted _ \<Rightarrow> True | _ \<Rightarrow> False)"

type_synonym 'w provider_publish = "'w \<Rightarrow> outbound_message \<Rightarrow> 'w \<times> (spi_error + publish_acknowledgement) call_result"

type_synonym publish_call = "outbound_message \<times> (spi_error + publish_acknowledgement)"

record 'w publish_world =
  pw_provider :: 'w
  pw_seen_unknown :: bool
  pw_seen_admission :: bool
  pw_calls :: "publish_call list"

definition spi_publish_sync ::
  "'w provider_publish \<Rightarrow> string \<Rightarrow> outbound_message \<Rightarrow> 'w \<Rightarrow> 'w \<times> (spi_error + publish_acknowledgement)" where
  "spi_publish_sync publish provider_id message w = (case publish w message of
       (w', result) \<Rightarrow> (w', case catch_spi_call provider_id ''publish'' (Some (out_topic message)) result of
           Inl e \<Rightarrow> Inl e | Inr r \<Rightarrow> r))"

definition publish_attempt ::
  "'w provider_publish \<Rightarrow> string \<Rightarrow> outbound_message \<Rightarrow> 'w publish_world \<Rightarrow>
   'w publish_world \<times> (spi_error + publish_acknowledgement)" where
  "publish_attempt publish provider_id message s = (case spi_publish_sync publish provider_id message (pw_provider s) of
       (w', r) \<Rightarrow>
         (s\<lparr>pw_provider := w',
            pw_seen_unknown := pw_seen_unknown s \<or> (case r of Inl e \<Rightarrow> spi_publish_effect e = MayHaveBeenAccepted | Inr _ \<Rightarrow> False),
            pw_seen_admission := pw_seen_admission s \<or> (case r of Inl _ \<Rightarrow> False | Inr ack \<Rightarrow> acknowledges_admission ack),
            pw_calls := pw_calls s @ [(message, r)]\<rparr>, r))"

definition attempt_error :: "spi_error \<Rightarrow> publish_attempt_error" where
  "attempt_error e = \<lparr>pae_kind = spi_kind e, pae_retryable = error_retryable e, pae_effect = spi_publish_effect e, pae_source = e\<rparr>"

definition duplicate_gate :: "duplicate_risk_policy \<Rightarrow> ('c, publish_attempt_error) retry_rule" where
  "duplicate_gate policy failure context =
     (let effect = (case failure of AttemptError e \<Rightarrow> pae_effect e | OtherAttemptFailure \<Rightarrow> MayHaveBeenAccepted)
      in if \<not> uncertainty_allows_retry effect policy then AbortFlow else UseDefault)"

definition retryable_rule :: "('c, publish_attempt_error) retry_rule" where
  "retryable_rule failure context = (case failure of
       AttemptError e \<Rightarrow> (case pae_retryable e of Some True \<Rightarrow> RetryAttempt | Some False \<Rightarrow> AbortFlow | None \<Rightarrow> UseDefault)
     | OtherAttemptFailure \<Rightarrow> UseDefault)"

definition publish_retry_config ::
  "('p, 'c, 'k, publish_attempt_error, 'a, 's) retry_library \<Rightarrow> 'p \<Rightarrow> ('c, publish_attempt_error) retry_rule option \<Rightarrow>
   duplicate_risk_policy \<Rightarrow> publish_error + ('p, 'c, publish_attempt_error) retry_config" where
  "publish_retry_config lib policy rule duplicate_policy = (case rl_build lib policy of
       Some message \<Rightarrow> Inl (PublishConfiguration (InvalidField ''retry_policy'' message))
     | None \<Rightarrow> Inr \<lparr>rc_policy = policy, rc_rules = duplicate_gate duplicate_policy #
         (case rule of None \<Rightarrow> [] | Some user_rule \<Rightarrow> [user_rule]) @ [retryable_rule]\<rparr>)"

type_synonym ('p, 'c, 'k, 'w) publish_retry_library =
  "('p, 'c, 'k, publish_attempt_error, publish_acknowledgement, 'w publish_world) retry_library"

definition retried_attempt ::
  "'w provider_publish \<Rightarrow> string \<Rightarrow> outbound_message \<Rightarrow> 'w publish_world \<Rightarrow>
   'w publish_world \<times> (publish_attempt_error + publish_acknowledgement)" where
  "retried_attempt publish provider_id message s =
     apsnd (map_sum attempt_error id) (publish_attempt publish provider_id message s)"

definition publish_sync ::
  "('p, 'c, 'k, 'w) publish_retry_library \<Rightarrow> 'w provider_publish \<Rightarrow> string \<Rightarrow> outbound_message \<Rightarrow> 'p option \<Rightarrow>
   ('c, publish_attempt_error) retry_rule option \<Rightarrow> 'k option \<Rightarrow> duplicate_risk_policy \<Rightarrow> 'w publish_world \<Rightarrow>
   'w publish_world \<times> (publish_error + publish_acknowledgement)" where
  "publish_sync lib publish provider_id message policy rule cancellation duplicate_policy s = (case policy of
       None \<Rightarrow> apsnd (map_sum PublishSpi id) (publish_attempt publish provider_id message s)
     | Some policy \<Rightarrow> (case publish_retry_config lib policy rule duplicate_policy of
         Inl e \<Rightarrow> (s, Inl e)
       | Inr cfg \<Rightarrow>
           apsnd (map_sum PublishRetry id) (rl_run lib cfg cancellation (retried_attempt publish provider_id message) s)))"

section \<open>Preparing a publication\<close>

type_synonym publisher_interceptor = "event_envelope \<Rightarrow> (publish_error + event_envelope option) call_result"
type_synonym global_interceptor = "headers \<Rightarrow> headers \<times> (publish_error + bool) call_result"

record publish_failure_context =
  fc_payload :: native_value
  fc_event_id :: event_id
  fc_topic :: topic
  fc_headers :: headers
  fc_ordering_key :: "string option"
  fc_timestamp :: system_time
  fc_delay :: "duration option"

definition context_from_envelope :: "event_envelope \<Rightarrow> publish_failure_context" where
  "context_from_envelope e = \<lparr>fc_payload = env_payload e, fc_event_id = env_id e, fc_topic = env_topic e, fc_headers = env_headers e,
     fc_ordering_key = env_ordering_key e, fc_timestamp = env_timestamp e, fc_delay = env_delay e\<rparr>"

type_synonym publish_error_handler = "publish_failure_context \<Rightarrow> publish_failure \<Rightarrow> unit call_result"

record ('p, 'c, 'k) publish_options =
  po_duplicate_risk_policy :: duplicate_risk_policy
  po_retry_policy :: "'p option"
  po_retry_rule :: "('c, publish_attempt_error) retry_rule option"
  po_retry_cancellation :: "'k option"
  po_error_handlers :: "publish_error_handler list"
  po_native_payload_weight :: "(native_value \<Rightarrow> usize call_result) option"
  po_interceptors :: "publisher_interceptor list"

definition publish_options_default :: "('p, 'c, 'k) publish_options" where
  "publish_options_default = \<lparr>po_duplicate_risk_policy = Forbid, po_retry_policy = None, po_retry_rule = None,
     po_retry_cancellation = None, po_error_handlers = [], po_native_payload_weight = None, po_interceptors = []\<rparr>"

text \<open>\<open>validate_retry_configuration\<close>; its only error is the pairing error.\<close>

definition retry_configuration_ok :: "('p, 'c, 'k) publish_options \<Rightarrow> bool" where
  "retry_configuration_ok options \<longleftrightarrow>
     \<not> (po_retry_policy options = None \<and> (po_retry_rule options \<noteq> None \<or> po_retry_cancellation options \<noteq> None))"

datatype pipeline_failure_origin =
  OriginConfiguration | OriginInterceptor | OriginCapability | OriginCodec | OriginProvider | OriginRetry

record pipeline_failure =
  failure_origin :: pipeline_failure_origin
  failure_effect :: publish_effect
  failure_error :: event_bus_error

definition failure :: "pipeline_failure_origin \<Rightarrow> event_bus_error \<Rightarrow> pipeline_failure" where
  "failure origin error = \<lparr>failure_origin = origin, failure_effect = NotAccepted, failure_error = error\<rparr>"

record publisher_pipeline =
  pp_provider_id :: string
  pp_codecs :: codec_registry
  pp_capabilities :: event_bus_capabilities
  pp_max_encoded_payload_bytes :: usize

record prepared_outbound =
  pb_topic :: topic_address
  pb_event_id :: event_id
  pb_timestamp :: system_time
  pb_headers :: headers
  pb_ordering_key :: "ordering_key option"
  pb_delay :: "duration option"
  pb_native_payload_weight_bytes :: "usize option"
  pb_payload :: transport_payload
  pb_failure_context :: publish_failure_context

definition outbound_build :: "prepared_outbound \<Rightarrow> outbound_message" where
  "outbound_build p =
     (let message = outbound_message_new (pb_topic p) (pb_event_id p) (pb_timestamp p) (pb_headers p) (pb_ordering_key p)
                      (pb_delay p) (pb_payload p)
      in case pb_native_payload_weight_bytes p of
          Some weight \<Rightarrow> with_native_payload_weight_bytes weight message
        | None \<Rightarrow> message)"

definition dropped_receipt :: "event_id \<Rightarrow> string \<Rightarrow> publish_receipt" where
  "dropped_receipt input_id provider_id = publish_receipt_new input_id None provider_id DroppedByInterceptor"

text \<open>The typed interceptors: the dropping receipt or the final envelope.\<close>

fun run_interceptors ::
  "publisher_interceptor list \<Rightarrow> event_id \<Rightarrow> string \<Rightarrow> event_envelope \<Rightarrow> pipeline_failure + (publish_receipt + event_envelope)" where
  "run_interceptors [] input_id provider_id e = Inr (Inr e)"
| "run_interceptors (interceptor # rest) input_id provider_id e = (case interceptor e of
       Returned (Inr (Some next)) \<Rightarrow>
         if env_id next \<noteq> input_id
         then Inl (failure OriginInterceptor
           (BusConfiguration (InvalidField ''event_id'' ''typed publisher interceptor cannot change event identity'')))
         else run_interceptors rest input_id provider_id next
     | Returned (Inr None) \<Rightarrow> Inr (Inl (dropped_receipt input_id provider_id))
     | Returned (Inl error) \<Rightarrow> Inl (failure OriginInterceptor (BusPublish error))
     | Unwound payload \<Rightarrow> Inl (failure OriginInterceptor (BusPublish (InterceptorPanicked ''typed'' (panic_text payload)))))"

text \<open>\<open>GlobalPublisherInterceptor::apply\<close>.\<close>

definition apply_global :: "global_interceptor \<Rightarrow> headers \<Rightarrow> headers \<times> (publish_error + bool)" where
  "apply_global interceptor metadata = (case interceptor metadata of
       (metadata', Returned r) \<Rightarrow> (metadata', r)
     | (metadata', Unwound payload) \<Rightarrow> (metadata', Inl (InterceptorPanicked ''global'' (panic_text payload))))"

fun run_globals ::
  "global_interceptor list \<Rightarrow> event_id \<Rightarrow> string \<Rightarrow> headers \<Rightarrow> pipeline_failure + (publish_receipt + headers)" where
  "run_globals [] input_id provider_id metadata = Inr (Inr metadata)"
| "run_globals (interceptor # rest) input_id provider_id metadata = (case apply_global interceptor metadata of
       (metadata', Inr True) \<Rightarrow> run_globals rest input_id provider_id metadata'
     | (metadata', Inr False) \<Rightarrow> Inr (Inl (dropped_receipt input_id provider_id))
     | (metadata', Inl error) \<Rightarrow> Inl (failure OriginInterceptor (BusPublish error)))"

definition validate_transport_metadata ::
  "duration option \<Rightarrow> string option \<Rightarrow> event_bus_capabilities \<Rightarrow> pipeline_failure + unit" where
  "validate_transport_metadata delay ordering_key capabilities =
     (if delay \<noteq> None \<and> cap_delayed_delivery capabilities = NoDelay
      then Inl (failure OriginCapability (BusCapability (Unsupported ''delayed_delivery'')))
      else if ordering_key \<noteq> None \<and> cap_ordering capabilities = NoOrdering
      then Inl (failure OriginCapability (BusCapability (Unsupported ''ordering'')))
      else Inr ())"

definition native_weight ::
  "payload_modes \<Rightarrow> (native_value \<Rightarrow> usize call_result) option \<Rightarrow> native_value \<Rightarrow> pipeline_failure + usize option" where
  "native_weight modes weigh payload =
     (if modes = EncodedMode then Inr None
      else case weigh of
          None \<Rightarrow> Inr None
        | Some weigh \<Rightarrow> (case weigh payload of
            Returned weight \<Rightarrow> Inr (Some weight)
          | Unwound p \<Rightarrow> Inl (failure OriginInterceptor (BusPublish (InterceptorPanicked ''payload_weight'' (panic_text p))))))"

text \<open>The payload of the message: erased, or encoded within the limit with the codec's metadata.\<close>

definition encode_payload ::
  "publisher_pipeline \<Rightarrow> event_codec option \<Rightarrow> native_value \<Rightarrow> pipeline_failure + transport_payload" where
  "encode_payload p codec payload = (case codec of
       None \<Rightarrow> Inl (failure OriginCapability (BusCapability CodecRequired))
     | Some codec \<Rightarrow> (case call_codec ''encode'' (codec_encode codec payload) of
         Inl e \<Rightarrow> Inl (failure OriginCodec (BusCodec e))
       | Inr bs \<Rightarrow>
           if unat (pp_max_encoded_payload_bytes p) < length bs
           then Inl (failure OriginCodec
             (BusCodec (PayloadTooLarge PublishDirection (length bs) (unat (pp_max_encoded_payload_bytes p)))))
           else case call_codec ''content_type'' (returned_ok (codec_content_type codec)) of
               Inl e \<Rightarrow> Inl (failure OriginCodec (BusCodec e))
             | Inr content \<Rightarrow> (case call_codec ''schema_id'' (returned_ok (codec_schema_id codec)) of
                 Inl e \<Rightarrow> Inl (failure OriginCodec (BusCodec e))
               | Inr schema \<Rightarrow> Inr (Encoded \<lparr>bytes = bs, content_type = content, schema_id = schema\<rparr>))))"

definition prepare_outbound_for ::
  "publisher_pipeline \<Rightarrow> event_envelope \<Rightarrow> payload_modes \<Rightarrow> usize option \<Rightarrow> pipeline_failure + prepared_outbound" where
  "prepare_outbound_for p e modes weight =
     (let context = context_from_envelope e in
      case topic_address_new (topic_name (fc_topic context)) of
        Inl error \<Rightarrow> Inl (failure OriginCapability (BusConfiguration error))
      | Inr address \<Rightarrow>
          (case (case modes of
               EncodedMode \<Rightarrow> encode_payload p (resolve_codec (fc_topic context) (pp_codecs p)) (fc_payload context)
             | _ \<Rightarrow> Inr (Native (fc_payload context))) of
             Inl error \<Rightarrow> Inl error
           | Inr payload \<Rightarrow> Inr \<lparr>pb_topic = address, pb_event_id = fc_event_id context, pb_timestamp = fc_timestamp context,
               pb_headers = fc_headers context, pb_ordering_key = Option.bind (fc_ordering_key context) ordering_key_new,
               pb_delay = fc_delay context, pb_native_payload_weight_bytes = weight, pb_payload = payload,
               pb_failure_context = context\<rparr>))"

datatype publish_preparation = PreparationDropped publish_receipt | PreparationReady event_id prepared_outbound

text \<open>From the header protection on: the envelope as the interceptors left it.\<close>

definition prepare_transport ::
  "publisher_pipeline \<Rightarrow> (native_value \<Rightarrow> usize call_result) option \<Rightarrow> event_id \<Rightarrow> bool \<Rightarrow> event_envelope \<Rightarrow> headers \<Rightarrow>
   pipeline_failure + publish_preparation" where
  "prepare_transport p weigh input_id dead_letter e metadata =
     (let e1 = e\<lparr>env_headers := metadata\<rparr>;
          e2 = (if dead_letter then set_system_header dead_letter_header dead_letter_header_value e1 else e1);
          modes = cap_payload_modes (pp_capabilities p)
      in case validate_transport_metadata (env_delay e2) (env_ordering_key e2) (pp_capabilities p) of
          Inl error \<Rightarrow> Inl error
        | Inr _ \<Rightarrow> (case native_weight modes weigh (env_payload e2) of
            Inl error \<Rightarrow> Inl error
          | Inr weight \<Rightarrow> map_sum id (PreparationReady input_id) (prepare_outbound_for p e2 modes weight)))"

definition prepare_publish ::
  "publisher_pipeline \<Rightarrow> event_envelope \<Rightarrow> ('p, 'c, 'k) publish_options \<Rightarrow> global_interceptor list \<Rightarrow>
   pipeline_failure + publish_preparation" where
  "prepare_publish p e options globals =
     (if \<not> retry_configuration_ok options
      then Inl (failure OriginConfiguration (BusConfiguration (InvalidField ''retry_configuration''
        ''retry rule or cancellation token requires a retry policy'')))
      else case run_interceptors (po_interceptors options) (env_id e) (pp_provider_id p) e of
          Inl error \<Rightarrow> Inl error
        | Inr (Inl receipt) \<Rightarrow> Inr (PreparationDropped receipt)
        | Inr (Inr e') \<Rightarrow> (case run_globals globals (env_id e) (pp_provider_id p) (env_headers e') of
            Inl error \<Rightarrow> Inl error
          | Inr (Inl receipt) \<Rightarrow> Inr (PreparationDropped receipt)
          | Inr (Inr metadata) \<Rightarrow>
              prepare_transport p (po_native_payload_weight options) (env_id e) (is_dead_letter e) e' metadata))"

section \<open>Publishing\<close>

text \<open>The loop of \<open>notify_publish_error_handlers\<close>: the first panic message, if any.\<close>

fun run_error_handlers :: "publish_error_handler list \<Rightarrow> publish_failure_context \<Rightarrow> publish_failure \<Rightarrow> string option \<Rightarrow> string option" where
  "run_error_handlers [] context terminal message = message"
| "run_error_handlers (handler # rest) context terminal message =
     run_error_handlers rest context terminal (case handler context terminal of
         Returned _ \<Rightarrow> message
       | Unwound payload \<Rightarrow> (case message of None \<Rightarrow> Some (panic_text payload) | Some _ \<Rightarrow> message))"

definition notify_publish_error_handlers ::
  "publish_failure_context \<Rightarrow> publish_error_handler list \<Rightarrow> publish_error \<Rightarrow> publish_effect \<Rightarrow> publish_error" where
  "notify_publish_error_handlers context handlers error effect =
     (let terminal = PublishFailure (fc_event_id context) effect error
      in case run_error_handlers handlers context terminal None of
          Some message \<Rightarrow> ErrorHandlerPanicked message (Some terminal)
        | None \<Rightarrow> pf_cause terminal)"

definition publish_failure_origin :: "publish_error \<Rightarrow> pipeline_failure_origin" where
  "publish_failure_origin error = (case error of
       PublishConfiguration _ \<Rightarrow> OriginConfiguration | PublishRetry _ \<Rightarrow> OriginRetry | _ \<Rightarrow> OriginProvider)"

definition finish_publish_failure ::
  "prepared_outbound \<Rightarrow> publish_error_handler list \<Rightarrow> publish_error \<Rightarrow> bool \<Rightarrow> bool \<Rightarrow> pipeline_failure" where
  "finish_publish_failure outbound handlers error seen_unknown seen_admission =
     (let effect = (if seen_unknown \<or> seen_admission then MayHaveBeenAccepted else publish_error_effect error)
      in (failure (publish_failure_origin error)
           (BusPublish (notify_publish_error_handlers (pb_failure_context outbound) handlers error effect)))\<lparr>failure_effect := effect\<rparr>)"

definition emit_rejections :: "publish_acknowledgement \<Rightarrow> event_id \<Rightarrow> string \<Rightarrow> diagnostic list" where
  "emit_rejections ack event topic = (case ack of
       DestinationAdmissions admissions \<Rightarrow> concat (map (\<lambda>a. case adm_status a of
           Rejected reason \<Rightarrow> [AdmissionRejected event topic (adm_subscription_id a) (adm_subscriber_id a) reason]
         | _ \<Rightarrow> []) admissions)
     | _ \<Rightarrow> [])"

definition finish_publish_success ::
  "publisher_pipeline \<Rightarrow> event_id \<Rightarrow> prepared_outbound \<Rightarrow> publish_acknowledgement \<Rightarrow> bool \<Rightarrow> publish_receipt" where
  "finish_publish_success p input_id outbound ack duplicate =
     (publish_receipt_new input_id (Some (pb_event_id outbound)) (pp_provider_id p) ack)\<lparr>duplicate_possible := duplicate\<rparr>"

text \<open>The result, the diagnostics for the observers, and the provider with the calls it got.\<close>

definition pipeline_publish ::
  "('p, 'c, 'k, 'w) publish_retry_library \<Rightarrow> 'w provider_publish \<Rightarrow> publisher_pipeline \<Rightarrow> event_envelope \<Rightarrow>
   ('p, 'c, 'k) publish_options \<Rightarrow> global_interceptor list \<Rightarrow> 'w \<Rightarrow>
   'w \<times> publish_call list \<times> diagnostic list \<times> (pipeline_failure + publish_receipt)" where
  "pipeline_publish lib publish p e options globals w = (case prepare_publish p e options globals of
       Inl error \<Rightarrow> (w, [], [], Inl error)
     | Inr (PreparationDropped receipt) \<Rightarrow> (w, [], [], Inr receipt)
     | Inr (PreparationReady input_id outbound) \<Rightarrow>
         (case publish_sync lib publish (pp_provider_id p) (outbound_build outbound) (po_retry_policy options)
             (po_retry_rule options) (po_retry_cancellation options) (po_duplicate_risk_policy options)
             \<lparr>pw_provider = w, pw_seen_unknown = False, pw_seen_admission = False, pw_calls = []\<rparr> of
            (s, Inr ack) \<Rightarrow> (pw_provider s, pw_calls s, emit_rejections ack (pb_event_id outbound) (pb_topic outbound),
              Inr (finish_publish_success p input_id outbound ack (pw_seen_unknown s)))
          | (s, Inl error) \<Rightarrow> (pw_provider s, pw_calls s, [],
              Inl (finish_publish_failure outbound (po_error_handlers options) error (pw_seen_unknown s) (pw_seen_admission s)))))"

definition publish_pipeline_error :: "event_id \<Rightarrow> pipeline_failure \<Rightarrow> publish_failure" where
  "publish_pipeline_error event f = PublishFailure event (failure_effect f) (case failure_error f of
       BusConfiguration e \<Rightarrow> PublishConfiguration e
     | BusCapability e \<Rightarrow> PublishCapability e
     | BusCodec e \<Rightarrow> PublishCodec e
     | BusPublish e \<Rightarrow> e
     | BusOther message \<Rightarrow> PublishConfiguration (InvalidField ''publish_pipeline'' message))"

definition publish_internal ::
  "('p, 'c, 'k, 'w) publish_retry_library \<Rightarrow> 'w provider_publish \<Rightarrow> publisher_pipeline \<Rightarrow> event_envelope \<Rightarrow>
   ('p, 'c, 'k) publish_options \<Rightarrow> 'w \<Rightarrow> 'w \<times> publish_call list \<times> diagnostic list \<times> (publish_failure + publish_receipt)" where
  "publish_internal lib publish p e options w = (case pipeline_publish lib publish p e options [] w of
       (w', calls, ds, r) \<Rightarrow> (w', calls, ds, map_sum (publish_pipeline_error (env_id e)) id r))"

end
