(* ===== verification/Publish_Pipeline_Props.thy ===== *)
theory Publish_Pipeline_Props
  imports Publish_Pipeline
begin

text \<open>
  What a publication promises whatever the provider, the callbacks and the retry rules do: no attempt after an
  uncertain one unless duplicates are allowed, an effect that never understates what may have been admitted, the
  same message in every attempt, and a payload that decodes to what was published.
\<close>

section \<open>What an answer of the provider says\<close>

fun uncertain :: "spi_error + publish_acknowledgement \<Rightarrow> bool" where
  "uncertain (Inl e) \<longleftrightarrow> spi_publish_effect e = MayHaveBeenAccepted"
| "uncertain (Inr _) \<longleftrightarrow> False"

fun not_admitted :: "spi_error + publish_acknowledgement \<Rightarrow> bool" where
  "not_admitted (Inl e) \<longleftrightarrow> spi_publish_effect e = NotAccepted"
| "not_admitted (Inr ack) \<longleftrightarrow> \<not> acknowledges_admission ack"

fun refused :: "spi_error + publish_acknowledgement \<Rightarrow> bool" where
  "refused (Inl e) \<longleftrightarrow> spi_publish_effect e = NotAccepted"
| "refused (Inr _) \<longleftrightarrow> False"

fun admitted :: "spi_error + publish_acknowledgement \<Rightarrow> bool" where
  "admitted (Inl e) \<longleftrightarrow> False"
| "admitted (Inr ack) \<longleftrightarrow> acknowledges_admission ack"

lemma not_admitted_iff: "not_admitted r \<longleftrightarrow> \<not> uncertain r \<and> \<not> admitted r"
  by (cases r) (auto, metis publish_effect.exhaust)

section \<open>The attempts of one publication\<close>

lemma attempt_step:
  "publish_attempt publish pid m s = (s', r) \<Longrightarrow> pw_calls s' = pw_calls s @ [(m, r)] \<and>
    pw_seen_unknown s' = (pw_seen_unknown s \<or> uncertain r) \<and> pw_seen_admission s' = (pw_seen_admission s \<or> admitted r)"
  by (cases r) (auto simp: publish_attempt_def split: prod.splits)

text \<open>The calls \<open>new\<close> between two states of the world, and the evidence they leave.\<close>

definition calls_made :: "outbound_message \<Rightarrow> (spi_error + publish_acknowledgement) list \<Rightarrow> 'w publish_world \<Rightarrow> 'w publish_world \<Rightarrow> bool" where
  "calls_made m new s s' \<longleftrightarrow> pw_calls s' = pw_calls s @ map (Pair m) new \<and>
     pw_seen_unknown s' = (pw_seen_unknown s \<or> (\<exists>r\<in>set new. uncertain r)) \<and>
     pw_seen_admission s' = (pw_seen_admission s \<or> (\<exists>r\<in>set new. admitted r))"

lemma calls_made_append: "calls_made m new s s1 \<Longrightarrow> calls_made m new' s1 s2 \<Longrightarrow> calls_made m (new @ new') s s2"
  by (auto simp: calls_made_def)

lemma calls_made_attempt: "publish_attempt publish pid m s = (s', r) \<Longrightarrow> calls_made m [r] s s'"
  using attempt_step [of publish pid m s s' r] by (simp add: calls_made_def)

definition gated_rules :: "duplicate_risk_policy \<Rightarrow> ('c, publish_attempt_error) retry_rule list \<Rightarrow> ('c, publish_attempt_error) retry_rule list" where
  "gated_rules dup rules = duplicate_gate dup # rules"

lemma gate_retry:
  "rules_decision (gated_rules dup rules) (AttemptError (attempt_error e)) context = RetryAttempt \<Longrightarrow> dup = Forbid \<Longrightarrow>
    spi_publish_effect e = NotAccepted"
  by (auto simp: gated_rules_def duplicate_gate_def uncertainty_allows_retry_def attempt_error_def split: publish_effect.splits if_splits)

lemma retry_flow_calls:
  assumes "retry_flow (gated_rules dup rules) (retried_attempt publish pid m) s rs s'"
  shows "\<exists>new. calls_made m new s s' \<and> rs = map (map_sum attempt_error id) new \<and> (dup = Forbid \<longrightarrow> (\<forall>r\<in>set (butlast new). refused r))"
  using assms
proof (induction rule: retry_flow.induct)
  case (flow_none s)
  then show ?case by (intro exI [of _ "[]"]) (simp add: calls_made_def)
next
  case (flow_last s s' r)
  obtain q where q: "publish_attempt publish pid m s = (s', q)" "r = map_sum attempt_error id q"
    using flow_last by (auto simp: retried_attempt_def apsnd_def map_prod_def split: prod.splits)
  then show ?case using calls_made_attempt [OF q(1)] by (intro exI [of _ "[q]"]) (simp add: id_def)
next
  case (flow_again s s1 e ctx rs s')
  obtain q where q: "publish_attempt publish pid m s = (s1, q)" "map_sum attempt_error id q = Inl e"
    using flow_again.hyps(1) by (auto simp: retried_attempt_def apsnd_def map_prod_def split: prod.splits)
  then obtain err where err: "q = Inl err" "e = attempt_error err" by (cases q) auto
  obtain new where new: "calls_made m new s1 s'" "rs = map (map_sum attempt_error id) new"
    "dup = Forbid \<longrightarrow> (\<forall>r\<in>set (butlast new). refused r)" using flow_again.IH by blast
  have "calls_made m ([q] @ new) s s'" using calls_made_attempt [OF q(1)] new(1) by (rule calls_made_append)
  moreover have "dup = Forbid \<Longrightarrow> refused q" using gate_retry flow_again.hyps(2) err by auto
  ultimately show ?case using new(2,3) err
    by (intro exI [of _ "q # new"] conjI impI) (auto simp: id_def split: if_splits)
qed

text \<open>Both ways of publishing: the calls made, and how the result relates to the last of them.\<close>

definition publish_ends :: "(spi_error + publish_acknowledgement) list \<Rightarrow> publish_error + publish_acknowledgement \<Rightarrow> bool" where
  "publish_ends new r \<longleftrightarrow> (case r of Inr ack \<Rightarrow> new \<noteq> [] \<and> last new = Inr ack | Inl _ \<Rightarrow> True)"

lemma publish_sync_calls:
  assumes lib: "retry_contract lib"
    and run: "publish_sync lib publish pid m policy rule token dup s = (s', r)"
  shows "\<exists>new. calls_made m new s s' \<and> publish_ends new r \<and> (policy = None \<longrightarrow> length new \<le> 1) \<and>
    (dup = Forbid \<longrightarrow> (\<forall>r\<in>set (butlast new). refused r))"
proof (cases policy)
  case None
  obtain q where q: "publish_attempt publish pid m s = (s', q)" "r = map_sum PublishSpi id q"
    using run None by (auto simp: publish_sync_def apsnd_def map_prod_def split: prod.splits)
  show ?thesis using calls_made_attempt [OF q(1)] q(2) by (intro exI [of _ "[q]"]) (cases q; simp add: publish_ends_def)
next
  case (Some pol)
  show ?thesis
  proof (cases "publish_retry_config lib pol rule dup")
    case (Inl e)
    then show ?thesis using run Some by (intro exI [of _ "[]"]) (auto simp: publish_sync_def calls_made_def publish_ends_def)
  next
    case (Inr cfg)
    then obtain rules where rules: "rc_rules cfg = gated_rules dup rules"
      by (auto simp: publish_retry_config_def gated_rules_def split: option.splits)
    obtain q where q: "rl_run lib cfg token (retried_attempt publish pid m) s = (s', q)" "r = map_sum PublishRetry id q"
      using run Some Inr by (auto simp: publish_sync_def apsnd_def map_prod_def split: prod.splits)
    obtain rs where rs: "retry_flow (gated_rules dup rules) (retried_attempt publish pid m) s rs s'" "retry_result rs q"
      using lib q(1) rules unfolding retry_contract_def by metis
    obtain new where new: "calls_made m new s s'" "rs = map (map_sum attempt_error id) new"
      "dup = Forbid \<longrightarrow> (\<forall>r\<in>set (butlast new). refused r)" using retry_flow_calls [OF rs(1)] by blast
    have "publish_ends new r"
    proof (cases q)
      case (Inr ack)
      then have "new \<noteq> []" "map_sum attempt_error id (last new) = Inr ack" using rs(2) new(2) by (auto simp: last_map)
      then show ?thesis using q(2) Inr by (cases "last new") (auto simp: publish_ends_def)
    qed (use q(2) in \<open>simp add: publish_ends_def\<close>)
    then show ?thesis using new Some by blast
  qed
qed

section \<open>Safety of the attempts\<close>

lemma interceptors_dropped: "run_interceptors is i pid e = Inr (Inl receipt) \<Longrightarrow> receipt = dropped_receipt i pid"
  by (induction "is" arbitrary: e) (auto split: call_result.splits sum.splits option.splits if_splits)

lemma globals_dropped: "run_globals gs i pid h = Inr (Inl receipt) \<Longrightarrow> receipt = dropped_receipt i pid"
  by (induction gs arbitrary: h) (auto split: prod.splits sum.splits bool.splits)

lemma transport_not_dropped: "prepare_transport p weigh i dead e h \<noteq> Inr (PreparationDropped receipt)"
proof -
  have "map_sum id (PreparationReady i) x \<noteq> Inr (PreparationDropped receipt)" for x :: "pipeline_failure + prepared_outbound"
    by (cases x) simp_all
  then show ?thesis by (simp add: prepare_transport_def Let_def split: sum.splits)
qed

lemma prepare_publish_dropped:
  assumes "prepare_publish p e options globals = Inr (PreparationDropped receipt)"
  shows "receipt = dropped_receipt (env_id e) (pp_provider_id p)"
  using assms interceptors_dropped [of "po_interceptors options" "env_id e" "pp_provider_id p" e receipt]
    globals_dropped [of globals "env_id e" "pp_provider_id p" _ receipt]
  by (auto simp: prepare_publish_def transport_not_dropped split: if_splits sum.splits)

text \<open>What the calls and the result of a publication say together.\<close>

definition attempts_safe ::
  "('p, 'c, 'k) publish_options \<Rightarrow> publish_call list \<Rightarrow> pipeline_failure + publish_receipt \<Rightarrow> bool" where
  "attempts_safe options calls r \<longleftrightarrow>
     (\<exists>m. \<forall>c\<in>set calls. fst c = m) \<and>
     (po_retry_policy options = None \<longrightarrow> length calls \<le> 1) \<and>
     (po_duplicate_risk_policy options = Forbid \<longrightarrow> (\<forall>c\<in>set (butlast calls). refused (snd c))) \<and>
     (case r of
        Inr receipt \<Rightarrow>
          if calls = [] then acknowledgement receipt = DroppedByInterceptor
          else snd (last calls) = Inr (acknowledgement receipt) \<and> (duplicate_possible receipt \<longleftrightarrow> (\<exists>c\<in>set calls. uncertain (snd c)))
      | Inl f \<Rightarrow> failure_effect f = NotAccepted \<longrightarrow> (\<forall>c\<in>set calls. not_admitted (snd c)))"

lemma attempts_safe_calls:
  assumes "publish_ends new (Inr ack)" "po_retry_policy options = None \<longrightarrow> length new \<le> 1"
    "po_duplicate_risk_policy options = Forbid \<longrightarrow> (\<forall>r\<in>set (butlast new). refused r)"
    "acknowledgement receipt = ack" "duplicate_possible receipt = (\<exists>r\<in>set new. uncertain r)"
  shows "attempts_safe options (map (Pair m) new) (Inr receipt)"
  using assms by (auto simp: attempts_safe_def publish_ends_def last_map map_butlast [symmetric])

lemma attempts_safe_failed:
  assumes "po_retry_policy options = None \<longrightarrow> length new \<le> 1"
    "po_duplicate_risk_policy options = Forbid \<longrightarrow> (\<forall>r\<in>set (butlast new). refused r)"
    "failure_effect f = NotAccepted \<longrightarrow> (\<forall>r\<in>set new. not_admitted r)"
  shows "attempts_safe options (map (Pair m) new) (Inl f)"
  using assms by (auto simp: attempts_safe_def map_butlast [symmetric])

text \<open>C10: Publishing through the pipeline, whatever provider, interceptors, codec, rules and handlers do and however the
  retry library schedules attempts: every attempt sends the same message; without a retry policy there is at most one; when
  duplicates are forbidden there is no attempt after one that was not plainly refused; a receipt carries the answer to
  the last attempt and says that a duplicate is possible exactly when some attempt was left uncertain; a failure reported as
  not accepted means that no attempt was admitted or left uncertain.\<close>

theorem publish_attempts_safe:
  assumes lib: "retry_contract lib" and run: "pipeline_publish lib publish p e options globals w = (w', calls, ds, r)"
  shows "attempts_safe options calls r"
proof (cases "prepare_publish p e options globals")
  case (Inl f)
  then show ?thesis using run by (auto simp: pipeline_publish_def attempts_safe_def)
next
  case (Inr prep)
  show ?thesis
  proof (cases prep)
    case (PreparationDropped receipt)
    then show ?thesis using run Inr prepare_publish_dropped [of p e options globals receipt]
      by (auto simp: pipeline_publish_def attempts_safe_def dropped_receipt_def publish_receipt_new_def)
  next
    case (PreparationReady i outbound)
    let ?s = "\<lparr>pw_provider = w, pw_seen_unknown = False, pw_seen_admission = False, pw_calls = []\<rparr>"
    obtain s q where q: "publish_sync lib publish (pp_provider_id p) (outbound_build outbound) (po_retry_policy options)
        (po_retry_rule options) (po_retry_cancellation options) (po_duplicate_risk_policy options) ?s = (s, q)"
      by fastforce
    obtain new where new: "calls_made (outbound_build outbound) new ?s s" "publish_ends new q"
      "po_retry_policy options = None \<longrightarrow> length new \<le> 1"
      "po_duplicate_risk_policy options = Forbid \<longrightarrow> (\<forall>r\<in>set (butlast new). refused r)"
      using publish_sync_calls [OF lib q] by (elim exE conjE) (rule that)
    have calls: "calls = map (Pair (outbound_build outbound)) new"
      using run Inr PreparationReady q new(1) by (cases q) (auto simp: pipeline_publish_def calls_made_def)
    have seen: "pw_seen_unknown s = (\<exists>r\<in>set new. uncertain r)" "pw_seen_admission s = (\<exists>r\<in>set new. admitted r)"
      using new(1) by (auto simp: calls_made_def)
    show ?thesis
    proof (cases q)
      case (Inl error)
      have r: "r = Inl (finish_publish_failure outbound (po_error_handlers options) error (pw_seen_unknown s) (pw_seen_admission s))"
        using run Inr PreparationReady q Inl by (auto simp: pipeline_publish_def)
      show ?thesis unfolding calls r using new(3,4) seen
        by (intro attempts_safe_failed) (auto simp: finish_publish_failure_def Let_def failure_def not_admitted_iff)
    next
      case (Inr ack)
      have r: "r = Inr (finish_publish_success p i outbound ack (pw_seen_unknown s))"
        using run \<open>prepare_publish p e options globals = Inr prep\<close> PreparationReady q Inr by (auto simp: pipeline_publish_def)
      show ?thesis unfolding calls r using new(2-4) seen Inr
        by (intro attempts_safe_calls) (auto simp: finish_publish_success_def publish_receipt_new_def)
    qed
  qed
qed

section \<open>The message\<close>

lemma interceptors_keep_id: "run_interceptors is i pid e = Inr (Inr e') \<Longrightarrow> env_id e = i \<Longrightarrow> env_id e' = i"
  by (induction "is" arbitrary: e) (auto split: call_result.splits sum.splits option.splits if_splits)

text \<open>A codec that describes and decodes what it encodes.\<close>

definition codec_lawful :: "event_codec \<Rightarrow> native_value \<Rightarrow> bool" where
  "codec_lawful codec v \<longleftrightarrow> (\<forall>content schema bs. codec_content_type codec = Returned content \<longrightarrow> codec_schema_id codec = Returned schema \<longrightarrow>
     codec_encode codec v = Returned (Inr bs) \<longrightarrow>
     codec_validate_metadata codec \<lparr>bytes = bs, content_type = content, schema_id = schema\<rparr> = Returned (Inr ()) \<and>
     codec_decode codec \<lparr>bytes = bs, content_type = content, schema_id = schema\<rparr> = Returned (Inr v))"

lemma call_codec_Inr: "call_codec operation r = Inr x \<longleftrightarrow> r = Returned (Inr x)"
  by (auto simp: call_codec_def split: call_result.splits)

lemma returned_ok_iff: "returned_ok r = Returned (Inr x) \<longleftrightarrow> r = Returned x"
  by (cases r) simp_all

lemma encode_payload_Inr:
  assumes "encode_payload p codec v = Inr payload"
  shows "\<exists>c bs content schema. codec = Some c \<and> codec_encode c v = Returned (Inr bs) \<and> length bs \<le> unat (pp_max_encoded_payload_bytes p) \<and>
    codec_content_type c = Returned content \<and> codec_schema_id c = Returned schema \<and>
    payload = Encoded \<lparr>bytes = bs, content_type = content, schema_id = schema\<rparr>"
  using assms by (auto simp: encode_payload_def call_codec_Inr returned_ok_iff split: option.splits sum.splits if_splits)

text \<open>The payload that leaves for an event, and its way back through a receiver with the same codec.\<close>

definition decodes_to :: "publisher_pipeline \<Rightarrow> topic \<Rightarrow> native_value \<Rightarrow> transport_payload \<Rightarrow> bool" where
  "decodes_to p t v payload \<longleftrightarrow> (\<forall>max_receive. pp_max_encoded_payload_bytes p \<le> max_receive \<longrightarrow>
     (\<forall>codec. resolve_codec t (pp_codecs p) = Some codec \<longrightarrow> codec_lawful codec v) \<longrightarrow>
     decode_payload (native_type v) (resolve_codec t (pp_codecs p)) payload max_receive = Inr v)"

lemma encode_decodes:
  assumes "encode_payload p (resolve_codec t (pp_codecs p)) v = Inr payload"
  shows "decodes_to p t v payload"
proof -
  obtain c bs content schema where c: "resolve_codec t (pp_codecs p) = Some c" "codec_encode c v = Returned (Inr bs)"
    "length bs \<le> unat (pp_max_encoded_payload_bytes p)" "codec_content_type c = Returned content" "codec_schema_id c = Returned schema"
    "payload = Encoded \<lparr>bytes = bs, content_type = content, schema_id = schema\<rparr>"
    using encode_payload_Inr [OF assms] by blast
  then show ?thesis
    by (auto simp: decodes_to_def decode_payload_def codec_lawful_def call_codec_def word_le_nat_alt)
qed

lemma outbound_prepared:
  assumes "prepare_outbound_for p e modes weight = Inr outbound"
  shows "out_id (outbound_build outbound) = env_id e \<and> out_topic (outbound_build outbound) = topic_name (env_topic e) \<and>
    valid_topic_name (topic_name (env_topic e)) \<and> out_headers (outbound_build outbound) = env_headers e \<and>
    out_timestamp (outbound_build outbound) = env_timestamp e \<and> out_delay (outbound_build outbound) = env_delay e \<and>
    decodes_to p (env_topic e) (env_payload e) (out_payload (outbound_build outbound))"
proof -
  obtain payload where payload: "(case modes of EncodedMode \<Rightarrow> encode_payload p (resolve_codec (env_topic e) (pp_codecs p)) (env_payload e)
      | _ \<Rightarrow> Inr (Native (env_payload e))) = Inr payload" "pb_payload outbound = payload"
    and fields: "valid_topic_name (topic_name (env_topic e))" "pb_topic outbound = topic_name (env_topic e)" "pb_event_id outbound = env_id e"
      "pb_headers outbound = env_headers e" "pb_timestamp outbound = env_timestamp e" "pb_delay outbound = env_delay e"
    using assms
    by (cases modes) (auto simp: prepare_outbound_for_def Let_def context_from_envelope_def topic_address_new_def split: if_splits sum.splits)
  have "decodes_to p (env_topic e) (env_payload e) payload"
    using payload(1) encode_decodes [of p "env_topic e" "env_payload e" payload]
    by (cases modes) (auto simp: decodes_to_def decode_payload_def)
  then show ?thesis using fields payload(2)
    by (simp add: outbound_build_def Let_def outbound_message_new_def with_native_payload_weight_bytes_def split: option.splits)
qed

lemma transport_ready:
  assumes "prepare_transport p weigh i dead e h = Inr (PreparationReady i' outbound)"
  shows "\<exists>weight. prepare_outbound_for p (if dead then set_system_header dead_letter_header dead_letter_header_value (e\<lparr>env_headers := h\<rparr>)
      else e\<lparr>env_headers := h\<rparr>) (cap_payload_modes (pp_capabilities p)) weight = Inr outbound \<and> i' = i \<and>
    (env_delay e \<noteq> None \<longrightarrow> cap_delayed_delivery (pp_capabilities p) \<noteq> NoDelay) \<and>
    (env_ordering_key e \<noteq> None \<longrightarrow> cap_ordering (pp_capabilities p) \<noteq> NoOrdering)"
proof -
  have ready: "map_sum id (PreparationReady i) x = Inr (PreparationReady i' outbound) \<longleftrightarrow> x = Inr outbound \<and> i' = i"
    for x :: "pipeline_failure + prepared_outbound" by (cases x) auto
  show ?thesis using assms
    by (auto simp: prepare_transport_def Let_def ready validate_transport_metadata_def set_system_header_def
        split: sum.splits if_splits option.splits)
qed

lemma prepare_ready:
  assumes "prepare_publish p e options globals = Inr (PreparationReady i outbound)"
  shows "\<exists>e' h. run_interceptors (po_interceptors options) (env_id e) (pp_provider_id p) e = Inr (Inr e') \<and>
    prepare_transport p (po_native_payload_weight options) (env_id e) (is_dead_letter e) e' h = Inr (PreparationReady i outbound)"
  using assms by (auto simp: prepare_publish_def split: if_splits sum.splits)

text \<open>What a message says about the published event \<open>e\<close> and the envelope \<open>e'\<close> the interceptors made of it.\<close>

definition message_faithful :: "publisher_pipeline \<Rightarrow> event_envelope \<Rightarrow> event_envelope \<Rightarrow> outbound_message \<Rightarrow> bool" where
  "message_faithful p e e' m \<longleftrightarrow> out_id m = env_id e \<and> out_topic m = topic_name (env_topic e') \<and> valid_topic_name (out_topic m) \<and>
     out_timestamp m = env_timestamp e' \<and> out_delay m = env_delay e' \<and>
     (out_delay m \<noteq> None \<longrightarrow> cap_delayed_delivery (pp_capabilities p) \<noteq> NoDelay) \<and>
     (is_dead_letter e \<longrightarrow> fmlookup (out_headers m) dead_letter_header = Some dead_letter_header_value) \<and>
     decodes_to p (env_topic e') (env_payload e') (out_payload m)"

lemma prepared_message_faithful:
  assumes "prepare_publish p e options globals = Inr (PreparationReady i outbound)"
  shows "i = env_id e \<and> pb_event_id outbound = env_id e \<and>
    (\<exists>e'. run_interceptors (po_interceptors options) (env_id e) (pp_provider_id p) e = Inr (Inr e') \<and>
      message_faithful p e e' (outbound_build outbound))"
proof -
  obtain e' h where run: "run_interceptors (po_interceptors options) (env_id e) (pp_provider_id p) e = Inr (Inr e')"
    and tr: "prepare_transport p (po_native_payload_weight options) (env_id e) (is_dead_letter e) e' h = Inr (PreparationReady i outbound)"
    using prepare_ready [OF assms] by blast
  let ?e = "if is_dead_letter e then set_system_header dead_letter_header dead_letter_header_value (e'\<lparr>env_headers := h\<rparr>)
    else e'\<lparr>env_headers := h\<rparr>"
  obtain weight where w: "prepare_outbound_for p ?e (cap_payload_modes (pp_capabilities p)) weight = Inr outbound" "i = env_id e"
    "env_delay e' \<noteq> None \<longrightarrow> cap_delayed_delivery (pp_capabilities p) \<noteq> NoDelay"
    using transport_ready [OF tr] by blast
  have "env_id e' = env_id e" using interceptors_keep_id [OF run] by simp
  then have "message_faithful p e e' (outbound_build outbound)"
    using outbound_prepared [OF w(1)] w(3) by (auto simp: message_faithful_def set_system_header_def split: if_splits)
  moreover have "pb_event_id outbound = out_id (outbound_build outbound)"
    by (simp add: outbound_build_def Let_def outbound_message_new_def with_native_payload_weight_bytes_def split: option.splits)
  ultimately show ?thesis using run w(2) by (auto simp: message_faithful_def)
qed


section \<open>A concrete retry library\<close>

text \<open>At most as many attempts as the policy says, without delays; the contract holds for it.\<close>

fun bounded_run ::
  "nat \<Rightarrow> (unit, 'e) retry_rule list \<Rightarrow> ('s \<Rightarrow> 's \<times> ('e + 'a)) \<Rightarrow> 's \<Rightarrow> 's \<times> ('e retry_error + 'a)" where
  "bounded_run 0 rules operation s = (s, Inl \<lparr>re_reason = OtherRetryReason ''exhausted'', re_last_error = None\<rparr>)"
| "bounded_run (Suc n) rules operation s = (case operation s of
       (s', Inr a) \<Rightarrow> (s', Inr a)
     | (s', Inl e) \<Rightarrow>
         if 0 < n \<and> rules_decision rules (AttemptError e) () = RetryAttempt then bounded_run n rules operation s'
         else (s', Inl \<lparr>re_reason = OtherRetryReason ''aborted'', re_last_error = Some e\<rparr>))"

lemma bounded_run_flow:
  "bounded_run n rules operation s = (s', r) \<Longrightarrow> \<exists>rs. retry_flow rules operation s rs s' \<and> retry_result rs r \<and> (0 < n \<longrightarrow> rs \<noteq> [])"
proof (induction n arbitrary: s)
  case 0
  then show ?case using flow_none by force
next
  case (Suc n)
  obtain s1 q where q: "operation s = (s1, q)" by fastforce
  show ?case
  proof (cases q)
    case (Inr a)
    then show ?thesis using Suc.prems q flow_last [of operation s s1 q rules] by (intro exI [of _ "[q]"]) auto
  next
    case (Inl e)
    show ?thesis
    proof (cases "0 < n \<and> rules_decision rules (AttemptError e) () = RetryAttempt")
      case True
      then obtain rs where rs: "retry_flow rules operation s1 rs s'" "retry_result rs r" "rs \<noteq> []"
        using Suc.IH [of s1] Suc.prems q Inl by auto
      have "retry_flow rules operation s (Inl e # rs) s'" using flow_again [OF _ _ rs(1)] q Inl True by auto
      moreover have "retry_result (Inl e # rs) r" using rs(2,3) by (cases r) (auto split: option.splits)
      ultimately show ?thesis by blast
    next
      case False
      then have "s' = s1" "r = Inl \<lparr>re_reason = OtherRetryReason ''aborted'', re_last_error = Some e\<rparr>"
        using Suc.prems q Inl by auto
      then show ?thesis using q Inl flow_last [of operation s s1 q rules] by (intro exI [of _ "[q]"]) auto
    qed
  qed
qed

definition bounded_library :: "(nat, unit, unit, 'e, 'a, 's) retry_library" where
  "bounded_library = \<lparr>rl_build = (\<lambda>policy. if policy = 0 then Some ''no attempts'' else None),
     rl_run = (\<lambda>cfg token operation s. bounded_run (rc_policy cfg) (rc_rules cfg) operation s)\<rparr>"

lemma bounded_library_contract: "retry_contract bounded_library"
  using bounded_run_flow by (fastforce simp: retry_contract_def bounded_library_def)

text \<open>A provider that is busy once and then accepts, and an event of a type with a codec of one byte.\<close>

definition demo_provider :: "nat provider_publish" where
  "demo_provider n m = (Suc n, Returned (if n = 0 then Inl (PublishError ''p'' None ''busy'' (Some True) NotAccepted ''busy'')
     else Inr (AckAccepted None fmempty)))"

definition demo_codec :: event_codec where
  "demo_codec = \<lparr>codec_content_type = Returned ''x'', codec_schema_id = Returned None,
     codec_encode = (\<lambda>v. Returned (Inr [of_nat (native_object v)])),
     codec_validate_metadata = (\<lambda>p. Returned (default_validate_metadata ''x'' None p)),
     codec_decode = (\<lambda>p. Returned (Inr \<lparr>native_type = 7, native_object = unat (hd (bytes p))\<rparr>))\<rparr>"

definition demo_capabilities :: event_bus_capabilities where
  "demo_capabilities = \<lparr>cap_payload_modes = EncodedMode, cap_settlement = AcceptRetryReject, cap_ordering = NoOrdering,
     cap_delayed_delivery = NoDelay, cap_durability = EphemeralMessages, cap_subscription_modes = 1, cap_consumer_groups = False,
     cap_replay = NoReplay, cap_publish_guarantee = Confirmed, cap_publish_visibility = Opaque\<rparr>"

definition demo_pipeline :: publisher_pipeline where
  "demo_pipeline = \<lparr>pp_provider_id = ''p'', pp_codecs = fmempty, pp_capabilities = demo_capabilities, pp_max_encoded_payload_bytes = 16\<rparr>"

definition demo_envelope :: event_envelope where
  "demo_envelope = set_system_header dead_letter_header dead_letter_header_value (with_id_and_shared_payload 0
     \<lparr>topic_name = ''orders'', topic_type = 7, topic_codec = Some demo_codec\<rparr> \<lparr>native_type = 7, native_object = 5\<rparr> ''e1'')"

definition demo_options :: "(nat, unit, unit) publish_options" where
  "demo_options = publish_options_default\<lparr>po_retry_policy := Some 3\<rparr>"

abbreviation demo_publication where
  "demo_publication \<equiv> pipeline_publish bounded_library demo_provider demo_pipeline demo_envelope demo_options
     [\<lambda>h. (fmempty, Returned (Inr True))] 0"

lemma demo_publication_calls:
  "map snd (fst (snd demo_publication)) = [Inl (PublishError ''p'' None ''busy'' (Some True) NotAccepted ''busy''), Inr (AckAccepted None fmempty)]"
  "fst demo_publication = 2" "\<exists>receipt. snd (snd (snd demo_publication)) = Inr receipt"
proof -
  show "map snd (fst (snd demo_publication)) = [Inl (PublishError ''p'' None ''busy'' (Some True) NotAccepted ''busy''), Inr (AckAccepted None fmempty)]"
    by code_simp
  show "fst demo_publication = 2" by code_simp
  have "\<not> isl (snd (snd (snd demo_publication)))" by code_simp
  then show "\<exists>receipt. snd (snd (snd demo_publication)) = Inr receipt" by (metis sum.collapse(2))
qed

theorem publish_attempts_safe_witness:
  "attempts_safe demo_options (fst (snd demo_publication)) (snd (snd (snd demo_publication))) \<and> length (fst (snd demo_publication)) = 2"
proof -
  obtain w' calls ds r where run: "demo_publication = (w', calls, ds, r)" by (metis prod.exhaust)
  have "length (map snd calls) = 2" using demo_publication_calls(1) by (simp add: run)
  then show ?thesis using publish_attempts_safe [OF bounded_library_contract run] by (simp add: run)
qed


end
