(* ===== verification/Subscriber_Pipeline.thy ===== *)
theory Subscriber_Pipeline
  imports Publish_Pipeline
begin

text \<open>
  Processing one delivery: the middleware chain and the acknowledgement rules of
  \<open>src/src/pipeline/subscriber_pipeline.rs\<close>, the acknowledgement cell, the choice among the directives of error
  handlers, the capability checks of a subscription, and the identity of a dead letter.

  A middleware gets the delivery and \<open>next\<close>, which it can call at most once: \<open>mw_before\<close> is what it does up to that
  call, ending with a result of its own or the delivery it passes on, and \<open>mw_after\<close> what it does with the result. User
  code works on the acknowledgement cell and a state of its own. \<open>aw_rejected\<close> is the flag of
  \<open>run_delivery_attempt\<close>, set where its wrapped handler is called; \<open>aw_handler_calls\<close> counts those calls and nothing
  reads it.
\<close>

section \<open>Errors and acknowledgements\<close>

record delivery_attempt_error =
  dae_kind :: string
  dae_retryable :: "bool option"
  dae_source :: string

datatype delivery_error =
    HandlerFailed string
  | HandlerStartRejected
  | DeliveryCodec codec_error
  | DeliverySpi spi_error
  | DeliveryRetry "delivery_attempt_error retry_error"

datatype acknowledgement_state = AckPending | Acknowledged | NegativelyAcknowledged

definition ack_state :: "8 word \<Rightarrow> acknowledgement_state" where
  "ack_state s = (if s = 1 then Acknowledged else if s = 2 then NegativelyAcknowledged else AckPending)"

text \<open>\<open>compare_exchange\<close> from pending; the result is whether the decision stands.\<close>

definition ack_complete :: "8 word \<Rightarrow> 8 word \<Rightarrow> 8 word \<times> bool" where
  "ack_complete decision s = (if s = 0 then (decision, True) else (s, s = decision))"

definition ack :: "8 word \<Rightarrow> 8 word \<times> bool" where
  "ack s = ack_complete 1 s"

definition nack :: "8 word \<Rightarrow> 8 word \<times> bool" where
  "nack s = ack_complete 2 s"

section \<open>The chain\<close>

record delivery_context =
  dc_provider_id :: string
  dc_subscription_id :: id
  dc_subscriber_id :: subscriber_id
  dc_retry_attempt :: u32
  dc_provider_attempt :: "u32 option"
  dc_provider_metadata :: headers
  dc_can_settle :: bool
  dc_dead_letter :: bool

definition delivery_context_new :: "string \<Rightarrow> id \<Rightarrow> subscriber_id \<Rightarrow> delivery_context" where
  "delivery_context_new provider i subscriber = \<lparr>dc_provider_id = provider, dc_subscription_id = i, dc_subscriber_id = subscriber,
     dc_retry_attempt = 1, dc_provider_attempt = None, dc_provider_metadata = fmempty, dc_can_settle = False, dc_dead_letter = False\<rparr>"

record delivery =
  del_event :: event_envelope
  del_context :: delivery_context

definition next_attempt :: "u32 \<Rightarrow> delivery \<Rightarrow> delivery" where
  "next_attempt n d = d\<lparr>del_context := (del_context d)\<lparr>dc_retry_attempt := n\<rparr>\<rparr>"

type_synonym 's user_state = "8 word \<times> 's"
type_synonym 's delivery_handler = "delivery \<Rightarrow> 's user_state \<Rightarrow> 's user_state \<times> (delivery_error + unit) call_result"

record 's middleware =
  mw_before :: "delivery \<Rightarrow> 's user_state \<Rightarrow> 's user_state \<times> ((delivery_error + unit) call_result + delivery)"
  mw_after :: "delivery \<Rightarrow> delivery_error + unit \<Rightarrow> 's user_state \<Rightarrow> 's user_state \<times> (delivery_error + unit) call_result"

record 's attempt_world =
  aw_user :: "'s user_state"
  aw_rejected :: bool
  aw_handler_calls :: nat

definition chain_panic_message :: "panic_payload \<Rightarrow> string" where
  "chain_panic_message payload = (case payload of
       TextPayload _ \<Rightarrow> ''subscriber middleware or handler panicked''
     | OtherPayload \<Rightarrow> ''subscriber middleware or handler panicked with a non-string payload'')"

definition caught :: "(delivery_error + unit) call_result \<Rightarrow> delivery_error + unit" where
  "caught result = (case result of Returned r \<Rightarrow> r | Unwound payload \<Rightarrow> Inl (HandlerFailed (chain_panic_message payload)))"

fun sync_next ::
  "'s middleware list \<Rightarrow> 's delivery_handler \<Rightarrow> delivery \<Rightarrow> 's attempt_world \<Rightarrow> 's attempt_world \<times> (delivery_error + unit)" where
  "sync_next [] handler d w = (case handler d (aw_user w) of
       (u, result) \<Rightarrow> (w\<lparr>aw_user := u, aw_rejected := aw_rejected w \<or> result = Returned (Inl HandlerStartRejected),
         aw_handler_calls := Suc (aw_handler_calls w)\<rparr>, caught result))"
| "sync_next (m # chain) handler d w = (case mw_before m d (aw_user w) of
       (u, Inl result) \<Rightarrow> (w\<lparr>aw_user := u\<rparr>, caught result)
     | (u, Inr d') \<Rightarrow> (case sync_next chain handler d' (w\<lparr>aw_user := u\<rparr>) of
         (w1, r) \<Rightarrow> (case mw_after m d r (aw_user w1) of
           (u1, result) \<Rightarrow> (w1\<lparr>aw_user := u1\<rparr>, caught result))))"

definition run_sync ::
  "'s middleware list \<Rightarrow> 's middleware list \<Rightarrow> 's delivery_handler \<Rightarrow> delivery \<Rightarrow> 's attempt_world \<Rightarrow>
   's attempt_world \<times> (delivery_error + unit)" where
  "run_sync global typed handler d w = sync_next (global @ typed) handler d w"

datatype ack_mode = Auto | Manual

datatype attempt_outcome = AttemptSuccess | AttemptFailure delivery_error

definition finish_attempt :: "ack_mode \<Rightarrow> acknowledgement_state \<Rightarrow> delivery_error + unit \<Rightarrow> attempt_outcome" where
  "finish_attempt mode state result = (case result of
       Inl error \<Rightarrow> AttemptFailure error
     | Inr _ \<Rightarrow> (case mode of
         Auto \<Rightarrow> AttemptSuccess
       | Manual \<Rightarrow> (case state of
           Acknowledged \<Rightarrow> AttemptSuccess
         | AckPending \<Rightarrow> AttemptFailure (HandlerFailed ''manual acknowledgement remained pending'')
         | NegativelyAcknowledged \<Rightarrow> AttemptFailure (HandlerFailed ''delivery was negatively acknowledged''))))"

definition attempt_sync ::
  "ack_mode \<Rightarrow> 's middleware list \<Rightarrow> 's middleware list \<Rightarrow> 's delivery_handler \<Rightarrow> delivery \<Rightarrow> 's attempt_world \<Rightarrow>
   's attempt_world \<times> attempt_outcome" where
  "attempt_sync mode global typed handler d w = (case run_sync global typed handler d w of
       (w', r) \<Rightarrow> (w', finish_attempt mode (ack_state (fst (aw_user w'))) r))"

text \<open>A fresh attempt starts with a pending cell and the flag clear.\<close>

definition run_delivery_attempt ::
  "ack_mode \<Rightarrow> 's middleware list \<Rightarrow> 's middleware list \<Rightarrow> 's delivery_handler \<Rightarrow> delivery \<Rightarrow> 's \<Rightarrow>
   's attempt_world \<times> attempt_outcome" where
  "run_delivery_attempt mode global typed handler d s =
     (case attempt_sync mode global typed handler d \<lparr>aw_user = (0, s), aw_rejected = False, aw_handler_calls = 0\<rparr> of
        (w, outcome) \<Rightarrow> (w, if aw_rejected w then AttemptFailure HandlerStartRejected else outcome))"

section \<open>Directives\<close>

datatype delivery_failure_action = RetryLocally | RequeueAction | DeadLetterAction | DiscardAction

fun failure_action :: "failure_directive \<Rightarrow> delivery_failure_action" where
  "failure_action RetryDelivery = RetryLocally"
| "failure_action Requeue = RequeueAction"
| "failure_action DeadLetter = DeadLetterAction"
| "failure_action Discard = DiscardAction"

definition failure_disposition :: "delivery_failure_action \<Rightarrow> settlement_capabilities \<Rightarrow> delivery_disposition option" where
  "failure_disposition action capability = (case capability of
       AcceptRetryReject \<Rightarrow> (case action of
         RequeueAction \<Rightarrow> Some Retry | RetryLocally \<Rightarrow> None | DeadLetterAction \<Rightarrow> Some Reject | DiscardAction \<Rightarrow> Some Reject)
     | _ \<Rightarrow> None)"

text \<open>The loop of \<open>choose_failure_directive\<close>; a panic of a callback is \<^const>\<open>None\<close>.\<close>

fun collect_directives :: "failure_directive option list \<Rightarrow> bool \<Rightarrow> failure_directive option \<Rightarrow> bool \<times> failure_directive option" where
  "collect_directives [] retry_requested final = (retry_requested, final)"
| "collect_directives (d # ds) retry_requested final = (case d of
       Some RetryDelivery \<Rightarrow> collect_directives ds True final
     | Some directive \<Rightarrow> collect_directives ds retry_requested (case final of None \<Rightarrow> Some directive | Some _ \<Rightarrow> final)
     | None \<Rightarrow> collect_directives ds retry_requested (case final of None \<Rightarrow> Some Discard | Some _ \<Rightarrow> final))"

definition choose_failure_directive :: "bool \<Rightarrow> failure_directive option list \<Rightarrow> failure_directive" where
  "choose_failure_directive retry_enabled directives = (case collect_directives directives False None of
       (retry_requested, final) \<Rightarrow> (case final of
         Some directive \<Rightarrow> directive
       | None \<Rightarrow> if retry_requested \<and> retry_enabled then RetryDelivery else Discard))"

definition terminal_directive :: "retry_error_reason \<Rightarrow> failure_directive \<Rightarrow> failure_directive" where
  "terminal_directive reason requested =
     (if reason = RuleCallbackFailed then Requeue else if requested = RetryDelivery then Discard else requested)"

section \<open>Capability checks of a subscription\<close>

definition validate_ack_capability :: "ack_mode \<Rightarrow> settlement_capabilities \<Rightarrow> capability_error + unit" where
  "validate_ack_capability mode capability =
     (if mode = Manual \<and> capability \<noteq> AcceptRetryReject then Inl (Unsupported ''manual_ack'') else Inr ())"

definition validate_subscription_capabilities ::
  "subscription_durability \<Rightarrow> string option \<Rightarrow> start_position \<Rightarrow> event_bus_capabilities \<Rightarrow> capability_error + unit" where
  "validate_subscription_capabilities durability consumer_group start caps =
     (if \<not> modes_support (cap_subscription_modes caps) durability then Inl (Unsupported ''subscription_durability'')
      else if durability = Durable \<and> cap_durability caps \<noteq> DurableMessages then Inl (Unsupported ''durability'')
      else if consumer_group \<noteq> None \<and> \<not> cap_consumer_groups caps then Inl (Unsupported ''consumer_groups'')
      else if start \<noteq> New \<and> cap_replay caps \<notin> {PositionReplay, TimestampReplay} then Inl (Unsupported ''replay'')
      else Inr ())"

section \<open>Dead-letter identities\<close>

fun fnv_hash :: "u64 \<Rightarrow> byte list \<Rightarrow> u64" where
  "fnv_hash value [] = value"
| "fnv_hash value (b # bs) = fnv_hash ((value XOR ucast b) * 0x100000001b3) bs"

definition seeded_hash :: "u64 \<Rightarrow> string \<Rightarrow> string \<Rightarrow> u64" where
  "seeded_hash seed a b = fnv_hash seed (utf8_bytes a @ [0] @ utf8_bytes b)"

definition hex_digit :: "nat \<Rightarrow> char" where
  "hex_digit n = char_of (if n < 10 then 48 + n else 87 + n)"

text \<open>The format \<open>{:016x}\<close>.\<close>

definition hex16 :: "u64 \<Rightarrow> string" where
  "hex16 w = map (\<lambda>i. hex_digit (unat (take_bit 4 (drop_bit (4 * (15 - i)) w)))) [0..<16]"

definition dead_letter_id :: "event_id \<Rightarrow> subscriber_id \<Rightarrow> event_id" where
  "dead_letter_id event subscriber =
     ''dlq-'' @ hex16 (seeded_hash 0xcbf29ce484222325 event subscriber) @ hex16 (seeded_hash 0x84222325cbf29ce4 subscriber event)"

section \<open>Properties\<close>

text \<open>The identity of the repository's own test.\<close>

lemma dead_letter_id_vector: "dead_letter_id ''order-42'' ''billing'' = ''dlq-5177e8019aa006974ef10db127dff43c''"
  by code_simp

text \<open>The identity is a valid one, so its construction never panics.\<close>

definition id_char :: "char \<Rightarrow> bool" where
  "id_char c \<longleftrightarrow> (let n = of_char c :: nat in 0x21 \<le> n \<and> n < 0x7F)"

lemma hex_digit_char: "n < 16 \<Longrightarrow> id_char (hex_digit n)"
  by (auto simp: hex_digit_def id_char_def Let_def)

lemma hex16_chars: "list_all id_char (hex16 w)" "length (hex16 w) = 16"
proof -
  have "unat (take_bit 4 v) < 16" for v :: u64
    using take_bit_nat_less_exp [of 4 "unat v"] by (simp add: unsigned_take_bit_eq)
  then show "list_all id_char (hex16 w)" by (simp add: hex16_def list_all_iff hex_digit_char)
qed (simp add: hex16_def)

lemma utf8_bytes_ascii: "list_all id_char s \<Longrightarrow> utf8_bytes s = utf8 (map of_char s)"
  by (induction s) (auto simp: utf8_bytes_def utf8_encode_def id_char_def Let_def of_char_def)

lemma id_chars_accepted:
  assumes "list_all id_char s" "s \<noteq> []"
  shows "is_nonblank_without_controls (utf8_bytes s) = Some True"
proof -
  have "\<forall>c\<in>set s. 0x21 \<le> (of_char c :: nat) \<and> (of_char c :: nat) < 0x7F" using assms(1) by (auto simp: list_all_iff id_char_def Let_def)
  then have r: "\<forall>c\<in>set (map of_char s). 0x21 \<le> (c :: nat) \<and> c < 0x7F" by simp
  then have "hd (map of_char s) \<ge> (0x21 :: nat) \<and> hd (map of_char s) < (0x7F :: nat)" "last (map of_char s) \<ge> (0x21 :: nat) \<and> last (map of_char s) < (0x7F :: nat)"
    using assms(2) hd_in_set [of "map of_char s"] last_in_set [of "map of_char s"] by blast+
  then have "text_accepted (map of_char s)" using r assms(2)
    by (auto simp: text_accepted_def control_character_def white_space_def)
  moreover have "\<forall>c\<in>set (map of_char s). scalar_value c" using r by (auto simp: scalar_value_def)
  ultimately show ?thesis using nonblank_utf8 [of "map of_char s"] utf8_bytes_ascii [OF assms(1)] by simp
qed

lemma dead_letter_id_valid: "event_id_ok (utf8_bytes (dead_letter_id event subscriber)) = Some True"
proof -
  let ?i = "dead_letter_id event subscriber"
  have "list_all id_char ''dlq-''" by (simp add: id_char_def Let_def)
  then have "list_all id_char ?i" "length ?i = 36"
    unfolding dead_letter_id_def using hex16_chars by (simp_all only: list_all_append length_append) simp_all
  moreover have "?i \<noteq> []" by (simp add: dead_letter_id_def)
  ultimately show ?thesis using id_chars_accepted [of ?i] by (simp add: event_id_ok_def utf8_bytes_def)
qed

text \<open>Directives: the first one that is not a retry decides, a panic counting as discard.\<close>

lemma collect_directives_spec:
  "collect_directives ds r t = (r \<or> Some RetryDelivery \<in> set ds,
     case t of Some d \<Rightarrow> Some d | None \<Rightarrow> map_option (case_option Discard id) (find (\<lambda>d. d \<noteq> Some RetryDelivery) ds))"
  by (induction ds arbitrary: r t) (auto split: option.splits failure_directive.splits)

lemma choose_failure_directive_spec:
  "choose_failure_directive retry_enabled ds = (case find (\<lambda>d. d \<noteq> Some RetryDelivery) ds of
      Some (Some d) \<Rightarrow> d
    | Some None \<Rightarrow> Discard
    | None \<Rightarrow> if ds \<noteq> [] \<and> retry_enabled then RetryDelivery else Discard)"
proof (cases "find (\<lambda>d. d \<noteq> Some RetryDelivery) ds")
  case None
  then have "\<forall>d\<in>set ds. d = Some RetryDelivery" by (auto simp: find_None_iff)
  then have "Some RetryDelivery \<in> set ds \<longleftrightarrow> ds \<noteq> []" by (cases ds) auto
  with None show ?thesis by (simp add: choose_failure_directive_def collect_directives_spec)
next
  case (Some x)
  then show ?thesis by (cases x) (simp_all add: choose_failure_directive_def collect_directives_spec)
qed

text \<open>The chain calls the handler at most once, and a rejection is noticed however the middleware treats it.\<close>

lemma sync_next_calls:
  "sync_next chain handler d w = (w', r) \<Longrightarrow>
    aw_handler_calls w' = aw_handler_calls w \<and> aw_rejected w' = aw_rejected w \<or> aw_handler_calls w' = Suc (aw_handler_calls w)"
proof (induction chain arbitrary: d w w' r)
  case Nil
  then show ?case by (auto split: prod.splits)
next
  case (Cons m chain)
  obtain u x where x: "mw_before m d (aw_user w) = (u, x)" by fastforce
  show ?case
  proof (cases x)
    case (Inl result)
    then show ?thesis using Cons.prems x by auto
  next
    case (Inr d')
    obtain w1 r1 where w1: "sync_next chain handler d' (w\<lparr>aw_user := u\<rparr>) = (w1, r1)" by fastforce
    obtain u1 r2 where u1: "mw_after m d r1 (aw_user w1) = (u1, r2)" by fastforce
    have "w' = w1\<lparr>aw_user := u1\<rparr>" using Cons.prems x Inr w1 u1 by auto
    then show ?thesis using Cons.IH [OF w1] by auto
  qed
qed

lemma ack_final: "s \<noteq> 0 \<Longrightarrow> fst (ack_complete decision s) = s"
  by (simp add: ack_complete_def)


text \<open>A handler that finds its subscription stopped, behind a middleware that turns every result into success.\<close>

definition demo_received :: delivery where
  "demo_received = \<lparr>del_event = with_id_and_shared_payload 0 \<lparr>topic_name = ''orders'', topic_type = 7, topic_codec = None\<rparr>
       \<lparr>native_type = 7, native_object = 5\<rparr> ''e1'', del_context = delivery_context_new ''p'' 1 ''billing''\<rparr>"


end
