(* ===== verification/Delivery_Failure.thy ===== *)
theory Delivery_Failure
  imports Subscriber_Pipeline Owner_Phases
begin

text \<open>
  What happens to a delivery that cannot be handled: preparing and filtering it
  (\<open>src/src/facade/event_bus/delivery.rs\<close>), the directives of its error handlers, forwarding to a dead-letter topic,
  and the settlement or abandonment routed to the receiver owner (\<open>src/src/facade/event_bus/failure.rs\<close>), with the
  end of an attempt in \<open>src/src/facade/event_bus/worker.rs\<close>.

  Messages to the owner are sent on its own thread, so its channel is open. The text of an error (\<open>df_show\<close>), the runtime
  type and the allocation of a dead-letter record are parameters; the capabilities in \<open>df_owner\<close> and in
  \<open>df_pipeline\<close> are copies of the same value of the bus. The value \<^const>\<open>None\<close> of a step is an overflow
  panic of the scheduling core.
\<close>

section \<open>Environment\<close>

datatype dead_letter_admission_policy = TransportAccepted | KnownDestination

record dead_letter_policy =
  dl_topic_name :: string
  dl_admission :: dead_letter_admission_policy

definition dead_letter_policy_with_admission ::
  "string \<Rightarrow> dead_letter_admission_policy \<Rightarrow> configuration_error + dead_letter_policy" where
  "dead_letter_policy_with_admission name admission =
     (if valid_topic_name name then Inr \<lparr>dl_topic_name = name, dl_admission = admission\<rparr>
      else Inl (InvalidField ''dead_letter'' ''topic must be 1..=255 UTF-8 bytes without surrounding whitespace or controls''))"

record dead_letter_event =
  dle_original_event :: event_envelope
  dle_subscriber_id :: subscriber_id
  dle_reason :: string

datatype dead_letter_forward_error = ForwardPublish publish_failure | ForwardNotAdmitted admission_outcome

type_synonym subscribe_error_handler = "event_envelope \<Rightarrow> delivery_error \<Rightarrow> failure_directive call_result"

record ('pol, 'k) subscribe_options =
  so_retry_policy :: "'pol option"
  so_retry_cancellation :: "'k option"
  so_error_handlers :: "subscribe_error_handler list"
  so_filter :: "(event_envelope \<Rightarrow> bool call_result) option"
  so_dead_letter :: "dead_letter_policy option"

record ('pol, 'c, 'k, 'j, 'p) failure_env =
  df_owner :: "'p owner_env"
  df_pipeline :: publisher_pipeline
  df_publish :: "'p provider_publish"
  df_publish_retry :: "('pol, 'c, 'k, 'p) publish_retry_library"
  df_forward_retry :: "('pol, 'c, 'k, dead_letter_forward_error, publish_receipt, ('j, 'p) owner_world) retry_library"
  df_show :: "delivery_error \<Rightarrow> string"
  df_show_forward :: "dead_letter_forward_error \<Rightarrow> string"
  df_show_retry :: "dead_letter_forward_error retry_error \<Rightarrow> string"
  df_show_configuration :: "configuration_error \<Rightarrow> string"
  df_record_type :: "type_id \<Rightarrow> type_id"
  df_record_value :: "dead_letter_event \<Rightarrow> native_value"
  df_now :: system_time

section \<open>Routing to the owner\<close>

definition router_abandon :: "('j, 'p) owner_world \<Rightarrow> lease \<Rightarrow> id \<Rightarrow> ('j, 'p) owner_world" where
  "router_abandon w l i = w\<lparr>ow_messages := ow_messages w @ [Abandoned l], ow_scheduler := sync_notify (ow_scheduler w) i\<rparr>"

definition router_settle ::
  "('j, 'p) owner_world \<Rightarrow> lease \<Rightarrow> settlement_token option \<Rightarrow> delivery_disposition \<Rightarrow> event_id \<Rightarrow> string \<Rightarrow> id \<Rightarrow> subscriber_id \<Rightarrow>
   ('j, 'p) owner_world" where
  "router_settle w l token disposition event topic i subscriber =
     w\<lparr>ow_messages := ow_messages w @ [Settlement l token disposition event topic i subscriber],
       ow_scheduler := sync_notify (ow_scheduler w) i\<rparr>"

definition settle_token ::
  "('j, 'p) owner_world \<Rightarrow> lease \<Rightarrow> settlement_token option \<Rightarrow> delivery_disposition \<Rightarrow> event_envelope \<Rightarrow> id \<Rightarrow> subscriber_id \<Rightarrow>
   ('j, 'p) owner_world" where
  "settle_token w l token disposition event i subscriber = (case token of
       None \<Rightarrow> w
     | Some token \<Rightarrow> router_settle w l (Some token) disposition (env_id event) (topic_name (env_topic event)) i subscriber)"

definition settle_rejected ::
  "('pol, 'c, 'k, 'j, 'p) failure_env \<Rightarrow> ('j, 'p) owner_world \<Rightarrow> lease \<Rightarrow> settlement_token option \<Rightarrow> id \<Rightarrow> subscriber_id \<Rightarrow> event_id \<Rightarrow>
   string \<Rightarrow> delivery_error \<Rightarrow> ('j, 'p) owner_world" where
  "settle_rejected env w l token i subscriber event topic error =
     (let w1 = (case token of
          Some t \<Rightarrow>
            if \<not> belongs_to t i \<or> env_settlement (df_owner env) = AcceptRetryReject
            then router_settle w l (Some t) Reject event topic i subscriber
            else emit (router_abandon (count_abandoned (df_owner env) w i) l i) (SettlementUnavailable event topic i subscriber Reject)
        | None \<Rightarrow> router_abandon (count_abandoned (df_owner env) w i) l i)
      in emit w1 (DeliveryFailed event topic i subscriber 0 (df_show env error)))"

section \<open>Dead letters\<close>

definition was_accepted :: "publish_receipt \<Rightarrow> publish_guarantee \<Rightarrow> dead_letter_admission_policy \<Rightarrow> bool" where
  "was_accepted receipt guarantee policy \<longleftrightarrow> (case ack_admission_outcome (acknowledgement receipt) of
       OutcomeAccepted _ \<Rightarrow> True
     | PartiallyAccepted _ \<Rightarrow> True
     | OpaqueAccepted \<Rightarrow> policy = TransportAccepted \<and> guarantee \<in> {GuaranteeAccepted, Confirmed, DurablyStored}
     | _ \<Rightarrow> False)"

definition dead_letter_envelope ::
  "('pol, 'c, 'k, 'j, 'p) failure_env \<Rightarrow> delivery \<Rightarrow> delivery_error \<Rightarrow> string \<Rightarrow> configuration_error + event_envelope option" where
  "dead_letter_envelope env d error name =
     (if dc_dead_letter (del_context d) then Inr None
      else let record = \<lparr>dle_original_event = del_event d, dle_subscriber_id = dc_subscriber_id (del_context d), dle_reason = df_show env error\<rparr>
        in case topic_new (df_record_type env (topic_type (env_topic (del_event d)))) name of
            Inl e \<Rightarrow> Inl e
          | Inr t \<Rightarrow> Inr (Some (set_system_header dead_letter_header dead_letter_header_value
              (with_id_and_shared_payload (df_now env) t (df_record_value env record)
                (dead_letter_id (env_id (del_event d)) (dc_subscriber_id (del_context d)))))))"

text \<open>The rule of \<open>dead_letter_forward::retry_config\<close>.\<close>

definition forward_effect :: "dead_letter_forward_error attempt_failure \<Rightarrow> publish_effect" where
  "forward_effect fl = (case fl of
       AttemptError (ForwardPublish f) \<Rightarrow> pf_effect f
     | AttemptError (ForwardNotAdmitted outcome) \<Rightarrow> (case outcome of
         NoneAccepted _ \<Rightarrow> NotAccepted | NoDestinations \<Rightarrow> NotAccepted | Dropped \<Rightarrow> NotAccepted | _ \<Rightarrow> MayHaveBeenAccepted)
     | OtherAttemptFailure \<Rightarrow> MayHaveBeenAccepted)"

definition forward_rule :: "('c, dead_letter_forward_error) retry_rule" where
  "forward_rule fl ctx = (if uncertainty_allows_retry (forward_effect fl) Forbid then RetryAttempt else AbortFlow)"

definition publish_once ::
  "('pol, 'c, 'k, 'j, 'p) failure_env \<Rightarrow> event_envelope \<Rightarrow> dead_letter_admission_policy \<Rightarrow> ('j, 'p) owner_world \<Rightarrow>
   ('j, 'p) owner_world \<times> (dead_letter_forward_error + publish_receipt)" where
  "publish_once env e policy w =
     (case publish_internal (df_publish_retry env) (df_publish env) (df_pipeline env) e publish_options_default (ow_provider w) of
        (p, calls, ds, r) \<Rightarrow>
          (w\<lparr>ow_provider := p, ow_diagnostics := ow_diagnostics w @ ds\<rparr>,
           case r of
             Inl f \<Rightarrow> Inl (ForwardPublish f)
           | Inr receipt \<Rightarrow>
               if was_accepted receipt (cap_publish_guarantee (pp_capabilities (df_pipeline env))) policy then Inr receipt
               else Inl (ForwardNotAdmitted (ack_admission_outcome (acknowledgement receipt)))))"

definition publish_dead_letter_sync ::
  "('pol, 'c, 'k, 'j, 'p) failure_env \<Rightarrow> event_envelope \<Rightarrow> 'pol option \<Rightarrow> 'k option \<Rightarrow> dead_letter_admission_policy \<Rightarrow>
   ('j, 'p) owner_world \<Rightarrow> ('j, 'p) owner_world \<times> (string + publish_receipt)" where
  "publish_dead_letter_sync env e retry_policy cancellation policy w = (case retry_policy of
       None \<Rightarrow> apsnd (map_sum (df_show_forward env) id) (publish_once env e policy w)
     | Some pol \<Rightarrow> (case rl_build (df_forward_retry env) pol of
         Some message \<Rightarrow> (w, Inl message)
       | None \<Rightarrow> apsnd (map_sum (df_show_retry env) id)
           (rl_run (df_forward_retry env) \<lparr>rc_policy = pol, rc_rules = [forward_rule]\<rparr> cancellation (publish_once env e policy) w)))"

definition stop_after_dead_letter_failure ::
  "('pol, 'c, 'k, 'j, 'p) failure_env \<Rightarrow> ('j, 'p) owner_world \<Rightarrow> id \<Rightarrow> ('j, 'p) owner_world option" where
  "stop_after_dead_letter_failure env w i =
     (let ephemeral = env_durability (df_owner env) = EphemeralMessages;
          w1 = (if ephemeral then w\<lparr>ow_abandoned := ow_abandoned w + 1\<rparr> else w)
      in case fmlookup (ow_subscriptions w1) i of
          None \<Rightarrow> Some w1
        | Some metrics \<Rightarrow>
            let w2 = (if ephemeral then w1\<lparr>ow_metrics := record_abandoned_ephemeral (ow_metrics w1) metrics\<rparr> else w1);
                w3 = (if control_id (ow_control w2) = i then w2\<lparr>ow_control := request_cancel (ow_control w2)\<rparr> else w2)
            in map_option (\<lambda>s. w3\<lparr>ow_scheduler := s\<rparr>) (cancel_subscription (ow_scheduler w3) i))"

text \<open>The disposition for the source delivery, and whether forwarding failed.\<close>

definition forward_failed ::
  "('pol, 'c, 'k, 'j, 'p) failure_env \<Rightarrow> ('j, 'p) owner_world \<Rightarrow> id \<Rightarrow> string \<Rightarrow> string \<Rightarrow>
   (('j, 'p) owner_world \<times> delivery_disposition option \<times> bool) option" where
  "forward_failed env w i origin message =
     map_option (\<lambda>w'. (w', None, True)) (stop_after_dead_letter_failure env (emit_internal w origin message) i)"

definition forward_dead_letter ::
  "('pol, 'c, 'k, 'j, 'p) failure_env \<Rightarrow> ('j, 'p) owner_world \<Rightarrow> event_envelope \<Rightarrow> delivery_error \<Rightarrow> id \<Rightarrow> subscriber_id \<Rightarrow>
   ('pol, 'k) subscribe_options \<Rightarrow> (('j, 'p) owner_world \<times> delivery_disposition option \<times> bool) option" where
  "forward_dead_letter env w event error i subscriber options = (case so_dead_letter options of
       None \<Rightarrow> forward_failed env w i ''dead_letter_policy'' ''dead-letter directive has no configured topic''
     | Some policy \<Rightarrow>
         (case dead_letter_envelope env \<lparr>del_event = event, del_context = delivery_context_new (env_provider_id (df_owner env)) i subscriber\<rparr>
             error (dl_topic_name policy) of
            Inl build_error \<Rightarrow> forward_failed env w i ''dead_letter_build'' (df_show_configuration env build_error)
          | Inr None \<Rightarrow> forward_failed env w i ''dead_letter_build'' ''dead-letter event was not created''
          | Inr (Some e) \<Rightarrow>
              (case publish_dead_letter_sync env e (so_retry_policy options) (so_retry_cancellation options) (dl_admission policy) w of
                 (w1, Inl message) \<Rightarrow> forward_failed env w1 i ''dead_letter_publish'' message
               | (w1, Inr receipt) \<Rightarrow>
                   Some (case ack_admission_outcome (acknowledgement receipt) of
                       PartiallyAccepted _ \<Rightarrow> emit_internal w1 ''dead_letter_partial''
                         ''dead-letter publication was partially accepted; retrying the whole record may duplicate it''
                     | _ \<Rightarrow> w1,
                     failure_disposition DeadLetterAction (env_settlement (df_owner env)), False))))"

section \<open>Failed deliveries\<close>

definition requested_disposition :: "delivery_failure_action \<Rightarrow> delivery_disposition" where
  "requested_disposition action = (if action = RequeueAction then Retry else Reject)"

text \<open>From the last test of the settlement on: what is sent to the owner, and the final diagnostic.\<close>

definition resolve_failed ::
  "('pol, 'c, 'k, 'j, 'p) failure_env \<Rightarrow> ('j, 'p) owner_world \<Rightarrow> lease \<Rightarrow> settlement_token option \<Rightarrow> event_envelope \<Rightarrow> id \<Rightarrow>
   subscriber_id \<Rightarrow> delivery_disposition \<Rightarrow> delivery_disposition option \<Rightarrow> bool \<Rightarrow> ('j, 'p) owner_world" where
  "resolve_failed env w l token event i subscriber requested disposition failed =
     (let topic = topic_name (env_topic event);
          unavailable = router_abandon (count_abandoned (df_owner env)
            (emit w (SettlementUnavailable (env_id event) topic i subscriber requested)) i) l i
      in if token = None \<and> \<not> failed then unavailable
         else case disposition of
             Some d \<Rightarrow> settle_token w l token d event i subscriber
           | None \<Rightarrow>
               if failed then router_abandon w l i
               else (case token of
                   Some t \<Rightarrow>
                     if \<not> belongs_to t i then router_settle w l (Some t) requested (env_id event) topic i subscriber
                     else unavailable
                 | None \<Rightarrow> unavailable))"

definition finish_failed_delivery ::
  "('pol, 'c, 'k, 'j, 'p) failure_env \<Rightarrow> ('j, 'p) owner_world \<Rightarrow> lease \<Rightarrow> settlement_token option \<Rightarrow> event_envelope \<Rightarrow> id \<Rightarrow>
   subscriber_id \<Rightarrow> ('pol, 'k) subscribe_options \<Rightarrow> delivery_error \<Rightarrow> u32 \<Rightarrow> failure_directive \<Rightarrow> ('j, 'p) owner_world option" where
  "finish_failed_delivery env w l token event i subscriber options error tries directive =
     (let action = failure_action directive;
          capability = env_settlement (df_owner env)
      in Option.bind
          (if action = DeadLetterAction \<and> \<not> is_dead_letter event
           then forward_dead_letter env w event error i subscriber options
           else Some (w, case failure_disposition action capability of
               Some d \<Rightarrow> Some d
             | None \<Rightarrow> if action = RetryLocally then failure_disposition DiscardAction capability else None, False))
          (\<lambda>(w1, disposition, failed).
            Some (emit (resolve_failed env w1 l token event i subscriber (requested_disposition action) disposition failed)
              (DeliveryFailed (env_id event) (topic_name (env_topic event)) i subscriber tries (df_show env error)))))"

section \<open>Error handlers and attempts\<close>

definition facade_panic_message :: "panic_payload \<Rightarrow> string" where
  "facade_panic_message payload = (case payload of
       TextPayload _ \<Rightarrow> ''user or provider callback panicked'' | OtherPayload \<Rightarrow> ''callback panicked with a non-string payload'')"

fun run_subscribe_error_handlers ::
  "subscribe_error_handler list \<Rightarrow> event_envelope \<Rightarrow> delivery_error \<Rightarrow> ('j, 'p) owner_world \<Rightarrow>
   ('j, 'p) owner_world \<times> failure_directive option list" where
  "run_subscribe_error_handlers [] event error w = (w, [])"
| "run_subscribe_error_handlers (handler # rest) event error w = (case handler event error of
       Returned directive \<Rightarrow> apsnd (Cons (Some directive)) (run_subscribe_error_handlers rest event error w)
     | Unwound payload \<Rightarrow> apsnd (Cons None) (run_subscribe_error_handlers rest event error
         (emit_internal w ''subscriber_error_handler'' (facade_panic_message payload))))"

definition notify_error_handlers ::
  "('j, 'p) owner_world \<Rightarrow> ('pol, 'k) subscribe_options \<Rightarrow> event_envelope \<Rightarrow> delivery_error \<Rightarrow> bool \<Rightarrow>
   ('j, 'p) owner_world \<times> failure_directive" where
  "notify_error_handlers w options event error retry_enabled =
     (if error = HandlerStartRejected then (w, Requeue)
      else if so_error_handlers options = [] then (w, if so_retry_policy options \<noteq> None then RetryDelivery else Discard)
      else apsnd (choose_failure_directive retry_enabled) (run_subscribe_error_handlers (so_error_handlers options) event error w))"

text \<open>The result of an attempt becomes final: while stopping a wanted retry goes back to the provider, and without a
  retry session it is discarded.\<close>

definition final_result :: "bool \<Rightarrow> attempt_outcome \<Rightarrow> failure_directive \<Rightarrow> (delivery_error \<times> failure_directive) + unit" where
  "final_result stopping outcome directive = (case outcome of
       AttemptSuccess \<Rightarrow> Inr ()
     | AttemptFailure error \<Rightarrow> Inl (error, if directive = RetryDelivery then (if stopping then Requeue else Discard) else directive))"

definition terminal_retry_error ::
  "('j, 'p) owner_world \<Rightarrow> (delivery_attempt_error retry_error \<Rightarrow> string) \<Rightarrow> delivery_attempt_error retry_error \<Rightarrow> failure_directive \<Rightarrow>
   ('j, 'p) owner_world \<times> delivery_error \<times> failure_directive" where
  "terminal_retry_error w display error directive =
     (if re_reason error = RuleCallbackFailed then emit_internal w ''retry_rule'' (display error) else w,
      DeliveryRetry error, terminal_directive (re_reason error) directive)"

text \<open>The rule of \<open>new_retry_session\<close>; the first argument is the content of the shared slot.\<close>

definition delivery_retry_rule ::
  "failure_directive option \<Rightarrow> ('c, delivery_attempt_error) retry_rule option \<Rightarrow> ('c, delivery_attempt_error) retry_rule" where
  "delivery_retry_rule slot user_rule fl ctx =
     (if (case slot of None \<Rightarrow> Discard | Some directive \<Rightarrow> directive) \<noteq> RetryDelivery then AbortFlow
      else let decision = (case user_rule of None \<Rightarrow> UseDefault | Some rule \<Rightarrow> rule fl ctx)
        in if decision \<noteq> UseDefault then decision
           else (case fl of
               AttemptError e \<Rightarrow> (case dae_retryable e of Some True \<Rightarrow> RetryAttempt | Some False \<Rightarrow> AbortFlow | None \<Rightarrow> UseDefault)
             | OtherAttemptFailure \<Rightarrow> UseDefault))"

text \<open>\<open>finish_attempt\<close> of the worker; \<open>event\<close> is that of the prepared delivery.\<close>

definition finish_owned_attempt ::
  "('pol, 'c, 'k, 'j, 'p) failure_env \<Rightarrow> ('j, 'p) owner_world \<Rightarrow> lease \<Rightarrow> event_envelope \<Rightarrow> subscriber_id \<Rightarrow> ('pol, 'k) subscribe_options \<Rightarrow>
   'd owned_delivery \<Rightarrow> (delivery_error \<times> failure_directive) + unit \<Rightarrow> (('j, 'p) owner_world \<times> 'd owned_delivery) option" where
  "finish_owned_attempt env w l event subscriber options d result =
     (let i = control_id (ow_control w); token = od_token d
      in Option.bind
          (case result of
             Inr _ \<Rightarrow> Some (settle_token w l token Accept event i subscriber)
           | Inl (error, directive) \<Rightarrow> finish_failed_delivery env w l token event i subscriber options error (od_attempts d) directive)
          (\<lambda>w1. Some (w1\<lparr>ow_messages := ow_messages w1 @ [HandlerFinishedMessage l]\<rparr>,
            d\<lparr>od_token := None, od_handler_finished := False\<rparr>)))"

text \<open>What the retry session of a delivery answers to the result of an attempt.\<close>

datatype session_step = SessionComplete | SessionFailed "delivery_attempt_error retry_error" | SessionRetryAt instant

definition attempt_result :: "('pol, 'c, 'k, 'j, 'p) failure_env \<Rightarrow> attempt_outcome \<Rightarrow> failure_directive \<Rightarrow> delivery_attempt_error + unit" where
  "attempt_result env outcome directive = (case outcome of
       AttemptSuccess \<Rightarrow> Inr ()
     | AttemptFailure error \<Rightarrow>
         Inl \<lparr>dae_kind = ''delivery'', dae_retryable = Some (directive = RetryDelivery), dae_source = df_show env error\<rparr>)"

text \<open>The first block of the loop of \<open>progress_owned_settlements\<close>, for a result that was taken; \<open>session\<close> is the
  delivery's retry session, if retry is enabled, and \<open>display\<close> the text of its errors.\<close>

definition progress_result ::
  "('pol, 'c, 'k, 'j, 'p) failure_env \<Rightarrow> (delivery_attempt_error retry_error \<Rightarrow> string) \<Rightarrow> ('j, 'p) owner_world \<Rightarrow> lease \<Rightarrow> event_envelope \<Rightarrow>
   subscriber_id \<Rightarrow> ('pol, 'k) subscribe_options \<Rightarrow> bool \<Rightarrow> (delivery_attempt_error + unit \<Rightarrow> session_step) option \<Rightarrow>
   attempt_outcome \<Rightarrow> failure_directive \<Rightarrow> 'd owned_delivery \<Rightarrow> (('j, 'p) owner_world \<times> 'd owned_delivery) option" where
  "progress_result env display w l event subscriber options stopping session outcome directive d =
     (let d1 = d\<lparr>od_result := None\<rparr>;
          finish = (\<lambda>w result. finish_owned_attempt env w l event subscriber options (d1\<lparr>od_retry_pending := False\<rparr>) result)
      in case (stopping, session) of
          (False, Some record_result) \<Rightarrow> (case record_result (attempt_result env outcome directive) of
              SessionComplete \<Rightarrow> finish w (Inr ())
            | SessionFailed error \<Rightarrow> (case terminal_retry_error w display error directive of (w1, result) \<Rightarrow> finish w1 (Inl result))
            | SessionRetryAt due \<Rightarrow> Some (w\<lparr>ow_scheduler := sync_finish_attempt_waiting (ow_scheduler w) l\<rparr>,
                d1\<lparr>od_retry_pending := True, od_due := Some due\<rparr>))
        | _ \<Rightarrow> finish w (final_result stopping outcome directive))"

section \<open>Preparing a delivery\<close>

definition rebuilt_envelope :: "topic \<Rightarrow> native_value \<Rightarrow> inbound_message \<Rightarrow> event_envelope" where
  "rebuilt_envelope t payload message = (with_id_and_shared_payload (in_timestamp message) t payload (in_id message))
     \<lparr>env_headers := in_headers message, env_ordering_key := in_ordering_key message\<rparr>"

definition prepared_delivery :: "string \<Rightarrow> id \<Rightarrow> subscriber_id \<Rightarrow> event_envelope \<Rightarrow> inbound_message \<Rightarrow> settlement_token option \<Rightarrow> delivery" where
  "prepared_delivery provider i subscriber event message token =
     \<lparr>del_event = event, del_context = (delivery_context_new provider i subscriber)
        \<lparr>dc_provider_metadata := in_provider_metadata message, dc_can_settle := token \<noteq> None,
         dc_provider_attempt := in_provider_attempt message, dc_dead_letter := is_dead_letter event\<rparr>\<rparr>"

text \<open>The token stays with the owned delivery unless it was passed on; the result is the prepared delivery.\<close>

definition prepare_delivery ::
  "('pol, 'c, 'k, 'j, 'p) failure_env \<Rightarrow> ('j, 'p) owner_world \<Rightarrow> lease \<Rightarrow> id \<Rightarrow> subscriber_id \<Rightarrow> topic \<Rightarrow> ('pol, 'k) subscribe_options \<Rightarrow>
   inbound_message \<Rightarrow> codec_error + native_value \<Rightarrow> (('j, 'p) owner_world \<times> settlement_token option \<times> delivery option) option" where
  "prepare_delivery env w l i subscriber t options message decoded =
     (let token = in_settlement message in
      case decoded of
        Inl error \<Rightarrow> Some (settle_rejected env w l token i subscriber (in_id message) (in_topic message) (DeliveryCodec error), None, None)
      | Inr payload \<Rightarrow>
          let event = rebuilt_envelope t payload message;
              ready = Some (w, token, Some (prepared_delivery (env_provider_id (df_owner env)) i subscriber event message token))
          in (case so_filter options of
              None \<Rightarrow> ready
            | Some accepts \<Rightarrow> (case accepts event of
                Returned True \<Rightarrow> ready
              | Returned False \<Rightarrow> Some (settle_token w l token Accept event i subscriber, None, None)
              | Unwound _ \<Rightarrow>
                  let error = HandlerFailed ''subscriber filter panicked''
                  in (case notify_error_handlers w options event error (so_retry_policy options \<noteq> None) of
                    (w1, directive) \<Rightarrow> map_option (\<lambda>w2. (w2, None, None))
                      (finish_failed_delivery env w1 l token event i subscriber options error 1 directive)))))"

section \<open>What forwarding changes\<close>

definition owner_frame :: "('j, 'p) owner_world \<Rightarrow> ('j, 'p) owner_world \<Rightarrow> bool" where
  "owner_frame w w' \<longleftrightarrow> ow_messages w' = ow_messages w \<and> ow_control w' = ow_control w \<and> ow_scheduler w' = ow_scheduler w \<and>
     ow_subscriptions w' = ow_subscriptions w"

lemma publish_once_frame: "publish_once env e policy w = (w', r) \<Longrightarrow> owner_frame w w'"
  by (auto simp: publish_once_def owner_frame_def split: prod.splits)

lemma publish_once_accepted:
  "publish_once env e policy w = (w', Inr receipt) \<Longrightarrow>
   was_accepted receipt (cap_publish_guarantee (pp_capabilities (df_pipeline env))) policy"
  by (auto simp: publish_once_def split: prod.splits sum.splits if_splits)

lemma retry_flow_frame:
  "retry_flow rules (publish_once env e policy) w rs w' \<Longrightarrow> owner_frame w w'"
proof (induction rule: retry_flow.induct)
  case (flow_last s s' r)
  then show ?case by (rule publish_once_frame)
next
  case (flow_again s s1 error ctx rs s')
  from publish_once_frame [OF flow_again.hyps(1)] flow_again.IH show ?case
    by (simp add: owner_frame_def)
qed (simp add: owner_frame_def)

text \<open>Runs that failed and were followed by another one, then the run whose value is returned.\<close>

definition failed_run :: "('s \<Rightarrow> 's \<times> ('e + 'a)) \<Rightarrow> 's \<Rightarrow> 's \<Rightarrow> bool" where
  "failed_run operation s s' \<longleftrightarrow> (\<exists>e. operation s = (s', Inl e))"

lemma retry_flow_success:
  "retry_flow rules operation w rs w' \<Longrightarrow> rs \<noteq> [] \<Longrightarrow> last rs = Inr a \<Longrightarrow>
   \<exists>w0. (failed_run operation)\<^sup>*\<^sup>* w w0 \<and> operation w0 = (w', Inr a)"
proof (induction rule: retry_flow.induct)
  case (flow_again s s1 error ctx rs s')
  then obtain w0 where "(failed_run operation)\<^sup>*\<^sup>* s1 w0" "operation w0 = (s', Inr a)"
    by (auto split: if_splits)
  moreover have "failed_run operation s s1" using flow_again.hyps(1) by (auto simp: failed_run_def)
  ultimately show ?case by (meson converse_rtranclp_into_rtranclp)
qed auto

lemma publish_dead_letter_sync_spec:
  assumes "retry_contract (df_forward_retry env)" "publish_dead_letter_sync env e pol k policy w = (w', r)"
  shows "owner_frame w w' \<and> (\<forall>receipt. r = Inr receipt \<longrightarrow> 
    (\<exists>w0. (failed_run (publish_once env e policy))\<^sup>*\<^sup>* w w0 \<and> publish_once env e policy w0 = (w', Inr receipt)))"
proof (cases "pol = None \<or> (\<exists>p. pol = Some p \<and> rl_build (df_forward_retry env) p \<noteq> None)")
  case True
  obtain w1 r1 where once: "publish_once env e policy w = (w1, r1)" by fastforce
  show ?thesis using True assms(2) once publish_once_frame [OF once]
    by (cases r1) (auto simp: publish_dead_letter_sync_def owner_frame_def intro: exI [of _ w])
next
  case False
  then obtain p where p: "pol = Some p" "rl_build (df_forward_retry env) p = None" by auto
  obtain cfg r0 where run: "rl_run (df_forward_retry env) cfg k (publish_once env e policy) w = (w', r0)"
    and r: "r = map_sum (df_show_retry env) id r0"
    using assms(2) p by (auto simp: publish_dead_letter_sync_def apsnd_def map_prod_def split: prod.splits)
  obtain rs where rs: "retry_flow (rc_rules cfg) (publish_once env e policy) w rs w'" "retry_result rs r0"
    using assms(1) [unfolded retry_contract_def, rule_format, OF run] by auto
  have "\<exists>w0. (failed_run (publish_once env e policy))\<^sup>*\<^sup>* w w0 \<and> publish_once env e policy w0 = (w', Inr receipt)" if "r = Inr receipt" for receipt
    using that r rs by (cases r0) (auto intro: retry_flow_success)
  then show ?thesis using retry_flow_frame [OF rs(1)] by simp
qed

lemma stop_after_dead_letter_failure_spec:
  assumes "stop_after_dead_letter_failure env w i = Some w'"
  shows "ow_messages w' = ow_messages w \<and>
    (i \<in> fmdom' (ow_subscriptions w) \<and> control_id (ow_control w) = i \<longrightarrow> control_cancelled (ow_control w'))"
  using assms by (auto simp: stop_after_dead_letter_failure_def Let_def request_cancel_def fmlookup_dom'_iff split: option.splits if_splits)

text \<open>The dead letter of a failed delivery was published, and the provider, now in state \<open>p\<close>, admitted it as the
  subscription's policy asks.\<close>

definition failed_delivery :: "('pol, 'c, 'k, 'j, 'p) failure_env \<Rightarrow> event_envelope \<Rightarrow> id \<Rightarrow> subscriber_id \<Rightarrow> delivery" where
  "failed_delivery env event i subscriber =
     \<lparr>del_event = event, del_context = delivery_context_new (env_provider_id (df_owner env)) i subscriber\<rparr>"

definition dead_letter_admitted ::
  "('pol, 'c, 'k, 'j, 'p) failure_env \<Rightarrow> ('j, 'p) owner_world \<Rightarrow> event_envelope \<Rightarrow> delivery_error \<Rightarrow> id \<Rightarrow> subscriber_id \<Rightarrow>
   ('pol, 'k) subscribe_options \<Rightarrow> 'p \<Rightarrow> bool" where
  "dead_letter_admitted env w event error i subscriber options p \<longleftrightarrow>
     (\<exists>policy e w0 w1 receipt. so_dead_letter options = Some policy \<and>
        dead_letter_envelope env (failed_delivery env event i subscriber) error (dl_topic_name policy) = Inr (Some e) \<and>
        (failed_run (publish_once env e (dl_admission policy)))\<^sup>*\<^sup>* w w0 \<and>
        publish_once env e (dl_admission policy) w0 = (w1, Inr receipt) \<and> ow_provider w1 = p \<and>
        was_accepted receipt (cap_publish_guarantee (pp_capabilities (df_pipeline env))) (dl_admission policy))"

lemma forward_failed_spec:
  assumes "forward_failed env w i origin message = Some (w', disposition, failed)"
  shows "failed \<and> disposition = None \<and> ow_messages w' = ow_messages w \<and>
    (i \<in> fmdom' (ow_subscriptions w) \<and> control_id (ow_control w) = i \<longrightarrow> control_cancelled (ow_control w'))"
  using assms stop_after_dead_letter_failure_spec [of env "emit_internal w origin message" i]
  by (auto simp: forward_failed_def emit_internal_def emit_def)

lemma forward_dead_letter_spec:
  assumes "retry_contract (df_forward_retry env)"
    and "forward_dead_letter env w event error i subscriber options = Some (w', disposition, failed)"
  shows "ow_messages w' = ow_messages w \<and>
    (if failed then disposition = None \<and>
        (i \<in> fmdom' (ow_subscriptions w) \<and> control_id (ow_control w) = i \<longrightarrow> control_cancelled (ow_control w'))
     else disposition = failure_disposition DeadLetterAction (env_settlement (df_owner env)) \<and>
       dead_letter_admitted env w event error i subscriber options (ow_provider w'))"
proof (cases "\<exists>policy e. so_dead_letter options = Some policy \<and>
    dead_letter_envelope env (failed_delivery env event i subscriber) error (dl_topic_name policy) = Inr (Some e)")
  case False
  then have "\<exists>origin message. forward_failed env w i origin message = Some (w', disposition, failed)"
    using assms(2) by (auto simp: forward_dead_letter_def failed_delivery_def split: option.splits sum.splits)
  then show ?thesis using forward_failed_spec by fastforce
next
  case True
  then obtain policy e where pe: "so_dead_letter options = Some policy"
    "dead_letter_envelope env (failed_delivery env event i subscriber) error (dl_topic_name policy) = Inr (Some e)" by blast
  obtain w1 r where sync: "publish_dead_letter_sync env e (so_retry_policy options) (so_retry_cancellation options) (dl_admission policy) w = (w1, r)"
    by fastforce
  note spec = publish_dead_letter_sync_spec [OF assms(1) sync]
  show ?thesis
  proof (cases r)
    case (Inl message)
    then have "forward_failed env w1 i ''dead_letter_publish'' message = Some (w', disposition, failed)"
      using assms(2) pe sync by (simp add: forward_dead_letter_def failed_delivery_def)
    from forward_failed_spec [OF this] spec show ?thesis by (auto simp: owner_frame_def)
  next
    case (Inr receipt)
    then obtain w0 where w0: "(failed_run (publish_once env e (dl_admission policy)))\<^sup>*\<^sup>* w w0"
      "publish_once env e (dl_admission policy) w0 = (w1, Inr receipt)" using spec by blast
    then have "dead_letter_admitted env w event error i subscriber options (ow_provider w1)"
      using pe publish_once_accepted [OF w0(2)] unfolding dead_letter_admitted_def by blast
    then show ?thesis using Inr assms(2) pe sync spec
      by (auto simp: forward_dead_letter_def failed_delivery_def owner_frame_def emit_internal_def emit_def split: admission_outcome.splits)
  qed
qed

end
