(* ===== verification/Delivery_Failure_Props.thy ===== *)
theory Delivery_Failure_Props
  imports Delivery_Failure Owner_Phases_Props Publish_Pipeline_Props
begin

text \<open>
  What the receiver owner is told about a failed delivery, and when a delivery that was sent to a dead-letter topic
  may be rejected at its source.
\<close>

section \<open>Totality\<close>

lemma forward_failed_total:
  assumes "sched_reachable (core (ow_scheduler w))"
  shows "forward_failed env w i origin message \<noteq> None"
proof -
  have "sched_inv (core (ow_scheduler w))" using assms by (rule reachable_inv)
  then show ?thesis using cancel_total [of "ow_scheduler w" i]
    by (auto simp: forward_failed_def stop_after_dead_letter_failure_def Let_def emit_internal_def emit_def split: option.splits)
qed

lemma forward_dead_letter_total:
  assumes "retry_contract (df_forward_retry env)" "sched_reachable (core (ow_scheduler w))"
  shows "forward_dead_letter env w event error i subscriber options \<noteq> None"
proof -
  have "forward_failed env w' i origin message \<noteq> None"
    if "publish_dead_letter_sync env e pol k policy w = (w', r)" for e pol k policy w' r origin message
    using publish_dead_letter_sync_spec [OF assms(1) that] assms(2) by (intro forward_failed_total) (simp add: owner_frame_def)
  then show ?thesis using forward_failed_total [OF assms(2)]
    by (auto simp: forward_dead_letter_def split: option.splits sum.splits prod.splits)
qed

section \<open>Routing\<close>

definition failure_routed ::
  "lease \<Rightarrow> settlement_token option \<Rightarrow> event_envelope \<Rightarrow> id \<Rightarrow> subscriber_id \<Rightarrow> delivery_disposition option \<Rightarrow> coordinator_message \<Rightarrow> bool" where
  "failure_routed l token event i subscriber disposition m \<longleftrightarrow> (case disposition of
       None \<Rightarrow> m = Abandoned l
     | Some d \<Rightarrow> token \<noteq> None \<and> m = Settlement l token d (env_id event) (topic_name (env_topic event)) i subscriber)"

lemma router_abandon_simps [simp]:
  "ow_messages (router_abandon w l i) = ow_messages w @ [Abandoned l]" "ow_provider (router_abandon w l i) = ow_provider w"
  "ow_control (router_abandon w l i) = ow_control w"
  by (simp_all add: router_abandon_def)

lemma router_settle_simps [simp]:
  "ow_messages (router_settle w l token d e t i s) = ow_messages w @ [Settlement l token d e t i s]"
  "ow_provider (router_settle w l token d e t i s) = ow_provider w" "ow_control (router_settle w l token d e t i s) = ow_control w"
  by (simp_all add: router_settle_def)

lemma emit_simps [simp]:
  "ow_messages (emit w d) = ow_messages w" "ow_provider (emit w d) = ow_provider w" "ow_control (emit w d) = ow_control w"
  "ow_diagnostics (emit w d) = ow_diagnostics w @ [d]"
  by (simp_all add: emit_def)

lemma count_abandoned_simps [simp]:
  "ow_messages (count_abandoned env w i) = ow_messages w" "ow_provider (count_abandoned env w i) = ow_provider w"
  "ow_control (count_abandoned env w i) = ow_control w"
  by (auto simp: count_abandoned_def Let_def split: option.splits)

definition routed_disposition ::
  "settlement_token option \<Rightarrow> id \<Rightarrow> delivery_disposition \<Rightarrow> delivery_disposition option \<Rightarrow> bool \<Rightarrow> delivery_disposition option" where
  "routed_disposition token i requested disposition failed = (case token of
       None \<Rightarrow> None
     | Some t \<Rightarrow> if disposition = None \<and> \<not> failed \<and> \<not> belongs_to t i then Some requested else disposition)"

lemma resolve_failed_spec:
  assumes "failed \<Longrightarrow> disposition = None"
  shows "\<exists>m. ow_messages (resolve_failed env w l token event i subscriber requested disposition failed) = ow_messages w @ [m] \<and>
      failure_routed l token event i subscriber (routed_disposition token i requested disposition failed) m"
    and "ow_provider (resolve_failed env w l token event i subscriber requested disposition failed) = ow_provider w"
    and "ow_control (resolve_failed env w l token event i subscriber requested disposition failed) = ow_control w"
  using assms by (auto simp: resolve_failed_def Let_def failure_routed_def routed_disposition_def settle_token_def split: option.splits)

text \<open>Whether the delivery is to be forwarded, and what the other directives ask of the source.\<close>

definition forwards :: "failure_directive \<Rightarrow> event_envelope \<Rightarrow> bool" where
  "forwards directive event \<longleftrightarrow> directive = DeadLetter \<and> \<not> is_dead_letter event"

definition source_intent :: "failure_directive \<Rightarrow> settlement_capabilities \<Rightarrow> delivery_disposition option" where
  "source_intent directive capability =
     (if capability = AcceptRetryReject then Some (if directive = Requeue then Retry else Reject) else None)"

lemma finish_failed_delivery_cases:
  assumes "retry_contract (df_forward_retry env)" "sched_reachable (core (ow_scheduler w))"
  obtains w1 disposition failed where
    "finish_failed_delivery env w l token event i subscriber options error tries directive =
       Some (emit (resolve_failed env w1 l token event i subscriber (if directive = Requeue then Retry else Reject) disposition failed)
         (DeliveryFailed (env_id event) (topic_name (env_topic event)) i subscriber tries (df_show env error)))"
    "if forwards directive event then forward_dead_letter env w event error i subscriber options = Some (w1, disposition, failed)
     else w1 = w \<and> disposition = source_intent directive (env_settlement (df_owner env)) \<and> \<not> failed"
proof (cases "forwards directive event")
  case True
  obtain w1 disposition failed where fwd: "forward_dead_letter env w event error i subscriber options = Some (w1, disposition, failed)"
    using forward_dead_letter_total [OF assms] by fastforce
  show thesis
    by (rule that [of w1 disposition failed])
      (use True fwd in \<open>auto simp: forwards_def finish_failed_delivery_def Let_def requested_disposition_def\<close>)
next
  case False
  show thesis
    by (rule that [of w "source_intent directive (env_settlement (df_owner env))" False])
      (use False in \<open>cases directive; cases "env_settlement (df_owner env)";
        auto simp: forwards_def finish_failed_delivery_def Let_def requested_disposition_def
          failure_disposition_def source_intent_def\<close>)+
qed

text \<open>C16: A failed delivery is always reported to its owner and to the observers, exactly once: handling it never panics,
  sends one message for the lease, which abandons it or settles its own token with a disposition other than accept,
  and ends with a failure diagnostic. When the delivery is not forwarded and its token belongs to the subscription,
  the token is returned for a retry on a requeue directive and rejected otherwise, and abandoned if the provider cannot
  do that.\<close>

theorem failed_delivery_routed:
  assumes "retry_contract (df_forward_retry env)" "sched_reachable (core (ow_scheduler w))"
  shows "\<exists>w' m ds. finish_failed_delivery env w l token event i subscriber options error tries directive = Some w' \<and>
    ow_messages w' = ow_messages w @ [m] \<and>
    ow_diagnostics w' = ds @ [DeliveryFailed (env_id event) (topic_name (env_topic event)) i subscriber tries (df_show env error)] \<and>
    (\<exists>disposition. failure_routed l token event i subscriber disposition m \<and> disposition \<noteq> Some Accept \<and>
       (\<not> forwards directive event \<and> (\<exists>t. token = Some t \<and> belongs_to t i) \<longrightarrow>
          disposition = source_intent directive (env_settlement (df_owner env))))"
proof -
  obtain w1 disposition failed where
    run: "finish_failed_delivery env w l token event i subscriber options error tries directive =
       Some (emit (resolve_failed env w1 l token event i subscriber (if directive = Requeue then Retry else Reject) disposition failed)
         (DeliveryFailed (env_id event) (topic_name (env_topic event)) i subscriber tries (df_show env error)))" and
    f: "if forwards directive event then forward_dead_letter env w event error i subscriber options = Some (w1, disposition, failed)
     else w1 = w \<and> disposition = source_intent directive (env_settlement (df_owner env)) \<and> \<not> failed"
    using finish_failed_delivery_cases [OF assms] by blast
  have d: "ow_messages w1 = ow_messages w \<and> disposition \<noteq> Some Accept \<and> (failed \<longrightarrow> disposition = None)"
    using f forward_dead_letter_spec [OF assms(1), of w event error i subscriber options w1 disposition failed]
    by (auto simp: source_intent_def failure_disposition_def split: if_splits settlement_capabilities.splits)
  then show ?thesis using run resolve_failed_spec(1) [of failed disposition env w1 l token event i subscriber "if directive = Requeue then Retry else Reject"] f
    by (fastforce simp: routed_disposition_def split: if_splits option.splits)
qed

text \<open>C9: A delivery that is to be forwarded to a dead-letter topic leaves its source only once the dead letter is safe: either
  a publication of its dead letter was admitted by the provider as the subscription's policy asks, and then the source
  token is rejected (or abandoned where the provider cannot reject), or the token stays unsettled and the subscription
  is cancelled.\<close>

theorem dead_letter_before_reject:
  assumes "retry_contract (df_forward_retry env)" "sched_reachable (core (ow_scheduler w))" "forwards directive event"
    and "belongs_to t i" "i \<in> fmdom' (ow_subscriptions w)" "control_id (ow_control w) = i"
  shows "\<exists>w'. finish_failed_delivery env w l (Some t) event i subscriber options error tries directive = Some w' \<and>
    (dead_letter_admitted env w event error i subscriber options (ow_provider w') \<and>
       ow_messages w' = ow_messages w @ [if env_settlement (df_owner env) = AcceptRetryReject
         then Settlement l (Some t) Reject (env_id event) (topic_name (env_topic event)) i subscriber else Abandoned l] \<or>
     ow_messages w' = ow_messages w @ [Abandoned l] \<and> control_cancelled (ow_control w'))"
proof -
  obtain w1 disposition failed where
    run: "finish_failed_delivery env w l (Some t) event i subscriber options error tries directive =
       Some (emit (resolve_failed env w1 l (Some t) event i subscriber (if directive = Requeue then Retry else Reject) disposition failed)
         (DeliveryFailed (env_id event) (topic_name (env_topic event)) i subscriber tries (df_show env error)))" and
    f: "forward_dead_letter env w event error i subscriber options = Some (w1, disposition, failed)"
    using finish_failed_delivery_cases [OF assms(1,2)] assms(3) by metis
  note spec = forward_dead_letter_spec [OF assms(1) f] and
    res = resolve_failed_spec [of failed disposition env w1 l "Some t" event i subscriber "if directive = Requeue then Retry else Reject"]
  have "failed \<longrightarrow> disposition = None" "disposition = None \<or> disposition = Some Reject \<and> env_settlement (df_owner env) = AcceptRetryReject"
    "\<not> failed \<longrightarrow> (disposition = None \<longleftrightarrow> env_settlement (df_owner env) \<noteq> AcceptRetryReject)"
    using spec by (auto simp: failure_disposition_def split: if_splits settlement_capabilities.splits)
  then show ?thesis using run res spec assms(4-6)
    by (cases failed) (auto simp: routed_disposition_def failure_routed_def)
qed

section \<open>A concrete subscription\<close>

definition native_pipeline :: publisher_pipeline where
  "native_pipeline = demo_pipeline\<lparr>pp_capabilities := demo_capabilities\<lparr>cap_payload_modes := NativeMode\<rparr>\<rparr>"

definition forward_env :: "(nat, unit, unit, unit, nat) failure_env" where
  "forward_env = \<lparr>df_owner = demo_env, df_pipeline = native_pipeline,
     df_publish = (\<lambda>n m. (Suc n, Returned (Inr (AckAccepted None fmempty)))),
     df_publish_retry = bounded_library, df_forward_retry = bounded_library, df_show = (\<lambda>_. ''failed''),
     df_show_forward = (\<lambda>_. ''not forwarded''), df_show_retry = (\<lambda>_. ''retries exhausted''), df_show_configuration = (\<lambda>_. ''topic''),
     df_record_type = (\<lambda>t. 100 + t), df_record_value = (\<lambda>r. \<lparr>native_type = 107, native_object = 9\<rparr>), df_now = 4\<rparr>"

definition forward_options :: "(nat, unit) subscribe_options" where
  "forward_options = \<lparr>so_retry_policy = None, so_retry_cancellation = None, so_error_handlers = [], so_filter = None,
     so_dead_letter = Some \<lparr>dl_topic_name = ''orders.dead'', dl_admission = TransportAccepted\<rparr>\<rparr>"

definition forward_world :: "(unit, nat) owner_world" where
  "forward_world = demo_world\<lparr>ow_subscriptions := fmupd 1 0 fmempty\<rparr>"

abbreviation forward_event :: event_envelope where
  "forward_event \<equiv> del_event demo_received"

lemma forward_contract: "retry_contract (df_forward_retry forward_env)"
  by (simp add: forward_env_def bounded_library_contract)

lemma forward_reachable: "sched_reachable (core (ow_scheduler forward_world))"
  using demo_reachable by (simp add: forward_world_def)

theorem failed_delivery_routed_witness:
  "\<exists>w'. finish_failed_delivery forward_env forward_world 1 (Some demo_token) forward_event 1 ''billing'' forward_options
      (HandlerFailed ''boom'') 1 Requeue = Some w' \<and>
    ow_messages w' = [Settlement 1 (Some demo_token) Retry ''e1'' ''orders'' 1 ''billing'']"
  using failed_delivery_routed [OF forward_contract forward_reachable, of 1 "Some demo_token" forward_event 1 "''billing''" forward_options
      "HandlerFailed ''boom''" 1 Requeue]
  by (auto simp: forwards_def demo_token_def settlement_token_new_def belongs_to_def source_intent_def failure_routed_def
      forward_env_def demo_env_def forward_world_def demo_world_def demo_received_def with_id_and_shared_payload_def)

lemma forward_messages:
  "map_option ow_messages (finish_failed_delivery forward_env forward_world 1 (Some demo_token) forward_event 1 ''billing'' forward_options
      (HandlerFailed ''boom'') 1 DeadLetter) = Some [Settlement 1 (Some demo_token) Reject ''e1'' ''orders'' 1 ''billing'']"
  by code_simp

theorem dead_letter_before_reject_witness:
  "\<exists>w'. finish_failed_delivery forward_env forward_world 1 (Some demo_token) forward_event 1 ''billing'' forward_options
      (HandlerFailed ''boom'') 1 DeadLetter = Some w' \<and>
    dead_letter_admitted forward_env forward_world forward_event (HandlerFailed ''boom'') 1 ''billing'' forward_options (ow_provider w') \<and>
    ow_messages w' = [Settlement 1 (Some demo_token) Reject ''e1'' ''orders'' 1 ''billing'']"
proof -
  have f: "forwards DeadLetter forward_event" by (simp add: forwards_def) code_simp
  have p: "belongs_to demo_token 1" "1 \<in> fmdom' (ow_subscriptions forward_world)" "control_id (ow_control forward_world) = 1" "ow_messages forward_world = []"
    by (simp_all add: demo_token_def settlement_token_new_def belongs_to_def forward_world_def demo_world_def control_with_metrics_def)
  show ?thesis
    using dead_letter_before_reject [OF forward_contract forward_reachable f p(1-3), of 1 "''billing''" forward_options "HandlerFailed ''boom''" 1]
      forward_messages p(4) by auto
qed

end
