(* ===== verification/Facade_Gates.thy ===== *)
theory Facade_Gates
  imports Subscription_Owner Reservations
begin

text \<open>
  The small shared objects of the synchronous facade: the gate of public operations
  (\<open>src/src/facade/event_bus/internal/operation_gate.rs\<close>), the tracker of workers and received deliveries
  (\<open>src/src/facade/lifecycle_tracker.rs\<close>), the budget of worker threads
  (\<open>src/src/facade/event_bus/internal/subscription_worker_budget.rs\<close>), the history of close failures
  (\<open>src/src/facade/internal/close_failure_ledger.rs\<close>) and finite waits (\<open>src/src/facade/internal/finite_wait.rs\<close>).

  Every function is one critical section, or one atomic access; an overflow of a counter is \<^const>\<open>None\<close>. One turn of
  a wait loop answers, or says how long to sleep.
\<close>

section \<open>Waiting\<close>

definition MAX_WAIT_SLICE :: duration where
  "MAX_WAIT_SLICE = 3600 * 1000000000"

record finite_wait =
  fw_started :: instant
  fw_timeout :: duration

definition finite_wait_new :: "instant \<Rightarrow> duration \<Rightarrow> finite_wait" where
  "finite_wait_new now timeout = \<lparr>fw_started = now, fw_timeout = timeout\<rparr>"

definition finite_remaining :: "finite_wait \<Rightarrow> instant \<Rightarrow> duration option" where
  "finite_remaining b now =
     (let remaining = fw_timeout b - (now - fw_started b)
      in if remaining \<noteq> 0 then Some (min remaining MAX_WAIT_SLICE) else None)"

datatype 'a turn_result = Answer 'a | Sleep "duration option"

definition wait_turn :: "finite_wait option \<Rightarrow> instant \<Rightarrow> 'a option \<Rightarrow> 'a \<Rightarrow> 'a turn_result" where
  "wait_turn budget now done_with late = (case done_with of
       Some a \<Rightarrow> Answer a
     | None \<Rightarrow> (case budget of
         None \<Rightarrow> Sleep None
       | Some b \<Rightarrow> (case finite_remaining b now of None \<Rightarrow> Answer late | Some left \<Rightarrow> Sleep (Some left))))"

section \<open>The operation gate\<close>

record operation_gate =
  gate_closing :: bool
  gate_active :: usize

definition operation_gate_default :: operation_gate where
  "operation_gate_default = \<lparr>gate_closing = False, gate_active = 0\<rparr>"

definition gate_enter :: "operation_gate \<Rightarrow> (operation_gate \<times> bool) option" where
  "gate_enter g =
     (if gate_closing g then Some (g, False)
      else map_option (\<lambda>n. (g\<lparr>gate_active := n\<rparr>, True)) (checked_add (gate_active g) 1))"

definition gate_close_admission :: "operation_gate \<Rightarrow> operation_gate" where
  "gate_close_admission g = g\<lparr>gate_closing := True\<rparr>"

definition gate_wait_turn :: "operation_gate \<Rightarrow> unit turn_result" where
  "gate_wait_turn g = wait_turn None 0 (if gate_active g \<noteq> 0 then None else Some ()) ()"

definition gate_release :: "operation_gate \<Rightarrow> operation_gate" where
  "gate_release g = g\<lparr>gate_active := saturating_sub (gate_active g) 1\<rparr>"

section \<open>The lifecycle tracker\<close>

record tracker_state =
  active_workers :: usize
  in_flight_by_topic :: "(string, usize) fmap"

definition tracker_new :: tracker_state where
  "tracker_new = \<lparr>active_workers = 0, in_flight_by_topic = fmempty\<rparr>"

definition worker_started :: "tracker_state \<Rightarrow> tracker_state option" where
  "worker_started t = map_option (\<lambda>n. t\<lparr>active_workers := n\<rparr>) (checked_add (active_workers t) 1)"

definition worker_finished :: "tracker_state \<Rightarrow> tracker_state" where
  "worker_finished t = t\<lparr>active_workers := saturating_sub (active_workers t) 1\<rparr>"

definition workers_are_idle :: "tracker_state \<Rightarrow> bool" where
  "workers_are_idle t \<longleftrightarrow> active_workers t = 0"

definition in_flight_count :: "tracker_state \<Rightarrow> string \<Rightarrow> usize" where
  "in_flight_count t topic = (case fmlookup (in_flight_by_topic t) topic of None \<Rightarrow> 0 | Some n \<Rightarrow> n)"

definition track_delivery :: "tracker_state \<Rightarrow> string \<Rightarrow> tracker_state option" where
  "track_delivery t topic =
     map_option (\<lambda>n. t\<lparr>in_flight_by_topic := fmupd topic n (in_flight_by_topic t)\<rparr>) (checked_add (in_flight_count t topic) 1)"

text \<open>Dropping the guard of a tracked delivery.\<close>

definition finish_delivery :: "tracker_state \<Rightarrow> string \<Rightarrow> tracker_state" where
  "finish_delivery t topic = (case fmlookup (in_flight_by_topic t) topic of
       None \<Rightarrow> t
     | Some n \<Rightarrow>
         let count = saturating_sub n 1
         in t\<lparr>in_flight_by_topic := (if count = 0 then fmdrop topic (in_flight_by_topic t)
              else fmupd topic count (in_flight_by_topic t))\<rparr>)"

datatype wait_outcome = IdleReached | WaitTimedOut

definition tracker_idle_turn :: "tracker_state \<Rightarrow> string \<Rightarrow> finite_wait option \<Rightarrow> instant \<Rightarrow> wait_outcome turn_result" where
  "tracker_idle_turn t topic budget now =
     wait_turn budget now (if in_flight_count t topic = 0 then Some IdleReached else None) WaitTimedOut"

definition workers_turn :: "tracker_state \<Rightarrow> finite_wait option \<Rightarrow> instant \<Rightarrow> bool turn_result" where
  "workers_turn t budget now = wait_turn budget now (if active_workers t = 0 then Some True else None) False"

section \<open>The worker budget\<close>

record worker_budget =
  budget_active :: usize
  budget_limit :: usize

text \<open>One turn of the loop with the value last read: refused, a permit, or another turn with the value observed. A
  weak exchange may fail for no reason.\<close>

datatype reserve_turn = Refused | Permit | Again usize

definition try_reserve_turn :: "bool \<Rightarrow> worker_budget \<Rightarrow> usize \<Rightarrow> worker_budget \<times> reserve_turn" where
  "try_reserve_turn spurious b active =
     (if budget_limit b \<le> active then (b, Refused)
      else if budget_active b = active \<and> \<not> spurious then (b\<lparr>budget_active := active + 1\<rparr>, Permit)
      else (b, Again (budget_active b)))"

text \<open>Dropping a permit; \<open>fetch_sub\<close> wraps.\<close>

definition permit_drop :: "worker_budget \<Rightarrow> worker_budget" where
  "permit_drop b = b\<lparr>budget_active := budget_active b - 1\<rparr>"

section \<open>Close failures\<close>

type_synonym close_failure = "subscriber_id \<times> spi_error"

record subscription_close_errors =
  close_failures :: "close_failure list"
  close_total_count :: u64

definition omitted_count :: "subscription_close_errors \<Rightarrow> u64" where
  "omitted_count e = saturating_sub (close_total_count e)
     (if length (close_failures e) < 2 ^ 64 then of_nat (length (close_failures e)) else - 1)"

record close_failure_ledger =
  ledger_failures :: "close_failure list"
  ledger_total_count :: u64
  ledger_snapshot :: "subscription_close_errors option"

definition ledger_new :: close_failure_ledger where
  "ledger_new = \<lparr>ledger_failures = [], ledger_total_count = 0, ledger_snapshot = None\<rparr>"

definition ledger_record :: "close_failure_ledger \<Rightarrow> close_failure \<Rightarrow> close_failure_ledger" where
  "ledger_record l f = \<lparr>ledger_failures = (if length (ledger_failures l) < 256 then ledger_failures l @ [f] else ledger_failures l),
     ledger_total_count = saturating_add (ledger_total_count l) 1, ledger_snapshot = None\<rparr>"

definition take_ledger_snapshot :: "close_failure_ledger \<Rightarrow> close_failure_ledger \<times> subscription_close_errors option" where
  "take_ledger_snapshot l =
     (if ledger_total_count l = 0 then (l, None)
      else case ledger_snapshot l of
          Some cached \<Rightarrow> (l, Some cached)
        | None \<Rightarrow>
            let fresh = \<lparr>close_failures = ledger_failures l, close_total_count = ledger_total_count l\<rparr>
            in (l\<lparr>ledger_snapshot := Some fresh\<rparr>, Some fresh))"

section \<open>Permits and guards\<close>

text \<open>The worker budget keeps the contract of a reservation budget; the loop of \<open>try_reserve\<close> takes a permit in the
  step in which its exchange succeeds.\<close>

definition worker_reserve :: "worker_budget \<Rightarrow> unit \<Rightarrow> worker_budget \<times> bool" where
  "worker_reserve b _ = (case try_reserve_turn False b (budget_active b) of (b', turn) \<Rightarrow> (b', turn = Permit))"

lemma try_reserve_turn_cases:
  "try_reserve_turn spurious b active = (b', turn) \<Longrightarrow>
   (turn = Permit \<longrightarrow> worker_reserve b () = (b', True)) \<and> (turn \<noteq> Permit \<longrightarrow> b' = b)"
  by (auto simp: try_reserve_turn_def worker_reserve_def split: if_splits)

interpretation wk: reservation_budget budget_limit "\<lambda>b (_ :: unit). unat (budget_active b)" "\<lambda>b. budget_active b \<le> budget_limit b"
  "\<lambda>_ _ _. 1" worker_reserve "\<lambda>b _. Some (permit_drop b)"
proof
  have lt: "unat (a + 1) = unat a + 1 \<and> a + 1 \<le> l" if "\<not> l \<le> a" for a l :: usize
    using that unat_bound [of l] by (simp add: word_le_nat_alt unat_inc_small)
  have dec: "unat (a - 1) = unat a - 1" if "1 \<le> unat a" for a :: usize
    using that by (cases "a = 0") (auto simp: unat_dec)
  fix b b' g
  show "worker_reserve b r = (b', True) \<Longrightarrow> unat (budget_active b') = unat (budget_active b) + 1" for r
    using lt by (auto simp: worker_reserve_def try_reserve_turn_def split: if_splits)
  show "budget_active b \<le> budget_limit b \<Longrightarrow> worker_reserve b r = (b', g) \<Longrightarrow> budget_active b' \<le> budget_limit b'" for r
    using lt by (auto simp: worker_reserve_def try_reserve_turn_def split: if_splits)
  show "unat (budget_active b') + 1 = unat (budget_active b)" if "\<And>d :: unit. 1 \<le> unat (budget_active b)" "Some (permit_drop b) = Some b'"
    using that dec [of "budget_active b"] by (auto simp: permit_drop_def)
  show "budget_active b' \<le> budget_limit b'"
    if "budget_active b \<le> budget_limit b" "Some (permit_drop b) = Some b'" "\<And>d :: unit. 1 \<le> unat (budget_active b)"
    using that dec [of "budget_active b"] by (auto simp: permit_drop_def word_le_nat_alt)
qed (auto simp: worker_reserve_def try_reserve_turn_def permit_drop_def unat_dec split: if_splits)

end
