(* ===== verification/Shutdown_Coordinator.thy ===== *)
theory Shutdown_Coordinator
  imports Facade_Gates
begin

text \<open>
  The coordinator that shutdown requests of one bus share, from \<open>src/src/facade/shutdown_coordinator.rs\<close> and
  \<open>src/src/facade/internal/shutdown_registration.rs\<close>: attempts numbered by generation, tickets that keep the result of
  their generation, and registrations of asynchronous observers. Every function is one critical section; an overflow
  of the number of tickets is \<^const>\<open>None\<close>. A waker is a number, the identity of the task it wakes.

  The transition system holds beside the coordinator the tickets that exist, the observers that last saw
  \<open>Pending\<close> and have not been woken, and the results of the finished attempts. A ticket is dropped only after the
  observers that borrow it.
\<close>

section \<open>The coordinator\<close>

datatype shutdown_result = ProviderResult "spi_error + shutdown_outcome" | StartFailed string

record shutdown_coordinator =
  sc_active :: bool
  sc_generation :: u64
  sc_mode :: shutdown_mode
  sc_waiters :: "(u64, usize) fmap"
  sc_next_registration :: u64
  sc_wakers :: "(u64, (u64, nat) fmap) fmap"
  sc_results :: "(u64, shutdown_result) fmap"

definition coordinator_new :: shutdown_coordinator where
  "coordinator_new = \<lparr>sc_active = False, sc_generation = 0, sc_mode = Immediate, sc_waiters = fmempty,
     sc_next_registration = 0, sc_wakers = fmempty, sc_results = fmempty\<rparr>"

definition waiter_count :: "shutdown_coordinator \<Rightarrow> u64 \<Rightarrow> usize" where
  "waiter_count c generation = (case fmlookup (sc_waiters c) generation of None \<Rightarrow> 0 | Some n \<Rightarrow> n)"

definition join_generation :: "shutdown_coordinator \<Rightarrow> u64 \<Rightarrow> shutdown_coordinator option" where
  "join_generation c generation =
     map_option (\<lambda>n. c\<lparr>sc_waiters := fmupd generation n (sc_waiters c)\<rparr>) (checked_add (waiter_count c generation) 1)"

definition coordinator_begin :: "shutdown_coordinator \<Rightarrow> shutdown_mode \<Rightarrow> (shutdown_coordinator \<times> bool \<times> u64) option" where
  "coordinator_begin c mode =
     (if sc_active c
      then map_option (\<lambda>c'. (c', False, sc_generation c))
        (join_generation (if mode = Immediate then c\<lparr>sc_mode := Immediate\<rparr> else c) (sc_generation c))
      else map_option (\<lambda>c'. (c', True, sc_generation c + 1))
        (join_generation (c\<lparr>sc_active := True, sc_generation := sc_generation c + 1, sc_mode := mode\<rparr>) (sc_generation c + 1)))"

definition coordinator_mode :: "shutdown_coordinator \<Rightarrow> u64 \<Rightarrow> shutdown_mode" where
  "coordinator_mode c generation = (if sc_generation c = generation then sc_mode c else Immediate)"

text \<open>The second component is the map of the wakers to call.\<close>

definition coordinator_complete :: "shutdown_coordinator \<Rightarrow> u64 \<Rightarrow> shutdown_result \<Rightarrow> shutdown_coordinator \<times> (u64, nat) fmap" where
  "coordinator_complete c generation result =
     (if sc_generation c \<noteq> generation \<or> \<not> sc_active c then (c, fmempty)
      else (c\<lparr>sc_results := (if fmlookup (sc_waiters c) generation \<noteq> None then fmupd generation result (sc_results c) else sc_results c),
              sc_active := False, sc_wakers := fmdrop generation (sc_wakers c)\<rparr>,
            case fmlookup (sc_wakers c) generation of None \<Rightarrow> fmempty | Some ws \<Rightarrow> ws))"

definition coordinator_finish :: "shutdown_coordinator \<Rightarrow> u64 \<Rightarrow> spi_error + shutdown_outcome \<Rightarrow> shutdown_coordinator \<times> (u64, nat) fmap" where
  "coordinator_finish c generation result = coordinator_complete c generation (ProviderResult result)"

definition coordinator_abort_start :: "shutdown_coordinator \<Rightarrow> u64 \<Rightarrow> string \<Rightarrow> shutdown_coordinator \<times> (u64, nat) fmap" where
  "coordinator_abort_start c generation error = coordinator_complete c generation (StartFailed error)"

definition coordinator_wait_turn ::
  "shutdown_coordinator \<Rightarrow> u64 \<Rightarrow> finite_wait option \<Rightarrow> instant \<Rightarrow> (bool \<times> shutdown_result option) turn_result" where
  "coordinator_wait_turn c generation budget now =
     wait_turn budget now
       (if \<not> sc_active c \<or> sc_generation c \<noteq> generation then Some (False, fmlookup (sc_results c) generation) else None)
       (True, None)"

text \<open>The registration keeps its token; \<^const>\<open>None\<close> as the answer is \<open>Pending\<close>.\<close>

definition poll_result ::
  "shutdown_coordinator \<Rightarrow> u64 \<Rightarrow> u64 option \<Rightarrow> nat \<Rightarrow> shutdown_coordinator \<times> u64 option \<times> shutdown_result option option" where
  "poll_result c generation token waker = (case fmlookup (sc_results c) generation of
       Some result \<Rightarrow> (c, token, Some (Some result))
     | None \<Rightarrow>
         if \<not> sc_active c \<or> sc_generation c \<noteq> generation then (c, token, Some None)
         else (case (case token of None \<Rightarrow> (sc_next_registration c + 1, sc_next_registration c + 1)
                      | Some t \<Rightarrow> (sc_next_registration c, t)) of
             (counter, t) \<Rightarrow>
               let ws = (case fmlookup (sc_wakers c) generation of None \<Rightarrow> fmempty | Some ws \<Rightarrow> ws)
               in (c\<lparr>sc_next_registration := counter, sc_wakers := fmupd generation (fmupd t waker ws) (sc_wakers c)\<rparr>,
                   Some t, None)))"

definition coordinator_unregister :: "shutdown_coordinator \<Rightarrow> u64 \<Rightarrow> u64 \<Rightarrow> shutdown_coordinator" where
  "coordinator_unregister c generation token = (case fmlookup (sc_wakers c) generation of
       None \<Rightarrow> c
     | Some ws \<Rightarrow>
         let left = fmdrop token ws
         in c\<lparr>sc_wakers := (if left = fmempty then fmdrop generation (sc_wakers c) else fmupd generation left (sc_wakers c))\<rparr>)"

definition coordinator_release :: "shutdown_coordinator \<Rightarrow> u64 \<Rightarrow> shutdown_coordinator" where
  "coordinator_release c generation = (case fmlookup (sc_waiters c) generation of
       None \<Rightarrow> c
     | Some n \<Rightarrow>
         let left = saturating_sub n 1
         in if left = 0
            then c\<lparr>sc_waiters := fmdrop generation (sc_waiters c), sc_results := fmdrop generation (sc_results c),
                   sc_wakers := fmdrop generation (sc_wakers c)\<rparr>
            else c\<lparr>sc_waiters := fmupd generation left (sc_waiters c)\<rparr>)"

section \<open>Requests, tickets and observers\<close>

record shutdown_system =
  sys_coordinator :: shutdown_coordinator
  sys_tickets :: "u64 list"
  sys_pending :: "(u64 \<times> u64, nat) fmap"
  sys_tokens :: "(u64 \<times> u64) fset"
  sys_finished :: "(u64 \<times> shutdown_result) list"
  sys_attempts :: nat
  sys_registrations :: nat

datatype shutdown_op =
    BeginShutdown shutdown_mode
  | CompleteShutdown shutdown_result
  | PollTicket u64 "u64 option" nat
  | DropRegistration u64 u64
  | DropTicket u64

definition system_new :: shutdown_system where
  "system_new = \<lparr>sys_coordinator = coordinator_new, sys_tickets = [], sys_pending = fmempty, sys_tokens = {||}, sys_finished = [],
     sys_attempts = 0, sys_registrations = 0\<rparr>"

text \<open>What the thread of the active attempt, the holders of tickets and the observers may do; the polls of a registration
  that has a token use that token.\<close>

fun system_enabled :: "shutdown_system \<Rightarrow> shutdown_op \<Rightarrow> bool" where
  "system_enabled s (BeginShutdown mode) = True"
| "system_enabled s (CompleteShutdown result) = sc_active (sys_coordinator s)"
| "system_enabled s (PollTicket g token waker) =
     (g \<in> set (sys_tickets s) \<and> (case token of None \<Rightarrow> True | Some t \<Rightarrow> (g, t) |\<in>| sys_tokens s))"
| "system_enabled s (DropRegistration g t) = ((g, t) |\<in>| sys_tokens s)"
| "system_enabled s (DropTicket g) =
     (g \<in> set (sys_tickets s) \<and> (count_list (sys_tickets s) g = 1 \<longrightarrow> fBall (sys_tokens s) (\<lambda>p. fst p \<noteq> g)))"

fun system_exec :: "shutdown_system \<Rightarrow> shutdown_op \<Rightarrow> shutdown_system option" where
  "system_exec s (BeginShutdown mode) = map_option (\<lambda>(c, start, g).
      s\<lparr>sys_coordinator := c, sys_tickets := g # sys_tickets s, sys_attempts := (if start then Suc (sys_attempts s) else sys_attempts s)\<rparr>)
    (coordinator_begin (sys_coordinator s) mode)"
| "system_exec s (CompleteShutdown result) =
     (let g = sc_generation (sys_coordinator s) in
      case coordinator_complete (sys_coordinator s) g result of (c, woken) \<Rightarrow>
        Some (s\<lparr>sys_coordinator := c, sys_pending := fmfilter (\<lambda>(g', t). g' \<noteq> g \<or> t |\<notin>| fmdom woken) (sys_pending s),
          sys_finished := (g, result) # sys_finished s\<rparr>))"
| "system_exec s (PollTicket g token waker) = (case poll_result (sys_coordinator s) g token waker of
       (c, token', Some answer) \<Rightarrow>
         Some (s\<lparr>sys_coordinator := c, sys_pending := (case token of None \<Rightarrow> sys_pending s | Some t \<Rightarrow> fmdrop (g, t) (sys_pending s))\<rparr>)
     | (c, token', None) \<Rightarrow> Some (s\<lparr>sys_coordinator := c,
         sys_pending := (case token' of None \<Rightarrow> sys_pending s | Some t \<Rightarrow> fmupd (g, t) waker (sys_pending s)),
         sys_tokens := (case token' of None \<Rightarrow> sys_tokens s | Some t \<Rightarrow> finsert (g, t) (sys_tokens s)),
         sys_registrations := (if token = None then Suc (sys_registrations s) else sys_registrations s)\<rparr>))"
| "system_exec s (DropRegistration g t) = Some (s\<lparr>sys_coordinator := coordinator_unregister (sys_coordinator s) g t,
     sys_pending := fmdrop (g, t) (sys_pending s), sys_tokens := sys_tokens s |-| {|(g, t)|}\<rparr>)"
| "system_exec s (DropTicket g) = Some (s\<lparr>sys_coordinator := coordinator_release (sys_coordinator s) g, sys_tickets := remove1 g (sys_tickets s)\<rparr>)"

definition system_step :: "shutdown_system \<Rightarrow> shutdown_op \<Rightarrow> shutdown_system \<Rightarrow> bool" where
  "system_step s l s' \<longleftrightarrow> system_enabled s l \<and> system_exec s l = Some s'"

abbreviation system_reachable :: "shutdown_system \<Rightarrow> bool" where
  "system_reachable \<equiv> reach (\<lambda>s. s = system_new) system_step"

section \<open>The invariant\<close>

definition stored_waker :: "shutdown_coordinator \<Rightarrow> u64 \<Rightarrow> u64 \<Rightarrow> nat option" where
  "stored_waker c g t = Option.bind (fmlookup (sc_wakers c) g) (\<lambda>ws. fmlookup ws t)"

text \<open>The generations used so far are numbers up to the number of attempts, so they are distinct below \<open>2\<^sup>6\<^sup>4\<close>.\<close>

definition numbers_ok :: "shutdown_system \<Rightarrow> bool" where
  "numbers_ok s \<longleftrightarrow> sc_generation (sys_coordinator s) = of_nat (sys_attempts s) \<and>
     (\<forall>g \<in> set (sys_tickets s). unat g \<le> sys_attempts s) \<and>
     (\<forall>g r. (g, r) \<in> set (sys_finished s) \<longrightarrow>
        unat g \<le> sys_attempts s \<and> (sc_active (sys_coordinator s) \<longrightarrow> g \<noteq> sc_generation (sys_coordinator s))) \<and>
     distinct (map fst (sys_finished s))"

definition counts_ok :: "shutdown_system \<Rightarrow> bool" where
  "counts_ok s \<longleftrightarrow> (\<forall>g. unat (waiter_count (sys_coordinator s) g) = count_list (sys_tickets s) g \<and>
     fmlookup (sc_waiters (sys_coordinator s)) g \<noteq> Some 0)"

definition results_ok :: "shutdown_system \<Rightarrow> bool" where
  "results_ok s \<longleftrightarrow> (\<forall>g r. fmlookup (sc_results (sys_coordinator s)) g = Some r \<longleftrightarrow>
     g \<in> set (sys_tickets s) \<and> (g, r) \<in> set (sys_finished s))"

definition answers_ok :: "shutdown_system \<Rightarrow> bool" where
  "answers_ok s \<longleftrightarrow> (\<forall>g \<in> set (sys_tickets s).
     sc_active (sys_coordinator s) \<and> sc_generation (sys_coordinator s) = g \<or> (\<exists>r. (g, r) \<in> set (sys_finished s)))"

definition tickets_ok :: "shutdown_system \<Rightarrow> bool" where
  "tickets_ok s \<longleftrightarrow> numbers_ok s \<and> counts_ok s \<and> results_ok s \<and> answers_ok s"

lemmas ok_defs = numbers_ok_def counts_ok_def results_ok_def answers_ok_def

definition observers_ok :: "shutdown_system \<Rightarrow> bool" where
  "observers_ok s \<longleftrightarrow> (let c = sys_coordinator s in
     sc_next_registration c = of_nat (sys_registrations s) \<and>
     (\<forall>g t. (g, t) |\<in>| sys_tokens s \<longrightarrow> unat t \<le> sys_registrations s \<and> g \<in> set (sys_tickets s)) \<and>
     (\<forall>g t w. fmlookup (sys_pending s) (g, t) = Some w \<longrightarrow>
        (g, t) |\<in>| sys_tokens s \<and> sc_active c \<and> sc_generation c = g \<and> stored_waker c g t = Some w))"

lemma observers_pending:
  assumes "observers_ok s" "fmlookup (sys_pending s) (g, t) = Some w"
  shows "(g, t) |\<in>| sys_tokens s \<and> sc_active (sys_coordinator s) \<and> sc_generation (sys_coordinator s) = g \<and>
    stored_waker (sys_coordinator s) g t = Some w"
  using assms unfolding observers_ok_def Let_def by blast

text \<open>Numbers of 64 bits have not been used up.\<close>

definition numbers_left :: "shutdown_system \<Rightarrow> bool" where
  "numbers_left s \<longleftrightarrow> sys_attempts s < 2 ^ 64 \<and> sys_registrations s < 2 ^ 64"

definition system_inv :: "shutdown_system \<Rightarrow> bool" where
  "system_inv s \<longleftrightarrow> (numbers_left s \<longrightarrow> tickets_ok s \<and> observers_ok s)"

lemma unat_of_nat_64: "n < 2 ^ 64 \<Longrightarrow> unat (of_nat n :: 64 word) = n"
  by (rule unat_of_nat_small) simp

lemma waiter_count_new [simp]: "waiter_count coordinator_new g = 0"
  by (simp add: waiter_count_def coordinator_new_def)

lemma waiters_present:
  "fmlookup (sc_waiters c) g \<noteq> Some 0 \<Longrightarrow> unat (waiter_count c g) = count_list ts g \<Longrightarrow>
   fmlookup (sc_waiters c) g \<noteq> None \<longleftrightarrow> g \<in> set ts"
  by (cases "g \<in> set ts") (auto simp: waiter_count_def unat_eq_zero count_list_0_iff split: option.splits)

lemma system_new_inv: "system_inv system_new"
  by (simp add: system_inv_def tickets_ok_def ok_defs observers_ok_def system_new_def coordinator_new_def waiter_count_def)

subsection \<open>Starting and joining\<close>

lemma join_generation_spec:
  assumes "join_generation c g = Some c'"
  shows "unat (waiter_count c' g') = unat (waiter_count c g') + (if g' = g then 1 else 0)"
    and "fmlookup (sc_waiters c) g' \<noteq> Some 0 \<Longrightarrow> fmlookup (sc_waiters c') g' \<noteq> Some 0"
    and "c' = c\<lparr>sc_waiters := sc_waiters c'\<rparr>"
proof -
  obtain n where n: "unat n = unat (waiter_count c g) + 1" and c': "c' = c\<lparr>sc_waiters := fmupd g n (sc_waiters c)\<rparr>"
    using assms by (auto simp: join_generation_def checked_add_Some_iff)
  have "n \<noteq> 0" using n by auto
  then show "unat (waiter_count c' g') = unat (waiter_count c g') + (if g' = g then 1 else 0)"
    "fmlookup (sc_waiters c) g' \<noteq> Some 0 \<Longrightarrow> fmlookup (sc_waiters c') g' \<noteq> Some 0" "c' = c\<lparr>sc_waiters := sc_waiters c'\<rparr>"
    using n c' by (auto simp: waiter_count_def)
qed

lemma coordinator_begin_cases:
  assumes "coordinator_begin c mode = Some (c', start, g)"
  obtains "sc_active c" "\<not> start" "g = sc_generation c" "c' = c\<lparr>sc_mode := sc_mode c', sc_waiters := sc_waiters c'\<rparr>"
      "\<And>g'. unat (waiter_count c' g') = unat (waiter_count c g') + (if g' = g then 1 else 0)"
      "\<And>g'. fmlookup (sc_waiters c) g' \<noteq> Some 0 \<Longrightarrow> fmlookup (sc_waiters c') g' \<noteq> Some 0"
  | "\<not> sc_active c" "start" "g = sc_generation c + 1"
      "c' = c\<lparr>sc_active := True, sc_generation := g, sc_mode := mode, sc_waiters := sc_waiters c'\<rparr>"
      "\<And>g'. unat (waiter_count c' g') = unat (waiter_count c g') + (if g' = g then 1 else 0)"
      "\<And>g'. fmlookup (sc_waiters c) g' \<noteq> Some 0 \<Longrightarrow> fmlookup (sc_waiters c') g' \<noteq> Some 0"
proof (cases "sc_active c")
  case True
  let ?c = "if mode = Immediate then c\<lparr>sc_mode := Immediate\<rparr> else c"
  have j: "join_generation ?c g = Some c'" and r: "\<not> start" "g = sc_generation c"
    using assms True by (auto simp: coordinator_begin_def)
  have "waiter_count ?c = waiter_count c" "sc_waiters ?c = sc_waiters c" by (auto simp: waiter_count_def)
  moreover have "c' = c\<lparr>sc_mode := sc_mode c', sc_waiters := sc_waiters c'\<rparr>"
    using join_generation_spec(3) [OF j] by (cases c; cases c'; cases "mode = Immediate") auto
  ultimately show thesis using that(1) True r join_generation_spec(1,2) [OF j] by auto
next
  case False
  let ?c = "c\<lparr>sc_active := True, sc_generation := sc_generation c + 1, sc_mode := mode\<rparr>"
  have j: "join_generation ?c g = Some c'" and r: "start" "g = sc_generation c + 1"
    using assms False by (auto simp: coordinator_begin_def)
  have "waiter_count ?c = waiter_count c" by (auto simp: waiter_count_def)
  then show thesis using that(2) False r join_generation_spec [OF j] by auto
qed

lemma begin_inv:
  assumes inv: "system_inv s" and exec: "system_exec s (BeginShutdown mode) = Some s'"
  shows "system_inv s'"
proof -
  let ?c = "sys_coordinator s"
  obtain c' start g where b: "coordinator_begin ?c mode = Some (c', start, g)"
    and s': "s' = s\<lparr>sys_coordinator := c', sys_tickets := g # sys_tickets s, sys_attempts := (if start then Suc (sys_attempts s) else sys_attempts s)\<rparr>"
    using exec by (auto split: prod.splits)
  have "tickets_ok s' \<and> observers_ok s'" if left: "numbers_left s'"
  proof -
    have "tickets_ok s" "observers_ok s" using inv left by (auto simp: system_inv_def numbers_left_def s' split: if_splits)
    then have ok: "numbers_ok s" "counts_ok s" "results_ok s" "answers_ok s" "observers_ok s" by (auto simp: tickets_ok_def)
    from b show ?thesis
    proof (cases rule: coordinator_begin_cases)
      case 1
      have "sc_generation c' = sc_generation ?c" "sc_active c'" "sc_results c' = sc_results ?c" "sc_wakers c' = sc_wakers ?c"
        "sc_next_registration c' = sc_next_registration ?c"
        by (subst 1(4); simp add: 1(1))+
      note eq = this
      have "sc_generation ?c = of_nat (sys_attempts s)" "unat (sc_generation ?c) = sys_attempts s"
        using ok(1) left by (auto simp: numbers_ok_def numbers_left_def s' 1(2) unat_of_nat_64)
      then have "numbers_ok s'" using ok(1) eq 1(1,2,3) by (auto simp: numbers_ok_def s')
      moreover have "counts_ok s'" using ok(2) 1(2,5,6) by (auto simp: counts_ok_def s')
      moreover have "results_ok s'" using ok(1,3) eq 1(1,3) by (auto simp: results_ok_def numbers_ok_def s')
      moreover have "answers_ok s'" using ok(4) eq 1(1,3) by (auto simp: answers_ok_def s')
      moreover have "observers_ok s'" using ok(5) eq 1(1,2) by (auto simp: observers_ok_def s' stored_waker_def Let_def)
      ultimately show ?thesis by (simp add: tickets_ok_def)
    next
      case 2
      have "sc_generation c' = g" "sc_active c'" "sc_results c' = sc_results ?c" "sc_wakers c' = sc_wakers ?c"
        "sc_next_registration c' = sc_next_registration ?c"
        by (subst 2(4); simp)+
      note eq = this
      have g: "g = of_nat (Suc (sys_attempts s))" "unat g = Suc (sys_attempts s)"
        using ok(1) left unat_of_nat_64 [of "Suc (sys_attempts s)"] by (auto simp: numbers_ok_def numbers_left_def s' 2(2,3) add.commute)
      then have fresh: "g \<notin> set (sys_tickets s)" "\<And>r. (g, r) \<notin> set (sys_finished s)" using ok(1) by (fastforce simp: numbers_ok_def)+
      then have "numbers_ok s'" using ok(1) eq g 2(2) by (auto simp: numbers_ok_def s' le_Suc_eq)
      moreover have "counts_ok s'" using ok(2) 2(2,5,6) by (auto simp: counts_ok_def s')
      moreover have "results_ok s'" using ok(3) eq fresh by (auto simp: results_ok_def s')
      moreover have "answers_ok s'" using ok(4) eq 2(1) by (auto simp: answers_ok_def s')
      moreover have "observers_ok s'" using ok(5) eq 2(1) by (auto simp: observers_ok_def s' Let_def)
      ultimately show ?thesis by (simp add: tickets_ok_def)
    qed
  qed
  then show ?thesis by (simp add: system_inv_def)
qed

subsection \<open>Completion, observers and release\<close>

lemma coordinator_complete_inv:
  assumes inv: "system_inv s" and active: "sc_active (sys_coordinator s)"
    and exec: "system_exec s (CompleteShutdown result) = Some s'"
  shows "system_inv s'"
proof -
  let ?c = "sys_coordinator s" and ?g = "sc_generation (sys_coordinator s)"
  obtain c' woken where c': "coordinator_complete ?c ?g result = (c', woken)"
    and s': "s' = s\<lparr>sys_coordinator := c', sys_pending := fmfilter (\<lambda>(g', t). g' \<noteq> ?g \<or> t |\<notin>| fmdom woken) (sys_pending s),
      sys_finished := (?g, result) # sys_finished s\<rparr>"
    using exec by (auto simp: Let_def split: prod.splits)
  have "tickets_ok s' \<and> observers_ok s'" if left: "numbers_left s'"
  proof -
    have "tickets_ok s" and obs: "observers_ok s" using inv left by (auto simp: system_inv_def numbers_left_def s')
    then have ok: "numbers_ok s" "counts_ok s" "results_ok s" "answers_ok s" by (auto simp: tickets_ok_def)
    have present: "fmlookup (sc_waiters ?c) ?g \<noteq> None \<longleftrightarrow> ?g \<in> set (sys_tickets s)"
      using ok(2) waiters_present by (auto simp: counts_ok_def)
    have eq: "\<not> sc_active c'" "sc_generation c' = ?g" "sc_waiters c' = sc_waiters ?c" "sc_next_registration c' = sc_next_registration ?c"
      "sc_results c' = (if ?g \<in> set (sys_tickets s) then fmupd ?g result (sc_results ?c) else sc_results ?c)"
      "woken = (case fmlookup (sc_wakers ?c) ?g of None \<Rightarrow> fmempty | Some ws \<Rightarrow> ws)"
      using c' active present by (auto simp: coordinator_complete_def)
    have gen: "?g = of_nat (sys_attempts s)" "unat ?g = sys_attempts s"
      using ok(1) left by (auto simp: numbers_ok_def numbers_left_def s' unat_of_nat_64)
    have "(?g, r) \<notin> set (sys_finished s)" for r using ok(1) active by (auto simp: numbers_ok_def)
    then have "numbers_ok s'" "results_ok s'" using ok(1,3) eq gen by (auto simp: numbers_ok_def results_ok_def s')
    moreover have "counts_ok s'" using ok(2) eq(3) by (simp add: counts_ok_def waiter_count_def s')
    moreover have "answers_ok s'" using ok(4) by (auto simp: answers_ok_def s')
    moreover have "fmlookup (sys_pending s') (g, t) = None" for g t
    proof (cases "fmlookup (sys_pending s) (g, t)")
      case (Some w)
      then have "?g = g" "stored_waker ?c g t = Some w" using obs by (auto simp: observers_ok_def Let_def)
      then have "fmlookup woken t = Some w" using eq(6) by (auto simp: stored_waker_def bind_eq_Some_conv)
      then show ?thesis using \<open>?g = g\<close> by (auto simp: s' intro: fmdomI)
    qed (simp add: s')
    moreover have "sc_next_registration c' = of_nat (sys_registrations s)"
      "\<forall>g t. (g, t) |\<in>| sys_tokens s \<longrightarrow> unat t \<le> sys_registrations s \<and> g \<in> set (sys_tickets s)"
      using obs eq(4) by (auto simp: observers_ok_def Let_def)
    ultimately show ?thesis by (simp add: tickets_ok_def observers_ok_def s')
  qed
  then show ?thesis by (simp add: system_inv_def)
qed

text \<open>Steps that leave tickets and results alone.\<close>

lemma tickets_ok_frame:
  assumes "tickets_ok s" "sys_tickets s' = sys_tickets s" "sys_finished s' = sys_finished s" "sys_attempts s' = sys_attempts s"
    "sc_active (sys_coordinator s') = sc_active (sys_coordinator s)" "sc_generation (sys_coordinator s') = sc_generation (sys_coordinator s)"
    "sc_waiters (sys_coordinator s') = sc_waiters (sys_coordinator s)" "sc_results (sys_coordinator s') = sc_results (sys_coordinator s)"
  shows "tickets_ok s'"
  using assms(1) unfolding tickets_ok_def ok_defs waiter_count_def assms(2-8) .

lemma drop_registration_inv:
  assumes inv: "system_inv s" and exec: "system_exec s (DropRegistration g t) = Some s'"
  shows "system_inv s'"
proof -
  let ?c = "sys_coordinator s"
  have s': "s' = s\<lparr>sys_coordinator := coordinator_unregister ?c g t, sys_pending := fmdrop (g, t) (sys_pending s),
      sys_tokens := sys_tokens s |-| {|(g, t)|}\<rparr>" using exec by simp
  have eq: "coordinator_unregister ?c g t = ?c\<lparr>sc_wakers := sc_wakers (coordinator_unregister ?c g t)\<rparr>"
    by (simp add: coordinator_unregister_def Let_def split: option.splits)
  have stored: "stored_waker (coordinator_unregister ?c g t) g' t' = stored_waker ?c g' t'" if "(g', t') \<noteq> (g, t)" for g' t'
    using that by (auto simp: stored_waker_def coordinator_unregister_def Let_def split: option.splits)
      (metis fmempty_lookup fmlookup_drop)
  have "tickets_ok s' \<and> observers_ok s'" if "numbers_left s'"
  proof -
    have t: "tickets_ok s" and o: "observers_ok s" using inv that by (auto simp: system_inv_def numbers_left_def s')
    have same: "sc_active (coordinator_unregister ?c g t) = sc_active ?c" "sc_generation (coordinator_unregister ?c g t) = sc_generation ?c"
      "sc_next_registration (coordinator_unregister ?c g t) = sc_next_registration ?c"
      "sc_waiters (coordinator_unregister ?c g t) = sc_waiters ?c" "sc_results (coordinator_unregister ?c g t) = sc_results ?c"
      by (subst eq; simp)+
    have "tickets_ok s'" by (rule tickets_ok_frame [OF t]) (simp_all add: s' same)
    moreover have "observers_ok s'" using o stored by (auto simp: observers_ok_def Let_def s' same)
    ultimately show ?thesis ..
  qed
  then show ?thesis by (simp add: system_inv_def)
qed

lemma release_inv:
  assumes inv: "system_inv s" and enabled: "system_enabled s (DropTicket g)" and exec: "system_exec s (DropTicket g) = Some s'"
  shows "system_inv s'"
proof -
  let ?c = "sys_coordinator s"
  let ?r = "coordinator_release ?c g"
  have s': "s' = s\<lparr>sys_coordinator := ?r, sys_tickets := remove1 g (sys_tickets s)\<rparr>" using exec by simp
  have "tickets_ok s' \<and> observers_ok s'" if "numbers_left s'"
  proof -
    have "tickets_ok s" and obs: "observers_ok s" using inv that by (auto simp: system_inv_def numbers_left_def s')
    then have ok: "numbers_ok s" "counts_ok s" "results_ok s" "answers_ok s" by (auto simp: tickets_ok_def)
    obtain n where n: "fmlookup (sc_waiters ?c) g = Some n" "unat n = count_list (sys_tickets s) g" "n \<noteq> 0"
    proof -
      have c: "unat (waiter_count ?c g) = count_list (sys_tickets s) g" "fmlookup (sc_waiters ?c) g \<noteq> Some 0" using ok(2) by (auto simp: counts_ok_def)
      then have "fmlookup (sc_waiters ?c) g \<noteq> None" using enabled waiters_present [OF c(2,1)] by simp
      then show thesis using c by (intro that) (auto simp: waiter_count_def)
    qed
    have last: "saturating_sub n 1 = 0 \<longleftrightarrow> count_list (sys_tickets s) g = 1"
      using n by (auto simp: word_unat_eq_iff unat_saturating_sub)
    have count: "count_list (remove1 g (sys_tickets s)) g' = (if g' = g then unat n - 1 else count_list (sys_tickets s) g')" for g'
      using n(2) by (induction "sys_tickets s") auto
    have mem: "g' \<in> set (remove1 g (sys_tickets s)) \<longleftrightarrow> g' \<in> set (sys_tickets s) \<and> (g' = g \<longrightarrow> saturating_sub n 1 \<noteq> 0)" for g'
    proof (cases "g' = g")
      case True
      have "g \<in> set (remove1 g (sys_tickets s)) \<longleftrightarrow> unat n - 1 \<noteq> 0" using count [of g] by (metis count_list_0_iff)
      moreover have "saturating_sub n 1 = 0 \<longleftrightarrow> unat n - 1 = 0" using unat_saturating_sub [of n 1] by (simp add: unat_eq_zero [symmetric])
      ultimately show ?thesis using True enabled by simp
    qed simp
    have same: "sc_active ?r = sc_active ?c" "sc_generation ?r = sc_generation ?c" "sc_next_registration ?r = sc_next_registration ?c"
      "\<And>g'. fmlookup (sc_results ?r) g' = (if g' = g \<and> saturating_sub n 1 = 0 then None else fmlookup (sc_results ?c) g')"
      "\<And>g' t. stored_waker ?r g' t = (if g' = g \<and> saturating_sub n 1 = 0 then None else stored_waker ?c g' t)"
      "\<And>g'. fmlookup (sc_waiters ?r) g' = (if g' = g then if saturating_sub n 1 = 0 then None else Some (saturating_sub n 1)
         else fmlookup (sc_waiters ?c) g')"
      by (auto simp: coordinator_release_def n(1) Let_def stored_waker_def)
    have "numbers_ok s'" using ok(1) by (auto simp: numbers_ok_def s' same(1,2) mem)
    moreover have "counts_ok s'" using ok(2) n(2) last by (auto simp: counts_ok_def s' waiter_count_def same(6) count unat_saturating_sub)
    moreover have "results_ok s'" using ok(3) by (simp add: results_ok_def s' same(4) mem)
    moreover have "answers_ok s'" using ok(4) by (auto simp: answers_ok_def s' same(1,2) mem)
    moreover have "fmlookup (sys_pending s) (g, t) = None" if "saturating_sub n 1 = 0" for t
      using observers_pending [OF obs, of g t] enabled last that by (cases "fmlookup (sys_pending s) (g, t)") auto
    then have "observers_ok s'"
      using obs enabled last by (auto simp: observers_ok_def Let_def s' same(1,2,3,5) mem)
    ultimately show ?thesis by (simp add: tickets_ok_def)
  qed
  then show ?thesis by (simp add: system_inv_def)
qed

lemma poll_cases:
  assumes "poll_result c g token waker = (c', token', answer)"
  shows "answer \<noteq> None \<Longrightarrow> c' = c"
    and "answer = None \<Longrightarrow> sc_active c \<and> sc_generation c = g \<and>
      sc_active c' = sc_active c \<and> sc_generation c' = sc_generation c \<and> sc_waiters c' = sc_waiters c \<and> sc_results c' = sc_results c \<and>
      sc_next_registration c' = (if token = None then sc_next_registration c + 1 else sc_next_registration c) \<and>
      (\<exists>t. token' = Some t \<and> t = (case token of None \<Rightarrow> sc_next_registration c + 1 | Some t \<Rightarrow> t) \<and>
        (\<forall>g' t'. stored_waker c' g' t' = (if (g', t') = (g, t) then Some waker else stored_waker c g' t')))"
  using assms by (auto simp: poll_result_def Let_def stored_waker_def split: option.splits if_splits)

lemma poll_inv:
  assumes inv: "system_inv s" and enabled: "system_enabled s (PollTicket g token waker)"
    and exec: "system_exec s (PollTicket g token waker) = Some s'"
  shows "system_inv s'"
proof -
  let ?c = "sys_coordinator s"
  obtain c' token' answer where p: "poll_result ?c g token waker = (c', token', answer)" using prod_cases3 by blast
  have "tickets_ok s' \<and> observers_ok s'" if left: "numbers_left s'"
  proof (cases answer)
    case (Some a)
    then have s': "s' = s\<lparr>sys_pending := (case token of None \<Rightarrow> sys_pending s | Some t \<Rightarrow> fmdrop (g, t) (sys_pending s))\<rparr>"
      using exec p poll_cases(1) [OF p] by simp
    have "tickets_ok s" "observers_ok s" using inv left by (auto simp: system_inv_def numbers_left_def s')
    then show ?thesis
      by (auto simp: observers_ok_def Let_def s' split: option.splits intro: tickets_ok_frame)
  next
    case None
    note c' = poll_cases(2) [OF p None]
    then obtain t where t: "token' = Some t" "t = (case token of None \<Rightarrow> sc_next_registration ?c + 1 | Some t \<Rightarrow> t)"
      and stored: "\<And>g' t'. stored_waker c' g' t' = (if (g', t') = (g, t) then Some waker else stored_waker ?c g' t')" by blast
    have s': "s' = s\<lparr>sys_coordinator := c', sys_pending := fmupd (g, t) waker (sys_pending s), sys_tokens := finsert (g, t) (sys_tokens s),
        sys_registrations := (if token = None then Suc (sys_registrations s) else sys_registrations s)\<rparr>"
      using exec p None t(1) by simp
    have same: "sc_active c' = sc_active ?c" "sc_generation c' = sc_generation ?c" "sc_waiters c' = sc_waiters ?c" "sc_results c' = sc_results ?c"
      "sc_next_registration c' = (if token = None then sc_next_registration ?c + 1 else sc_next_registration ?c)"
      using c' by blast+
    have tok: "tickets_ok s" and obs: "observers_ok s" using inv left by (auto simp: system_inv_def numbers_left_def s' split: if_splits)
    have "tickets_ok s'" by (rule tickets_ok_frame [OF tok]) (simp_all add: s' same)
    moreover have "unat t \<le> sys_registrations s'"
      using obs enabled t(2) left unat_of_nat_64 [of "Suc (sys_registrations s)"]
      by (auto simp: observers_ok_def Let_def s' numbers_left_def add.commute split: option.splits)
    then have toks: "\<forall>g' t'. (g', t') |\<in>| sys_tokens s' \<longrightarrow> unat t' \<le> sys_registrations s' \<and> g' \<in> set (sys_tickets s')"
      using obs enabled by (auto simp: observers_ok_def Let_def s' le_Suc_eq)
    have pend: "(g', t') |\<in>| sys_tokens s' \<and> sc_active c' \<and> sc_generation c' = g' \<and> stored_waker c' g' t' = Some w"
      if "fmlookup (sys_pending s') (g', t') = Some w" for g' t' w
    proof (cases "(g', t') = (g, t)")
      case True
      moreover have "sc_active ?c" "sc_generation ?c = g" using c' by blast+
      ultimately show ?thesis using that stored [of g t] by (simp add: s' same)
    next
      case False
      then have "fmlookup (sys_pending s) (g', t') = Some w" "stored_waker c' g' t' = stored_waker ?c g' t'"
        using that stored [of g' t'] by (auto simp: s' split: if_splits)
      then show ?thesis using observers_pending [OF obs, of g' t' w] by (simp add: s' same)
    qed
    have "sc_next_registration c' = of_nat (sys_registrations s')" using obs by (simp add: observers_ok_def Let_def s' same add.commute)
    then have "observers_ok s'" using toks pend by (simp add: observers_ok_def Let_def s')
    ultimately show ?thesis by simp
  qed
  then show ?thesis by (simp add: system_inv_def)
qed

interpretation sd: transition_invariant "\<lambda>s. s = system_new" system_step system_inv
proof
  fix s l s'
  assume "system_inv s" "system_step s l s'"
  then show "system_inv s'"
    by (cases l) (auto simp: system_step_def simp del: system_exec.simps
      intro: begin_inv coordinator_complete_inv poll_inv drop_registration_inv release_inv)
qed (simp add: system_new_inv)

section \<open>Promises to the holders of tickets\<close>

fun system_run :: "shutdown_op list \<Rightarrow> shutdown_system \<Rightarrow> shutdown_system option" where
  "system_run [] s = Some s"
| "system_run (l # ls) s = (if system_enabled s l then Option.bind (system_exec s l) (system_run ls) else None)"

lemma system_run_reachable: "system_reachable s \<Longrightarrow> system_run ls s = Some s' \<Longrightarrow> system_reachable s'"
proof (induction ls arbitrary: s)
  case (Cons l ls)
  then obtain s1 where "system_step s l s1" "system_run ls s1 = Some s'"
    by (auto simp: bind_eq_Some_conv system_step_def split: if_splits)
  then show ?case using Cons by (meson reach.reach_step)
qed simp

text \<open>C14: A ticket always gets the result of its own attempt: while the attempt runs a wait sleeps or times out, and afterwards
  every wait and every poll returns the one result with which the attempt finished, however many attempts were made
  since and in whatever order tickets and observers come and go. No observer is left behind: every observer that was
  told to wait and has not been woken belongs to the running attempt, and its waker is stored for the completion.\<close>

theorem shutdown_tickets_answered:
  assumes "system_reachable s" "numbers_left s"
  shows "(\<forall>g \<in> set (sys_tickets s). \<forall>budget now token waker.
      if sc_active (sys_coordinator s) \<and> sc_generation (sys_coordinator s) = g
      then coordinator_wait_turn (sys_coordinator s) g budget now \<in> insert (Answer (True, None)) (range Sleep)
      else \<exists>r. (g, r) \<in> set (sys_finished s) \<and> coordinator_wait_turn (sys_coordinator s) g budget now = Answer (False, Some r) \<and>
        snd (snd (poll_result (sys_coordinator s) g token waker)) = Some (Some r)) \<and>
    distinct (map fst (sys_finished s)) \<and>
    (\<forall>g t w. fmlookup (sys_pending s) (g, t) = Some w \<longrightarrow>
      sc_active (sys_coordinator s) \<and> sc_generation (sys_coordinator s) = g \<and> stored_waker (sys_coordinator s) g t = Some w)"
proof -
  have ok: "tickets_ok s" "observers_ok s" using sd.inv_reach [OF assms(1)] assms(2) by (simp_all add: system_inv_def)
  have "if sc_active (sys_coordinator s) \<and> sc_generation (sys_coordinator s) = g
      then coordinator_wait_turn (sys_coordinator s) g budget now \<in> insert (Answer (True, None)) (range Sleep)
      else \<exists>r. (g, r) \<in> set (sys_finished s) \<and> coordinator_wait_turn (sys_coordinator s) g budget now = Answer (False, Some r) \<and>
        snd (snd (poll_result (sys_coordinator s) g token waker)) = Some (Some r)"
    if g: "g \<in> set (sys_tickets s)" for g budget now token waker
  proof (cases "sc_active (sys_coordinator s) \<and> sc_generation (sys_coordinator s) = g")
    case True
    then show ?thesis by (auto simp: coordinator_wait_turn_def wait_turn_def split: option.splits)
  next
    case False
    then obtain r where r: "(g, r) \<in> set (sys_finished s)" using ok(1) g by (auto simp: tickets_ok_def answers_ok_def)
    then have "fmlookup (sc_results (sys_coordinator s)) g = Some r" using ok(1) g by (auto simp: tickets_ok_def results_ok_def)
    then show ?thesis using r False by (auto simp: coordinator_wait_turn_def wait_turn_def poll_result_def)
  qed
  moreover have "distinct (map fst (sys_finished s))" using ok(1) by (simp add: tickets_ok_def numbers_ok_def)
  ultimately show ?thesis using observers_pending [OF ok(2)] by blast
qed

definition demo_ops :: "shutdown_op list" where
  "demo_ops = [BeginShutdown (Graceful 5), BeginShutdown Immediate, PollTicket 1 None 7,
     CompleteShutdown (StartFailed ''no thread''), DropTicket 1, BeginShutdown Immediate]"

definition demo_shutdown :: shutdown_system where
  "demo_shutdown = the (system_run demo_ops system_new)"

theorem shutdown_tickets_answered_witness:
  "sys_tickets demo_shutdown = [2, 1] \<and>
   coordinator_wait_turn (sys_coordinator demo_shutdown) 1 None 0 = Answer (False, Some (StartFailed ''no thread'')) \<and>
   coordinator_wait_turn (sys_coordinator demo_shutdown) 2 None 0 \<in> insert (Answer (True, None)) (range Sleep) \<and>
   distinct (map fst (sys_finished demo_shutdown))"
proof -
  have "\<not> Option.is_none (system_run demo_ops system_new)" by code_simp
  then have "system_run demo_ops system_new = Some demo_shutdown" by (auto simp: demo_shutdown_def Option.is_none_def)
  then have r: "system_reachable demo_shutdown" by (rule system_run_reachable [rotated]) (rule reach.reach_init, rule refl)
  have t: "sys_tickets demo_shutdown = [2, 1]" and f: "sys_finished demo_shutdown = [(1, StartFailed ''no thread'')]" by code_simp+
  have a: "sc_active (sys_coordinator demo_shutdown)" "sc_generation (sys_coordinator demo_shutdown) = 2" by code_simp+
  have "sys_attempts demo_shutdown = 2" "sys_registrations demo_shutdown = 1" by code_simp+
  then have n: "numbers_left demo_shutdown" by (simp add: numbers_left_def)
  note all = shutdown_tickets_answered [OF r n]
  have "\<exists>r. (1, r) \<in> set (sys_finished demo_shutdown) \<and> coordinator_wait_turn (sys_coordinator demo_shutdown) 1 None 0 = Answer (False, Some r)"
    using all [THEN conjunct1, rule_format, of 1 None 0 None 0] t a by auto
  moreover have "coordinator_wait_turn (sys_coordinator demo_shutdown) 2 None 0 \<in> insert (Answer (True, None)) (range Sleep)"
    using all [THEN conjunct1, rule_format, of 2 None 0 None 0] t a by auto
  moreover have "distinct (map fst (sys_finished demo_shutdown))" using all by blast
  ultimately show ?thesis using t f by simp
qed

end
