(* ===== verification/Facade_Lifecycle.thy ===== *)
theory Facade_Lifecycle
  imports Shutdown_Coordinator Publish_Pipeline Metrics
begin

text \<open>
  The life of a synchronous bus: admission of publications and subscriptions, worker threads, shutdown requests and the
  shutdown thread, from \<open>src/src/facade/event_bus/lifecycle.rs\<close>, \<open>publishing.rs\<close>, \<open>subscribing.rs\<close>,
  \<open>internal/event_bus_inner.rs\<close>, \<open>internal/owner_lifecycle_guard.rs\<close> and \<open>src/src/facade/event_bus_shutdown.rs\<close>.

  The functions are the critical sections; \<open>life_step\<close> interleaves them. Beside the facade the system counts the
  operations that hold a permit, the workers between their registration and the end of their tracking, and the workers
  in the last section of their guard; it knows which request still has to start the shutdown thread, where that thread is,
  and what the provider answered to its shutdown calls. Time-outs of waiting callers change nothing and are in
  \<open>Shutdown_Coordinator\<close>. What the provider answers, whether threads start, and panics are free; what workers and
  callers do to the scheduler, the registry of subscriptions, the close failures and the count of abandoned deliveries
  is one free step. Only the shutdown thread writes the report, so its provider call is one step, at its return.
\<close>

section \<open>The facade\<close>

datatype lifecycle_state = BusRunning | BusClosing | BusClosed

record shutdown_report =
  rep_outcome :: shutdown_outcome
  rep_known_abandoned :: u64
  rep_may_have_abandoned :: bool

record 'j facade =
  fb_provider_id :: string
  fb_durability :: durability_capability
  fb_lifecycle :: lifecycle_state
  fb_operations :: operation_gate
  fb_tracker :: tracker_state
  fb_subscriptions :: "(id, subscription_control) fmap"
  fb_ledger :: close_failure_ledger
  fb_report :: "shutdown_report option"
  fb_coordinator :: shutdown_coordinator
  fb_scheduler :: "'j sync_scheduler"
  fb_abandoned :: u64

definition signal_subscriptions :: "(subscription_control \<Rightarrow> subscription_control) \<Rightarrow> 'j facade \<Rightarrow> 'j facade" where
  "signal_subscriptions signal f = f\<lparr>fb_subscriptions := fmmap signal (fb_subscriptions f)\<rparr>"

text \<open>The section under the lifecycle lock: \<^const>\<open>None\<close> inside says that the bus is closed, otherwise whether a shutdown
  thread must be started, and the generation of the ticket.\<close>

definition request_shutdown_locked :: "shutdown_mode \<Rightarrow> 'j facade \<Rightarrow> ('j facade \<times> (bool \<times> u64) option) option" where
  "request_shutdown_locked mode f =
     (if fb_lifecycle f = BusClosed then Some (f, None)
      else map_option (\<lambda>(c, start, g).
          (f\<lparr>fb_lifecycle := BusClosing, fb_operations := gate_close_admission (fb_operations f), fb_coordinator := c\<rparr>, Some (start, g)))
        (coordinator_begin (fb_coordinator f) mode))"

text \<open>The rest of the request up to the start of the thread.\<close>

definition request_stop_signals :: "(id fset \<Rightarrow> id list) \<Rightarrow> u64 \<Rightarrow> 'j facade \<Rightarrow> 'j facade option" where
  "request_stop_signals it generation f =
     map_option (\<lambda>s. signal_subscriptions request_cancel (f\<lparr>fb_scheduler := s\<rparr>))
       (request_stop it (fb_scheduler f) (coordinator_mode (fb_coordinator f) generation = Immediate))"

definition start_failed :: "u64 \<Rightarrow> string \<Rightarrow> 'j facade \<Rightarrow> 'j facade" where
  "start_failed generation error f =
     f\<lparr>fb_coordinator := coordinator_release (fst (coordinator_abort_start (fb_coordinator f) generation error)) generation\<rparr>"

section \<open>The shutdown thread\<close>

definition stop_subscriptions :: "(id fset \<Rightarrow> id list) \<Rightarrow> u64 \<Rightarrow> 'j facade \<Rightarrow> 'j facade option" where
  "stop_subscriptions it generation f =
     map_option (\<lambda>s. signal_subscriptions request_cancel (f\<lparr>fb_scheduler := s\<rparr>))
       (stop_admission it (fb_scheduler f) (coordinator_mode (fb_coordinator f) generation = Immediate))"

definition worker_panicked :: "'j facade \<Rightarrow> subscriber_id \<Rightarrow> spi_error" where
  "worker_panicked f subscriber =
     OperationError (fb_provider_id f) ''subscription_worker'' (Some subscriber) ''worker_panicked'' None ''subscription worker panicked''"

definition coordinator_panicked :: "'j facade \<Rightarrow> string \<Rightarrow> spi_error" where
  "coordinator_panicked f message =
     OperationError (fb_provider_id f) ''shutdown_coordinator'' None ''coordinator_panicked'' None message"

definition shutdown_report_of :: "'j facade \<Rightarrow> shutdown_outcome \<Rightarrow> shutdown_report" where
  "shutdown_report_of f outcome = \<lparr>rep_outcome = outcome, rep_known_abandoned = fb_abandoned f,
     rep_may_have_abandoned = (fb_durability f = EphemeralMessages \<or> outcome = ShutdownTimedOut)\<rparr>"

text \<open>\<open>answer\<close> is what the provider's shutdown would return for the mode; the flag tells whether it was called.\<close>

definition shutdown_provider_once ::
  "(shutdown_mode \<Rightarrow> (spi_error + shutdown_outcome) call_result) \<Rightarrow> shutdown_mode \<Rightarrow> 'j facade \<Rightarrow>
   'j facade \<times> bool \<times> (spi_error + shutdown_outcome)" where
  "shutdown_provider_once answer mode f = (case fb_report f of
       Some report \<Rightarrow> (f, False, Inr (rep_outcome report))
     | None \<Rightarrow> (case catch_spi_call (fb_provider_id f) ''shutdown'' None (answer mode) of
         Inl e \<Rightarrow> (f, True, Inl e)
       | Inr (Inl e) \<Rightarrow> (f, True, Inl e)
       | Inr (Inr outcome) \<Rightarrow> (f\<lparr>fb_report := Some (shutdown_report_of f outcome)\<rparr>, True, Inr outcome)))"

definition mark_closed :: "'j facade \<Rightarrow> 'j facade" where
  "mark_closed f = (if workers_are_idle (fb_tracker f) then f\<lparr>fb_lifecycle := BusClosed\<rparr> else f)"

definition finish_shutdown :: "u64 \<Rightarrow> spi_error + shutdown_outcome \<Rightarrow> 'j facade \<Rightarrow> 'j facade" where
  "finish_shutdown generation result f = f\<lparr>fb_coordinator := fst (coordinator_finish (fb_coordinator f) generation result)\<rparr>"

section \<open>Workers\<close>

definition register_worker :: "id \<Rightarrow> subscription_control \<Rightarrow> 'j facade \<Rightarrow> 'j facade option" where
  "register_worker i control f = map_option (\<lambda>t. f\<lparr>fb_tracker := t, fb_subscriptions := fmupd i control (fb_subscriptions f)\<rparr>)
     (worker_started (fb_tracker f))"

text \<open>A worker whose thread did not start, or that ends, leaves the tracker.\<close>

definition end_tracking :: "'j facade \<Rightarrow> 'j facade" where
  "end_tracking f = f\<lparr>fb_tracker := worker_finished (fb_tracker f)\<rparr>"

text \<open>The last section of the guard of a worker.\<close>

definition owner_guard_tail :: "'j facade \<Rightarrow> 'j facade" where
  "owner_guard_tail f =
     (if fb_lifecycle f = BusClosing \<and> workers_are_idle (fb_tracker f) \<and> fb_report f \<noteq> None
      then f\<lparr>fb_lifecycle := BusClosed\<rparr> else f)"

section \<open>Tickets\<close>

datatype shutdown_error =
    SubscriptionCloseFailed subscription_close_errors
  | ProviderShutdownFailed spi_error
  | CoordinatorStart string

definition ticket_report :: "'j facade \<Rightarrow> 'j facade \<times> (shutdown_error + shutdown_report)" where
  "ticket_report f = (case take_ledger_snapshot (fb_ledger f) of
       (l, Some summary) \<Rightarrow> (f\<lparr>fb_ledger := l\<rparr>, Inl (SubscriptionCloseFailed summary))
     | (l, None) \<Rightarrow> (f\<lparr>fb_ledger := l\<rparr>, Inr (case fb_report f of
         Some report \<Rightarrow> report
       | None \<Rightarrow> \<lparr>rep_outcome = shutdown_outcome.Complete, rep_known_abandoned = 0, rep_may_have_abandoned = False\<rparr>)))"

definition ticket_resolve :: "shutdown_result option \<Rightarrow> 'j facade \<Rightarrow> 'j facade \<times> (shutdown_error + shutdown_report)" where
  "ticket_resolve result f = (case result of
       Some (ProviderResult (Inr _)) \<Rightarrow> ticket_report f
     | Some (ProviderResult (Inl e)) \<Rightarrow> (f, Inl (ProviderShutdownFailed e))
     | Some (StartFailed message) \<Rightarrow> (f, Inl (CoordinatorStart message))
     | None \<Rightarrow> (f, Inl (CoordinatorStart ''shutdown generation ended without a result'')))"

section \<open>Publishing through the gate\<close>

text \<open>One publication; the permit is dropped when the call returns. The metrics are the bus's publication counters.\<close>

definition facade_publish ::
  "('pol, 'c, 'k, 'w) publish_retry_library \<Rightarrow> 'w provider_publish \<Rightarrow> publisher_pipeline \<Rightarrow> global_interceptor list \<Rightarrow> event_envelope \<Rightarrow>
   ('pol, 'c, 'k) publish_options \<Rightarrow> operation_gate \<Rightarrow> publish_metrics \<Rightarrow> 'w \<Rightarrow>
   (operation_gate \<times> publish_metrics \<times> 'w \<times> publish_call list \<times> diagnostic list \<times> (publish_failure + publish_receipt)) option" where
  "facade_publish lib publish p globals e options g m w =
     (let m1 = record_attempt m in
      map_option (\<lambda>(g1, admitted).
        if \<not> admitted then (g1, record_error m1, w, [], [], Inl (PublishFailure (env_id e) NotAccepted PublishClosed))
        else (case pipeline_publish lib publish p e options globals w of
            (w', calls, ds, Inl f) \<Rightarrow> (gate_release g1, record_error m1, w', calls, ds, Inl (publish_pipeline_error (env_id e) f))
          | (w', calls, ds, Inr receipt) \<Rightarrow> (gate_release g1, record_receipt receipt m1, w', calls, ds, Inr receipt)))
      (gate_enter g))"

datatype checked_publish_error =
    UnsupportedVisibility event_id string
  | CheckedPublish publish_failure
  | CheckedAdmission publish_receipt admission_check_error

definition facade_publish_checked ::
  "('pol, 'c, 'k, 'w) publish_retry_library \<Rightarrow> 'w provider_publish \<Rightarrow> publisher_pipeline \<Rightarrow> global_interceptor list \<Rightarrow> event_envelope \<Rightarrow>
   ('pol, 'c, 'k) publish_options \<Rightarrow> admission_requirement \<Rightarrow> operation_gate \<Rightarrow> publish_metrics \<Rightarrow> 'w \<Rightarrow>
   (operation_gate \<times> publish_metrics \<times> 'w \<times> publish_call list \<times> diagnostic list \<times> (checked_publish_error + publish_receipt)) option" where
  "facade_publish_checked lib publish p globals e options requirement g m w =
     (if cap_publish_visibility (pp_capabilities p) = Opaque \<and> requirement \<in> {AtLeastOneAccepted, AtLeastOneAcceptedAndNoRejected}
      then Some (g, m, w, [], [], Inl (UnsupportedVisibility (env_id e) (pp_provider_id p)))
      else map_option (\<lambda>(g', m', w', calls, ds, r). (g', m', w', calls, ds, case r of
          Inl f \<Rightarrow> Inl (CheckedPublish f)
        | Inr receipt \<Rightarrow> (case check_admission receipt requirement of
            Inr _ \<Rightarrow> Inr receipt
          | Inl reason \<Rightarrow> Inl (CheckedAdmission receipt reason))))
        (facade_publish lib publish p globals e options g m w))"

section \<open>The transition system\<close>

text \<open>The positions of the shutdown thread in \<open>perform_shutdown\<close> and \<open>run_shutdown\<close>.\<close>

datatype shutdown_phase =
    AwaitOperations
  | AwaitWorkers
  | JoinWorkers
  | CallProvider
  | MarkClosed shutdown_outcome
  | Publish "spi_error + shutdown_outcome"

record 'j life_system =
  ls_facade :: "'j facade"
  ls_operations :: nat
  ls_workers :: nat
  ls_tails :: nat
  ls_starting :: "u64 option"
  ls_thread :: "(u64 \<times> shutdown_phase) option"
  ls_answers :: "(spi_error + shutdown_outcome) list"

datatype life_label =
    EnterOperation
  | LeaveOperation
  | StartWorker id subscription_control
  | SpawnWorkerFailed
  | EndWorker
  | OtherWork
  | EndGuard
  | RequestShutdown shutdown_mode
  | SignalStop u64
  | StartThread
  | StartThreadFailed string
  | DropShutdownTicket u64
  | OperationsIdle
  | WorkersIdle
  | WorkersJoined
  | JoinFailed subscriber_id
  | ProviderAnswers "(spi_error + shutdown_outcome) call_result"
  | ThreadMarksClosed
  | ThreadPanics string
  | ThreadPublishes

inductive life_step :: "(id fset \<Rightarrow> id list) \<Rightarrow> 'j life_system \<Rightarrow> life_label \<Rightarrow> 'j life_system \<Rightarrow> bool" for it where
  enter: "gate_enter (fb_operations (ls_facade s)) = Some (g, admitted) \<Longrightarrow>
    life_step it s EnterOperation (s\<lparr>ls_facade := (ls_facade s)\<lparr>fb_operations := g\<rparr>, ls_operations := ls_operations s + of_bool admitted\<rparr>)"
| leave: "0 < ls_operations s \<Longrightarrow>
    life_step it s LeaveOperation (s\<lparr>ls_facade := (ls_facade s)\<lparr>fb_operations := gate_release (fb_operations (ls_facade s))\<rparr>,
      ls_operations := ls_operations s - 1\<rparr>)"
| start_worker: "0 < ls_operations s \<Longrightarrow> register_worker i control (ls_facade s) = Some f \<Longrightarrow>
    life_step it s (StartWorker i control) (s\<lparr>ls_facade := f, ls_workers := Suc (ls_workers s)\<rparr>)"
| spawn_failed: "0 < ls_workers s \<Longrightarrow>
    life_step it s SpawnWorkerFailed (s\<lparr>ls_facade := end_tracking (ls_facade s), ls_workers := ls_workers s - 1\<rparr>)"
| end_worker: "0 < ls_workers s \<Longrightarrow>
    life_step it s EndWorker (s\<lparr>ls_facade := end_tracking (ls_facade s), ls_workers := ls_workers s - 1, ls_tails := Suc (ls_tails s)\<rparr>)"
| end_guard: "0 < ls_tails s \<Longrightarrow>
    life_step it s EndGuard (s\<lparr>ls_facade := owner_guard_tail (ls_facade s), ls_tails := ls_tails s - 1\<rparr>)"
| other_work: "life_step it s OtherWork (s\<lparr>ls_facade := (ls_facade s)\<lparr>fb_scheduler := sch, fb_subscriptions := subs,
    fb_ledger := ledger, fb_abandoned := abandoned\<rparr>\<rparr>)"
| request: "request_shutdown_locked mode (ls_facade s) = Some (f, ticket) \<Longrightarrow>
    life_step it s (RequestShutdown mode) (s\<lparr>ls_facade := f,
      ls_starting := (case ticket of Some (True, g) \<Rightarrow> Some g | _ \<Rightarrow> ls_starting s)\<rparr>)"
| signal: "request_stop_signals it g (ls_facade s) = Some f \<Longrightarrow> life_step it s (SignalStop g) (s\<lparr>ls_facade := f\<rparr>)"
| start_thread: "ls_starting s = Some g \<Longrightarrow>
    life_step it s StartThread (s\<lparr>ls_starting := None, ls_thread := Some (g, AwaitOperations)\<rparr>)"
| start_thread_failed: "ls_starting s = Some g \<Longrightarrow>
    life_step it s (StartThreadFailed error) (s\<lparr>ls_starting := None, ls_facade := start_failed g error (ls_facade s)\<rparr>)"
| drop_ticket: "life_step it s (DropShutdownTicket g)
    (s\<lparr>ls_facade := (ls_facade s)\<lparr>fb_coordinator := coordinator_release (fb_coordinator (ls_facade s)) g\<rparr>\<rparr>)"
| operations_idle: "ls_thread s = Some (g, AwaitOperations) \<Longrightarrow> gate_wait_turn (fb_operations (ls_facade s)) = Answer () \<Longrightarrow>
    stop_subscriptions it g (ls_facade s) = Some f \<Longrightarrow>
    life_step it s OperationsIdle (s\<lparr>ls_facade := f, ls_thread := Some (g, AwaitWorkers)\<rparr>)"
| workers_idle: "ls_thread s = Some (g, AwaitWorkers) \<Longrightarrow> workers_turn (fb_tracker (ls_facade s)) None 0 = Answer True \<Longrightarrow>
    life_step it s WorkersIdle (s\<lparr>ls_thread := Some (g, JoinWorkers)\<rparr>)"
| workers_joined: "ls_thread s = Some (g, JoinWorkers) \<Longrightarrow>
    life_step it s WorkersJoined (s\<lparr>ls_facade := (ls_facade s)\<lparr>fb_scheduler := join_pool (fb_scheduler (ls_facade s))\<rparr>,
      ls_thread := Some (g, CallProvider)\<rparr>)"
| join_failed: "ls_thread s = Some (g, JoinWorkers) \<Longrightarrow>
    life_step it s (JoinFailed subscriber) (s\<lparr>ls_thread := Some (g, Publish (Inl (worker_panicked (ls_facade s) subscriber)))\<rparr>)"
| provider_answers: "ls_thread s = Some (g, CallProvider) \<Longrightarrow>
    shutdown_provider_once (\<lambda>_. answer) (coordinator_mode (fb_coordinator (ls_facade s)) g) (ls_facade s) = (f, called, r) \<Longrightarrow>
    life_step it s (ProviderAnswers answer) (s\<lparr>ls_facade := f, ls_answers := (if called then ls_answers s @ [r] else ls_answers s),
      ls_thread := Some (g, case r of Inl e \<Rightarrow> Publish (Inl e) | Inr outcome \<Rightarrow> MarkClosed outcome)\<rparr>)"
| marks_closed: "ls_thread s = Some (g, MarkClosed outcome) \<Longrightarrow>
    life_step it s ThreadMarksClosed (s\<lparr>ls_facade := mark_closed (ls_facade s), ls_thread := Some (g, Publish (Inr outcome))\<rparr>)"
| panics: "ls_thread s = Some (g, phase) \<Longrightarrow> (\<nexists>r. phase = Publish r) \<Longrightarrow>
    life_step it s (ThreadPanics message) (s\<lparr>ls_thread := Some (g, Publish (Inl (coordinator_panicked (ls_facade s) message)))\<rparr>)"
| publishes: "ls_thread s = Some (g, Publish r) \<Longrightarrow>
    life_step it s ThreadPublishes (s\<lparr>ls_facade := finish_shutdown g r (ls_facade s), ls_thread := None\<rparr>)"

inductive_cases life_stepE: "life_step it s l s'"

definition life_init :: "'j life_system \<Rightarrow> bool" where
  "life_init s \<longleftrightarrow> fb_lifecycle (ls_facade s) = BusRunning \<and> fb_operations (ls_facade s) = operation_gate_default \<and>
     fb_tracker (ls_facade s) = tracker_new \<and> fb_report (ls_facade s) = None \<and> fb_coordinator (ls_facade s) = coordinator_new \<and>
     ls_operations s = 0 \<and> ls_workers s = 0 \<and> ls_tails s = 0 \<and> ls_starting s = None \<and> ls_thread s = None \<and> ls_answers s = []"

abbreviation life_reachable :: "(id fset \<Rightarrow> id list) \<Rightarrow> 'j life_system \<Rightarrow> bool" where
  "life_reachable it \<equiv> reach life_init (life_step it)"

section \<open>The invariant\<close>

definition counters_ok :: "'j life_system \<Rightarrow> bool" where
  "counters_ok s \<longleftrightarrow> unat (gate_active (fb_operations (ls_facade s))) = ls_operations s \<and>
     unat (active_workers (fb_tracker (ls_facade s))) = ls_workers s"

definition closing_ok :: "'j life_system \<Rightarrow> bool" where
  "closing_ok s \<longleftrightarrow> (gate_closing (fb_operations (ls_facade s)) \<longleftrightarrow> fb_lifecycle (ls_facade s) \<noteq> BusRunning) \<and>
     (sc_active (fb_coordinator (ls_facade s)) \<longrightarrow> gate_closing (fb_operations (ls_facade s)))"

text \<open>There is one attempt at a time, either about to start or with a thread.\<close>

definition attempt_ok :: "'j life_system \<Rightarrow> bool" where
  "attempt_ok s \<longleftrightarrow> (let c = fb_coordinator (ls_facade s) in
     (sc_active c \<longleftrightarrow> ls_starting s \<noteq> None \<or> ls_thread s \<noteq> None) \<and> (ls_starting s = None \<or> ls_thread s = None) \<and>
     (\<forall>g. ls_starting s = Some g \<longrightarrow> g = sc_generation c) \<and> (\<forall>g phase. ls_thread s = Some (g, phase) \<longrightarrow> g = sc_generation c))"

definition drained :: "'j life_system \<Rightarrow> bool" where
  "drained s \<longleftrightarrow> ls_operations s = 0 \<and> ls_workers s = 0"

fun phase_ok :: "'j life_system \<Rightarrow> shutdown_phase \<Rightarrow> bool" where
  "phase_ok s AwaitOperations = True"
| "phase_ok s AwaitWorkers = (ls_operations s = 0)"
| "phase_ok s JoinWorkers = drained s"
| "phase_ok s CallProvider = drained s"
| "phase_ok s (MarkClosed outcome) = (map_option rep_outcome (fb_report (ls_facade s)) = Some outcome)"
| "phase_ok s (Publish (Inr outcome)) = (map_option rep_outcome (fb_report (ls_facade s)) = Some outcome)"
| "phase_ok s (Publish (Inl _)) = True"

definition report_ok :: "'j life_system \<Rightarrow> bool" where
  "report_ok s \<longleftrightarrow> filter (Not \<circ> isl) (ls_answers s) = (case fb_report (ls_facade s) of None \<Rightarrow> [] | Some r \<Rightarrow> [Inr (rep_outcome r)]) \<and>
     (fb_report (ls_facade s) \<noteq> None \<longrightarrow> gate_closing (fb_operations (ls_facade s)) \<and> drained s) \<and>
     (fb_lifecycle (ls_facade s) = BusClosed \<longrightarrow> fb_report (ls_facade s) \<noteq> None)"

definition life_inv :: "'j life_system \<Rightarrow> bool" where
  "life_inv s \<longleftrightarrow> counters_ok s \<and> closing_ok s \<and> attempt_ok s \<and> report_ok s \<and> (\<forall>g phase. ls_thread s = Some (g, phase) \<longrightarrow> phase_ok s phase)"

lemmas life_defs = counters_ok_def closing_ok_def attempt_ok_def report_ok_def drained_def

lemma life_init_inv: "life_init s \<Longrightarrow> life_inv s"
  by (simp add: life_init_def life_inv_def life_defs operation_gate_default_def tracker_new_def coordinator_new_def Let_def)

text \<open>What the critical sections change.\<close>

lemma phase_ok_frame:
  assumes "phase_ok s phase" "ls_operations s' = ls_operations s" "ls_workers s' = ls_workers s"
    "fb_report (ls_facade s') = fb_report (ls_facade s)"
  shows "phase_ok s' phase"
  using assms by (cases "(s, phase)" rule: phase_ok.cases) (auto simp: drained_def)

lemma life_inv_frame:
  assumes "life_inv s" "ls_operations s' = ls_operations s" "ls_workers s' = ls_workers s" "ls_starting s' = ls_starting s"
    "ls_thread s' = ls_thread s" "ls_answers s' = ls_answers s"
    "fb_operations (ls_facade s') = fb_operations (ls_facade s)" "fb_tracker (ls_facade s') = fb_tracker (ls_facade s)"
    "fb_lifecycle (ls_facade s') = fb_lifecycle (ls_facade s)" "fb_report (ls_facade s') = fb_report (ls_facade s)"
    "sc_active (fb_coordinator (ls_facade s')) = sc_active (fb_coordinator (ls_facade s))"
    "sc_generation (fb_coordinator (ls_facade s')) = sc_generation (fb_coordinator (ls_facade s))"
  shows "life_inv s'"
proof -
  have "phase_ok s' phase" if "ls_thread s' = Some (g, phase)" for g phase
  proof -
    have "phase_ok s phase" using assms(1,5) that unfolding life_inv_def by metis
    then show ?thesis by (rule phase_ok_frame [OF _ assms(2,3,10)])
  qed
  moreover have "counters_ok s' \<and> closing_ok s' \<and> attempt_ok s' \<and> report_ok s'"
    using assms(1) unfolding life_inv_def life_defs Let_def assms(2-12) by (elim conjE, intro conjI) assumption+
  ultimately show ?thesis by (simp add: life_inv_def)
qed

lemma gate_release_keeps [simp]:
  "sc_active (coordinator_release c g) = sc_active c" "sc_generation (coordinator_release c g) = sc_generation c"
  by (auto simp: coordinator_release_def Let_def split: option.splits)

lemma complete_ends:
  "sc_generation (fst (coordinator_complete c g r)) = sc_generation c"
  "sc_generation c = g \<Longrightarrow> \<not> sc_active (fst (coordinator_complete c g r))"
  by (auto simp: coordinator_complete_def)

lemma enter_inv:
  assumes inv: "life_inv s" and g: "gate_enter (fb_operations (ls_facade s)) = Some (g, admitted)"
  shows "life_inv (s\<lparr>ls_facade := (ls_facade s)\<lparr>fb_operations := g\<rparr>, ls_operations := ls_operations s + of_bool admitted\<rparr>)"
proof (cases "gate_closing (fb_operations (ls_facade s))")
  case True
  then show ?thesis using g by (intro life_inv_frame [OF inv]) (auto simp: gate_enter_def)
next
  case False
  then have "ls_thread s = None" "fb_report (ls_facade s) = None" "fb_lifecycle (ls_facade s) = BusRunning"
    using inv by (auto simp: life_inv_def life_defs Let_def)
  then show ?thesis using inv False g
    by (auto simp: life_inv_def life_defs Let_def gate_enter_def checked_add_Some_iff split: if_splits)
qed

text \<open>While something is in flight the shutdown thread is still waiting and there is no report.\<close>

lemma busy_phase:
  assumes "life_inv s" "\<not> drained s"
  shows "fb_report (ls_facade s) = None"
    "ls_thread s = Some (g, phase) \<Longrightarrow> phase = AwaitOperations \<or> phase = AwaitWorkers \<and> ls_operations s = 0 \<or> (\<exists>e. phase = Publish (Inl e))"
proof -
  show none: "fb_report (ls_facade s) = None" using assms by (auto simp: life_inv_def report_ok_def)
  assume "ls_thread s = Some (g, phase)"
  then have "phase_ok s phase" using assms(1) by (auto simp: life_inv_def)
  then show "phase = AwaitOperations \<or> phase = AwaitWorkers \<and> ls_operations s = 0 \<or> (\<exists>e. phase = Publish (Inl e))"
    using assms(2) none by (cases "(s, phase)" rule: phase_ok.cases) auto
qed

lemma leave_inv:
  assumes inv: "life_inv s" and pos: "0 < ls_operations s"
  shows "life_inv (s\<lparr>ls_facade := (ls_facade s)\<lparr>fb_operations := gate_release (fb_operations (ls_facade s))\<rparr>,
      ls_operations := ls_operations s - 1\<rparr>)"
proof -
  have busy: "\<not> drained s" using pos by (simp add: drained_def)
  show ?thesis using inv pos busy_phase [OF inv busy]
    by (auto simp: life_inv_def life_defs Let_def gate_release_def unat_saturating_sub)
qed

lemma worker_inv:
  assumes inv: "life_inv s"
  shows "0 < ls_operations s \<Longrightarrow> register_worker i control (ls_facade s) = Some f \<Longrightarrow>
      life_inv (s\<lparr>ls_facade := f, ls_workers := Suc (ls_workers s)\<rparr>)"
    and "0 < ls_workers s \<Longrightarrow> life_inv (s\<lparr>ls_facade := end_tracking (ls_facade s), ls_workers := ls_workers s - 1, ls_tails := n\<rparr>)"
proof -
  assume pos: "0 < ls_operations s" and r: "register_worker i control (ls_facade s) = Some f"
  have busy: "\<not> drained s" using pos by (simp add: drained_def)
  show "life_inv (s\<lparr>ls_facade := f, ls_workers := Suc (ls_workers s)\<rparr>)"
    using inv pos r busy_phase [OF inv busy]
    by (auto simp: life_inv_def life_defs Let_def register_worker_def worker_started_def checked_add_Some_iff)
next
  assume pos: "0 < ls_workers s"
  have busy: "\<not> drained s" using pos by (simp add: drained_def)
  show "life_inv (s\<lparr>ls_facade := end_tracking (ls_facade s), ls_workers := ls_workers s - 1, ls_tails := n\<rparr>)"
    using inv pos busy_phase [OF inv busy]
    by (auto simp: life_inv_def life_defs Let_def end_tracking_def worker_finished_def unat_saturating_sub)
qed

lemma inv_phase: "life_inv s \<Longrightarrow> ls_thread s = Some (g, phase) \<Longrightarrow> phase_ok s phase"
  by (auto simp: life_inv_def)

lemma closes_inv:
  assumes inv: "life_inv s" and r: "fb_report (ls_facade s) \<noteq> None"
  shows "life_inv (s\<lparr>ls_facade := (ls_facade s)\<lparr>fb_lifecycle := BusClosed\<rparr>, ls_tails := n\<rparr>)"
proof -
  have "phase_ok (s\<lparr>ls_facade := (ls_facade s)\<lparr>fb_lifecycle := BusClosed\<rparr>, ls_tails := n\<rparr>) phase" if "ls_thread s = Some (g, phase)" for g phase
    by (rule phase_ok_frame [OF inv_phase [OF inv that]]) simp_all
  then show ?thesis using inv r by (auto simp: life_inv_def life_defs Let_def)
qed

lemma guard_inv:
  assumes "life_inv s"
  shows "life_inv (s\<lparr>ls_facade := owner_guard_tail (ls_facade s), ls_tails := n\<rparr>)"
proof (cases "fb_lifecycle (ls_facade s) = BusClosing \<and> workers_are_idle (fb_tracker (ls_facade s)) \<and> fb_report (ls_facade s) \<noteq> None")
  case True
  then show ?thesis using closes_inv [OF assms] by (simp add: owner_guard_tail_def)
next
  case False
  then show ?thesis by (intro life_inv_frame [OF assms]) (auto simp: owner_guard_tail_def)
qed

lemma begin_active:
  assumes "coordinator_begin c mode = Some (c', start, g)"
  shows "sc_active c'" "sc_generation c' = g" "start \<longleftrightarrow> \<not> sc_active c" "\<not> start \<longrightarrow> g = sc_generation c"
  using assms by (auto simp: coordinator_begin_def join_generation_def split: if_splits)

lemma request_inv:
  assumes inv: "life_inv s" and r: "request_shutdown_locked mode (ls_facade s) = Some (f, ticket)"
  shows "life_inv (s\<lparr>ls_facade := f, ls_starting := (case ticket of Some (True, g) \<Rightarrow> Some g | _ \<Rightarrow> ls_starting s)\<rparr>)" (is "life_inv ?s")
proof (cases "fb_lifecycle (ls_facade s) = BusClosed")
  case True
  then show ?thesis using r by (intro life_inv_frame [OF inv]) (auto simp: request_shutdown_locked_def)
next
  case False
  then obtain c start g where b: "coordinator_begin (fb_coordinator (ls_facade s)) mode = Some (c, start, g)" and t: "ticket = Some (start, g)"
    and f: "f = (ls_facade s)\<lparr>fb_lifecycle := BusClosing, fb_operations := gate_close_admission (fb_operations (ls_facade s)), fb_coordinator := c\<rparr>"
    using r by (auto simp: request_shutdown_locked_def)
  note c = begin_active [OF b]
  have "phase_ok ?s phase" if "ls_thread ?s = Some (g', phase)" for g' phase
  proof -
    have "ls_thread s = Some (g', phase)" using that by simp
    then show ?thesis by (intro phase_ok_frame [OF inv_phase [OF inv]]) (simp_all add: f)
  qed
  moreover have "counters_ok ?s" "closing_ok ?s" "report_ok ?s"
    using inv False by (auto simp: life_inv_def life_defs f gate_close_admission_def)
  moreover have "attempt_ok ?s" using inv c by (cases start; cases "ls_thread s") (auto simp: life_inv_def attempt_ok_def Let_def f t)
  ultimately show ?thesis by (simp add: life_inv_def)
qed

lemma thread_inv:
  assumes inv: "life_inv s"
  shows "ls_starting s = Some g \<Longrightarrow> life_inv (s\<lparr>ls_starting := None, ls_thread := Some (g, AwaitOperations)\<rparr>)"
    and "ls_starting s = Some g \<Longrightarrow> life_inv (s\<lparr>ls_starting := None, ls_facade := start_failed g error (ls_facade s)\<rparr>)"
    and "ls_thread s = Some (g, Publish r) \<Longrightarrow> life_inv (s\<lparr>ls_facade := finish_shutdown g r (ls_facade s), ls_thread := None\<rparr>)"
    and "ls_thread s = Some (g, phase) \<Longrightarrow> phase_ok s phase' \<Longrightarrow> life_inv (s\<lparr>ls_thread := Some (g, phase')\<rparr>)"
proof -
  show "ls_starting s = Some g \<Longrightarrow> life_inv (s\<lparr>ls_starting := None, ls_thread := Some (g, AwaitOperations)\<rparr>)"
    using inv by (auto simp: life_inv_def life_defs Let_def)
  show "ls_starting s = Some g \<Longrightarrow> life_inv (s\<lparr>ls_starting := None, ls_facade := start_failed g error (ls_facade s)\<rparr>)"
    using inv complete_ends by (auto simp: life_inv_def life_defs Let_def start_failed_def coordinator_abort_start_def)
  show "ls_thread s = Some (g, Publish r) \<Longrightarrow> life_inv (s\<lparr>ls_facade := finish_shutdown g r (ls_facade s), ls_thread := None\<rparr>)"
    using inv complete_ends by (auto simp: life_inv_def life_defs Let_def finish_shutdown_def coordinator_finish_def)
  assume t: "ls_thread s = Some (g, phase)" and p: "phase_ok s phase'"
  have "phase_ok (s\<lparr>ls_thread := Some (g, phase')\<rparr>) phase'" by (rule phase_ok_frame [OF p]) simp_all
  then show "life_inv (s\<lparr>ls_thread := Some (g, phase')\<rparr>)" using inv t by (auto simp: life_inv_def life_defs Let_def)
qed

lemma signals_keep:
  assumes "request_stop_signals it g f = Some f' \<or> stop_subscriptions it g f = Some f'"
  shows "fb_operations f' = fb_operations f" "fb_tracker f' = fb_tracker f" "fb_lifecycle f' = fb_lifecycle f"
    "fb_report f' = fb_report f" "fb_coordinator f' = fb_coordinator f"
  using assms by (auto simp: request_stop_signals_def stop_subscriptions_def signal_subscriptions_def)

lemma provider_once_cases:
  assumes "shutdown_provider_once answer mode f = (f', called, r)"
  obtains (cached) report where "fb_report f = Some report" "f' = f" "\<not> called" "r = Inr (rep_outcome report)"
  | (failed) e where "fb_report f = None" "f' = f" "called" "r = Inl e"
  | (answered) outcome where "fb_report f = None" "f' = f\<lparr>fb_report := Some (shutdown_report_of f outcome)\<rparr>" "called" "r = Inr outcome"
  using assms by (auto simp: shutdown_provider_once_def split: option.splits sum.splits)

lemma provider_inv:
  assumes inv: "life_inv s" and t: "ls_thread s = Some (g, CallProvider)"
    and p: "shutdown_provider_once answer mode (ls_facade s) = (f, called, r)"
  shows "life_inv (s\<lparr>ls_facade := f, ls_answers := (if called then ls_answers s @ [r] else ls_answers s),
    ls_thread := Some (g, case r of Inl e \<Rightarrow> Publish (Inl e) | Inr outcome \<Rightarrow> MarkClosed outcome)\<rparr>)" (is "life_inv ?s")
proof -
  have drained: "drained s" using inv_phase [OF inv t] by simp
  have closing: "gate_closing (fb_operations (ls_facade s))" using inv t by (auto simp: life_inv_def closing_ok_def attempt_ok_def Let_def)
  have other: "counters_ok s" "closing_ok s" "attempt_ok s" "report_ok s" using inv by (auto simp: life_inv_def)
  from p show ?thesis
  proof (cases rule: provider_once_cases)
    case (cached report)
    then show ?thesis using thread_inv(4) [OF inv t, of "MarkClosed (rep_outcome report)"] by simp
  next
    case (failed e)
    have "life_inv (s\<lparr>ls_thread := Some (g, Publish (Inl e))\<rparr>)" using thread_inv(4) [OF inv t] by simp
    then show ?thesis using failed by (auto simp: life_inv_def life_defs Let_def)
  next
    case (answered outcome)
    then show ?thesis using other drained closing t
      by (auto simp: life_inv_def life_defs Let_def shutdown_report_of_def)
  qed
qed

lemma life_step_inv:
  assumes "life_step it s l s'" "life_inv s"
  shows "life_inv s'"
  using assms
proof (induction rule: life_step.induct)
  case (spawn_failed s)
  then show ?case using worker_inv(2) [of s "ls_tails s"] by simp
next
  case (other_work s sch subs ledger abandoned)
  then show ?case by (intro life_inv_frame [OF other_work.prems]) simp_all
next
  case (signal g s f)
  show ?case by (rule life_inv_frame [OF signal.prems]) (simp_all add: signals_keep [OF disjI1 [OF signal.hyps]])
next
  case (drop_ticket s g)
  then show ?case by (intro life_inv_frame [OF drop_ticket.prems]) simp_all
next
  case (operations_idle s g f)
  have "ls_operations s = 0" using operations_idle by (auto simp: gate_wait_turn_def wait_turn_def life_inv_def counters_ok_def split: if_splits)
  then have inv: "life_inv (s\<lparr>ls_thread := Some (g, AwaitWorkers)\<rparr>)" using thread_inv(4) [OF operations_idle.prems operations_idle(1), of AwaitWorkers] by simp
  show ?case by (rule life_inv_frame [OF inv]) (simp_all add: signals_keep [OF disjI2 [OF operations_idle(3)]])
next
  case (workers_idle s g)
  have "ls_workers s = 0" using workers_idle by (auto simp: workers_turn_def wait_turn_def life_inv_def counters_ok_def split: if_splits)
  then show ?case using thread_inv(4) [OF workers_idle.prems workers_idle(1)] inv_phase [OF workers_idle.prems workers_idle(1)]
    by (auto simp: drained_def)
next
  case (workers_joined s g)
  then have inv: "life_inv (s\<lparr>ls_thread := Some (g, CallProvider)\<rparr>)"
    using thread_inv(4) [OF workers_joined.prems workers_joined(1)] inv_phase [OF workers_joined.prems workers_joined(1)] by simp
  show ?case by (rule life_inv_frame [OF inv]) simp_all
next
  case (marks_closed s g outcome)
  have p: "phase_ok s (Publish (Inr outcome))" using inv_phase [OF marks_closed.prems marks_closed(1)] by simp
  then have inv: "life_inv (s\<lparr>ls_thread := Some (g, Publish (Inr outcome))\<rparr>)" by (rule thread_inv(4) [OF marks_closed.prems marks_closed(1)])
  have "fb_report (ls_facade (s\<lparr>ls_thread := Some (g, Publish (Inr outcome))\<rparr>)) \<noteq> None" using p by auto
  note closed = closes_inv [OF inv this, of "ls_tails s"]
  show ?case
  proof (cases "workers_are_idle (fb_tracker (ls_facade s))")
    case True
    then show ?thesis by (intro life_inv_frame [OF closed]) (simp_all add: mark_closed_def)
  next
    case False
    then show ?thesis by (intro life_inv_frame [OF inv]) (simp_all add: mark_closed_def)
  qed
next
  case (join_failed s g subscriber)
  show ?case by (rule thread_inv(4) [OF join_failed.prems join_failed.hyps]) simp
next
  case (panics s g phase message)
  show ?case by (rule thread_inv(4) [OF panics.prems panics.hyps(1)]) simp
next
  case (provider_answers s g answer f called r)
  show ?case by (rule provider_inv [OF provider_answers.prems provider_answers.hyps])
next
  case (request mode s f ticket)
  show ?case by (rule request_inv [OF request.prems request.hyps])
next
  case (enter s g admitted)
  show ?case by (rule enter_inv [OF enter.prems enter.hyps])
next
  case (leave s)
  show ?case by (rule leave_inv [OF leave.prems leave.hyps])
next
  case (end_worker s)
  show ?case by (rule worker_inv(2) [OF end_worker.prems end_worker.hyps])
qed (simp_all add: worker_inv(1) guard_inv thread_inv(1-3))

interpretation life: transition_invariant life_init "life_step it" life_inv for it
  by unfold_locales (auto intro: life_init_inv life_step_inv)

section \<open>Shutdown is orderly\<close>

text \<open>C11: In every interleaving of public calls, workers, shutdown requests and the shutdown thread, the gate and the tracker count
  exactly the operations and workers that exist, and shutdown keeps its order: the provider's shutdown is called only
  when admission is closed for good and no operation and no worker is left; it succeeds at most once and is then not
  called again; and a bus that is closed has that answer in its report and nothing in flight.\<close>

theorem facade_shutdown_orderly:
  assumes "life_reachable it s"
  shows "unat (gate_active (fb_operations (ls_facade s))) = ls_operations s \<and>
    unat (active_workers (fb_tracker (ls_facade s))) = ls_workers s \<and>
    (\<forall>answer s'. life_step it s (ProviderAnswers answer) s' \<and> ls_answers s' \<noteq> ls_answers s \<longrightarrow>
       gate_enter (fb_operations (ls_facade s)) = Some (fb_operations (ls_facade s), False) \<and> ls_operations s = 0 \<and> ls_workers s = 0 \<and>
       (\<forall>r \<in> set (ls_answers s). isl r)) \<and>
    length (filter (Not \<circ> isl) (ls_answers s)) \<le> 1 \<and>
    (fb_lifecycle (ls_facade s) = BusClosed \<longrightarrow> ls_operations s = 0 \<and> ls_workers s = 0 \<and>
       (\<exists>report. fb_report (ls_facade s) = Some report \<and> Inr (rep_outcome report) \<in> set (ls_answers s)))"
proof -
  have inv: "life_inv s" using assms by (rule life.inv_reach)
  note ok = inv [unfolded life_inv_def]
  have call: "gate_enter (fb_operations (ls_facade s)) = Some (fb_operations (ls_facade s), False) \<and> ls_operations s = 0 \<and> ls_workers s = 0 \<and>
      (\<forall>r \<in> set (ls_answers s). isl r)" if "life_step it s (ProviderAnswers answer) s'" "ls_answers s' \<noteq> ls_answers s" for answer s'
    using that(1)
  proof (cases rule: life_step.cases)
    case (provider_answers g f called r)
    then have "phase_ok s CallProvider" "called" using that(2) inv_phase [OF inv] by (auto split: if_splits)
    moreover have "gate_closing (fb_operations (ls_facade s))" using ok provider_answers by (auto simp: closing_ok_def attempt_ok_def Let_def)
    moreover have "fb_report (ls_facade s) = None" using provider_answers(3) \<open>called\<close> by (cases rule: provider_once_cases) auto
    then have "filter (Not \<circ> isl) (ls_answers s) = []" using ok by (simp add: report_ok_def)
    ultimately show ?thesis by (auto simp: gate_enter_def drained_def filter_empty_conv)
  qed
  have rep: "filter (Not \<circ> isl) (ls_answers s) = (case fb_report (ls_facade s) of None \<Rightarrow> [] | Some r \<Rightarrow> [Inr (rep_outcome r)])"
    using ok by (simp add: report_ok_def)
  have "Inr (rep_outcome report) \<in> set (ls_answers s)" if "fb_report (ls_facade s) = Some report" for report
    using arg_cong [OF rep, of set] that by auto
  then show ?thesis using ok call rep by (auto simp: counters_ok_def report_ok_def drained_def split: option.splits)
qed

definition demo_facade :: "unit facade" where
  "demo_facade = \<lparr>fb_provider_id = ''p'', fb_durability = EphemeralMessages, fb_lifecycle = BusRunning, fb_operations = operation_gate_default,
     fb_tracker = tracker_new, fb_subscriptions = fmempty, fb_ledger = ledger_new, fb_report = None, fb_coordinator = coordinator_new,
     fb_scheduler = sync_new scheduling_config_default, fb_abandoned = 0\<rparr>"

definition demo_life :: "unit life_system" where
  "demo_life = \<lparr>ls_facade = demo_facade, ls_operations = 0, ls_workers = 0, ls_tails = 0, ls_starting = None, ls_thread = None, ls_answers = []\<rparr>"

lemma demo_request:
  "\<exists>c. request_shutdown_locked Immediate demo_facade = Some (demo_facade\<lparr>fb_lifecycle := BusClosing,
     fb_operations := \<lparr>gate_closing = True, gate_active = 0\<rparr>, fb_coordinator := c\<rparr>, Some (True, 1))"
  by (simp add: request_shutdown_locked_def demo_facade_def coordinator_begin_def join_generation_def coordinator_new_def
      waiter_count_def checked_add_def gate_close_admission_def operation_gate_default_def)

lemma demo_closes: "\<exists>s. life_reachable (\<lambda>_. []) s \<and> fb_lifecycle (ls_facade s) = BusClosed \<and> ls_answers (s :: unit life_system) = [Inr ShutdownTimedOut]"
proof -
  let ?R = "life_reachable (\<lambda>_. []) :: unit life_system \<Rightarrow> bool"
  obtain c where c: "request_shutdown_locked Immediate demo_facade = Some (demo_facade\<lparr>fb_lifecycle := BusClosing,
     fb_operations := \<lparr>gate_closing = True, gate_active = 0\<rparr>, fb_coordinator := c\<rparr>, Some (True, 1))" using demo_request by blast
  define f1 where "f1 = demo_facade\<lparr>fb_lifecycle := BusClosing, fb_operations := \<lparr>gate_closing = True, gate_active = 0\<rparr>, fb_coordinator := c\<rparr>"
  have r0: "?R demo_life" by (rule reach.reach_init) (simp add: life_init_def demo_life_def demo_facade_def)
  define s1 where "s1 = demo_life\<lparr>ls_facade := f1, ls_starting := Some 1\<rparr>"
  have "life_step (\<lambda>_. []) demo_life (RequestShutdown Immediate) s1"
    using life_step.request [of Immediate demo_life f1 "Some (True, 1)" "\<lambda>_. []"] c by (simp add: s1_def f1_def demo_life_def)
  with r0 have r1: "?R s1" by (rule reach.reach_step)
  define s2 where "s2 = s1\<lparr>ls_starting := None, ls_thread := Some (1, AwaitOperations)\<rparr>"
  have "life_step (\<lambda>_. []) s1 StartThread s2" unfolding s2_def by (rule life_step.start_thread) (simp add: s1_def)
  with r1 have r2: "?R s2" by (rule reach.reach_step)
  have "stop_subscriptions (\<lambda>_. []) 1 f1 \<noteq> None" by (simp add: stop_subscriptions_def stop_admission_def Let_def)
  then obtain f2 where f2: "stop_subscriptions (\<lambda>_. []) 1 f1 = Some f2" by blast
  note keep = signals_keep [OF disjI2 [OF f2]]
  have idle: "gate_wait_turn (fb_operations f1) = Answer ()" by (simp add: f1_def gate_wait_turn_def wait_turn_def)
  define s3 where "s3 = s2\<lparr>ls_facade := f2, ls_thread := Some (1, AwaitWorkers)\<rparr>"
  have "life_step (\<lambda>_. []) s2 OperationsIdle s3" unfolding s3_def
    by (rule life_step.operations_idle) (simp_all add: s2_def s1_def f2 idle)
  with r2 have r3: "?R s3" by (rule reach.reach_step)
  define s4 where "s4 = s3\<lparr>ls_thread := Some (1, JoinWorkers)\<rparr>"
  have "life_step (\<lambda>_. []) s3 WorkersIdle s4" unfolding s4_def
    by (rule life_step.workers_idle) (simp_all add: s3_def keep f1_def demo_facade_def tracker_new_def workers_turn_def wait_turn_def)
  with r3 have r4: "?R s4" by (rule reach.reach_step)
  define f3 where "f3 = f2\<lparr>fb_scheduler := join_pool (fb_scheduler f2)\<rparr>"
  define s5 where "s5 = s4\<lparr>ls_facade := f3, ls_thread := Some (1, CallProvider)\<rparr>"
  have "life_step (\<lambda>_. []) s4 WorkersJoined s5"
    using life_step.workers_joined [of s4 1 "\<lambda>_. []"] by (simp add: s5_def s4_def s3_def f3_def)
  with r4 have r5: "?R s5" by (rule reach.reach_step)
  define f4 where "f4 = f3\<lparr>fb_report := Some (shutdown_report_of f3 ShutdownTimedOut)\<rparr>"
  define s6 where "s6 = s5\<lparr>ls_facade := f4, ls_answers := [Inr ShutdownTimedOut], ls_thread := Some (1, MarkClosed ShutdownTimedOut)\<rparr>"
  have once: "shutdown_provider_once (\<lambda>_. Returned (Inr ShutdownTimedOut)) mode f3 = (f4, True, Inr ShutdownTimedOut)" for mode
    by (simp add: shutdown_provider_once_def catch_spi_call_def f4_def f3_def keep f1_def demo_facade_def)
  have "life_step (\<lambda>_. []) s5 (ProviderAnswers (Returned (Inr ShutdownTimedOut))) s6"
    using life_step.provider_answers [of s5 1 "Returned (Inr ShutdownTimedOut)" f4 True "Inr ShutdownTimedOut" "\<lambda>_. []"] once
    by (simp add: s6_def s5_def s4_def s3_def s2_def s1_def demo_life_def)
  with r5 have r6: "?R s6" by (rule reach.reach_step)
  define s7 where "s7 = s6\<lparr>ls_facade := mark_closed f4, ls_thread := Some (1, Publish (Inr ShutdownTimedOut))\<rparr>"
  have "life_step (\<lambda>_. []) s6 ThreadMarksClosed s7"
    using life_step.marks_closed [of s6 1 ShutdownTimedOut "\<lambda>_. []"] by (simp add: s7_def s6_def)
  with r6 have "?R s7" by (rule reach.reach_step)
  moreover have "fb_lifecycle (ls_facade s7) = BusClosed"
    by (simp add: s7_def mark_closed_def workers_are_idle_def f4_def f3_def keep f1_def demo_facade_def tracker_new_def)
  moreover have "ls_answers s7 = [Inr ShutdownTimedOut]" by (simp add: s7_def s6_def)
  ultimately show ?thesis by blast
qed

theorem facade_shutdown_orderly_witness:
  "\<exists>s :: unit life_system. fb_lifecycle (ls_facade s) = BusClosed \<and> ls_operations s = 0 \<and> ls_workers s = 0 \<and>
     (\<exists>report. fb_report (ls_facade s) = Some report \<and> rep_outcome report = ShutdownTimedOut)"
proof -
  obtain s :: "unit life_system" where s: "life_reachable (\<lambda>_. []) s" "fb_lifecycle (ls_facade s) = BusClosed" "ls_answers s = [Inr ShutdownTimedOut]"
    using demo_closes by blast
  then show ?thesis using facade_shutdown_orderly [OF s(1)] by auto
qed

end
