(* ===== verification/Spec2Isabelle.thy ===== *)
theory Spec2Isabelle
  imports Local_Lifecycle_Props Local_Config Metrics_Props Sync_Wakeups Owner_Phases_Props Notification_Props
    Publish_Pipeline_Props Subscriber_Pipeline Delivery_Failure_Props Facade_Lifecycle
begin

text \<open>
  Verification of the event bus crate of this repository; the sources are under \<open>src/src\<close>.

  \<^bold>\<open>The program.\<close> A \<^emph>\<open>facade\<close> (\<open>facade\<close>) gives applications typed publish and subscribe. It sends messages to a
  \<^emph>\<open>provider\<close> through the service interface (\<open>spi\<close>), and the crate brings one provider, the in-memory bus (\<open>local\<close>).
  A publication runs the publisher pipeline (\<open>pipeline\<close>, \<open>codec\<close>), which checks, encodes and sends it, under a retry
  policy. Every subscription has an owner thread, the \<^emph>\<open>receiver owner\<close>, which receives deliveries, hands them to the
  workers of a shared delivery scheduler and settles each with the provider when its handler is done. A worker runs the
  subscriber pipeline; what cannot be handled goes through the failure policy, possibly to a dead-letter topic. The
  facade counts what happens (metrics), and a shutdown closes admission, stops the owners and then the provider. A
  separate publisher (\<open>notification\<close>) turns payloads from a bounded channel into publications.

  \<^bold>\<open>Reading the model.\<close> A struct is a record, an enum a datatype, a function or a critical section a function on the
  state. \<open>usize\<close> and \<open>u64\<close> are 64-bit words and \<open>u32\<close> is a 32-bit word; checked and saturating arithmetic is in
  \<open>Prelude\<close>. A panic is \<^const>\<open>None\<close> (or an unwound call where the code catches it), a \<open>Result\<close> is a sum with the
  error on the left. \<open>Instant\<close> and \<open>Duration\<close> are numbers of nanoseconds. Hash maps are finite maps, and an
  iteration whose order the language leaves open takes the order as a parameter. Where several threads run, each
  section under a lock is one step of a transition relation, and a property speaks of every reachable state; the locale
  \<open>transition_invariant\<close> of \<open>Prelude\<close> carries the induction, and each system interprets it.

  \<^bold>\<open>Theories, parts and results.\<close>

  \<^item> \<open>Prelude\<close>, \<open>Reservations\<close>, \<open>Lane_Queue\<close>: words, lists, maps, reachability, and two interfaces. The reservation
    budget is interpreted on the outstanding budget, on the weight budget of notifications and on the budget of
    subscription workers; the lane queue is interpreted on the queue of a local subscription.

  \<^item> \<open>Spi_Model\<close>: messages, tokens, errors, acknowledgements and receipts (\<open>spi\<close>, \<open>model\<close>, \<open>error\<close>).

  \<^item> \<open>Outstanding_Budget\<close>: the admission budget of the in-memory bus (\<open>local/outstanding_budget.rs\<close>). Limits hold and
    the counters are exact in every interleaving.

  \<^item> \<open>Local_Queue\<close>, \<open>Local_Queue_Inv\<close>, \<open>Local_Queue_Props\<close>: the queue of a subscription
    (\<open>local/state/local_queue_state.rs\<close>), with lanes, versions and the compacted heap of deadlines. Every lane is first
    in, first out; a pull returns a due head; the counters are exact.

  \<^item> \<open>Local_Bus\<close>, \<open>Local_Bus_Inv\<close>, \<open>Local_Registry\<close>, \<open>Local_Bus_Props\<close>, \<open>Local_Bus_Promises\<close>,
    \<open>Local_Publish_Props\<close>, \<open>Local_Lifecycle_Props\<close>: the provider itself (\<open>local/local_event_bus_spi.rs\<close>,
    \<open>local/local_event_subscription.rs\<close>, \<open>local/state\<close>). No step panics, the accounting is exact, a settlement is
    final, a publication reports what it admitted, a refused one leaves nothing behind, a topic has one payload type,
    receivers return and shutdown ends in the state it reports. \<open>Local_Config\<close> has the options of the provider
    (\<open>local/local_event_bus_config.rs\<close>) and their round trip through text.

  \<^item> \<open>Scheduler\<close>, with \<open>Scheduler_Lanes\<close>, \<open>Scheduler_Sub\<close>, \<open>Scheduler_Inv\<close>, \<open>Scheduler_Ops\<close>, \<open>Scheduler_Steps\<close>,
    \<open>Scheduler_Props\<close>, \<open>Scheduler_Live\<close>, \<open>Scheduler_Order\<close>: the core of the delivery scheduler
    (\<open>facade/internal/delivery_scheduler_core.rs\<close> and the states it uses). Capacity is never exceeded, no call panics,
    an ordered lane is held by one delivery at a time and refines a line of leases in order, whatever can be granted
    is granted, and lease identities are not reused.

  \<^item> \<open>Sync_Scheduler\<close>, \<open>Sync_Scheduler_Props\<close>, \<open>Sync_Wakeups\<close>: the threads around the core
    (\<open>facade/sync_delivery_scheduler.rs\<close>). Every method refines a run of core calls, the stop policy only becomes
    stricter, and the owner of a granted lease is woken in every interleaving.

  \<^item> \<open>Metrics\<close>, \<open>Metrics_Props\<close>: counters and gauges (\<open>facade/publish_metrics.rs\<close>,
    \<open>facade/internal/delivery_metrics.rs\<close>), exact up to saturation through the locale \<open>saturating_counter\<close>.

  \<^item> \<open>Settlement_Retry\<close>, \<open>Subscription_Owner\<close>, \<open>Owner_Phases\<close>, \<open>Settlement_Props\<close>, \<open>Owner_Phases_Props\<close>: the
    receiver owner (\<open>facade/event_bus/worker.rs\<close>, \<open>facade/internal/settlement_retry_state.rs\<close>,
    \<open>facade/subscription/internal/subscription_control.rs\<close>). The provider is called with one disposition, at most
    \<open>max_attempts\<close> times and before the deadline; every lease is returned.

  \<^item> \<open>Validated_Text\<close>, \<open>Event_Model\<close>: name validation (\<open>util/validated_text.rs\<close>) agrees with its description over the
    decoded characters; topics, codecs, envelopes and capabilities.

  \<^item> \<open>Publish_Pipeline\<close>, \<open>Publish_Pipeline_Props\<close>: \<open>pipeline/publisher_pipeline.rs\<close> and \<open>pipeline/retry.rs\<close>. No
    duplicate is risked without permission, the reported effect is not understated, every attempt sends the same
    message, and the payload decodes to what was published.

  \<^item> \<open>Subscriber_Pipeline\<close>, \<open>Delivery_Failure\<close>, \<open>Delivery_Failure_Props\<close>: \<open>pipeline/subscriber_pipeline.rs\<close>,
    \<open>facade/event_bus/delivery.rs\<close>, \<open>facade/event_bus/failure.rs\<close>. The outcome of an attempt follows the acknowledgement
    mode, a failed delivery reaches the owner once, and it is rejected for a dead letter only after that was admitted.

  \<^item> \<open>Notification\<close>, \<open>Notification_Props\<close>: \<open>notification\<close>. Nothing accepted is lost, duplicated or reordered, and the
    weight budget is exact.

  \<^item> \<open>Facade_Gates\<close>, \<open>Shutdown_Coordinator\<close>, \<open>Facade_Lifecycle\<close>: the operation gate, the tracker, the worker budget
    and the close ledger; \<open>facade/shutdown_coordinator.rs\<close>, where every ticket gets the one result of its attempt; and
    the life of the bus (\<open>facade/event_bus/lifecycle.rs\<close>, \<open>facade/event_bus/internal/event_bus_inner.rs\<close>), where the
    provider is stopped only after admission closed and all operations and workers are gone.

  \<^bold>\<open>Code outside.\<close> The retry library is the record \<open>retry_library\<close>, with the hypothesis \<open>retry_contract\<close> for what its
  documentation promises; \<open>bounded_library\<close> is a concrete library that satisfies it. Providers, codecs, interceptors,
  handlers, observers and clocks are functions given as arguments, and may fail or panic wherever the code allows for it.

  \<^bold>\<open>Bounds and fuel.\<close> A loop over data is recursion on it. The waiting loops of the in-memory provider (\<open>receive_loop\<close>,
  \<open>topic_idle_loop\<close>, \<open>graceful_loop\<close>) take fuel for their turns and an environment for the clock and the other threads;
  \<open>Local_Lifecycle_Props\<close> proves that they return once the fuel covers the turn in which the clock passes the timeout.
  \<open>grant_settlements\<close> has one turn more than the scheduler owns leases, and \<open>Owner_Phases_Props\<close> proves that it stops
  only when no slot is left. The loops of the facade that wait on a condition variable are modelled by one turn, which
  answers or sleeps. Identifiers and counters keep their width; hypotheses such as \<open>numbers_left\<close> say that a 64-bit
  number has not run out.

  \<^bold>\<open>Not modelled.\<close> The asynchronous facade and the asynchronous in-memory provider, which mirror the synchronous ones on
  futures and wakers; the registry, which assembles providers from configuration through a plugin library; the
  conformance suite of \<open>spi/conformance\<close>, which is a test harness; builders and accessors of \<open>model\<close>, which copy fields;
  construction of the facade; and, of the synchronous facade, the outer loop of the owner thread and the checks and
  provider call of \<open>subscribe\<close> before the registration. The registration and the end of an owner are steps of
  \<open>Facade_Lifecycle\<close>, and the phases that the owner's loop runs are functions of \<open>Owner_Phases\<close>.
\<close>

end
